(* ===== verification/Prelude.thy ===== *)
theory Prelude
  imports
    Main
    "HOL-Library.Word"
    "HOL-Library.AList"
    "HOL-Library.Product_Lexorder"
    "HOL-Library.Multiset"
begin

text \<open>
  Shared vocabulary of the development.

  \<^item> A byte is an \<open>8 word\<close>, a Python \<open>bytes\<close> value a list of them.
  \<^item> A Python call that may raise returns a sum: \<open>Inl\<close> carries the exception, \<open>Inr\<close> the
    returned value. \<open>rbind\<close> sequences two calls, \<open>rguard\<close> is an \<open>if ...: raise\<close> line, \<open>rmap\<close>
    and \<open>rfold\<close> are loops that stop at the first exception.
  \<^item> A Python \<open>dict\<close> is an association list in insertion order with distinct keys; \<open>map_of\<close>
    is \<open>d.get(k)\<close>, \<open>AList.update\<close> is \<open>d[k] = v\<close> (it keeps the position of an existing key and
    appends a new one), \<open>AList.delete\<close> is \<open>d.pop(k, None)\<close>.
  \<^item> \<open>sorted(xs, key=f)\<close> is \<open>sort_key f xs\<close>, the stable sort of the list library; tuples compare
    lexicographically (Product_Lexorder), as in Python.

  The collection \<open>rsimps\<close> gathers the rewrite rules of the result monad.
\<close>

named_theorems rsimps "rewrite rules for results that may raise"
named_theorems codec_simps "definitions and sizes the payload codec proofs unfold"

type_synonym byte = "8 word"
type_synonym bytes = "byte list"
type_synonym ('k, 'v) dict = "('k \<times> 'v) list"

subsection \<open>Results that may raise\<close>

definition rbind :: "'e + 'a \<Rightarrow> ('a \<Rightarrow> 'e + 'b) \<Rightarrow> 'e + 'b" where
  "rbind m f = (case m of Inl e \<Rightarrow> Inl e | Inr a \<Rightarrow> f a)"

definition rguard :: "bool \<Rightarrow> 'e \<Rightarrow> 'e + unit" where
  "rguard ok e = (if ok then Inr () else Inl e)"

fun rmap :: "('a \<Rightarrow> 'e + 'b) \<Rightarrow> 'a list \<Rightarrow> 'e + 'b list" where
  "rmap f [] = Inr []"
| "rmap f (x # xs) = rbind (f x) (\<lambda>y. rbind (rmap f xs) (\<lambda>ys. Inr (y # ys)))"

fun rfold :: "('s \<Rightarrow> 'a \<Rightarrow> 'e + 's) \<Rightarrow> 's \<Rightarrow> 'a list \<Rightarrow> 'e + 's" where
  "rfold f s [] = Inr s"
| "rfold f s (x # xs) = rbind (f s x) (\<lambda>s'. rfold f s' xs)"

lemma rbind_Inl [simp, rsimps]: "rbind (Inl e) f = Inl e"
  by (simp add: rbind_def)

lemma rbind_Inr [simp, rsimps]: "rbind (Inr a) f = f a"
  by (simp add: rbind_def)

lemma rbind_eq_Inr [rsimps]: "rbind m f = Inr b \<longleftrightarrow> (\<exists>a. m = Inr a \<and> f a = Inr b)"
  by (cases m) auto

lemma rbind_eq_Inl:
  "rbind m f = Inl e \<longleftrightarrow> m = Inl e \<or> (\<exists>a. m = Inr a \<and> f a = Inl e)"
  by (cases m) auto

lemma rbind_assoc: "rbind (rbind m f) g = rbind m (\<lambda>a. rbind (f a) g)"
  by (cases m) auto

lemma rbind_cong [fundef_cong]:
  "m = m' \<Longrightarrow> (\<And>a. m' = Inr a \<Longrightarrow> f a = g a) \<Longrightarrow> rbind m f = rbind m' g"
  by (cases m') auto

lemma rguard_True [simp, rsimps]: "rguard True e = Inr ()"
  by (simp add: rguard_def)

lemma rguard_False [simp, rsimps]: "rguard False e = Inl e"
  by (simp add: rguard_def)

lemma rguard_eq_Inr [simp, rsimps]: "rguard b e = Inr u \<longleftrightarrow> b"
  by (simp add: rguard_def)

lemma rmap_eq_map: "(\<And>x. x \<in> set xs \<Longrightarrow> f x = Inr (g x)) \<Longrightarrow> rmap f xs = Inr (map g xs)"
  by (induction xs) auto

lemma rmap_length: "rmap f xs = Inr ys \<Longrightarrow> length ys = length xs"
  by (induction xs arbitrary: ys) (auto simp: rbind_eq_Inr)

lemma rfold_append: "rfold f s (xs @ ys) = rbind (rfold f s xs) (\<lambda>s'. rfold f s' ys)"
  by (induction xs arbitrary: s) (auto simp: rbind_assoc)

lemma rfold_invariant:
  assumes "rfold f s xs = Inr s'" and "P s"
    and "\<And>s x s'. P s \<Longrightarrow> x \<in> set xs \<Longrightarrow> f s x = Inr s' \<Longrightarrow> P s'"
  shows "P s'"
  using assms
proof (induction xs arbitrary: s)
  case Nil
  then show ?case by simp
next
  case (Cons x xs)
  from Cons.prems(1) obtain t where t: "f s x = Inr t" "rfold f t xs = Inr s'"
    by (auto simp: rbind_eq_Inr)
  from Cons.prems(3) [OF Cons.prems(2) _ t(1)] have "P t" by simp
  with t(2) show ?case by (rule Cons.IH) (use Cons.prems(3) in auto)
qed

subsection \<open>Python lists\<close>

text \<open>\<open>xs[a:b]\<close> with non-negative bounds.\<close>

definition py_slice :: "nat \<Rightarrow> nat \<Rightarrow> 'a list \<Rightarrow> 'a list" where
  "py_slice a b xs = take (b - a) (drop a xs)"

fun py_pairwise :: "'a list \<Rightarrow> ('a \<times> 'a) list" where
  "py_pairwise (x # y # zs) = (x, y) # py_pairwise (y # zs)"
| "py_pairwise _ = []"

lemma length_py_slice [simp]: "length (py_slice a b xs) = min (b - a) (length xs - a)"
  by (simp add: py_slice_def)

lemma py_slice_append:
  "length xs = a \<Longrightarrow> py_slice a (a + length ys) (xs @ ys @ zs) = ys"
  by (simp add: py_slice_def)

lemma py_slice_0 [simp]: "py_slice 0 n xs = take n xs"
  by (simp add: py_slice_def)

lemma length_py_pairwise [simp]: "length (py_pairwise xs) = length xs - 1"
  by (induction xs rule: py_pairwise.induct) auto

lemma nth_py_pairwise: "Suc i < length xs \<Longrightarrow> py_pairwise xs ! i = (xs ! i, xs ! Suc i)"
proof (induction xs arbitrary: i rule: py_pairwise.induct)
  case (1 x y zs)
  then show ?case by (cases i) auto
qed auto

subsection \<open>Dictionaries\<close>

lemma dict_set_get [simp]: "map_of (AList.update k v d) k' = (if k' = k then Some v else map_of d k')"
  by (simp add: update_conv')

lemma dict_pop_get [simp]: "map_of (AList.delete k d) k' = (if k' = k then None else map_of d k')"
  by (simp add: delete_conv')

lemma dict_keys_set [simp]: "fst ` set (AList.update k v d) = insert k (fst ` set d)"
  by (simp add: dom_update)

lemma dict_keys_pop [simp]: "fst ` set (AList.delete k d) = fst ` set d - {k}"
  by (auto simp: delete_keys AList.delete_eq)

lemma dict_map_eq_dom: "map_of d k = None \<longleftrightarrow> k \<notin> fst ` set d"
  by (simp add: map_of_eq_None_iff)

lemma dict_set_new: "k \<notin> fst ` set d \<Longrightarrow> AList.update k v d = d @ [(k, v)]"
  by (induction d) auto

lemma dict_distinct_set: "distinct (map fst d) \<Longrightarrow> distinct (map fst (AList.update k v d))"
  by (rule distinct_update)

lemma dict_distinct_pop: "distinct (map fst d) \<Longrightarrow> distinct (map fst (AList.delete k d))"
  by (rule distinct_delete)

lemma dict_pop_absent: "k \<notin> fst ` set d \<Longrightarrow> AList.delete k d = d"
  by (induction d) auto

subsection \<open>Sorting\<close>

lemma sorted_distinct_set_eq:
  fixes xs ys :: "'a::linorder list"
  assumes "sorted xs" "sorted ys" "distinct xs" "distinct ys" "set xs = set ys"
  shows "xs = ys"
  using assms by (metis sorted_distinct_set_unique)

lemma sort_key_idem: "sort_key f (sort_key f xs) = sort_key f xs"
  by (rule sort_key_id_if_sorted) simp

text \<open>A stable sort is determined by the elements of each key: two lists whose sub-lists of equal
  keys agree sort to the same list.\<close>

lemma sort_key_eq_if_filter_eq:
  assumes "mset xs = mset ys"
    and "\<And>k. filter (\<lambda>y. f y = k) xs = filter (\<lambda>y. f y = k) ys"
  shows "sort_key f xs = sort_key f ys"
proof (rule sym, rule properties_for_sort_key)
  show "mset (sort_key f xs) = mset ys" using assms(1) by simp
  show "sorted (map f (sort_key f xs))" by simp
  fix k
  have "filter (\<lambda>x. f x = f k) (sort_key f xs) = filter (\<lambda>x. f x = f k) ys"
    using assms(2)[of "f k"] by (simp add: sort_key_stable)
  then show "filter (\<lambda>x. f k = f x) (sort_key f xs) = filter (\<lambda>x. f k = f x) ys"
    by (simp add: eq_commute)
qed

lemma filter_eq_const: "filter (\<lambda>y. y = x) zs = replicate (count (mset zs) x) x"
  by (induction zs) auto

text \<open>In particular, where the key tells the elements apart, the arrival order does not matter.\<close>

lemma sort_key_eq_if_mset_eq:
  assumes "mset xs = mset ys" and "inj_on f (set xs)"
  shows "sort_key f xs = sort_key f ys"
proof (rule sort_key_eq_if_filter_eq [OF assms(1)])
  fix k
  have sets: "set xs = set ys" using assms(1) by (metis set_mset_mset)
  have const: "filter (\<lambda>y. f y = k) zs = replicate (count (mset zs) x) x"
    if "x \<in> set xs" "f x = k" "set zs = set xs" for x zs
  proof -
    have "filter (\<lambda>y. f y = k) zs = filter (\<lambda>y. y = x) zs"
      using assms(2) that by (intro filter_cong) (auto simp: inj_on_def)
    also have "\<dots> = replicate (count (mset zs) x) x"
      by (rule filter_eq_const)
    finally show ?thesis .
  qed
  show "filter (\<lambda>y. f y = k) xs = filter (\<lambda>y. f y = k) ys"
  proof (cases "\<exists>x \<in> set xs. f x = k")
    case True
    then obtain x where x: "x \<in> set xs" "f x = k" by blast
    from const [OF x refl] const [OF x sets [symmetric]] show ?thesis
      by (simp only: assms(1))
  next
    case False
    then show ?thesis using sets by (auto simp: filter_empty_conv)
  qed
qed

end
