(* ===== verification/PyStruct.thy ===== *)
theory PyStruct
  imports Prelude
begin

text \<open>
  The part of Python's \<open>struct\<close> module the codecs use: the integer format characters
  \<open>B H I Q h q\<close> in the two unpadded byte orders \<open>>\<close> and \<open><\<close>. Packing an integer outside its
  field's range raises \<open>struct.error\<close>; \<open>unpack_from\<close> raises it when the buffer is too short.
  The file proves the module's two round trips once; every wire format of the program rests on
  them.
\<close>

subsection \<open>Integers as byte strings\<close>

fun be_bytes :: "nat \<Rightarrow> nat \<Rightarrow> bytes" where
  "be_bytes 0 v = []"
| "be_bytes (Suc n) v = be_bytes n (v div 256) @ [of_nat v]"

lemma be_bytes_numeral:
  "be_bytes (numeral k) v = be_bytes (pred_numeral k) (v div 256) @ [of_nat v]"
  unfolding numeral_eq_Suc [of k] be_bytes.simps ..

definition be_val :: "bytes \<Rightarrow> nat" where
  "be_val bs = foldl (\<lambda>acc b. acc * 256 + unat b) 0 bs"

lemma be_val_Nil [simp]: "be_val [] = 0"
  by (simp add: be_val_def)

lemma be_val_snoc [simp]: "be_val (bs @ [b]) = be_val bs * 256 + unat b"
  by (simp add: be_val_def)

lemma length_be_bytes [simp]: "length (be_bytes n v) = n"
  by (induction n arbitrary: v) auto

lemma unat_of_nat_byte [simp]: "unat (of_nat v :: byte) = v mod 256"
  by (simp add: unat_of_nat)

lemma unat_byte_less [simp]: "unat (b :: byte) < 256"
  using unsigned_less [of b] by simp

lemma be_val_less: "be_val bs < 256 ^ length bs"
proof (induction bs rule: rev_induct)
  case (snoc b bs)
  have "unat b < 256" by simp
  with snoc have "be_val bs * 256 + unat b < (be_val bs + 1) * 256" by simp
  also have "\<dots> \<le> 256 ^ length bs * 256" using snoc by (intro mult_le_mono) auto
  finally show ?case by simp
qed simp

lemma be_val_be_bytes: "be_val (be_bytes n v) = v mod 256 ^ n"
proof (induction n arbitrary: v)
  case (Suc n)
  have "(v div 256) mod 256 ^ n * 256 + v mod 256 = v mod (256 * 256 ^ n)"
    by (simp add: mod_mult2_eq)
  with Suc show ?case by (simp add: mult.commute)
qed simp

lemma be_bytes_be_val: "be_bytes (length bs) (be_val bs) = bs"
proof (induction bs rule: rev_induct)
  case (snoc b bs)
  have "(be_val bs * 256 + unat b) div 256 = be_val bs" by simp
  moreover have "(of_nat (be_val bs * 256 + unat b) :: byte) = b"
    unfolding word_unat_eq_iff unat_of_nat_byte by (simp add: mod_mult_self3)
  ultimately show ?case using snoc by simp
qed simp

subsection \<open>Formats\<close>

datatype endian = Big | Little

datatype fmt = FB | FH | FI | FQ | Fh | Fq

datatype struct_error = StructError

fun fmt_size :: "fmt \<Rightarrow> nat" where
  "fmt_size FB = 1"
| "fmt_size FH = 2"
| "fmt_size FI = 4"
| "fmt_size FQ = 8"
| "fmt_size Fh = 2"
| "fmt_size Fq = 8"

fun fmt_signed :: "fmt \<Rightarrow> bool" where
  "fmt_signed Fh = True"
| "fmt_signed Fq = True"
| "fmt_signed _ = False"

definition fmt_fits :: "fmt \<Rightarrow> int \<Rightarrow> bool" where
  "fmt_fits f v \<longleftrightarrow>
     (if fmt_signed f then - (2 ^ (8 * fmt_size f - 1)) \<le> v \<and> v < 2 ^ (8 * fmt_size f - 1)
      else 0 \<le> v \<and> v < 2 ^ (8 * fmt_size f))"

definition byte_order :: "endian \<Rightarrow> bytes \<Rightarrow> bytes" where
  "byte_order e bs = (case e of Big \<Rightarrow> bs | Little \<Rightarrow> rev bs)"

definition pack_field :: "endian \<Rightarrow> fmt \<Rightarrow> int \<Rightarrow> bytes" where
  "pack_field e f v = byte_order e (be_bytes (fmt_size f) (nat (v mod 2 ^ (8 * fmt_size f))))"

definition unpack_field :: "endian \<Rightarrow> fmt \<Rightarrow> bytes \<Rightarrow> int" where
  "unpack_field e f bs =
     (let u = int (be_val (byte_order e bs))
      in if fmt_signed f \<and> 2 ^ (8 * fmt_size f - 1) \<le> u then u - 2 ^ (8 * fmt_size f) else u)"

definition calcsize :: "fmt list \<Rightarrow> nat" where
  "calcsize fs = sum_list (map fmt_size fs)"

fun struct_pack :: "endian \<Rightarrow> fmt list \<Rightarrow> int list \<Rightarrow> struct_error + bytes" where
  "struct_pack e [] [] = Inr []"
| "struct_pack e (f # fs) (v # vs) =
     rbind (rguard (fmt_fits f v) StructError) (\<lambda>_.
     rbind (struct_pack e fs vs) (\<lambda>bs. Inr (pack_field e f v @ bs)))"
| "struct_pack e _ _ = Inl StructError"

fun unpack_fields :: "endian \<Rightarrow> fmt list \<Rightarrow> bytes \<Rightarrow> int list" where
  "unpack_fields e [] bs = []"
| "unpack_fields e (f # fs) bs =
     unpack_field e f (take (fmt_size f) bs) # unpack_fields e fs (drop (fmt_size f) bs)"

definition struct_unpack :: "endian \<Rightarrow> fmt list \<Rightarrow> bytes \<Rightarrow> struct_error + int list" where
  "struct_unpack e fs bs =
     (if length bs = calcsize fs then Inr (unpack_fields e fs bs) else Inl StructError)"

definition struct_unpack_from :: "endian \<Rightarrow> fmt list \<Rightarrow> bytes \<Rightarrow> struct_error + int list" where
  "struct_unpack_from e fs bs =
     (if calcsize fs \<le> length bs then Inr (unpack_fields e fs bs) else Inl StructError)"

definition fits_all :: "fmt list \<Rightarrow> int list \<Rightarrow> bool" where
  "fits_all fs vs \<longleftrightarrow> list_all2 fmt_fits fs vs"

subsection \<open>Round trips of one field\<close>

lemma byte_order_idem [simp]: "byte_order e (byte_order e bs) = bs"
  by (cases e) (simp_all add: byte_order_def)

lemma length_byte_order [simp]: "length (byte_order e bs) = length bs"
  by (cases e) (simp_all add: byte_order_def)

lemma fmt_size_pos [simp]: "0 < fmt_size f"
  by (cases f) simp_all

lemma length_pack_field [simp]: "length (pack_field e f v) = fmt_size f"
  by (simp add: pack_field_def)

lemma pow256: "(256::nat) ^ n = 2 ^ (8 * n)"
  by (simp add: power_mult)

lemma int_mod_wrap:
  assumes "- (2 ^ k) \<le> (v::int)" "v < 0"
  shows "v mod 2 ^ Suc k = v + 2 ^ Suc k"
proof -
  have "v mod 2 ^ Suc k = (v + 2 ^ Suc k) mod 2 ^ Suc k" by simp
  also have "\<dots> = v + 2 ^ Suc k" using assms by (intro mod_pos_pos_trivial) auto
  finally show ?thesis .
qed

lemma unpack_pack_field: "fmt_fits f v \<Longrightarrow> unpack_field e f (pack_field e f v) = v"
proof -
  assume fits: "fmt_fits f v"
  define k where "k = 8 * fmt_size f - 1"
  have k: "8 * fmt_size f = Suc k" using fmt_size_pos [of f] by (auto simp: k_def)
  have m: "0 \<le> v mod 2 ^ Suc k" "v mod 2 ^ Suc k < 2 ^ Suc k" by simp_all
  have "nat (v mod 2 ^ Suc k) < 256 ^ fmt_size f"
    using m by (simp add: pow256 k nat_less_iff)
  then have u: "int (be_val (byte_order e (pack_field e f v))) = v mod 2 ^ Suc k"
    using m by (simp add: pack_field_def be_val_be_bytes k)
  show ?thesis
  proof (cases "v < 0")
    case True
    with fits have s: "fmt_signed f" and lo: "- (2 ^ k) \<le> v"
      by (auto simp: fmt_fits_def k split: if_splits)
    have "v mod 2 ^ Suc k = v + 2 ^ Suc k" using int_mod_wrap [OF lo True] .
    moreover have "(2::int) ^ Suc k = 2 * 2 ^ k" by simp
    ultimately show ?thesis using u s lo True by (simp add: unpack_field_def Let_def k)
  next
    case False
    with fits have "v < 2 ^ Suc k"
      by (auto simp: fmt_fits_def k split: if_splits)
    with False have "v mod 2 ^ Suc k = v" by (intro mod_pos_pos_trivial) auto
    moreover have "fmt_signed f \<Longrightarrow> v < 2 ^ k" using fits by (simp add: fmt_fits_def k)
    ultimately show ?thesis using u by (auto simp: unpack_field_def Let_def k)
  qed
qed

lemma be_val_bound: "length bs = fmt_size f \<Longrightarrow> int (be_val bs) < 2 ^ (8 * fmt_size f)"
proof -
  assume "length bs = fmt_size f"
  then have "be_val bs < 2 ^ (8 * fmt_size f)"
    using be_val_less [of bs] by (simp only: pow256)
  then have "int (be_val bs) < int (2 ^ (8 * fmt_size f))"
    by (simp only: of_nat_less_iff)
  then show ?thesis by simp
qed

lemma unpack_field_fits: "length bs = fmt_size f \<Longrightarrow> fmt_fits f (unpack_field e f bs)"
proof -
  assume "length bs = fmt_size f"
  then have b: "int (be_val (byte_order e bs)) < 2 ^ (8 * fmt_size f)"
    by (intro be_val_bound) simp
  define k where "k = 8 * fmt_size f - 1"
  have k: "8 * fmt_size f = Suc k" using fmt_size_pos [of f] by (auto simp: k_def)
  show ?thesis using b by (auto simp: fmt_fits_def unpack_field_def Let_def k)
qed

lemma pack_unpack_field: "length bs = fmt_size f \<Longrightarrow> pack_field e f (unpack_field e f bs) = bs"
proof -
  assume len: "length bs = fmt_size f"
  then have bound: "int (be_val (byte_order e bs)) < 2 ^ (8 * fmt_size f)"
    by (intro be_val_bound) simp
  define u where "u = int (be_val (byte_order e bs))"
  have u: "0 \<le> u" "u < 2 ^ (8 * fmt_size f)" using bound by (simp_all add: u_def)
  have "(u - 2 ^ (8 * fmt_size f)) mod 2 ^ (8 * fmt_size f) = u mod 2 ^ (8 * fmt_size f)"
    by (rule minus_mod_self2)
  moreover have "u mod 2 ^ (8 * fmt_size f) = u" using u by (rule mod_pos_pos_trivial)
  ultimately have "unpack_field e f bs mod 2 ^ (8 * fmt_size f) = u"
    by (simp only: unpack_field_def Let_def u_def [symmetric] split: if_split) simp
  then show ?thesis
    using be_bytes_be_val [of "byte_order e bs"] len by (simp add: pack_field_def u_def)
qed

subsection \<open>Round trips of a format\<close>

lemma calcsize_simps [simp, codec_simps]:
  "calcsize [] = 0" "calcsize (f # fs) = fmt_size f + calcsize fs"
  by (simp_all add: calcsize_def)

lemma fits_all_simps [simp]:
  "fits_all [] []" "\<not> fits_all [] (v # vs)" "\<not> fits_all (f # fs) []"
  "fits_all (f # fs) (v # vs) \<longleftrightarrow> fmt_fits f v \<and> fits_all fs vs"
  by (simp_all add: fits_all_def)

lemma struct_pack_eq_Inr:
  "struct_pack e fs vs = Inr bs \<longleftrightarrow>
     fits_all fs vs \<and> bs = concat (map2 (pack_field e) fs vs)"
  by (induction e fs vs arbitrary: bs rule: struct_pack.induct) (auto simp: rbind_eq_Inr)

lemma struct_pack_total: "fits_all fs vs \<Longrightarrow> \<exists>bs. struct_pack e fs vs = Inr bs"
  by (simp add: struct_pack_eq_Inr)

lemma struct_pack_refuses: "\<not> fits_all fs vs \<Longrightarrow> struct_pack e fs vs = Inl StructError"
proof (cases "struct_pack e fs vs")
  case (Inl a)
  then show ?thesis by (cases a) simp
next
  case (Inr b)
  assume "\<not> fits_all fs vs"
  with Inr show ?thesis by (simp add: struct_pack_eq_Inr)
qed

lemma struct_pack_length: "struct_pack e fs vs = Inr bs \<Longrightarrow> length bs = calcsize fs"
  by (induction e fs vs arbitrary: bs rule: struct_pack.induct) (auto simp: rbind_eq_Inr)

lemma unpack_fields_pack:
  "struct_pack e fs vs = Inr bs \<Longrightarrow> unpack_fields e fs (bs @ rest) = vs"
  by (induction e fs vs arbitrary: bs rule: struct_pack.induct)
    (auto simp: rbind_eq_Inr unpack_pack_field)

theorem struct_unpack_from_pack:
  assumes "struct_pack e fs vs = Inr bs"
  shows "struct_unpack_from e fs (bs @ rest) = Inr vs"
  using struct_pack_length [OF assms] unpack_fields_pack [OF assms]
  by (simp add: struct_unpack_from_def)

theorem struct_unpack_pack:
  assumes "struct_pack e fs vs = Inr bs"
  shows "struct_unpack e fs bs = Inr vs"
  using struct_pack_length [OF assms] unpack_fields_pack [OF assms, of "[]"]
  by (simp add: struct_unpack_def)

lemma struct_unpack_from_take:
  "struct_unpack_from e fs bs = Inr vs \<Longrightarrow> struct_unpack_from e fs (bs @ rest) = Inr vs"
proof -
  have "calcsize fs \<le> length bs \<Longrightarrow> unpack_fields e fs (bs @ rest) = unpack_fields e fs bs"
    for bs
    by (induction e fs bs rule: unpack_fields.induct) auto
  then show "struct_unpack_from e fs bs = Inr vs \<Longrightarrow> ?thesis"
    by (auto simp: struct_unpack_from_def split: if_splits)
qed

lemma unpack_fields_fits: "calcsize fs \<le> length bs \<Longrightarrow> fits_all fs (unpack_fields e fs bs)"
  by (induction e fs bs rule: unpack_fields.induct) (auto simp: unpack_field_fits)

lemma length_unpack_fields [simp]: "length (unpack_fields e fs bs) = length fs"
  by (induction e fs bs rule: unpack_fields.induct) auto

lemma pack_unpack_fields:
  "calcsize fs \<le> length bs \<Longrightarrow>
     concat (map2 (pack_field e) fs (unpack_fields e fs bs)) = take (calcsize fs) bs"
  by (induction e fs bs rule: unpack_fields.induct)
    (auto simp: pack_unpack_field take_add)

theorem struct_pack_unpack_from:
  assumes "struct_unpack_from e fs bs = Inr vs"
  shows "struct_pack e fs vs = Inr (take (calcsize fs) bs)"
  using assms unpack_fields_fits [of fs bs e] pack_unpack_fields [of fs bs e]
  by (auto simp: struct_unpack_from_def struct_pack_eq_Inr split: if_splits)

end
