(* ===== verification/PyText.thy ===== *)
theory PyText
  imports Prelude
begin

text \<open>
  The part of Python's \<open>str\<close> the sources use. A \<open>str\<close> is its list of code points. \<open>utf8_encode\<close> and
  \<open>utf8_decode\<close> are \<open>str.encode("utf-8")\<close> and the strict \<open>bytes.decode("utf-8")\<close>: lone surrogates,
  overlong forms, stray continuation bytes and truncated sequences raise a \<open>UnicodeError\<close>.
  \<open>dec_digits\<close>/\<open>int_str\<close> are \<open>str(n)\<close>, \<open>hex_fixed\<close> the zero-padded lowercase hexadecimal format
  \<open>f"{v:0nx}"\<close>. The lemmas are the round trips of these functions.
\<close>

type_synonym pystr = "nat list"

definition pytext :: "string \<Rightarrow> pystr" where
  "pytext s = map of_char s"

datatype unicode_error = UnicodeError

lemma unicode_error_eq [simp]: "x = UnicodeError"
  by (cases x) simp

definition scalar_value :: "nat \<Rightarrow> bool" where
  "scalar_value c \<longleftrightarrow> c < 0x110000 \<and> \<not> (0xD800 \<le> c \<and> c < 0xE000)"

definition utf8_char :: "nat \<Rightarrow> nat list" where
  "utf8_char c =
     (if c < 0x80 then [c]
      else if c < 0x800 then [0xC0 + c div 64, 0x80 + c mod 64]
      else if c < 0x10000 then
        [0xE0 + c div 64 div 64, 0x80 + c div 64 mod 64, 0x80 + c mod 64]
      else
        [0xF0 + c div 64 div 64 div 64, 0x80 + c div 64 div 64 mod 64, 0x80 + c div 64 mod 64,
         0x80 + c mod 64])"

fun utf8_cont :: "nat \<Rightarrow> nat \<Rightarrow> nat list \<Rightarrow> (nat \<times> nat list) option" where
  "utf8_cont 0 acc bs = Some (acc, bs)"
| "utf8_cont (Suc n) acc [] = None"
| "utf8_cont (Suc n) acc (b # bs) =
     (if 0x80 \<le> b \<and> b < 0xC0 then utf8_cont n (acc * 64 + (b - 0x80)) bs else None)"

definition utf8_checked :: "nat \<Rightarrow> (nat \<times> nat list) option \<Rightarrow> (nat \<times> nat list) option" where
  "utf8_checked low r =
     (case r of
        None \<Rightarrow> None
      | Some (c, bs) \<Rightarrow> if low \<le> c \<and> scalar_value c then Some (c, bs) else None)"

fun utf8_head :: "nat list \<Rightarrow> (nat \<times> nat list) option" where
  "utf8_head [] = None"
| "utf8_head (b # bs) =
     (if b < 0x80 then Some (b, bs)
      else if b < 0xC0 then None
      else if b < 0xE0 then utf8_checked 0x80 (utf8_cont 1 (b - 0xC0) bs)
      else if b < 0xF0 then utf8_checked 0x800 (utf8_cont 2 (b - 0xE0) bs)
      else if b < 0xF8 then utf8_checked 0x10000 (utf8_cont 3 (b - 0xF0) bs)
      else None)"

lemma utf8_cont_length: "utf8_cont n acc bs = Some (c, rest) \<Longrightarrow> length rest \<le> length bs"
  by (induction n acc bs rule: utf8_cont.induct) (auto split: if_splits)

lemma utf8_checked_eq_Some [simp]:
  "utf8_checked low r = Some (c, rest) \<longleftrightarrow> r = Some (c, rest) \<and> low \<le> c \<and> scalar_value c"
  by (auto simp: utf8_checked_def split: option.splits)

lemma utf8_head_length: "utf8_head bs = Some (c, rest) \<Longrightarrow> length rest < length bs"
  by (cases bs) (auto split: if_splits dest!: utf8_cont_length)

function utf8_decode_nats :: "nat list \<Rightarrow> unicode_error + pystr" where
  "utf8_decode_nats bs =
     (if bs = [] then Inr []
      else case utf8_head bs of
             None \<Rightarrow> Inl UnicodeError
           | Some (c, rest) \<Rightarrow> rbind (utf8_decode_nats rest) (\<lambda>cs. Inr (c # cs)))"
  by pat_completeness auto
termination
  by (relation "measure length") (auto dest: utf8_head_length)

declare utf8_decode_nats.simps [simp del]

definition utf8_decode :: "bytes \<Rightarrow> unicode_error + pystr" where
  "utf8_decode b = utf8_decode_nats (map unat b)"

definition utf8_encode :: "pystr \<Rightarrow> unicode_error + bytes" where
  "utf8_encode s =
     (if \<forall>c \<in> set s. scalar_value c then Inr (map of_nat (concat (map utf8_char s)))
      else Inl UnicodeError)"

definition py_str :: "pystr \<Rightarrow> bool" where
  "py_str s \<longleftrightarrow> (\<forall>c \<in> set s. c < 0x110000)"

text \<open>Decimal and hexadecimal formatting.\<close>

fun dec_digits :: "nat \<Rightarrow> string" where
  "dec_digits n =
     (if n < 10 then [char_of (48 + n)] else dec_digits (n div 10) @ [char_of (48 + n mod 10)])"

declare dec_digits.simps [simp del]

definition int_str :: "int \<Rightarrow> string" where
  "int_str i = (if i < 0 then CHR ''-'' # dec_digits (nat (- i)) else dec_digits (nat i))"

definition dec_val :: "string \<Rightarrow> nat" where
  "dec_val = foldl (\<lambda>acc ch. 10 * acc + (of_char ch - 48)) 0"

definition is_dec_digit :: "char \<Rightarrow> bool" where
  "is_dec_digit ch \<longleftrightarrow> 48 \<le> (of_char ch :: nat) \<and> (of_char ch :: nat) < 58"

definition hex_digit :: "nat \<Rightarrow> char" where
  "hex_digit n = ''0123456789abcdef'' ! n"

primrec hex_fixed :: "nat \<Rightarrow> nat \<Rightarrow> string" where
  "hex_fixed 0 v = []"
| "hex_fixed (Suc n) v = hex_fixed n (v div 16) @ [hex_digit (v mod 16)]"

definition hex_digit_val :: "char \<Rightarrow> nat option" where
  "hex_digit_val ch =
     (let n = (of_char ch :: nat)
      in if 48 \<le> n \<and> n < 58 then Some (n - 48)
         else if 97 \<le> n \<and> n < 103 then Some (n - 87)
         else if 65 \<le> n \<and> n < 71 then Some (n - 55)
         else None)"

fun hex_val :: "nat \<Rightarrow> string \<Rightarrow> nat option" where
  "hex_val acc [] = Some acc"
| "hex_val acc (ch # s) =
     (case hex_digit_val ch of None \<Rightarrow> None | Some d \<Rightarrow> hex_val (16 * acc + d) s)"

subsection \<open>UTF-8 round trips\<close>

lemma utf8_char_less: "scalar_value c \<Longrightarrow> b \<in> set (utf8_char c) \<Longrightarrow> b < 256"
  by (auto simp: utf8_char_def scalar_value_def split: if_splits)

lemma utf8_char_nonempty [simp]: "utf8_char c \<noteq> []"
  by (simp add: utf8_char_def)

lemma utf8_head_char:
  assumes "scalar_value c"
  shows "utf8_head (utf8_char c @ rest) = Some (c, rest)"
  using assms
  by (auto simp: utf8_char_def scalar_value_def utf8_checked_def numeral_2_eq_2 numeral_3_eq_3)

lemma utf8_decode_nats_concat:
  "\<forall>c \<in> set s. scalar_value c \<Longrightarrow> utf8_decode_nats (concat (map utf8_char s)) = Inr s"
proof (induction s)
  case Nil
  then show ?case by (simp add: utf8_decode_nats.simps)
next
  case (Cons c s)
  then show ?case
    by (subst utf8_decode_nats.simps) (simp add: utf8_head_char)
qed

lemma map_unat_of_nat_bytes:
  "\<forall>n \<in> set ns. n < 256 \<Longrightarrow> map unat (map of_nat ns :: bytes) = ns"
  by (induction ns) (simp_all add: unat_of_nat)

lemma utf8_decode_encode:
  assumes "utf8_encode s = Inr b"
  shows "utf8_decode b = Inr s"
proof -
  have ok: "\<forall>c \<in> set s. scalar_value c" and b: "b = map of_nat (concat (map utf8_char s))"
    using assms by (auto simp: utf8_encode_def split: if_splits)
  have "map unat b = concat (map utf8_char s)"
    unfolding b by (rule map_unat_of_nat_bytes) (use ok in \<open>auto intro: utf8_char_less\<close>)
  then show ?thesis by (simp add: utf8_decode_def utf8_decode_nats_concat ok)
qed

lemma utf8_cont_Suc_iff:
  "utf8_cont (Suc n) acc bs = Some r \<longleftrightarrow>
     (\<exists>x bs'. bs = (0x80 + x) # bs' \<and> x < 64 \<and> utf8_cont n (acc * 64 + x) bs' = Some r)"
proof (cases bs)
  case (Cons b bs')
  show ?thesis
  proof (cases "0x80 \<le> b")
    case True
    then obtain x where "b = 0x80 + x" using le_Suc_ex by blast
    then show ?thesis using Cons by auto
  qed (auto simp: Cons)
qed simp

lemma utf8_radix:
  fixes x y :: nat
  assumes "y < 64"
  shows "(x * 64 + y) div 64 = x" "(x * 64 + y) mod 64 = y"
  using assms by simp_all

lemma utf8_head_inv:
  assumes "utf8_head bs = Some (c, rest)"
  shows "scalar_value c" "bs = utf8_char c @ rest"
proof -
  show sc: "scalar_value c"
    using assms by (cases bs) (auto simp: scalar_value_def split: if_splits)
  obtain b bs' where bs: "bs = b # bs'" using assms by (cases bs) auto
  consider "b < 0x80" "c = b" "rest = bs'"
    | a where "b = 0xC0 + a" "a < 0x20" "utf8_cont 1 a bs' = Some (c, rest)" "0x80 \<le> c"
    | a where "b = 0xE0 + a" "a < 0x10" "utf8_cont 2 a bs' = Some (c, rest)" "0x800 \<le> c"
    | a where "b = 0xF0 + a" "a < 0x08" "utf8_cont 3 a bs' = Some (c, rest)" "0x10000 \<le> c"
  proof -
    assume r: "\<lbrakk>b < 0x80; c = b; rest = bs'\<rbrakk> \<Longrightarrow> thesis"
      "\<And>a. \<lbrakk>b = 0xC0 + a; a < 0x20; utf8_cont 1 a bs' = Some (c, rest); 0x80 \<le> c\<rbrakk> \<Longrightarrow> thesis"
      "\<And>a. \<lbrakk>b = 0xE0 + a; a < 0x10; utf8_cont 2 a bs' = Some (c, rest); 0x800 \<le> c\<rbrakk> \<Longrightarrow> thesis"
      "\<And>a. \<lbrakk>b = 0xF0 + a; a < 0x08; utf8_cont 3 a bs' = Some (c, rest); 0x10000 \<le> c\<rbrakk> \<Longrightarrow> thesis"
    show thesis
      using assms r(1) r(2)[of "b - 0xC0"] r(3)[of "b - 0xE0"] r(4)[of "b - 0xF0"]
      by (simp add: bs split: if_splits)
  qed
  then show "bs = utf8_char c @ rest"
  proof cases
    case 1
    then show ?thesis by (simp add: bs utf8_char_def)
  next
    case 2
    then obtain x where "bs' = (0x80 + x) # rest" "x < 64" "c = a * 64 + x"
      by (auto simp: utf8_cont_Suc_iff)
    then show ?thesis using 2 by (simp add: bs utf8_char_def utf8_radix)
  next
    case 3
    then obtain x y where "bs' = (0x80 + x) # (0x80 + y) # rest" "x < 64" "y < 64"
      "c = (a * 64 + x) * 64 + y"
      by (auto simp: utf8_cont_Suc_iff numeral_2_eq_2)
    moreover from this have "c div 64 = a * 64 + x" "c mod 64 = y" "c div 64 div 64 = a"
      "c div 64 mod 64 = x"
      by (simp_all only: utf8_radix)
    moreover have "c < 0x10000" using calculation(2-4) 3(2) by simp
    ultimately show ?thesis using 3(1,4) by (simp add: bs utf8_char_def)
  next
    case 4
    then obtain x y z where "bs' = (0x80 + x) # (0x80 + y) # (0x80 + z) # rest"
      "x < 64" "y < 64" "z < 64" "c = ((a * 64 + x) * 64 + y) * 64 + z"
      by (auto simp: utf8_cont_Suc_iff numeral_3_eq_3)
    moreover from this have "c div 64 = (a * 64 + x) * 64 + y" "c mod 64 = z"
      "c div 64 div 64 = a * 64 + x" "c div 64 mod 64 = y" "c div 64 div 64 div 64 = a"
      "c div 64 div 64 mod 64 = x"
      by (simp_all only: utf8_radix)
    ultimately show ?thesis using 4(1,4) by (simp add: bs utf8_char_def)
  qed
qed

lemma utf8_decode_nats_inv:
  "utf8_decode_nats bs = Inr s \<Longrightarrow>
     (\<forall>c \<in> set s. scalar_value c) \<and> bs = concat (map utf8_char s)"
proof (induction bs arbitrary: s rule: utf8_decode_nats.induct)
  case (1 bs)
  show ?case
  proof (cases "bs = []")
    case True
    with 1(2) show ?thesis by (simp add: utf8_decode_nats.simps)
  next
    case False
    with 1(2) obtain c rest cs where h: "utf8_head bs = Some (c, rest)"
      and d: "utf8_decode_nats rest = Inr cs" and s: "s = c # cs"
      by (subst (asm) utf8_decode_nats.simps) (auto simp: rbind_eq_Inr split: option.splits)
    have "(\<forall>c \<in> set cs. scalar_value c) \<and> rest = concat (map utf8_char cs)"
      using 1(1)[OF False h refl d] .
    with utf8_head_inv[OF h] s show ?thesis by simp
  qed
qed

lemma utf8_encode_decode:
  assumes "utf8_decode b = Inr s"
  shows "utf8_encode s = Inr b"
proof -
  have s: "\<forall>c \<in> set s. scalar_value c" "map unat b = concat (map utf8_char s)"
    using utf8_decode_nats_inv assms unfolding utf8_decode_def by blast+
  have "map of_nat (concat (map utf8_char s)) = b"
    unfolding s(2)[symmetric] by (simp add: comp_def)
  with s(1) show ?thesis by (simp add: utf8_encode_def)
qed

lemma utf8_encode_inj: "utf8_encode s = Inr b \<Longrightarrow> utf8_encode t = Inr b \<Longrightarrow> s = t"
  by (metis sum.inject(2) utf8_decode_encode)

subsection \<open>Decimal and hexadecimal round trips\<close>

lemma dec_val_append: "dec_val (s @ [ch]) = 10 * dec_val s + (of_char ch - 48)"
  by (simp add: dec_val_def)

lemma of_char_digit: "n < 128 \<Longrightarrow> (of_char (char_of (48 + n) :: char) :: nat) = (48 + n) mod 256"
  by simp

lemma dec_val_dec_digits [simp]: "dec_val (dec_digits n) = n"
proof (induction n rule: dec_digits.induct)
  case (1 n)
  show ?case
  proof (cases "n < 10")
    case True
    then show ?thesis by (simp add: dec_digits.simps [of n] dec_val_def)
  next
    case False
    then show ?thesis using 1
      by (simp add: dec_digits.simps [of n] dec_val_append)
  qed
qed

lemma dec_digits_are_digits: "list_all is_dec_digit (dec_digits n)"
proof (induction n rule: dec_digits.induct)
  case (1 n)
  have d: "is_dec_digit (char_of (48 + k))" if "k < 10" for k :: nat
    using that by (simp add: is_dec_digit_def)
  show ?case
  proof (cases "n < 10")
    case True
    then show ?thesis by (simp add: dec_digits.simps [of n] d)
  next
    case False
    then show ?thesis using 1 by (simp add: dec_digits.simps [of n] d)
  qed
qed

lemma dec_digits_nonempty [simp]: "dec_digits n \<noteq> []"
  by (simp add: dec_digits.simps [of n])

lemma dec_digits_inj: "dec_digits m = dec_digits n \<Longrightarrow> m = n"
  by (metis dec_val_dec_digits)

lemma length_hex_fixed [simp]: "length (hex_fixed n v) = n"
  by (induction n arbitrary: v) simp_all

lemma less_16_cases:
  assumes "(d :: nat) < 16"
  shows "d \<in> {0, 1, 2, 3, 4, 5, 6, 7, 8, 9, 10, 11, 12, 13, 14, 15}"
  using assms unfolding insert_iff empty_iff by arith

lemma hex_digit_val_hex_digit [simp]: "d < 16 \<Longrightarrow> hex_digit_val (hex_digit d) = Some d"
  using less_16_cases [of d] by (auto simp: hex_digit_def hex_digit_val_def Let_def)

lemma hex_val_append:
  "hex_val acc (s @ t) = (case hex_val acc s of None \<Rightarrow> None | Some a \<Rightarrow> hex_val a t)"
  by (induction acc s rule: hex_val.induct) (auto split: option.splits)

lemma hex_val_hex_fixed: "hex_val acc (hex_fixed n v) = Some (acc * 16 ^ n + v mod 16 ^ n)"
proof (induction n arbitrary: v acc)
  case (Suc n)
  have "acc * 16 ^ Suc n + v mod 16 ^ Suc n
      = 16 * (acc * 16 ^ n + v div 16 mod 16 ^ n) + v mod 16"
    unfolding power_Suc mod_mult2_eq by (simp only: algebra_simps)
  moreover have "hex_val acc (hex_fixed (Suc n) v)
      = Some (16 * (acc * 16 ^ n + v div 16 mod 16 ^ n) + v mod 16)"
    unfolding hex_fixed.simps hex_val_append Suc.IH by simp
  ultimately show ?case by (simp only:)
qed simp

lemma hex_fixed_inj:
  assumes "hex_fixed n v = hex_fixed n w" "v < 16 ^ n" "w < 16 ^ n"
  shows "v = w"
proof -
  have "Some (v mod 16 ^ n) = Some (w mod 16 ^ n)"
    using hex_val_hex_fixed [of 0 n v] hex_val_hex_fixed [of 0 n w] assms(1)
    unfolding mult_0 add_0 by (simp only:)
  with assms(2,3) show ?thesis by simp
qed

end
