(* ===== verification/WireCodec.thy ===== *)
theory WireCodec
  imports PyStruct PyText
begin

text \<open>
  The contract every payload codec of the games fulfils: \<open>wire_codec\<close>. Decoding an encoded value
  gives it back whatever follows in the buffer, and a decoder accepts only an encoder's output with
  something behind it. From these two laws the locale derives once, for all codecs, that encoders
  are injective, that no encoding is a proper prefix of another and that a truncated payload is
  refused. The theory also holds the facts on one-byte fields and the exceptions of the codecs.
\<close>

text \<open>
  \<open>ValueError\<close> with one reason per raise site; \<open>UnicodeDecodeError\<close> and \<open>UnicodeEncodeError\<close> are
  subclasses of \<open>ValueError\<close>, \<open>struct.error\<close> is not.
\<close>

datatype value_reason =
    TooShort | NameTooLong | TextTooLong | NameOutOfRange | NameTruncated | TextOutOfRange
  | TextTruncated | BadUnicode

datatype codec_exc = ValueErr value_reason | StructErr

definition pack_exc :: "struct_error + 'a \<Rightarrow> codec_exc + 'a" where
  "pack_exc r = (case r of Inl _ \<Rightarrow> Inl StructErr | Inr v \<Rightarrow> Inr v)"

definition text_exc :: "unicode_error + 'a \<Rightarrow> codec_exc + 'a" where
  "text_exc r = (case r of Inl _ \<Rightarrow> Inl (ValueErr BadUnicode) | Inr v \<Rightarrow> Inr v)"

lemma pack_exc_eq_Inr [simp]: "pack_exc r = Inr v \<longleftrightarrow> r = Inr v"
  by (cases r) (simp_all add: pack_exc_def)

lemma text_exc_eq_Inr [simp]: "text_exc r = Inr v \<longleftrightarrow> r = Inr v"
  by (cases r) (simp_all add: text_exc_def)

locale wire_codec =
  fixes enc :: "'v \<Rightarrow> 'e + bytes"
    and dec :: "bytes \<Rightarrow> 'f + 'v"
  assumes dec_enc: "enc v = Inr b \<Longrightarrow> dec (b @ rest) = Inr v"
    and dec_image: "dec b = Inr v \<Longrightarrow> \<exists>p rest. enc v = Inr p \<and> b = p @ rest"
begin

lemma dec_enc_exact: "enc v = Inr b \<Longrightarrow> dec b = Inr v"
  using dec_enc [of v b "[]"] by simp

lemma prefix_free:
  assumes "enc v = Inr b" "enc w = Inr (b @ c)"
  shows "v = w \<and> c = []"
proof -
  have "dec (b @ c) = Inr v" by (rule dec_enc [OF assms(1)])
  with dec_enc_exact [OF assms(2)] have "v = w" by simp
  with assms show ?thesis by simp
qed

lemma enc_inj: "enc v = Inr b \<Longrightarrow> enc w = Inr b \<Longrightarrow> v = w"
  using prefix_free [of v b w "[]"] by simp

lemma truncated_refused:
  assumes "enc v = Inr b" "k < length b"
  shows "\<exists>e. dec (take k b) = Inl e"
proof (cases "dec (take k b)")
  case (Inr w)
  then obtain p rest where p: "enc w = Inr p" "take k b = p @ rest" using dec_image by blast
  then have "b = p @ (rest @ drop k b)" by (metis append_assoc append_take_drop_id)
  with prefix_free [OF p(1), of v] assms(1) have "rest @ drop k b = []" by metis
  with assms(2) show ?thesis by simp
qed simp

lemma reencode:
  assumes "dec b = Inr v"
  shows "\<exists>n. enc v = Inr (take n b)"
proof -
  obtain p rest where "enc v = Inr p" "b = p @ rest" using dec_image [OF assms] by blast
  then have "enc v = Inr (take (length p) b)" by simp
  then show ?thesis by blast
qed

end

subsection \<open>Fields and slices\<close>

lemma pack_exc_Inr [simp]: "pack_exc (Inr v) = Inr v"
  by (simp add: pack_exc_def)

lemma text_exc_Inr [simp]: "text_exc (Inr v) = Inr v"
  by (simp add: text_exc_def)

lemma struct_pack_single: "struct_pack e [f] [v] = Inr b \<longleftrightarrow> fmt_fits f v \<and> b = pack_field e f v"
  by (auto simp: rbind_eq_Inr)

lemma struct_unpack_single:
  "struct_unpack e [f] bs = Inr vs \<longleftrightarrow> length bs = fmt_size f \<and> vs = [unpack_field e f bs]"
  by (auto simp: struct_unpack_def)

lemma take_py_slice: "a \<le> b \<Longrightarrow> take a xs @ py_slice a b xs = take b xs"
  by (metis py_slice_def le_add_diff_inverse take_add)

lemma py_slice_join: "a \<le> b \<Longrightarrow> b \<le> c \<Longrightarrow> py_slice a b xs @ py_slice b c xs = py_slice a c xs"
proof -
  assume "a \<le> b" "b \<le> c"
  then have "take (c - a) (drop a xs) = take (b - a) (drop a xs) @ take (c - b) (drop (b - a) (drop a xs))"
    by (metis add_diff_assoc2 le_add_diff_inverse2 add.commute take_add diff_add_assoc2)
  with \<open>a \<le> b\<close> show ?thesis by (simp add: py_slice_def)
qed

lemma Cons_py_slice: "xs \<noteq> [] \<Longrightarrow> 1 \<le> e \<Longrightarrow> xs ! 0 # py_slice 1 e xs = take e xs"
  by (cases xs; cases e) (simp_all add: py_slice_def)

lemma take_1_nth: "xs \<noteq> [] \<Longrightarrow> take (Suc 0) xs = [xs ! 0]"
  by (cases xs) auto

text \<open>A codec of one fixed \<open>struct\<close> format fulfils the contract when the record and its fields
  determine each other.\<close>

lemma unpack_fields_take:
  "calcsize fs \<le> length bs \<Longrightarrow> unpack_fields e fs (take (calcsize fs) bs) = unpack_fields e fs bs"
proof (induction e fs bs rule: unpack_fields.induct)
  case (2 e f fs bs)
  then show ?case by (simp add: drop_take min_def)
qed simp

lemma fixed_codec:
  assumes enc: "\<And>v. enc v = pack_exc (struct_pack e fs (fields_of v))"
    and dec: "\<And>b. dec b = (if calcsize fs \<le> length b then Inr (of_fields (unpack_fields e fs b)) else Inl err)"
    and inv1: "\<And>v. of_fields (fields_of v) = v"
    and inv2: "\<And>vs. length vs = length fs \<Longrightarrow> fields_of (of_fields vs) = vs"
  shows "wire_codec enc dec"
proof
  fix v b rest
  assume "enc v = Inr b"
  then have p: "struct_pack e fs (fields_of v) = Inr b" by (simp add: enc)
  show "dec (b @ rest) = Inr v"
    using struct_pack_length [OF p] unpack_fields_pack [OF p, of rest] by (simp add: dec inv1)
next
  fix b v
  assume "dec b = Inr v"
  then have l: "calcsize fs \<le> length b" and v: "v = of_fields (unpack_fields e fs b)"
    by (auto simp: dec split: if_splits)
  have "struct_pack e fs (unpack_fields e fs b) = Inr (take (calcsize fs) b)"
    using l by (simp add: struct_pack_eq_Inr unpack_fields_fits pack_unpack_fields)
  then have "enc v = Inr (take (calcsize fs) b)" by (simp add: enc v inv2)
  then show "\<exists>p rest. enc v = Inr p \<and> b = p @ rest" by (metis append_take_drop_id)
qed
declare struct_pack.simps [simp del]

lemma word_of_nat_mod_256: "(of_nat (nat (v mod 256)) :: byte) = word_of_int v"
proof -
  have "(of_nat (nat (v mod 256)) :: byte) = of_int (v mod 256)" by (simp add: of_nat_nat)
  also have "\<dots> = word_of_int v"
    unfolding word_uint_eq_iff by (simp add: uint_word_of_int)
  finally show ?thesis .
qed

lemma pack_field_FB: "pack_field e FB v = [word_of_int v]"
  by (cases e) (simp_all add: pack_field_def byte_order_def word_of_nat_mod_256)

lemma fmt_fits_FB [simp]: "fmt_fits FB v \<longleftrightarrow> 0 \<le> v \<and> v < 256"
  by (simp add: fmt_fits_def)

lemma fmt_fits_FH [simp]: "fmt_fits FH v \<longleftrightarrow> 0 \<le> v \<and> v < 65536"
  by (simp add: fmt_fits_def)

lemma uint_byte_of_int [simp]: "0 \<le> v \<Longrightarrow> v < 256 \<Longrightarrow> uint (word_of_int v :: byte) = v"
  by (simp add: uint_word_of_int)

lemma uint_byte_bounds [simp]: "0 \<le> uint (b :: byte)" "uint (b :: byte) < 256"
  using uint_lt2p [of b] by simp_all

lemma word_of_int_uint_byte [simp]: "word_of_int (uint (b :: byte)) = b"
  by simp

lemma py_slice_single: "a < length xs \<Longrightarrow> py_slice a (Suc a) xs = [xs ! a]"
  by (simp add: py_slice_def take_Suc_conv_app_nth)

end
