(* ===== verification/LobbyCodec.thy ===== *)
theory LobbyCodec
  imports WireCodec
begin

text \<open>
  The payload codecs of the lobby example (\<open>examples/lobby/handlers.py\<close>, first half), in the order
  of the source, and their interpretation as \<open>wire_codec\<close>.
\<close>

definition LOGIN_PAYLOAD_LEN :: nat where "LOGIN_PAYLOAD_LEN = 8"
definition ROOM_HEADER_LEN :: nat where "ROOM_HEADER_LEN = 1"
definition ROOM_MAX_NAME :: nat where "ROOM_MAX_NAME = 64"
definition CHAT_ROOM_ROOM_LEN :: nat where "CHAT_ROOM_ROOM_LEN = 1"
definition CHAT_ROOM_TEXT_LEN_SIZE :: nat where "CHAT_ROOM_TEXT_LEN_SIZE = 2"
definition CHAT_MAX_TEXT :: nat where "CHAT_MAX_TEXT = 4096"
definition PRESENCE_UPDATE_PAYLOAD_LEN :: nat where "PRESENCE_UPDATE_PAYLOAD_LEN = 9"
definition PRESENCE_MAX_NAME :: nat where "PRESENCE_MAX_NAME = 64"
definition PRESENCE_MAX_TEXT :: nat where "PRESENCE_MAX_TEXT = 4096"
definition KIND_JOIN :: int where "KIND_JOIN = 0"
definition KIND_LEAVE :: int where "KIND_LEAVE = 1"
definition KIND_CHAT :: int where "KIND_CHAT = 2"
definition KIND_STATUS :: int where "KIND_STATUS = 3"

lemmas lobby_sizes =
  LOGIN_PAYLOAD_LEN_def ROOM_HEADER_LEN_def ROOM_MAX_NAME_def CHAT_ROOM_ROOM_LEN_def
  CHAT_ROOM_TEXT_LEN_SIZE_def CHAT_MAX_TEXT_def PRESENCE_UPDATE_PAYLOAD_LEN_def
  PRESENCE_MAX_NAME_def PRESENCE_MAX_TEXT_def

record PresenceEvent =
  pe_kind :: int
  pe_member_id :: int
  pe_display_name :: pystr
  pe_status :: int
  pe_text :: pystr

definition encode_login :: "int \<Rightarrow> codec_exc + bytes" where
  "encode_login principal_id = pack_exc (struct_pack Little [FQ] [principal_id])"

definition decode_login :: "bytes \<Rightarrow> codec_exc + int" where
  "decode_login payload =
     rbind (rguard (LOGIN_PAYLOAD_LEN \<le> length payload) (ValueErr TooShort)) (\<lambda>_.
     rbind (pack_exc (struct_unpack Little [FQ] (take LOGIN_PAYLOAD_LEN payload))) (\<lambda>vs.
     Inr (hd vs)))"

definition encode_room_op :: "pystr \<Rightarrow> codec_exc + bytes" where
  "encode_room_op room =
     rbind (text_exc (utf8_encode room)) (\<lambda>name.
     rbind (rguard (length name \<le> ROOM_MAX_NAME) (ValueErr NameTooLong)) (\<lambda>_.
     rbind (pack_exc (struct_pack Little [FB] [int (length name)])) (\<lambda>h.
     Inr (h @ name))))"

definition decode_room_op :: "bytes \<Rightarrow> codec_exc + pystr" where
  "decode_room_op payload =
     rbind (rguard (ROOM_HEADER_LEN \<le> length payload) (ValueErr TooShort)) (\<lambda>_.
     let name_len = nat (uint (payload ! 0)) in
     rbind (rguard (name_len \<le> ROOM_MAX_NAME) (ValueErr NameOutOfRange)) (\<lambda>_.
     let end = ROOM_HEADER_LEN + name_len in
     rbind (rguard (end \<le> length payload) (ValueErr NameTruncated)) (\<lambda>_.
     text_exc (utf8_decode (py_slice ROOM_HEADER_LEN end payload)))))"

definition encode_room_join :: "pystr \<Rightarrow> codec_exc + bytes" where
  "encode_room_join room = encode_room_op room"

definition decode_room_join :: "bytes \<Rightarrow> codec_exc + pystr" where
  "decode_room_join payload = decode_room_op payload"

definition encode_room_leave :: "pystr \<Rightarrow> codec_exc + bytes" where
  "encode_room_leave room = encode_room_op room"

definition decode_room_leave :: "bytes \<Rightarrow> codec_exc + pystr" where
  "decode_room_leave payload = decode_room_op payload"

definition encode_chat_room :: "pystr \<Rightarrow> pystr \<Rightarrow> codec_exc + bytes" where
  "encode_chat_room room text =
     rbind (text_exc (utf8_encode room)) (\<lambda>name.
     rbind (rguard (length name \<le> ROOM_MAX_NAME) (ValueErr NameTooLong)) (\<lambda>_.
     rbind (text_exc (utf8_encode text)) (\<lambda>text_bytes.
     rbind (rguard (length text_bytes \<le> CHAT_MAX_TEXT) (ValueErr TextTooLong)) (\<lambda>_.
     rbind (pack_exc (struct_pack Little [FB] [int (length name)])) (\<lambda>h.
     rbind (pack_exc (struct_pack Little [FH] [int (length text_bytes)])) (\<lambda>t.
     Inr (h @ name @ t @ text_bytes)))))))"

definition decode_chat_room :: "bytes \<Rightarrow> codec_exc + (pystr \<times> pystr)" where
  "decode_chat_room payload =
     rbind (rguard (CHAT_ROOM_ROOM_LEN \<le> length payload) (ValueErr TooShort)) (\<lambda>_.
     let name_len = nat (uint (payload ! 0)) in
     rbind (rguard (name_len \<le> ROOM_MAX_NAME) (ValueErr NameOutOfRange)) (\<lambda>_.
     let name_end = CHAT_ROOM_ROOM_LEN + name_len in
     rbind (rguard (name_end + CHAT_ROOM_TEXT_LEN_SIZE \<le> length payload)
              (ValueErr NameTruncated)) (\<lambda>_.
     rbind (text_exc (utf8_decode (py_slice CHAT_ROOM_ROOM_LEN name_end payload))) (\<lambda>room.
     rbind (pack_exc (struct_unpack Little [FH]
              (py_slice name_end (name_end + CHAT_ROOM_TEXT_LEN_SIZE) payload))) (\<lambda>vs.
     let text_len = nat (hd vs) in
     rbind (rguard (text_len \<le> CHAT_MAX_TEXT) (ValueErr TextOutOfRange)) (\<lambda>_.
     let text_start = name_end + CHAT_ROOM_TEXT_LEN_SIZE;
         text_end = text_start + text_len in
     rbind (rguard (text_end \<le> length payload) (ValueErr TextTruncated)) (\<lambda>_.
     rbind (text_exc (utf8_decode (py_slice text_start text_end payload))) (\<lambda>text.
     Inr (room, text)))))))))"

definition encode_presence_update :: "int \<Rightarrow> int \<Rightarrow> codec_exc + bytes" where
  "encode_presence_update member_id status =
     pack_exc (struct_pack Little [FQ, FB] [member_id, status])"

definition decode_presence_update :: "bytes \<Rightarrow> codec_exc + (int \<times> int)" where
  "decode_presence_update payload =
     rbind (rguard (PRESENCE_UPDATE_PAYLOAD_LEN \<le> length payload) (ValueErr TooShort)) (\<lambda>_.
     rbind (pack_exc (struct_unpack Little [FQ, FB] (take PRESENCE_UPDATE_PAYLOAD_LEN payload)))
       (\<lambda>vs. Inr (vs ! 0, vs ! 1)))"

definition encode_presence :: "PresenceEvent \<Rightarrow> codec_exc + bytes" where
  "encode_presence ev =
     rbind (text_exc (utf8_encode (pe_display_name ev))) (\<lambda>name.
     rbind (rguard (length name \<le> PRESENCE_MAX_NAME) (ValueErr NameTooLong)) (\<lambda>_.
     rbind (text_exc (utf8_encode (pe_text ev))) (\<lambda>text_bytes.
     rbind (rguard (length text_bytes \<le> PRESENCE_MAX_TEXT) (ValueErr TextTooLong)) (\<lambda>_.
     rbind (pack_exc (struct_pack Little [FB, FQ, FB]
              [pe_kind ev, pe_member_id ev, int (length name)])) (\<lambda>h.
     rbind (pack_exc (struct_pack Little [FB, FH]
              [pe_status ev, int (length text_bytes)])) (\<lambda>t.
     Inr (h @ name @ t @ text_bytes)))))))"

definition decode_presence :: "bytes \<Rightarrow> codec_exc + PresenceEvent" where
  "decode_presence payload =
     rbind (rguard (1 + 8 + 1 \<le> length payload) (ValueErr TooShort)) (\<lambda>_.
     let kind = uint (payload ! 0) in
     rbind (pack_exc (struct_unpack Little [FQ] (py_slice 1 9 payload))) (\<lambda>ids.
     let name_len = nat (uint (payload ! 9)) in
     rbind (rguard (name_len \<le> PRESENCE_MAX_NAME) (ValueErr NameOutOfRange)) (\<lambda>_.
     let name_end = 10 + name_len in
     rbind (rguard (name_end + 3 \<le> length payload) (ValueErr NameTruncated)) (\<lambda>_.
     rbind (text_exc (utf8_decode (py_slice 10 name_end payload))) (\<lambda>display_name.
     let status = uint (payload ! name_end) in
     rbind (pack_exc (struct_unpack Little [FH] (py_slice (name_end + 1) (name_end + 3) payload)))
       (\<lambda>vs.
     let text_len = nat (hd vs) in
     rbind (rguard (text_len \<le> PRESENCE_MAX_TEXT) (ValueErr TextOutOfRange)) (\<lambda>_.
     let text_start = name_end + 3;
         text_end = text_start + text_len in
     rbind (rguard (text_end \<le> length payload) (ValueErr TextTruncated)) (\<lambda>_.
     rbind (text_exc (utf8_decode (py_slice text_start text_end payload))) (\<lambda>text.
     Inr \<lparr>pe_kind = kind, pe_member_id = hd ids, pe_display_name = display_name,
          pe_status = status, pe_text = text\<rparr>)))))))))"

subsection \<open>The codecs fulfil the contract\<close>

interpretation login_codec: wire_codec encode_login decode_login
proof
  fix v b rest
  assume "encode_login v = Inr b"
  then show "decode_login (b @ rest) = Inr v"
    by (auto simp: encode_login_def decode_login_def struct_pack_single struct_unpack_def
        lobby_sizes unpack_pack_field rguard_def)
next
  fix b v
  assume "decode_login b = Inr v"
  then have "encode_login v = Inr (take 8 b)" 
    by (auto simp: encode_login_def decode_login_def rbind_eq_Inr struct_pack_single
        struct_unpack_single lobby_sizes unpack_field_fits pack_unpack_field)
  then show "\<exists>p rest. encode_login v = Inr p \<and> b = p @ rest"
    by (metis append_take_drop_id)
qed

lemma encode_room_op_Inr:
  "encode_room_op room = Inr b \<longleftrightarrow>
     (\<exists>name. utf8_encode room = Inr name \<and> length name \<le> 64 \<and>
             b = word_of_int (int (length name)) # name)"
  by (auto simp: encode_room_op_def rbind_eq_Inr struct_pack_single lobby_sizes pack_field_FB)

lemma room_op_codec: "wire_codec encode_room_op decode_room_op"
proof
  fix v b rest
  assume "encode_room_op v = Inr b"
  then obtain name where "utf8_encode v = Inr name" "length name \<le> 64"
    "b = word_of_int (int (length name)) # name"
    by (auto simp: encode_room_op_Inr)
  then show "decode_room_op (b @ rest) = Inr v"
    using utf8_decode_encode [of v name]
    by (simp add: decode_room_op_def lobby_sizes rguard_def py_slice_def text_exc_def Let_def)
next
  fix b v
  assume d: "decode_room_op b = Inr v"
  let ?n = "nat (uint (b ! 0))"
  from d have "1 \<le> length b" "?n \<le> 64" "1 + ?n \<le> length b" "utf8_decode (py_slice 1 (1 + ?n) b) = Inr v"
    by (auto simp: decode_room_op_def rbind_eq_Inr lobby_sizes Let_def)
  then have "encode_room_op v = Inr (take (1 + ?n) b)"
    using utf8_encode_decode [of "py_slice 1 (1 + ?n) b" v] take_py_slice [of 1 "1 + ?n" b]
      take_1_nth [of b] \<open>1 \<le> length b\<close>
    by (force simp: encode_room_op_Inr)
  then show "\<exists>p rest. encode_room_op v = Inr p \<and> b = p @ rest"
    by (metis append_take_drop_id)
qed

lemma encode_chat_room_Inr:
  "encode_chat_room room text = Inr b \<longleftrightarrow>
     (\<exists>name tb. utf8_encode room = Inr name \<and> length name \<le> 64 \<and>
        utf8_encode text = Inr tb \<and> length tb \<le> 4096 \<and>
        b = word_of_int (int (length name)) # name @ pack_field Little FH (int (length tb)) @ tb)"
  by (auto simp: encode_chat_room_def rbind_eq_Inr struct_pack_single lobby_sizes pack_field_FB)

lemma chat_room_codec: "wire_codec (\<lambda>(r, t). encode_chat_room r t) decode_chat_room"
proof
  fix v :: "pystr \<times> pystr" and b rest
  assume e: "(case v of (r, t) \<Rightarrow> encode_chat_room r t) = Inr b"
  obtain r t where v: "v = (r, t)" by (cases v)
  obtain name tb where n: "utf8_encode r = Inr name" "length name \<le> 64"
    and tb: "utf8_encode t = Inr tb" "length tb \<le> 4096"
    and b: "b = word_of_int (int (length name)) # name @ pack_field Little FH (int (length tb)) @ tb"
    using e by (auto simp: v encode_chat_room_Inr)
  show "decode_chat_room (b @ rest) = Inr v"
    using n tb utf8_decode_encode [OF n(1)] utf8_decode_encode [OF tb(1)]
    by (simp add: b v decode_chat_room_def lobby_sizes py_slice_def struct_unpack_def
        unpack_pack_field Let_def)
next
  fix b and v :: "pystr \<times> pystr"
  assume d: "decode_chat_room b = Inr v"
  define e1 where "e1 = 1 + nat (uint (b ! 0))"
  define e2 where "e2 = e1 + 2"
  define h where "h = py_slice e1 e2 b"
  define e3 where "e3 = e2 + nat (unpack_field Little FH h)"
  note e_defs = e1_def [symmetric] e2_def [symmetric] h_def [symmetric] e3_def [symmetric]
  obtain r t where v: "v = (r, t)" by (cases v)
  from d have c: "b \<noteq> []" "nat (uint (b ! 0)) \<le> 64" "e2 \<le> length b"
      "nat (unpack_field Little FH h) \<le> 4096" "e3 \<le> length b"
    and r: "utf8_decode (py_slice 1 e1 b) = Inr r" and t: "utf8_decode (py_slice e2 e3 b) = Inr t"
    unfolding v decode_chat_room_def lobby_sizes Let_def e_defs
    by (auto simp: rbind_eq_Inr struct_unpack_single e_defs)
  have "length h = fmt_size FH" using c by (simp add: h_def e2_def)
  then have h: "pack_field Little FH (unpack_field Little FH h) = h"
    "0 \<le> unpack_field Little FH h"
    using unpack_field_fits [of h FH Little] by (simp_all add: pack_unpack_field)
  have "length (py_slice 1 e1 b) = nat (uint (b ! 0))"
    "length (py_slice e2 e3 b) = nat (unpack_field Little FH h)"
    using c by (simp_all add: e1_def e2_def e3_def)
  then have "encode_chat_room r t = Inr (b ! 0 # py_slice 1 e1 b @ h @ py_slice e2 e3 b)"
    using c utf8_encode_decode [OF r] utf8_encode_decode [OF t] h
    by (auto simp: encode_chat_room_Inr)
  also have "b ! 0 # py_slice 1 e1 b @ h @ py_slice e2 e3 b = take e3 b"
  proof -
    have "1 \<le> e1" "e1 \<le> e2" "e2 \<le> e3" by (simp_all add: e1_def e2_def e3_def)
    then show ?thesis using c(1) by (simp add: h_def py_slice_join Cons_py_slice del: One_nat_def)
  qed
  finally show "\<exists>p rest. (case v of (r, t) \<Rightarrow> encode_chat_room r t) = Inr p \<and> b = p @ rest"
    by (metis append_take_drop_id v case_prod_conv)
qed

lemma presence_update_codec:
  "wire_codec (\<lambda>(m, s). encode_presence_update m s) decode_presence_update"
proof
  fix v :: "int \<times> int" and b rest
  assume "(case v of (m, s) \<Rightarrow> encode_presence_update m s) = Inr b"
  then have p: "struct_pack Little [FQ, FB] [fst v, snd v] = Inr b"
    by (cases v) (simp add: encode_presence_update_def)
  then have "length b = 9" using struct_pack_length [OF p] by simp
  then show "decode_presence_update (b @ rest) = Inr v"
    using struct_unpack_pack [OF p] by (simp add: decode_presence_update_def lobby_sizes)
next
  fix b and v :: "int \<times> int"
  assume "decode_presence_update b = Inr v"
  then have l: "9 \<le> length b" and
    v: "v = (unpack_fields Little [FQ, FB] (take 9 b) ! 0, unpack_fields Little [FQ, FB] (take 9 b) ! 1)"
    by (auto simp: decode_presence_update_def rbind_eq_Inr lobby_sizes struct_unpack_def)
  have "struct_pack Little [FQ, FB] (unpack_fields Little [FQ, FB] (take 9 b)) = Inr (take 9 b)"
    using l unpack_fields_fits [of "[FQ, FB]" "take 9 b" Little]
      pack_unpack_fields [of "[FQ, FB]" "take 9 b" Little]
    by (simp add: struct_pack_eq_Inr)
  then have "(case v of (m, s) \<Rightarrow> encode_presence_update m s) = Inr (take 9 b)"
    by (simp add: v encode_presence_update_def)
  then show "\<exists>p rest. (case v of (m, s) \<Rightarrow> encode_presence_update m s) = Inr p \<and> b = p @ rest"
    by (metis append_take_drop_id)
qed

lemma encode_presence_Inr:
  "encode_presence ev = Inr b \<longleftrightarrow>
     (\<exists>name tb. utf8_encode (pe_display_name ev) = Inr name \<and> length name \<le> 64 \<and>
        utf8_encode (pe_text ev) = Inr tb \<and> length tb \<le> 4096 \<and>
        0 \<le> pe_kind ev \<and> pe_kind ev < 256 \<and> fmt_fits FQ (pe_member_id ev) \<and>
        0 \<le> pe_status ev \<and> pe_status ev < 256 \<and>
        b = [word_of_int (pe_kind ev)] @ pack_field Little FQ (pe_member_id ev) @
            [word_of_int (int (length name))] @ name @ [word_of_int (pe_status ev)] @
            pack_field Little FH (int (length tb)) @ tb)"
  by (auto simp: encode_presence_def rbind_eq_Inr struct_pack_eq_Inr lobby_sizes pack_field_FB)

lemma presence_codec: "wire_codec encode_presence decode_presence"
proof
  fix ev b rest
  assume "encode_presence ev = Inr b"
  then obtain name tb where n: "utf8_encode (pe_display_name ev) = Inr name" "length name \<le> 64"
    and t: "utf8_encode (pe_text ev) = Inr tb" "length tb \<le> 4096"
    and k: "0 \<le> pe_kind ev" "pe_kind ev < 256" "fmt_fits FQ (pe_member_id ev)"
      "0 \<le> pe_status ev" "pe_status ev < 256"
    and b: "b = [word_of_int (pe_kind ev)] @ pack_field Little FQ (pe_member_id ev) @
            [word_of_int (int (length name))] @ name @ [word_of_int (pe_status ev)] @
            pack_field Little FH (int (length tb)) @ tb"
    unfolding encode_presence_Inr by blast
  let ?pre = "[word_of_int (pe_kind ev)] @ pack_field Little FQ (pe_member_id ev) @
      [word_of_int (int (length name))] @ name @ [word_of_int (pe_status ev)] @
      pack_field Little FH (int (length tb))"
  have "drop (length ?pre) (?pre @ tb @ rest) = tb @ rest"
    by (rule append_eq_conv_conj [THEN iffD1, THEN conjunct2, symmetric]) simp
  then have last: "drop (13 + length name) (?pre @ tb @ rest) = tb @ rest" by (simp del: drop_append)
  show "decode_presence (b @ rest) = Inr ev"
    using last n t k utf8_decode_encode [OF n(1)] utf8_decode_encode [OF t(1)]
    by (simp add: b decode_presence_def lobby_sizes py_slice_def struct_unpack_def nth_append
        unpack_pack_field Let_def)
next
  fix b ev
  assume d: "decode_presence b = Inr ev"
  define e1 where "e1 = 10 + nat (uint (b ! 9))"
  define h where "h = py_slice (e1 + 1) (e1 + 3) b"
  define e3 where "e3 = e1 + 3 + nat (unpack_field Little FH h)"
  define m where "m = py_slice 1 9 b"
  note e_defs = e1_def [symmetric] h_def [symmetric] e3_def [symmetric] m_def [symmetric]
  from d have c: "10 \<le> length b" "nat (uint (b ! 9)) \<le> 64" "e1 + 3 \<le> length b"
      "nat (unpack_field Little FH h) \<le> 4096" "e3 \<le> length b"
    and n: "utf8_decode (py_slice 10 e1 b) = Inr (pe_display_name ev)"
    and t: "utf8_decode (py_slice (e1 + 3) e3 b) = Inr (pe_text ev)"
    and k: "pe_kind ev = uint (b ! 0)" "pe_status ev = uint (b ! e1)"
      "pe_member_id ev = unpack_field Little FQ m"
    unfolding decode_presence_def lobby_sizes Let_def e_defs
    by (auto simp: rbind_eq_Inr struct_unpack_single e_defs)
  have "length h = fmt_size FH" "length m = fmt_size FQ" using c by (simp_all add: h_def m_def)
  then have h: "pack_field Little FH (unpack_field Little FH h) = h" "0 \<le> unpack_field Little FH h"
    and m: "pack_field Little FQ (unpack_field Little FQ m) = m" "fmt_fits FQ (unpack_field Little FQ m)"
    using unpack_field_fits [of h FH Little] unpack_field_fits [of m FQ Little]
    by (simp_all add: pack_unpack_field)
  have len: "length (py_slice 10 e1 b) = nat (uint (b ! 9))"
    "length (py_slice (e1 + 3) e3 b) = nat (unpack_field Little FH h)"
    using c by (simp_all add: e1_def e3_def)
  have "encode_presence ev = Inr ([b ! 0] @ m @ [b ! 9] @ py_slice 10 e1 b @ [b ! e1] @ h @
      py_slice (e1 + 3) e3 b)"
    unfolding encode_presence_Inr
    using c utf8_encode_decode [OF n] utf8_encode_decode [OF t] h m k len by simp
  also have "[b ! 0] @ m @ [b ! 9] @ py_slice 10 e1 b @ [b ! e1] @ h @ py_slice (e1 + 3) e3 b
      = take e3 b"
  proof -
    have "b \<noteq> []" using c(1) by auto
    then have "[b ! 0] = py_slice 0 1 b" "[b ! 9] = py_slice 9 10 b" "[b ! e1] = py_slice e1 (e1 + 1) b"
      using c py_slice_single [of 0 b] py_slice_single [of 9 b] py_slice_single [of e1 b]
      by (simp_all del: py_slice_0)
    moreover have "10 \<le> e1" "e1 + 3 \<le> e3" by (simp_all add: e1_def e3_def)
    ultimately show ?thesis by (simp add: m_def h_def py_slice_join del: py_slice_0 One_nat_def)
      (simp add: py_slice_def)
  qed
  finally show "\<exists>p rest. encode_presence ev = Inr p \<and> b = p @ rest"
    by (metis append_take_drop_id)
qed

interpretation room_join_codec: wire_codec encode_room_join decode_room_join
  using room_op_codec by (simp add: wire_codec_def encode_room_join_def decode_room_join_def)

interpretation room_leave_codec: wire_codec encode_room_leave decode_room_leave
  using room_op_codec by (simp add: wire_codec_def encode_room_leave_def decode_room_leave_def)

interpretation chat_codec: wire_codec "\<lambda>(r, t). encode_chat_room r t" decode_chat_room
  by (rule chat_room_codec)

interpretation status_codec: wire_codec "\<lambda>(m, s). encode_presence_update m s" decode_presence_update
  by (rule presence_update_codec)

interpretation event_codec: wire_codec encode_presence decode_presence
  by (rule presence_codec)

subsection \<open>Properties\<close>

text \<open>A \<open>presence\<close> notification decodes to the event it was built from, whatever follows it in
  the buffer; every proper prefix of it is refused; and two different events never have the same
  bytes.\<close>

theorem presence_roundtrip:
  assumes "encode_presence ev = Inr b"
  shows "decode_presence (b @ rest) = Inr ev \<and>
    (\<forall>k. k < length b \<longrightarrow> (\<exists>e. decode_presence (take k b) = Inl e)) \<and>
    (\<forall>ev'. encode_presence ev' = Inr b \<longrightarrow> ev' = ev)"
  using event_codec.dec_enc [OF assms] event_codec.truncated_refused [OF assms]
    event_codec.enc_inj [OF _ assms] by blast

definition demo_event :: PresenceEvent where
  "demo_event = \<lparr>pe_kind = 2, pe_member_id = 258, pe_display_name = [0x6D, 0xE9], pe_status = 1,
                 pe_text = [0x68, 0x69]\<rparr>"

lemma demo_event_bytes:
  "encode_presence demo_event =
     Inr [2, 2, 1, 0, 0, 0, 0, 0, 0, 3, 0x6D, 0xC3, 0xA9, 1, 2, 0, 0x68, 0x69]"
  by (simp add: encode_presence_def demo_event_def utf8_encode_def utf8_char_def scalar_value_def
      text_exc_def pack_exc_def lobby_sizes struct_pack.simps fmt_fits_def pack_field_def
      byte_order_def be_bytes_numeral)

theorem presence_roundtrip_witness:
  "decode_presence [2, 2, 1, 0, 0, 0, 0, 0, 0, 3, 0x6D, 0xC3, 0xA9, 1, 2, 0, 0x68, 0x69, 7] =
     Inr demo_event"
  using presence_roundtrip [OF demo_event_bytes, of "[7]"] by simp

end
