(* ===== verification/GameStore.thy ===== *)
theory GameStore
  imports Prelude
begin

text \<open>
  The key/value store of the games (\<open>examples/_common/store.py\<close>): the interface \<open>GameStateStore\<close> as
  a locale, and its default backing \<open>InMemoryStore\<close>, a dict of byte strings. The methods are
  coroutines that finish on their first step under the store's lock, so each is one atomic
  function on the dict.
\<close>

record InMemoryStore =
  ims_values :: "(bytes, bytes) dict"

definition store_init :: InMemoryStore where
  "store_init = \<lparr>ims_values = []\<rparr>"

definition store_get :: "InMemoryStore \<Rightarrow> bytes \<Rightarrow> bytes option" where
  "store_get self key = map_of (ims_values self) key"

definition store_put :: "InMemoryStore \<Rightarrow> bytes \<Rightarrow> bytes \<Rightarrow> InMemoryStore" where
  "store_put self key value = self\<lparr>ims_values := AList.update key value (ims_values self)\<rparr>"

definition store_delete :: "InMemoryStore \<Rightarrow> bytes \<Rightarrow> InMemoryStore" where
  "store_delete self key = self\<lparr>ims_values := AList.delete key (ims_values self)\<rparr>"

definition store_len :: "InMemoryStore \<Rightarrow> nat" where
  "store_len self = length (ims_values self)"

definition store_wf :: "InMemoryStore \<Rightarrow> bool" where
  "store_wf self \<longleftrightarrow> distinct (map fst (ims_values self))"

text \<open>What a game may rely on, whichever backing it is given.\<close>

locale game_store =
  fixes wf :: "'s \<Rightarrow> bool"
    and get :: "'s \<Rightarrow> 'k \<Rightarrow> 'v option"
    and put :: "'s \<Rightarrow> 'k \<Rightarrow> 'v \<Rightarrow> 's"
    and del :: "'s \<Rightarrow> 'k \<Rightarrow> 's"
    and len :: "'s \<Rightarrow> nat"
  assumes get_put: "wf s \<Longrightarrow> get (put s k v) k' = (if k' = k then Some v else get s k')"
    and get_del: "wf s \<Longrightarrow> get (del s k) k' = (if k' = k then None else get s k')"
    and wf_put: "wf s \<Longrightarrow> wf (put s k v)"
    and wf_del: "wf s \<Longrightarrow> wf (del s k)"
    and finite_keys: "wf s \<Longrightarrow> finite (dom (get s))"
    and len_card: "wf s \<Longrightarrow> len s = card (dom (get s))"
begin

lemma put_dom: "wf s \<Longrightarrow> dom (get (put s k v)) = insert k (dom (get s))"
  by (auto simp: get_put dom_def split: if_splits)

lemma del_dom: "wf s \<Longrightarrow> dom (get (del s k)) = dom (get s) - {k}"
  by (auto simp: get_del dom_def split: if_splits)

lemma len_put: "wf s \<Longrightarrow> len (put s k v) = (if get s k = None then len s + 1 else len s)"
  using finite_keys [of s] by (auto simp: len_card wf_put put_dom insert_absorb card_insert_if domIff)

lemma len_del: "wf s \<Longrightarrow> len (del s k) = (if get s k = None then len s else len s - 1)"
  using finite_keys [of s] by (auto simp: len_card wf_del del_dom domIff card_Diff_singleton_if)

lemma put_del_get: "wf s \<Longrightarrow> get s k = None \<Longrightarrow> get (del (put s k v) k) = get s"
  by (rule ext) (simp add: get_del get_put wf_put)

lemma put_twice: "wf s \<Longrightarrow> get (put (put s k v) k w) = get (put s k w)"
  by (rule ext) (simp add: get_put wf_put)

end

interpretation memory_store: game_store store_wf store_get store_put store_delete store_len
proof
  fix s :: InMemoryStore and k k' v
  assume wf: "store_wf s"
  show "store_get (store_put s k v) k' = (if k' = k then Some v else store_get s k')"
    by (simp add: store_get_def store_put_def)
  show "store_get (store_delete s k) k' = (if k' = k then None else store_get s k')"
    by (simp add: store_get_def store_delete_def)
  show "store_wf (store_put s k v)" "store_wf (store_delete s k)"
    using wf by (simp_all add: store_wf_def store_put_def store_delete_def dict_distinct_set
        dict_distinct_pop)
  show "finite (dom (store_get s))"
    by (simp add: store_get_def [abs_def] finite_dom_map_of)
  have "card (fst ` set (ims_values s)) = length (ims_values s)"
    using wf distinct_card [of "map fst (ims_values s)"] by (simp add: store_wf_def)
  then show "store_len s = card (dom (store_get s))"
    by (simp add: store_len_def store_get_def [abs_def] dom_map_of_conv_image_fst)
qed

end
