(* ===== verification/KithErrors.thy ===== *)
theory KithErrors
  imports Prelude
begin

text \<open>
  The error translation of \<open>python/kith/exceptions.py\<close>: the \<open>kith_error\<close> enumeration of the C
  boundary (\<open>python/kith/_generated/types.py\<close>), the exception classes, the table of codes with a
  fixed family, and \<open>code_for\<close>, \<open>exception_for\<close>, \<open>check_error\<close>. A raised \<open>KithError\<close> is the value
  \<open>KithExc cls code\<close>; the message text is left out. \<open>client_check\<close> is the headless client's own
  translation (\<open>python/kith/_agent/_errors.py\<close>).
\<close>

datatype kith_error =
    KITH_OK | KITH_EINVAL | KITH_ENOMEM | KITH_ENOSYS | KITH_ENOENT | KITH_EEXIST | KITH_EBUSY
  | KITH_EAGAIN | KITH_EPERM | KITH_ERANGE | KITH_EOVERFLOW | KITH_EFAULT | KITH_EIO
  | KITH_ETIMEDOUT | KITH_ECONNRESET | KITH_ESHUTDOWN | KITH_ESTATE | KITH_EPROTO | KITH_ESIZE
  | KITH_EABIVER | KITH_EUSER

fun kith_error_value :: "kith_error \<Rightarrow> int" where
  "kith_error_value KITH_OK = 0"
| "kith_error_value KITH_EINVAL = 1"
| "kith_error_value KITH_ENOMEM = 2"
| "kith_error_value KITH_ENOSYS = 3"
| "kith_error_value KITH_ENOENT = 4"
| "kith_error_value KITH_EEXIST = 5"
| "kith_error_value KITH_EBUSY = 6"
| "kith_error_value KITH_EAGAIN = 7"
| "kith_error_value KITH_EPERM = 8"
| "kith_error_value KITH_ERANGE = 9"
| "kith_error_value KITH_EOVERFLOW = 10"
| "kith_error_value KITH_EFAULT = 11"
| "kith_error_value KITH_EIO = 12"
| "kith_error_value KITH_ETIMEDOUT = 13"
| "kith_error_value KITH_ECONNRESET = 14"
| "kith_error_value KITH_ESHUTDOWN = 15"
| "kith_error_value KITH_ESTATE = 16"
| "kith_error_value KITH_EPROTO = 17"
| "kith_error_value KITH_ESIZE = 18"
| "kith_error_value KITH_EABIVER = 19"
| "kith_error_value KITH_EUSER = 10000"

definition kith_error_members :: "kith_error list" where
  "kith_error_members =
     [KITH_OK, KITH_EINVAL, KITH_ENOMEM, KITH_ENOSYS, KITH_ENOENT, KITH_EEXIST, KITH_EBUSY,
      KITH_EAGAIN, KITH_EPERM, KITH_ERANGE, KITH_EOVERFLOW, KITH_EFAULT, KITH_EIO,
      KITH_ETIMEDOUT, KITH_ECONNRESET, KITH_ESHUTDOWN, KITH_ESTATE, KITH_EPROTO, KITH_ESIZE,
      KITH_EABIVER, KITH_EUSER]"

datatype exc_class =
    KithError | KithConfigError | KithNetworkError | KithProtocolError | KithStateError
  | KithNotFoundError | KithResponseOverflowError

datatype kith_exc = KithExc exc_class kith_error

definition FAMILY_BY_CODE :: "(kith_error, exc_class) dict" where
  "FAMILY_BY_CODE =
     [(KITH_ENOENT, KithNotFoundError),
      (KITH_EEXIST, KithStateError),
      (KITH_EBUSY, KithStateError),
      (KITH_EAGAIN, KithStateError),
      (KITH_EPERM, KithStateError),
      (KITH_ESTATE, KithStateError),
      (KITH_EPROTO, KithProtocolError),
      (KITH_ECONNRESET, KithNetworkError),
      (KITH_ESHUTDOWN, KithNetworkError),
      (KITH_ETIMEDOUT, KithNetworkError)]"

definition code_for :: "int \<Rightarrow> kith_error" where
  "code_for rc =
     (case find (\<lambda>c. kith_error_value c = - rc) kith_error_members of
        Some c \<Rightarrow> c
      | None \<Rightarrow> KITH_EUSER)"

definition exception_for :: "kith_error \<Rightarrow> exc_class" where
  "exception_for code =
     (case map_of FAMILY_BY_CODE code of Some cls \<Rightarrow> cls | None \<Rightarrow> KithError)"

definition check_error :: "int \<Rightarrow> exc_class option \<Rightarrow> kith_exc + unit" where
  "check_error rc exc =
     (if rc \<ge> 0 then Inr ()
      else let code = code_for rc;
               cls = (case exc of Some c \<Rightarrow> c | None \<Rightarrow> exception_for code)
           in Inl (KithExc cls code))"

text \<open>\<open>kith_error_return\<close> of \<open>include/kith/types.h\<close>: the negated enumerator value.\<close>

definition kith_error_return :: "kith_error \<Rightarrow> int" where
  "kith_error_return c = - kith_error_value c"

text \<open>The headless client raises \<open>KithClientError\<close> carrying the magnitude of the code.\<close>

datatype client_error = KithClientError int

definition client_check :: "int \<Rightarrow> client_error + int" where
  "client_check code = (if code < 0 then Inl (KithClientError (- code)) else Inr code)"

lemma kith_error_members_complete: "c \<in> set kith_error_members"
  by (cases c) (simp_all add: kith_error_members_def)

lemma kith_error_value_inj: "kith_error_value c = kith_error_value d \<Longrightarrow> c = d"
  by (cases c; cases d) simp_all

lemma kith_error_value_nonneg: "0 \<le> kith_error_value c"
  by (cases c) simp_all

lemma code_for_return [simp]: "code_for (kith_error_return c) = c"
proof -
  have "find (\<lambda>d. kith_error_value d = kith_error_value c) kith_error_members = Some c"
    by (cases c) (simp_all add: kith_error_members_def)
  then show ?thesis by (simp add: code_for_def kith_error_return_def)
qed

lemma kith_error_return_neg [simp]: "kith_error_return c < 0 \<longleftrightarrow> c \<noteq> KITH_OK"
  by (cases c) (simp_all add: kith_error_return_def)

lemma kith_error_return_nonneg [simp]: "0 \<le> kith_error_return c \<longleftrightarrow> c = KITH_OK"
  by (cases c) (simp_all add: kith_error_return_def)

lemma check_error_ok [simp]: "0 \<le> rc \<Longrightarrow> check_error rc exc = Inr ()"
  by (simp add: check_error_def)

lemma check_error_return [simp]:
  "c \<noteq> KITH_OK \<Longrightarrow> check_error (kith_error_return c) exc =
     Inl (KithExc (case exc of Some k \<Rightarrow> k | None \<Rightarrow> exception_for c) c)"
  by (simp add: check_error_def Let_def)

lemma code_for_unknown:
  assumes "\<forall>c. kith_error_value c \<noteq> - rc"
  shows "code_for rc = KITH_EUSER"
proof -
  have "find (\<lambda>c. kith_error_value c = - rc) kith_error_members = None"
    using assms by (simp add: find_None_iff)
  then show ?thesis by (simp add: code_for_def)
qed

subsection \<open>Properties\<close>

text \<open>Every code of the C boundary survives the trip through its negative return value: it raises
  the exception class of its family with exactly that code, \<open>KITH_OK\<close> raises nothing, and a
  negative value that names no code raises the base class with \<open>KITH_EUSER\<close>.\<close>

theorem check_error_roundtrip:
  "check_error (kith_error_return c) None =
     (if c = KITH_OK then Inr () else Inl (KithExc (exception_for c) c)) \<and>
   (\<forall>rc < 0. (\<forall>d. kith_error_return d \<noteq> rc) \<longrightarrow>
      check_error rc None = Inl (KithExc KithError KITH_EUSER))"
proof (intro conjI allI impI)
  fix rc :: int
  assume "rc < 0" "\<forall>d. kith_error_return d \<noteq> rc"
  then have "\<forall>d. kith_error_value d \<noteq> - rc" by (metis kith_error_return_def minus_minus)
  with \<open>rc < 0\<close> show "check_error rc None = Inl (KithExc KithError KITH_EUSER)"
    by (simp add: check_error_def code_for_unknown exception_for_def FAMILY_BY_CODE_def)
qed simp

theorem check_error_roundtrip_witness:
  "check_error (- 17) None = Inl (KithExc KithProtocolError KITH_EPROTO) \<and>
   check_error (- 25) None = Inl (KithExc KithError KITH_EUSER)"
proof -
  have "kith_error_return d \<noteq> - 25" for d by (cases d) (simp_all add: kith_error_return_def)
  with check_error_roundtrip [of KITH_EPROTO] show ?thesis
    by (simp add: kith_error_return_def exception_for_def FAMILY_BY_CODE_def)
qed

end
