(* ===== verification/WireProto.thy ===== *)
theory WireProto
  imports KithErrors PyText
begin

unbundle bit_operations_syntax

text \<open>
  The wire-protocol module: the C frame codec and message-type registry (\<open>src/proto/proto.c\<close>) and
  the Python class \<open>Proto\<close> over it (\<open>python/kith/proto.py\<close>).

  A handle is the record \<open>kith_proto\<close>; C strings are byte lists without a zero byte, a pointer that
  may be null is an option, machine integers are words of the source's width and a caller's buffer
  is the list of its bytes, updated by \<open>memcpy_at\<close>. What the operating system and the allocator
  answer during a call (\<open>pthread_mutex_lock\<close>, \<open>kith_realloc\<close>, \<open>kith_strdup\<close>) is the argument
  \<open>call_env\<close>. A C function that returns \<open>kith_error_return c\<close> is modelled with the value \<open>Inl c\<close>.
  ctypes converts an \<open>int\<close> argument to its C width without a range check: \<open>word_of_int\<close>.
\<close>

record type_entry =
  te_name :: bytes
  te_id :: "16 word"

record kith_proto =
  kp_types :: "type_entry list"
  kp_cap :: nat
  kp_max_payload :: "32 word"
  kp_rejections :: "64 word"

record call_env =
  lock_ok :: bool
  grow_ok :: bool
  dup_ok :: bool

record c_frame =
  cf_type_id :: "16 word"
  cf_flags :: "8 word"
  cf_has_correlation :: bool
  cf_correlation_id :: "64 word"
  cf_payload :: "bytes option"

definition KITH_PROTO_MAGIC0 :: byte where "KITH_PROTO_MAGIC0 = 0x4B"
definition KITH_PROTO_MAGIC1 :: byte where "KITH_PROTO_MAGIC1 = 0x54"
definition KITH_PROTO_VERSION :: byte where "KITH_PROTO_VERSION = 1"
definition KITH_PROTO_HDR_SIZE :: nat where "KITH_PROTO_HDR_SIZE = 10"
definition KITH_PROTO_CORR_TRAILER_SIZE :: nat where "KITH_PROTO_CORR_TRAILER_SIZE = 8"
definition KITH_PROTO_FLAG_CORRELATION :: "8 word" where "KITH_PROTO_FLAG_CORRELATION = 0x02"
definition KITH_PROTO_DEFAULT_MAX_PAYLOAD :: "32 word" where
  "KITH_PROTO_DEFAULT_MAX_PAYLOAD = 1024 * 1024"

subsection \<open>Byte assembly\<close>

definition read_be_u16 :: "bytes \<Rightarrow> 16 word" where
  "read_be_u16 p = push_bit 8 (ucast (p ! 0)) OR ucast (p ! 1)"

definition read_be_u32 :: "bytes \<Rightarrow> 32 word" where
  "read_be_u32 p =
     push_bit 24 (ucast (p ! 0)) OR push_bit 16 (ucast (p ! 1)) OR push_bit 8 (ucast (p ! 2)) OR
     ucast (p ! 3)"

definition read_be_u64 :: "bytes \<Rightarrow> 64 word" where
  "read_be_u64 p =
     fold (\<lambda>i v. push_bit 8 v OR ucast (p ! i)) [0..<KITH_PROTO_CORR_TRAILER_SIZE] 0"

definition write_be_u64 :: "64 word \<Rightarrow> bytes" where
  "write_be_u64 v =
     map (\<lambda>j. ucast (drop_bit (8 * (KITH_PROTO_CORR_TRAILER_SIZE - 1 - j)) v))
       [0..<KITH_PROTO_CORR_TRAILER_SIZE]"

definition memcpy_at :: "bytes \<Rightarrow> nat \<Rightarrow> bytes \<Rightarrow> nat \<Rightarrow> bytes" where
  "memcpy_at out off src n = take off out @ take n src @ drop (off + n) out"

subsection \<open>Registry\<close>

definition find_by_id_locked :: "kith_proto \<Rightarrow> 16 word \<Rightarrow> type_entry option" where
  "find_by_id_locked p i = find (\<lambda>e. te_id e = i) (kp_types p)"

definition find_by_name_locked :: "kith_proto \<Rightarrow> bytes \<Rightarrow> type_entry option" where
  "find_by_name_locked p name = find (\<lambda>e. te_name e = name) (kp_types p)"

definition grow_types_locked :: "call_env \<Rightarrow> kith_proto \<Rightarrow> kith_error + kith_proto" where
  "grow_types_locked env p =
     (let next_cap = (if kp_cap p = 0 then 16 else kp_cap p * 2)
      in if \<not> grow_ok env then Inl KITH_ENOMEM else Inr (p\<lparr>kp_cap := next_cap\<rparr>))"

text \<open>
  The only caller in scope passes parameters of the right size and ABI version and the default
  allocator; \<open>grow_ok\<close> answers for the handle's own allocation and \<open>lock_ok\<close> for the mutex.
\<close>

definition kith_proto_create :: "call_env \<Rightarrow> 32 word \<Rightarrow> kith_error + kith_proto" where
  "kith_proto_create env max_payload =
     (if \<not> grow_ok env then Inl KITH_ENOMEM
      else if \<not> lock_ok env then Inl KITH_ESTATE
      else Inr \<lparr>kp_types = [], kp_cap = 0,
                kp_max_payload =
                  (if max_payload = 0 then KITH_PROTO_DEFAULT_MAX_PAYLOAD else max_payload),
                kp_rejections = 0\<rparr>)"

definition kith_proto_register_type_id ::
    "call_env \<Rightarrow> kith_proto option \<Rightarrow> bytes option \<Rightarrow> 16 word \<Rightarrow>
     (kith_error + unit) \<times> kith_proto option" where
  "kith_proto_register_type_id env proto name type_id =
     (case (proto, name) of
        (Some p, Some (b # bs)) \<Rightarrow>
          let nm = b # bs in
          if \<not> lock_ok env then (Inl KITH_ESTATE, Some p)
          else (case find_by_name_locked p nm of
                  Some e \<Rightarrow>
                    (if te_id e = type_id then Inr () else Inl KITH_EINVAL, Some p)
                | None \<Rightarrow>
                    if find_by_id_locked p type_id \<noteq> None then (Inl KITH_EEXIST, Some p)
                    else (case (if length (kp_types p) = kp_cap p
                                then grow_types_locked env p else Inr p) of
                            Inl e \<Rightarrow> (Inl e, Some p)
                          | Inr p' \<Rightarrow>
                              if \<not> dup_ok env then (Inl KITH_ENOMEM, Some p')
                              else (Inr (),
                                    Some (p'\<lparr>kp_types :=
                                      kp_types p' @ [\<lparr>te_name = nm, te_id = type_id\<rparr>]\<rparr>))))
      | _ \<Rightarrow> (Inl KITH_EINVAL, proto))"

definition kith_proto_lookup_type ::
    "call_env \<Rightarrow> kith_proto option \<Rightarrow> bytes option \<Rightarrow> kith_error + 16 word" where
  "kith_proto_lookup_type env proto name =
     (case (proto, name) of
        (Some p, Some nm) \<Rightarrow>
          if \<not> lock_ok env then Inl KITH_ESTATE
          else (case find_by_name_locked p nm of
                  None \<Rightarrow> Inl KITH_ENOENT
                | Some e \<Rightarrow> Inr (te_id e))
      | _ \<Rightarrow> Inl KITH_EINVAL)"

definition kith_proto_type_name ::
    "call_env \<Rightarrow> kith_proto option \<Rightarrow> 16 word \<Rightarrow> bytes option" where
  "kith_proto_type_name env proto type_id =
     (case proto of
        None \<Rightarrow> None
      | Some p \<Rightarrow>
          if \<not> lock_ok env then None else map_option te_name (find_by_id_locked p type_id))"

subsection \<open>Encode\<close>

definition frame_header :: "8 word \<Rightarrow> 16 word \<Rightarrow> 32 word \<Rightarrow> bytes" where
  "frame_header flags type_id wire_len =
     [KITH_PROTO_MAGIC0, KITH_PROTO_MAGIC1, KITH_PROTO_VERSION, flags,
      ucast (drop_bit 8 type_id), ucast type_id,
      ucast (drop_bit 24 wire_len), ucast (drop_bit 16 wire_len), ucast (drop_bit 8 wire_len),
      ucast wire_len]"

definition trailer_len_of :: "8 word \<Rightarrow> nat" where
  "trailer_len_of flags =
     (if flags AND KITH_PROTO_FLAG_CORRELATION \<noteq> 0 then KITH_PROTO_CORR_TRAILER_SIZE else 0)"

definition write_frame ::
    "bytes \<Rightarrow> nat \<Rightarrow> bytes \<Rightarrow> bytes \<Rightarrow> nat \<Rightarrow> nat \<Rightarrow> 64 word \<Rightarrow> bytes" where
  "write_frame out n hdr payload payload_len trailer_len correlation_id =
     (let hdr_copy = (if n < KITH_PROTO_HDR_SIZE then n else KITH_PROTO_HDR_SIZE);
          out1 = memcpy_at out 0 hdr hdr_copy;
          off1 = hdr_copy;
          copy1 = (if off1 + payload_len \<le> n then payload_len else n - off1);
          (out2, off2) =
            (if payload_len \<noteq> 0 \<and> off1 < n
             then (memcpy_at out1 off1 payload copy1, off1 + copy1) else (out1, off1));
          copy2 = (if off2 + KITH_PROTO_CORR_TRAILER_SIZE \<le> n
                   then KITH_PROTO_CORR_TRAILER_SIZE else n - off2)
      in if trailer_len \<noteq> 0 \<and> off2 < n
         then memcpy_at out2 off2 (write_be_u64 correlation_id) copy2 else out2)"

definition kith_proto_encode ::
    "kith_proto option \<Rightarrow> 16 word \<Rightarrow> 8 word \<Rightarrow> 64 word \<Rightarrow> bytes option \<Rightarrow> 32 word \<Rightarrow>
     bytes option \<Rightarrow> nat \<times> bytes option" where
  "kith_proto_encode proto type_id flags correlation_id payload payload_len buf =
     (case proto of
        None \<Rightarrow> (0, buf)
      | Some p \<Rightarrow>
          if payload_len \<noteq> 0 \<and> payload = None then (0, buf)
          else let trailer_len = trailer_len_of flags in
          if 2 ^ 32 \<le> unat payload_len + trailer_len then (0, buf)
          else let wire_len = payload_len + of_nat trailer_len in
          if kp_max_payload p < wire_len then (0, buf)
          else let total = KITH_PROTO_HDR_SIZE + unat wire_len in
          if 2 ^ 64 \<le> total then (0, buf)
          else (case buf of
                  None \<Rightarrow> (total, None)
                | Some out \<Rightarrow>
                    if length out = 0 then (total, Some out)
                    else let n = (if length out < total then length out else total)
                         in (total,
                             Some (write_frame out n (frame_header flags type_id wire_len)
                                    (case payload of None \<Rightarrow> [] | Some b \<Rightarrow> b)
                                    (unat payload_len) trailer_len correlation_id))))"

subsection \<open>Decode\<close>

definition parse_header :: "bytes \<Rightarrow> kith_error + (16 word \<times> 8 word \<times> 32 word)" where
  "parse_header buf =
     (if length buf < KITH_PROTO_HDR_SIZE then Inl KITH_EAGAIN
      else if buf ! 0 \<noteq> KITH_PROTO_MAGIC0 \<or> buf ! 1 \<noteq> KITH_PROTO_MAGIC1 then Inl KITH_EPROTO
      else if buf ! 2 \<noteq> KITH_PROTO_VERSION then Inl KITH_EPROTO
      else Inr (read_be_u16 (drop 4 buf), buf ! 3, read_be_u32 (drop 6 buf)))"

definition proto_reject :: "kith_proto \<Rightarrow> (kith_error + 'a) \<times> kith_proto option" where
  "proto_reject p = (Inl KITH_EPROTO, Some (p\<lparr>kp_rejections := kp_rejections p + 1\<rparr>))"

definition kith_proto_decode ::
    "call_env \<Rightarrow> kith_proto option \<Rightarrow> bytes option \<Rightarrow>
     (kith_error + (c_frame \<times> nat)) \<times> kith_proto option" where
  "kith_proto_decode env proto buf =
     (case (proto, buf) of
        (Some p, Some b) \<Rightarrow>
          (case parse_header b of
             Inl e \<Rightarrow> if e = KITH_EPROTO then proto_reject p else (Inl e, Some p)
           | Inr (type_id, flags, wire_len) \<Rightarrow>
               if kp_max_payload p < wire_len then proto_reject p
               else let frame_total = KITH_PROTO_HDR_SIZE + unat wire_len in
               if 2 ^ 64 \<le> frame_total then proto_reject p
               else if length b < frame_total then (Inl KITH_EAGAIN, Some p)
               else if \<not> lock_ok env then (Inl KITH_ESTATE, Some p)
               else if find_by_id_locked p type_id = None then proto_reject p
               else let has_corr = (flags AND KITH_PROTO_FLAG_CORRELATION \<noteq> 0) in
               if has_corr \<and> unat wire_len < KITH_PROTO_CORR_TRAILER_SIZE then proto_reject p
               else let payload_len =
                          (if has_corr then unat wire_len - KITH_PROTO_CORR_TRAILER_SIZE
                           else unat wire_len);
                        correlation_id =
                          (if has_corr
                           then read_be_u64 (drop (KITH_PROTO_HDR_SIZE + unat wire_len -
                                                   KITH_PROTO_CORR_TRAILER_SIZE) b)
                           else 0)
                    in (Inr (\<lparr>cf_type_id = type_id, cf_flags = flags,
                             cf_has_correlation = has_corr,
                             cf_correlation_id = correlation_id,
                             cf_payload =
                               (if payload_len \<noteq> 0
                                then Some (take payload_len (drop KITH_PROTO_HDR_SIZE b))
                                else None)\<rparr>, frame_total), Some p))
      | _ \<Rightarrow> (Inl KITH_EINVAL, proto))"

definition kith_proto_declared_total :: "bytes option \<Rightarrow> kith_error + nat" where
  "kith_proto_declared_total buf =
     (case buf of
        None \<Rightarrow> Inl KITH_EINVAL
      | Some b \<Rightarrow>
          rbind (parse_header b) (\<lambda>(_, _, wire_len).
            let total = KITH_PROTO_HDR_SIZE + unat wire_len
            in if 2 ^ 64 \<le> total then Inl KITH_EPROTO else Inr total))"

definition kith_proto_rejections_total :: "kith_proto option \<Rightarrow> kith_error + 64 word" where
  "kith_proto_rejections_total proto =
     (case proto of None \<Rightarrow> Inl KITH_EINVAL | Some p \<Rightarrow> Inr (kp_rejections p))"

definition kith_proto_correlation_hex :: "64 word \<Rightarrow> string" where
  "kith_proto_correlation_hex correlation_id =
     map (\<lambda>i. ''0123456789abcdef'' ! unat (drop_bit (4 * (15 - i)) correlation_id AND 0x0F))
       [0..<16]"

subsection \<open>The Python class\<close>

record Frame =
  frame_type_id :: int
  frame_flags :: int
  frame_has_correlation :: bool
  frame_correlation_id :: int
  frame_payload :: bytes

record Proto =
  pr_handle :: "kith_proto option"
  pr_closed :: bool

datatype proto_exc = PE_Kith kith_exc | PE_Unicode

definition check_rc :: "kith_error + 'a \<Rightarrow> exc_class option \<Rightarrow> proto_exc + 'a" where
  "check_rc r exc =
     (case r of
        Inr v \<Rightarrow> Inr v
      | Inl c \<Rightarrow> (case check_error (kith_error_return c) exc of
                    Inl x \<Rightarrow> Inl (PE_Kith x)
                  | Inr _ \<Rightarrow> Inl (PE_Kith (KithExc KithError c))))"

definition c_string :: "bytes \<Rightarrow> bytes" where
  "c_string = takeWhile (\<lambda>b. b \<noteq> 0)"

definition name_arg :: "pystr \<Rightarrow> proto_exc + bytes" where
  "name_arg s =
     (case utf8_encode s of Inl _ \<Rightarrow> Inl PE_Unicode | Inr b \<Rightarrow> Inr (c_string b))"

definition Proto_init :: "call_env \<Rightarrow> int \<Rightarrow> proto_exc + Proto" where
  "Proto_init env max_payload =
     rbind (check_rc (kith_proto_create env (word_of_int max_payload)) None) (\<lambda>h.
       Inr \<lparr>pr_handle = Some h, pr_closed = False\<rparr>)"

definition Proto_register_type ::
    "call_env \<Rightarrow> Proto \<Rightarrow> pystr \<Rightarrow> int \<Rightarrow> (proto_exc + unit) \<times> Proto" where
  "Proto_register_type env self name type_id =
     (case name_arg name of
        Inl e \<Rightarrow> (Inl e, self)
      | Inr nm \<Rightarrow>
          let (r, h) = kith_proto_register_type_id env (pr_handle self) (Some nm)
                         (word_of_int type_id)
          in (check_rc r (Some KithProtocolError), self\<lparr>pr_handle := h\<rparr>))"

definition Proto_lookup_type :: "call_env \<Rightarrow> Proto \<Rightarrow> pystr \<Rightarrow> proto_exc + int" where
  "Proto_lookup_type env self name =
     rbind (name_arg name) (\<lambda>nm.
     rbind (check_rc (kith_proto_lookup_type env (pr_handle self) (Some nm)) None) (\<lambda>i.
     Inr (uint i)))"

definition Proto_type_name :: "call_env \<Rightarrow> Proto \<Rightarrow> int \<Rightarrow> proto_exc + pystr option" where
  "Proto_type_name env self type_id =
     (case kith_proto_type_name env (pr_handle self) (word_of_int type_id) of
        None \<Rightarrow> Inr None
      | Some raw \<Rightarrow>
          if raw = [] then Inr None
          else (case utf8_decode raw of Inl _ \<Rightarrow> Inl PE_Unicode | Inr s \<Rightarrow> Inr (Some s)))"

definition Proto_measure_frame :: "Proto \<Rightarrow> int \<Rightarrow> int \<Rightarrow> int \<Rightarrow> bytes option \<Rightarrow> nat \<Rightarrow> nat" where
  "Proto_measure_frame self type_id flags correlation_id payload_buf payload_len =
     fst (kith_proto_encode (pr_handle self) (word_of_int type_id) (word_of_int flags)
            (word_of_int correlation_id) payload_buf (of_nat payload_len) None)"

definition Proto_encode ::
    "Proto \<Rightarrow> int \<Rightarrow> bytes \<Rightarrow> int \<Rightarrow> int \<Rightarrow> proto_exc + bytes" where
  "Proto_encode self type_id payload flags correlation_id =
     (let payload_buf = (if payload = [] then None else Some payload);
          cap = Proto_measure_frame self type_id flags correlation_id payload_buf (length payload)
      in if cap = 0 then Inl (PE_Kith (KithExc KithProtocolError KITH_EPROTO))
         else let (written, out) =
                    kith_proto_encode (pr_handle self) (word_of_int type_id) (word_of_int flags)
                      (word_of_int correlation_id) payload_buf (of_nat (length payload))
                      (Some (replicate cap 0))
              in if written = 0 then Inl (PE_Kith (KithExc KithProtocolError KITH_EPROTO))
                 else Inr (take written (the out)))"

definition Proto_decode :: "call_env \<Rightarrow> Proto \<Rightarrow> bytes \<Rightarrow> (proto_exc + Frame) \<times> Proto" where
  "Proto_decode env self buf =
     (let (r, h) = kith_proto_decode env (pr_handle self) (if buf = [] then None else Some buf)
      in (rbind (check_rc r (Some KithProtocolError)) (\<lambda>(f, _).
            Inr \<lparr>frame_type_id = uint (cf_type_id f), frame_flags = uint (cf_flags f),
                 frame_has_correlation = cf_has_correlation f,
                 frame_correlation_id = uint (cf_correlation_id f),
                 frame_payload = (case cf_payload f of None \<Rightarrow> [] | Some b \<Rightarrow> b)\<rparr>),
          self\<lparr>pr_handle := h\<rparr>))"

definition Proto_correlation_hex :: "int \<Rightarrow> string" where
  "Proto_correlation_hex correlation_id =
     kith_proto_correlation_hex (word_of_int correlation_id)"

definition Proto_close :: "Proto \<Rightarrow> Proto" where
  "Proto_close self = (if pr_closed self then self else \<lparr>pr_handle = None, pr_closed = True\<rparr>)"

subsection \<open>Lemmas of the codec\<close>

lemma read_be_u16_bytes [simp]: "read_be_u16 (ucast (drop_bit 8 w) # ucast w # r) = w"
  unfolding read_be_u16_def
  by (rule bit_word_eqI) (auto simp: bit_simps)

lemma be_step:
  fixes v :: "'a::len word"
  assumes "j = k + 8"
  shows "push_bit 8 (drop_bit j v) OR ucast (ucast (drop_bit k v) :: byte) = drop_bit k v"
proof (rule bit_word_eqI)
  fix n assume n: "n < LENGTH('a)"
  show "bit (push_bit 8 (drop_bit j v) OR ucast (ucast (drop_bit k v) :: byte)) n =
        bit (drop_bit k v) n"
  proof (cases "8 \<le> n")
    case True
    then have "j + (n - 8) = k + n" using assms by simp
    with True n show ?thesis by (simp add: bit_simps)
  next
    case False
    with n show ?thesis by (simp add: bit_simps)
  qed
qed

lemma read_be_u32_bytes [simp]:
  "read_be_u32 (ucast (drop_bit 24 w) # ucast (drop_bit 16 w) # ucast (drop_bit 8 w) # ucast w # r)
     = w"
proof -
  let ?b = "\<lambda>k. ucast (ucast (drop_bit k w) :: byte) :: 32 word"
  have "push_bit 8 (push_bit 8 (push_bit 8 (push_bit 8 (drop_bit 32 w) OR ?b 24) OR ?b 16) OR ?b 8)
          OR ?b 0 = drop_bit 0 w"
    by (simp only: be_step)
  moreover have "drop_bit 32 w = 0"
    by (rule bit_word_eqI) (auto simp: bit_simps)
  ultimately show ?thesis
    unfolding read_be_u32_def by (simp add: push_bit_or or.assoc)
qed

lemma upt_8: "[0..<8] = [0, 1, 2, 3, 4, 5, 6, 7::nat]"
  by (simp add: upt_rec)

lemma read_write_be_u64: "read_be_u64 (write_be_u64 v @ r) = v"
proof -
  let ?b = "\<lambda>k. ucast (ucast (drop_bit k v) :: byte) :: 64 word"
  have "drop_bit 64 v = 0"
    by (rule bit_word_eqI) (auto simp: bit_simps)
  then have "read_be_u64 (write_be_u64 v @ r) =
      push_bit 8 (push_bit 8 (push_bit 8 (push_bit 8 (push_bit 8 (push_bit 8 (push_bit 8 (push_bit 8
        (drop_bit 64 v) OR ?b 56) OR ?b 48) OR ?b 40) OR ?b 32) OR ?b 24) OR ?b 16) OR ?b 8) OR ?b 0"
    unfolding read_be_u64_def write_be_u64_def KITH_PROTO_CORR_TRAILER_SIZE_def upt_8
    by (simp add: nth_append)
  also have "\<dots> = drop_bit 0 v" by (simp only: be_step)
  finally show ?thesis by simp
qed

lemma length_write_be_u64 [simp]: "length (write_be_u64 v) = 8"
  by (simp add: write_be_u64_def KITH_PROTO_CORR_TRAILER_SIZE_def)


lemma memcpy_at_prefix:
  assumes "off \<le> length F" "off \<le> length out" "take k src = take k (drop off F)"
  shows "memcpy_at (take off F @ drop off out) off src k = take (off + k) F @ drop (off + k) out"
  using assms by (simp add: memcpy_at_def take_add add.commute [of k])

lemma write_frame_prefix:
  assumes "length hdr = KITH_PROTO_HDR_SIZE" "length payload = plen" "tlen = 0 \<or> tlen = KITH_PROTO_CORR_TRAILER_SIZE"
    and "n \<le> length out" "n \<le> KITH_PROTO_HDR_SIZE + plen + tlen"
  shows "write_frame out n hdr payload plen tlen c =
           take n (hdr @ payload @ (if tlen = 0 then [] else write_be_u64 c)) @ drop n out"
proof -
  let ?F = "hdr @ payload @ (if tlen = 0 then [] else write_be_u64 c)"
  note sizes = KITH_PROTO_HDR_SIZE_def KITH_PROTO_CORR_TRAILER_SIZE_def
  have len: "length ?F = 10 + plen + tlen" using assms by (auto simp: sizes)
  consider "n \<le> 10" | "10 < n" "n \<le> 10 + plen" | "10 + plen < n" by linarith
  then show ?thesis
  proof cases
    case 1
    then have "(if n < 10 then n else 10) = n" by auto
    with 1 assms show ?thesis by (simp add: write_frame_def sizes memcpy_at_def Let_def)
  next
    case 2
    then have "plen \<noteq> 0" "(if 10 + plen \<le> n then plen else n - 10) = n - 10" by auto
    with 2 assms show ?thesis by (simp add: write_frame_def sizes memcpy_at_def Let_def)
  next
    case 3
    then have t: "tlen = 8" using assms by (auto simp: sizes)
    then have last: "n = 18 + plen" if "18 + plen \<le> n"
      using assms that by (auto simp: sizes)
    have "memcpy_at out 0 hdr 10 = take 10 ?F @ drop 10 out"
      using assms by (simp add: memcpy_at_def sizes)
    moreover have "memcpy_at (take 10 ?F @ drop 10 out) 10 payload plen
        = take (10 + plen) ?F @ drop (10 + plen) out"
      by (rule memcpy_at_prefix) (use assms 3 in \<open>auto simp: sizes\<close>)
    moreover have "memcpy_at (take (10 + plen) ?F @ drop (10 + plen) out) (10 + plen)
          (write_be_u64 c) (n - (10 + plen))
        = take (10 + plen + (n - (10 + plen))) ?F @ drop (10 + plen + (n - (10 + plen))) out"
      by (rule memcpy_at_prefix) (use assms 3 t in \<open>auto simp: sizes\<close>)
    ultimately show ?thesis
      using 3 t last
      by (cases "plen = 0"; cases "18 + plen \<le> n")
        (simp_all add: write_frame_def sizes Let_def del: take_append)
  qed
qed

definition frame_bytes :: "16 word \<Rightarrow> 8 word \<Rightarrow> 64 word \<Rightarrow> bytes \<Rightarrow> bytes" where
  "frame_bytes type_id flags correlation_id payload =
     frame_header flags type_id (of_nat (length payload + trailer_len_of flags)) @ payload @
     (if trailer_len_of flags = 0 then [] else write_be_u64 correlation_id)"

definition frame_fits :: "kith_proto \<Rightarrow> 8 word \<Rightarrow> bytes \<Rightarrow> bool" where
  "frame_fits p flags payload \<longleftrightarrow>
     length payload + trailer_len_of flags \<le> unat (kp_max_payload p)"

lemmas proto_sizes = KITH_PROTO_HDR_SIZE_def KITH_PROTO_CORR_TRAILER_SIZE_def

lemma trailer_len_cases: "trailer_len_of flags = 0 \<or> trailer_len_of flags = 8"
  by (simp add: trailer_len_of_def proto_sizes)

lemma length_frame_header [simp]: "length (frame_header f t w) = KITH_PROTO_HDR_SIZE"
  by (simp add: frame_header_def proto_sizes)

lemma length_frame_bytes:
  "length (frame_bytes t f c payload) = KITH_PROTO_HDR_SIZE + length payload + trailer_len_of f"
  using trailer_len_cases [of f] by (auto simp: frame_bytes_def)

lemma unat_less_32 [simp]: "unat (w :: 32 word) < 4294967296"
  using unsigned_less [of w] by simp

lemma unat_of_nat_32: "n < 4294967296 \<Longrightarrow> unat (of_nat n :: 32 word) = n"
  by (simp add: unat_of_nat)

lemma write_frame_bytes:
  assumes "length payload + trailer_len_of f = m" "N = KITH_PROTO_HDR_SIZE + m"
  shows "write_frame out (if length out < N then length out else N)
           (frame_header f t (of_nat m)) payload (length payload) (trailer_len_of f) c
         = take (length out) (frame_bytes t f c payload) @
           drop (length (frame_bytes t f c payload)) out"
proof -
  have F: "frame_bytes t f c payload = frame_header f t (of_nat m) @ payload @
      (if trailer_len_of f = 0 then [] else write_be_u64 c)"
    by (simp only: frame_bytes_def assms(1))
  have N: "length (frame_bytes t f c payload) = N"
    using assms by (simp add: length_frame_bytes)
  have "write_frame out (min (length out) N) (frame_header f t (of_nat m)) payload
          (length payload) (trailer_len_of f) c
      = take (min (length out) N) (frame_bytes t f c payload) @ drop (min (length out) N) out"
    unfolding F
    by (rule write_frame_prefix) (use trailer_len_cases [of f] assms in \<open>auto simp: proto_sizes\<close>)
  moreover have "(if length out < N then length out else N) = min (length out) N" by auto
  ultimately show ?thesis using N by (cases "length out < N") simp_all
qed

lemma kith_proto_encode_frame:
  assumes "length payload < 2 ^ 32"
  shows "kith_proto_encode (Some p) t f c (if payload = [] then None else Some payload)
           (of_nat (length payload)) buf =
         (if frame_fits p f payload
          then (KITH_PROTO_HDR_SIZE + length payload + trailer_len_of f,
                map_option (\<lambda>out. take (length out) (frame_bytes t f c payload) @
                                   drop (length (frame_bytes t f c payload)) out) buf)
          else (0, buf))"
proof -
  let ?n = "length payload" and ?t = "trailer_len_of f"
  have n: "unat (of_nat ?n :: 32 word) = ?n" using assms by (simp add: unat_of_nat_32)
  have nz: "(of_nat ?n :: 32 word) = 0 \<longleftrightarrow> payload = []"
    unfolding word_unat_eq_iff n by simp
  have pay: "(case if payload = [] then None else Some payload of None \<Rightarrow> [] | Some b \<Rightarrow> b) = payload"
    by simp
  show ?thesis
  proof (cases "?n + ?t < 2 ^ 32")
    case False
    then have "\<not> frame_fits p f payload"
      using unat_less_32 [of "kp_max_payload p"] by (simp add: frame_fits_def del: unat_less_32)
    with False show ?thesis by (simp add: kith_proto_encode_def n nz)
  next
    case True
    then have w: "unat (of_nat (?n + ?t) :: 32 word) = ?n + ?t"
      by (intro unat_of_nat_32) simp
    then have fit: "kp_max_payload p < of_nat (?n + ?t) \<longleftrightarrow> \<not> frame_fits p f payload"
      by (simp only: word_less_nat_alt frame_fits_def not_le)
    have tot: "\<not> 2 ^ 64 \<le> KITH_PROTO_HDR_SIZE + (?n + ?t)" using True by (simp add: proto_sizes)
    have F0: "length (frame_bytes t f c payload) \<noteq> 0"
      by (simp add: frame_bytes_def frame_header_def)
    show ?thesis
      unfolding kith_proto_encode_def option.case n Let_def pay of_nat_add [symmetric] w fit
      using True tot write_frame_bytes [where payload = payload and f = f and t = t and c = c, OF refl refl]
      by (cases buf; cases "payload = []") (simp_all add: nz)
  qed
qed

lemma parse_header_frame_header:
  "parse_header (frame_header f t w @ rest) = Inr (t, f, w)"
  by (simp add: parse_header_def frame_header_def proto_sizes)

lemma parse_header_frame_bytes:
  "parse_header (frame_bytes t f c payload @ rest) =
     Inr (t, f, of_nat (length payload + trailer_len_of f))"
  unfolding frame_bytes_def append_assoc by (rule parse_header_frame_header)

lemma parse_header_prefix:
  assumes "KITH_PROTO_HDR_SIZE \<le> k"
  shows "parse_header (take k b) = (if length b < KITH_PROTO_HDR_SIZE then Inl KITH_EAGAIN else parse_header b)"
proof -
  have "read_be_u16 (drop 4 (take k b)) = read_be_u16 (drop 4 b)"
    "read_be_u32 (drop 6 (take k b)) = read_be_u32 (drop 6 b)"
    if "10 \<le> length b"
    using assms that by (simp_all add: read_be_u16_def read_be_u32_def proto_sizes)
  with assms show ?thesis
    by (cases "length b < KITH_PROTO_HDR_SIZE") (auto simp: parse_header_def proto_sizes)
qed

definition frame_of :: "16 word \<Rightarrow> 8 word \<Rightarrow> 64 word \<Rightarrow> bytes \<Rightarrow> c_frame" where
  "frame_of t f c payload =
     \<lparr>cf_type_id = t, cf_flags = f, cf_has_correlation = (trailer_len_of f \<noteq> 0),
      cf_correlation_id = (if trailer_len_of f = 0 then 0 else c),
      cf_payload = (if payload = [] then None else Some payload)\<rparr>"

lemma frame_fits_wire:
  assumes "frame_fits q f payload"
  shows "unat (of_nat (length payload + trailer_len_of f) :: 32 word) =
           length payload + trailer_len_of f"
    "\<not> kp_max_payload q < of_nat (length payload + trailer_len_of f)"
proof -
  have "length payload + trailer_len_of f < 4294967296"
    using assms unat_less_32 [of "kp_max_payload q"] unfolding frame_fits_def
    by (rule le_less_trans)
  then show u: "unat (of_nat (length payload + trailer_len_of f) :: 32 word) =
      length payload + trailer_len_of f"
    by (rule unat_of_nat_32)
  show "\<not> kp_max_payload q < of_nat (length payload + trailer_len_of f)"
    unfolding word_less_nat_alt u using assms by (simp add: frame_fits_def)
qed

lemma has_corr_iff: "flags AND KITH_PROTO_FLAG_CORRELATION \<noteq> 0 \<longleftrightarrow> trailer_len_of flags = 8"
  by (simp add: trailer_len_of_def proto_sizes)

lemma kith_proto_decode_frame:
  assumes "frame_fits q f payload" "find_by_id_locked q t \<noteq> None" "lock_ok env"
  shows "kith_proto_decode env (Some q) (Some (frame_bytes t f c payload @ rest)) =
           (Inr (frame_of t f c payload, length (frame_bytes t f c payload)), Some q)"
proof -
  let ?b = "frame_bytes t f c payload @ rest" and ?m = "length payload + trailer_len_of f"
  have m: "?m < 4294967296"
    using frame_fits_wire(1) [OF assms(1)] unat_less_32 by metis
  have tot: "\<not> 2 ^ 64 \<le> KITH_PROTO_HDR_SIZE + ?m" using m by (simp add: proto_sizes)
  have len: "\<not> length ?b < KITH_PROTO_HDR_SIZE + ?m" by (simp add: length_frame_bytes)
  have pay: "take (length payload) (drop KITH_PROTO_HDR_SIZE ?b) = payload"
    by (simp add: frame_bytes_def)
  have corr: "read_be_u64 (drop (KITH_PROTO_HDR_SIZE + ?m - KITH_PROTO_CORR_TRAILER_SIZE) ?b) = c"
    if "trailer_len_of f = 8"
    using that by (simp add: frame_bytes_def read_write_be_u64 proto_sizes)
  show ?thesis
    unfolding kith_proto_decode_def prod.case option.case parse_header_frame_bytes sum.case Let_def
      frame_fits_wire(1) [OF assms(1)] has_corr_iff
    using assms tot len pay corr frame_fits_wire(2) [OF assms(1)] trailer_len_cases [of f]
    by (auto simp: frame_of_def length_frame_bytes proto_sizes)
qed

lemma kith_proto_decode_partial:
  assumes "frame_fits q f payload" "k < length (frame_bytes t f c payload)"
  shows "kith_proto_decode env (Some q) (Some (take k (frame_bytes t f c payload))) =
           (Inl KITH_EAGAIN, Some q)"
proof (cases "k < KITH_PROTO_HDR_SIZE")
  case True
  then show ?thesis using assms by (simp add: kith_proto_decode_def parse_header_def)
next
  case False
  have m: "length payload + trailer_len_of f < 4294967296"
    using frame_fits_wire(1) [OF assms(1)] unat_less_32 by metis
  have "parse_header (take k (frame_bytes t f c payload)) =
      Inr (t, f, of_nat (length payload + trailer_len_of f))"
    using parse_header_prefix [of k "frame_bytes t f c payload"]
      parse_header_frame_bytes [of t f c payload "[]"] False
    by (simp add: length_frame_bytes)
  then show ?thesis
    using assms(2) frame_fits_wire(2) [OF assms(1)] m
    by (simp add: kith_proto_decode_def Let_def frame_fits_wire(1) [OF assms(1)]
        length_frame_bytes proto_sizes del: of_nat_add)
qed

subsection \<open>Properties of the frame codec\<close>

lemma check_rc_Inr [simp]: "check_rc (Inr v) exc = Inr v"
  by (simp add: check_rc_def)

lemma check_rc_Inl [simp]:
  "c \<noteq> KITH_OK \<Longrightarrow> check_rc (Inl c) (Some cls) = Inl (PE_Kith (KithExc cls c))"
  by (simp add: check_rc_def)

lemma Proto_encode_eq:
  assumes "pr_handle self = Some p" "length payload < 2 ^ 32"
  shows "Proto_encode self type_id payload flags correlation_id =
    (if frame_fits p (word_of_int flags) payload
     then Inr (frame_bytes (word_of_int type_id) (word_of_int flags) (word_of_int correlation_id)
                 payload)
     else Inl (PE_Kith (KithExc KithProtocolError KITH_EPROTO)))"
  using assms
  by (simp add: Proto_encode_def Proto_measure_frame_def kith_proto_encode_frame Let_def
      length_frame_bytes proto_sizes)

lemma Proto_encode_InrD:
  assumes "Proto_encode self type_id payload flags correlation_id = Inr wire"
    and "length payload < 2 ^ 32"
  obtains p where "pr_handle self = Some p" "frame_fits p (word_of_int flags) payload"
    "wire = frame_bytes (word_of_int type_id) (word_of_int flags) (word_of_int correlation_id) payload"
proof (cases "pr_handle self")
  case None
  then show ?thesis
    using assms(1) by (simp add: Proto_encode_def Proto_measure_frame_def kith_proto_encode_def)
next
  case (Some p)
  then show ?thesis
    using that assms(1) Proto_encode_eq [OF Some assms(2), of type_id flags correlation_id]
    by (simp split: if_splits)
qed

lemma frame_bytes_nonempty [simp]: "frame_bytes t f c payload \<noteq> []"
  by (simp add: frame_bytes_def frame_header_def)

text \<open>C1: A frame encoded by one \<open>Proto\<close> and decoded by another that has the type registered and
  whose payload limit admits it comes back with the sent payload, the identifiers reduced to their
  wire widths, the correlation id exactly when the flag is set, and the receiver's handle unchanged;
  bytes that follow the frame in the buffer do not matter.\<close>

theorem proto_encode_decode_roundtrip:
  assumes "length payload < 2 ^ 32"
    and "Proto_encode sender type_id payload flags correlation_id = Inr wire"
    and "pr_handle receiver = Some q"
    and "find_by_id_locked q (word_of_int type_id) \<noteq> None"
    and "length wire \<le> KITH_PROTO_HDR_SIZE + unat (kp_max_payload q)"
    and "lock_ok env"
  shows "Proto_decode env receiver (wire @ rest) =
    (Inr \<lparr>frame_type_id = type_id mod 2 ^ 16, frame_flags = flags mod 2 ^ 8,
          frame_has_correlation = bit flags 1,
          frame_correlation_id = (if bit flags 1 then correlation_id mod 2 ^ 64 else 0),
          frame_payload = payload\<rparr>, receiver)"
proof -
  let ?t = "word_of_int type_id :: 16 word" and ?f = "word_of_int flags :: 8 word"
    and ?c = "word_of_int correlation_id :: 64 word"
  have wire: "wire = frame_bytes ?t ?f ?c payload"
    using Proto_encode_InrD [OF assms(2,1)] by blast
  have fits: "frame_fits q ?f payload"
    using assms(5) by (simp add: wire length_frame_bytes frame_fits_def)
  have bit: "trailer_len_of ?f \<noteq> 0 \<longleftrightarrow> bit flags 1"
  proof -
    have "?f AND KITH_PROTO_FLAG_CORRELATION = 0 \<longleftrightarrow> \<not> bit ?f 1"
      using and_exp_eq_0_iff_not_bit [of ?f 1] by (simp add: KITH_PROTO_FLAG_CORRELATION_def)
    then show ?thesis by (simp add: trailer_len_of_def proto_sizes bit_simps)
  qed
  show ?thesis
    using assms(3,6) kith_proto_decode_frame [OF fits assms(4,6), of ?c rest] bit
    by (auto simp: Proto_decode_def wire frame_of_def uint_word_of_int)
qed

definition demo_proto :: Proto where
  "demo_proto =
     \<lparr>pr_handle = Some \<lparr>kp_types = [\<lparr>te_name = [0x67], te_id = 1100\<rparr>], kp_cap = 16,
                         kp_max_payload = 64, kp_rejections = 0\<rparr>, pr_closed = False\<rparr>"

definition demo_env :: call_env where
  "demo_env = \<lparr>lock_ok = True, grow_ok = True, dup_ok = True\<rparr>"

definition demo_wire :: bytes where
  "demo_wire = [0x4B, 0x54, 1, 2, 4, 0x4C, 0, 0, 0, 11, 9, 8, 7, 0, 0, 0, 0, 0, 0, 1, 5]"

lemma demo_encode: "Proto_encode demo_proto 1100 [9, 8, 7] 2 261 = Inr demo_wire"
  by (simp add: Proto_encode_eq [where p = "the (pr_handle demo_proto)"] demo_proto_def demo_wire_def
      frame_fits_def frame_bytes_def frame_header_def trailer_len_of_def write_be_u64_def upt_8
      proto_sizes KITH_PROTO_FLAG_CORRELATION_def KITH_PROTO_MAGIC0_def KITH_PROTO_MAGIC1_def
      KITH_PROTO_VERSION_def)

theorem proto_encode_decode_roundtrip_witness:
  "Proto_encode demo_proto 1100 [9, 8, 7] 2 261 = Inr demo_wire \<and>
   Proto_decode demo_env demo_proto (demo_wire @ [1, 2]) =
    (Inr \<lparr>frame_type_id = 1100, frame_flags = 2, frame_has_correlation = True,
          frame_correlation_id = 261, frame_payload = [9, 8, 7]\<rparr>, demo_proto)"
  using proto_encode_decode_roundtrip [of "[9, 8, 7]" demo_proto 1100 2 261 demo_wire demo_proto
      "the (pr_handle demo_proto)" demo_env "[1, 2]"] demo_encode
  by (simp add: demo_proto_def demo_env_def find_by_id_locked_def demo_wire_def proto_sizes bit_iff_odd)

lemma decode_rejections:
  assumes "kith_proto_decode env (Some p) buf = (r, h)"
  shows "h = Some (p\<lparr>kp_rejections := kp_rejections p + (if r = Inl KITH_EPROTO then 1 else 0)\<rparr>)"
  using assms unfolding kith_proto_decode_def proto_reject_def
  by (auto simp: Let_def split: option.splits sum.splits prod.splits if_splits)

definition decode_seq ::
    "kith_proto option \<Rightarrow> (call_env \<times> bytes option) list \<Rightarrow>
     (kith_error + (c_frame \<times> nat)) list \<times> kith_proto option" where
  "decode_seq h calls =
     foldl (\<lambda>(rs, h). \<lambda>(env, buf). let (r, h') = kith_proto_decode env h buf in (rs @ [r], h'))
       ([], h) calls"

text \<open>The handle's rejection counter is exact: over any sequence of decode calls, whatever the
  buffers and whatever the mutex answers, it grows by the number of calls that returned
  \<open>KITH_EPROTO\<close> (modulo \<open>2^64\<close>), and decoding changes nothing else of the handle.\<close>

theorem decode_counts_every_rejection:
  assumes "decode_seq (Some p) calls = (rs, h)"
  shows "length rs = length calls \<and>
    h = Some (p\<lparr>kp_rejections := kp_rejections p + of_nat (count_list rs (Inl KITH_EPROTO))\<rparr>)"
proof -
  have "(case foldl (\<lambda>(rs, h). \<lambda>(env, buf). let (r, h') = kith_proto_decode env h buf
               in (rs @ [r], h')) ([], Some p) calls of
       (rs, h) \<Rightarrow> length rs = length calls \<and>
         h = Some (p\<lparr>kp_rejections := kp_rejections p + of_nat (count_list rs (Inl KITH_EPROTO))\<rparr>))"
  proof (induction calls rule: rev_induct)
    case (snoc x xs)
    obtain env buf where x: "x = (env, buf)" by (cases x)
    obtain rs h where f: "foldl (\<lambda>(rs, h). \<lambda>(env, buf). let (r, h') = kith_proto_decode env h buf
               in (rs @ [r], h')) ([], Some p) xs = (rs, h)" by force
    obtain r h' where d: "kith_proto_decode env h buf = (r, h')" by force
    from snoc f have h: "length rs = length xs"
      "h = Some (p\<lparr>kp_rejections := kp_rejections p + of_nat (count_list rs (Inl KITH_EPROTO))\<rparr>)"
      by simp_all
    show ?case using decode_rejections [OF d [unfolded h(2)]] f x d h by simp
  qed simp
  then show ?thesis using assms by (simp add: decode_seq_def)
qed

theorem decode_counts_every_rejection_witness:
  "snd (decode_seq (pr_handle demo_proto) [(demo_env, Some (replicate 10 0)), (demo_env, Some [])])
     = Some (the (pr_handle demo_proto)\<lparr>kp_rejections := 1\<rparr>)"
proof -
  let ?calls = "[(demo_env, Some (replicate 10 0)), (demo_env, Some [])]"
  have "fst (decode_seq (pr_handle demo_proto) ?calls) = [Inl KITH_EPROTO, Inl KITH_EAGAIN]"
    by (simp add: decode_seq_def demo_proto_def kith_proto_decode_def parse_header_def proto_sizes
        proto_reject_def KITH_PROTO_MAGIC0_def Let_def)
  then obtain h where
    "decode_seq (Some (the (pr_handle demo_proto))) ?calls = ([Inl KITH_EPROTO, Inl KITH_EAGAIN], h)"
    by (cases "decode_seq (pr_handle demo_proto) ?calls") (simp add: demo_proto_def)
  from decode_counts_every_rejection [OF this] this show ?thesis
    by (simp add: demo_proto_def)
qed

text \<open>C30: A frame that has not fully arrived is never misread: decoding any proper prefix of an
  encoded frame raises \<open>KithProtocolError\<close> with \<open>KITH_EAGAIN\<close> and counts no rejection. The empty
  buffer is the exception: it is passed as a null pointer and reported as \<open>KITH_EINVAL\<close>.\<close>

theorem proto_decode_partial_frame:
  assumes "length payload < 2 ^ 32"
    and "Proto_encode sender type_id payload flags correlation_id = Inr wire"
    and "pr_handle receiver = Some q"
    and "length wire \<le> KITH_PROTO_HDR_SIZE + unat (kp_max_payload q)"
    and "k < length wire"
  shows "Proto_decode env receiver (take k wire) =
    (Inl (PE_Kith (KithExc KithProtocolError (if k = 0 then KITH_EINVAL else KITH_EAGAIN))),
     receiver)"
proof -
  let ?t = "word_of_int type_id :: 16 word" and ?f = "word_of_int flags :: 8 word"
    and ?c = "word_of_int correlation_id :: 64 word"
  have wire: "wire = frame_bytes ?t ?f ?c payload"
    using Proto_encode_InrD [OF assms(2,1)] by blast
  have fits: "frame_fits q ?f payload"
    using assms(4) by (simp add: wire length_frame_bytes frame_fits_def)
  show ?thesis
    using assms(3) kith_proto_decode_partial [OF fits assms(5) [unfolded wire]]
    by (cases "k = 0") (simp_all add: Proto_decode_def kith_proto_decode_def wire)
qed

theorem proto_decode_partial_frame_witness:
  "Proto_decode demo_env demo_proto (take 12 demo_wire) =
     (Inl (PE_Kith (KithExc KithProtocolError KITH_EAGAIN)), demo_proto) \<and>
   Proto_decode demo_env demo_proto (take 0 demo_wire) =
     (Inl (PE_Kith (KithExc KithProtocolError KITH_EINVAL)), demo_proto)"
  using proto_decode_partial_frame [of "[9, 8, 7]" demo_proto 1100 2 261 demo_wire demo_proto
      "the (pr_handle demo_proto)" 12 demo_env]
    proto_decode_partial_frame [of "[9, 8, 7]" demo_proto 1100 2 261 demo_wire demo_proto
      "the (pr_handle demo_proto)" 0 demo_env] demo_encode
  by (simp add: demo_proto_def demo_wire_def proto_sizes)

text \<open>\<open>kith_proto_encode\<close> into a buffer of any capacity returns the full frame length, writes
  exactly the prefix of the frame that fits and leaves the bytes behind it alone; it never writes
  past the capacity.\<close>

theorem encode_into_any_buffer:
  assumes "length payload < 2 ^ 32"
    and "Proto_encode self type_id payload flags correlation_id = Inr wire"
  shows "kith_proto_encode (pr_handle self) (word_of_int type_id) (word_of_int flags)
           (word_of_int correlation_id) (if payload = [] then None else Some payload)
           (of_nat (length payload)) (Some out) =
         (length wire, Some (take (length out) wire @ drop (length wire) out))"
proof -
  obtain p where "pr_handle self = Some p" "frame_fits p (word_of_int flags) payload"
    "wire = frame_bytes (word_of_int type_id) (word_of_int flags) (word_of_int correlation_id) payload"
    using Proto_encode_InrD [OF assms(2,1)] by blast
  then show ?thesis by (simp add: kith_proto_encode_frame [OF assms(1)] length_frame_bytes)
qed

theorem encode_into_any_buffer_witness:
  "kith_proto_encode (pr_handle demo_proto) 1100 2 261 (Some [9, 8, 7]) 3
     (Some (replicate 30 0xFF)) =
   (21, Some (demo_wire @ replicate 9 0xFF))"
  using encode_into_any_buffer [of "[9, 8, 7]" demo_proto 1100 2 261 demo_wire "replicate 30 0xFF"]
    demo_encode
  by (simp add: demo_wire_def)

lemma hex_fixed_map:
  "hex_fixed n v = map (\<lambda>i. hex_digit (v div 16 ^ (n - 1 - i) mod 16)) [0..<n]"
proof (induction n arbitrary: v)
  case (Suc n)
  have "v div 16 div 16 ^ (n - 1 - i) = v div 16 ^ (n - i)" if "i < n" for i
    using that by (simp add: div_mult2_eq [symmetric] Suc_diff_Suc flip: power_Suc)
  then show ?case by (simp add: Suc)
qed simp

lemma correlation_hex_eq: "kith_proto_correlation_hex w = hex_fixed 16 (unat w)"
proof -
  have w: "unat w < 2 ^ 64" using unsigned_less [of w] by simp
  have "unat (drop_bit (4 * k) w AND 0x0F) = unat w div 16 ^ k mod 16" for k
  proof -
    have "unat (drop_bit (4 * k) w AND mask 4) = unat (drop_bit (4 * k) w) mod 2 ^ 4"
      by (simp add: take_bit_eq_mask [symmetric] take_bit_eq_mod unat_mod)
    moreover have "unat (drop_bit (4 * k) w) = drop_bit (4 * k) (unat w)"
      using w by (simp add: unsigned_drop_bit_eq take_bit_nat_eq_self)
    moreover have "drop_bit (4 * k) (unat w) = unat w div 16 ^ k"
      by (simp add: drop_bit_eq_div power_mult)
    ultimately show ?thesis by (simp add: mask_eq_exp_minus_1)
  qed
  then show ?thesis
    by (simp add: kith_proto_correlation_hex_def hex_fixed_map hex_digit_def)
qed

text \<open>\<open>correlation_hex\<close> formats an id as sixteen hexadecimal digits that read back as the id
  modulo \<open>2^64\<close>.\<close>

theorem correlation_hex_roundtrip:
  "length (Proto_correlation_hex cid) = 16 \<and>
   hex_val 0 (Proto_correlation_hex cid) = Some (nat (cid mod 2 ^ 64))"
proof -
  have "unat (word_of_int cid :: 64 word) = nat (cid mod 2 ^ 64)"
    by (simp add: unsigned_of_int take_bit_eq_mod nat_mod_distrib)
  moreover have "nat (cid mod 2 ^ 64) < 2 ^ 64" by (simp add: nat_less_iff)
  ultimately show ?thesis
    by (simp add: Proto_correlation_hex_def correlation_hex_eq hex_val_hex_fixed)
qed

end
