(* ===== verification/TypeRegistry.thy ===== *)
theory TypeRegistry
  imports WireProto
begin

text \<open>
  The message-type registry as a contract. \<open>type_registry\<close> is what the two ends of a connection rely
  on when they register a catalog of message types; the lemmas inside the locale show that peers
  that register the same catalog, in any order, agree on it. The interpretation \<open>wire_types\<close>
  discharges the contract for \<open>Proto.register_type\<close>, \<open>lookup_type\<close> and \<open>type_name\<close>.
\<close>

subsection \<open>The registry of a handle\<close>

definition registry_wf :: "kith_proto \<Rightarrow> bool" where
  "registry_wf p \<longleftrightarrow>
     distinct (map te_name (kp_types p)) \<and> distinct (map te_id (kp_types p)) \<and>
     (\<forall>e \<in> set (kp_types p). te_name e \<noteq> [] \<and> 0 \<notin> set (te_name e)) \<and>
     length (kp_types p) \<le> kp_cap p"

lemma find_append: "find P (xs @ ys) = (case find P xs of None \<Rightarrow> find P ys | Some x \<Rightarrow> Some x)"
  by (induction xs) simp_all

lemma find_by_name_iff:
  assumes "distinct (map te_name ts)"
  shows "find (\<lambda>e. te_name e = nm) ts = Some e \<longleftrightarrow> e \<in> set ts \<and> te_name e = nm"
  using assms by (induction ts) auto

lemma find_by_id_iff:
  assumes "distinct (map te_id ts)"
  shows "find (\<lambda>e. te_id e = i) ts = Some e \<longleftrightarrow> e \<in> set ts \<and> te_id e = i"
  using assms by (induction ts) auto

lemma registry_name_id:
  assumes "registry_wf p"
  shows "map_option te_id (find_by_name_locked p nm) = Some i \<longleftrightarrow>
         map_option te_name (find_by_id_locked p i) = Some nm"
  using assms
  by (auto simp: registry_wf_def find_by_name_locked_def find_by_id_locked_def
      find_by_name_iff find_by_id_iff)

lemma register_cases:
  "kith_proto_register_type_id env (Some p) (Some nm) i =
     (if nm = [] then (Inl KITH_EINVAL, Some p)
      else if \<not> lock_ok env then (Inl KITH_ESTATE, Some p)
      else case find_by_name_locked p nm of
             Some e \<Rightarrow> (if te_id e = i then Inr () else Inl KITH_EINVAL, Some p)
           | None \<Rightarrow>
               if find_by_id_locked p i \<noteq> None then (Inl KITH_EEXIST, Some p)
               else if length (kp_types p) = kp_cap p \<and> \<not> grow_ok env then (Inl KITH_ENOMEM, Some p)
               else let p' = (if length (kp_types p) = kp_cap p
                              then p\<lparr>kp_cap := if kp_cap p = 0 then 16 else kp_cap p * 2\<rparr> else p)
                    in if \<not> dup_ok env then (Inl KITH_ENOMEM, Some p')
                       else (Inr (), Some (p'\<lparr>kp_types :=
                               kp_types p @ [\<lparr>te_name = nm, te_id = i\<rparr>]\<rparr>)))"
  by (cases nm) (auto simp: kith_proto_register_type_id_def grow_types_locked_def Let_def
      split: option.splits)

lemma register_wf:
  assumes "registry_wf p" "0 \<notin> set nm"
    "kith_proto_register_type_id env (Some p) (Some nm) i = (r, Some p')"
  shows "registry_wf p'"
  using assms unfolding register_cases
  by (auto simp: registry_wf_def find_by_name_locked_def find_by_id_locked_def find_None_iff Let_def
      split: if_splits option.splits)

lemma register_handle:
  "kith_proto_register_type_id env (Some p) (Some nm) i = (r, h) \<Longrightarrow> \<exists>p'. h = Some p'"
  unfolding register_cases by (auto simp: Let_def split: if_splits option.splits)

text \<open>A locale for the contract a message-type registry offers to the programs that use it.\<close>

locale type_registry =
  fixes inv :: "'r \<Rightarrow> bool"
    and okn :: "'n \<Rightarrow> bool"
    and oki :: "'i \<Rightarrow> bool"
    and reg :: "'r \<Rightarrow> 'n \<Rightarrow> 'i \<Rightarrow> 'r option"
    and by_name :: "'r \<Rightarrow> 'n \<Rightarrow> 'i option"
    and by_id :: "'r \<Rightarrow> 'i \<Rightarrow> 'n option"
  assumes agree: "\<lbrakk>inv r; okn n; oki i\<rbrakk> \<Longrightarrow> by_name r n = Some i \<longleftrightarrow> by_id r i = Some n"
    and reg_inv: "\<lbrakk>inv r; okn n; oki i; reg r n i = Some r'\<rbrakk> \<Longrightarrow> inv r'"
    and reg_accepts: "\<lbrakk>inv r; okn n; oki i\<rbrakk> \<Longrightarrow>
      reg r n i \<noteq> None \<longleftrightarrow> by_name r n = Some i \<or> (by_name r n = None \<and> by_id r i = None)"
    and reg_by_name: "\<lbrakk>inv r; okn n; oki i; reg r n i = Some r'; okn m\<rbrakk> \<Longrightarrow>
      by_name r' m = (if m = n then Some i else by_name r m)"
    and by_id_ok: "\<lbrakk>inv r; oki i; by_id r i = Some n\<rbrakk> \<Longrightarrow> okn n"
begin

lemma by_id_iff: "\<lbrakk>inv r; oki i\<rbrakk> \<Longrightarrow> by_id r i = Some n \<longleftrightarrow> okn n \<and> by_name r n = Some i"
  using agree by_id_ok by blast

lemma reg_by_id:
  assumes "inv r" "okn n" "oki i" "reg r n i = Some r'" "oki j"
  shows "by_id r' j = (if j = i then Some n else by_id r j)"
proof -
  have acc: "by_name r n = Some i \<or> (by_name r n = None \<and> by_id r i = None)"
    using reg_accepts [OF assms(1-3)] assms(4) by simp
  have inv': "inv r'" by (rule reg_inv [OF assms(1-4)])
  have "by_id r' j = Some x \<longleftrightarrow> (if j = i then Some n else by_id r j) = Some x" for x
  proof -
    have r': "by_id r' j = Some x \<longleftrightarrow> okn x \<and> by_name r' x = Some j"
      by (rule by_id_iff [OF inv' assms(5)])
    have r: "by_id r j = Some x \<longleftrightarrow> okn x \<and> by_name r x = Some j"
      by (rule by_id_iff [OF assms(1,5)])
    have i: "by_id r i = Some x \<longleftrightarrow> okn x \<and> by_name r x = Some i" for x
      by (rule by_id_iff [OF assms(1,3)])
    show ?thesis
      using acc r r' i [of x] i [of n] reg_by_name [OF assms(1-4), of x] assms(2)
      by (cases "okn x"; cases "x = n"; cases "j = i") auto
  qed
  then show ?thesis by (metis option.exhaust option.simps(3))
qed

fun reg_all :: "'r \<Rightarrow> ('n \<times> 'i) list \<Rightarrow> 'r option" where
  "reg_all r [] = Some r"
| "reg_all r ((n, i) # cat) = (case reg r n i of None \<Rightarrow> None | Some r' \<Rightarrow> reg_all r' cat)"

definition catalog_ok :: "('n \<times> 'i) list \<Rightarrow> bool" where
  "catalog_ok cat \<longleftrightarrow>
     distinct (map fst cat) \<and> distinct (map snd cat) \<and> (\<forall>(n, i) \<in> set cat. okn n \<and> oki i)"

lemma catalog_registers:
  assumes "inv r" "catalog_ok cat"
    and "\<forall>(n, i) \<in> set cat. by_name r n = None \<and> by_id r i = None"
  shows "\<exists>r'. reg_all r cat = Some r' \<and> inv r' \<and>
           (\<forall>m. okn m \<longrightarrow> by_name r' m = (case map_of cat m of Some i \<Rightarrow> Some i | None \<Rightarrow> by_name r m))"
  using assms
proof (induction cat arbitrary: r)
  case (Cons ni cat)
  obtain n i where ni: "ni = (n, i)" by (cases ni)
  with Cons.prems have ok: "okn n" "oki i" and fresh: "by_name r n = None" "by_id r i = None"
    by (auto simp: catalog_ok_def)
  then obtain r1 where r1: "reg r n i = Some r1"
    using reg_accepts [OF Cons.prems(1) ok] by auto
  have inv1: "inv r1" by (rule reg_inv [OF Cons.prems(1) ok r1])
  have cat: "catalog_ok cat" using Cons.prems(2) by (auto simp: catalog_ok_def)
  have "by_name r1 m = None \<and> by_id r1 j = None" if mj: "(m, j) \<in> set cat" for m j
  proof -
    have "okn m" "oki j" "by_name r m = None" "by_id r j = None" "m \<in> fst ` set cat"
      "j \<in> snd ` set cat"
      using Cons.prems(2,3) mj by (auto simp: catalog_ok_def rev_image_eqI)
    moreover have "n \<notin> fst ` set cat" "i \<notin> snd ` set cat"
      using Cons.prems(2) by (auto simp: catalog_ok_def ni)
    ultimately show ?thesis
      using reg_by_name [OF Cons.prems(1) ok r1] reg_by_id [OF Cons.prems(1) ok r1] by auto
  qed
  then have "\<forall>(m, j) \<in> set cat. by_name r1 m = None \<and> by_id r1 j = None" by blast
  from Cons.IH [OF inv1 cat this] obtain r' where
    "reg_all r1 cat = Some r'" "inv r'"
    "\<forall>m. okn m \<longrightarrow> by_name r' m = (case map_of cat m of Some i \<Rightarrow> Some i | None \<Rightarrow> by_name r1 m)"
    by blast
  moreover have "map_of cat n = None"
    using Cons.prems(2) ni by (auto simp: catalog_ok_def map_of_eq_None_iff)
  ultimately have "reg_all r (ni # cat) = Some r'" "inv r'"
    "\<forall>m. okn m \<longrightarrow> by_name r' m =
       (case map_of (ni # cat) m of Some i \<Rightarrow> Some i | None \<Rightarrow> by_name r m)"
    using ni r1 reg_by_name [OF Cons.prems(1) ok r1] by (simp_all split: option.splits)
  then show ?case by blast
qed auto

lemma peers_agree:
  assumes "inv a" "inv b" "catalog_ok cat" "mset cat' = mset cat"
    and "\<forall>(n, i) \<in> set cat. by_name a n = None \<and> by_id a i = None"
    and "\<forall>(n, i) \<in> set cat. by_name b n = None \<and> by_id b i = None"
  shows "\<exists>a' b'. reg_all a cat = Some a' \<and> reg_all b cat' = Some b' \<and>
           (\<forall>(n, i) \<in> set cat. by_name a' n = Some i \<and> by_id b' i = Some n)"
proof -
  have s: "set cat' = set cat" by (rule mset_eq_setD [OF assms(4)])
  have "distinct (map fst cat') = distinct (map fst cat)"
    "distinct (map snd cat') = distinct (map snd cat)"
    by (rule mset_eq_imp_distinct_iff, simp only: mset_map assms(4))+
  then have ok': "catalog_ok cat'" using assms(3) s by (simp add: catalog_ok_def)
  obtain a' where a: "reg_all a cat = Some a'"
    "\<forall>m. okn m \<longrightarrow> by_name a' m = (case map_of cat m of Some i \<Rightarrow> Some i | None \<Rightarrow> by_name a m)"
    using catalog_registers [OF assms(1,3,5)] by blast
  obtain b' where b: "reg_all b cat' = Some b'" "inv b'"
    "\<forall>m. okn m \<longrightarrow> by_name b' m = (case map_of cat' m of Some i \<Rightarrow> Some i | None \<Rightarrow> by_name b m)"
    using catalog_registers [OF assms(2) ok' assms(6) [folded s]] by blast
  have "by_name a' n = Some i \<and> by_id b' i = Some n" if "(n, i) \<in> set cat" for n i
  proof -
    have ok: "okn n" "oki i" using that assms(3) by (auto simp: catalog_ok_def)
    have "map_of cat n = Some i" "map_of cat' n = Some i"
      by (rule map_of_is_SomeI, use that assms(3) ok' s in \<open>simp_all add: catalog_ok_def\<close>)+
    then have "by_name a' n = Some i" "by_name b' n = Some i" using a(2) b(3) ok(1) by simp_all
    then show ?thesis using agree [OF b(2) ok] by blast
  qed
  with a(1) b(1) show ?thesis by blast
qed

end

subsection \<open>The Python registry fulfils the contract\<close>

definition quiet_env :: call_env where
  "quiet_env = \<lparr>lock_ok = True, grow_ok = True, dup_ok = True\<rparr>"

definition proto_open :: "Proto \<Rightarrow> bool" where
  "proto_open self =
     (case pr_handle self of
        None \<Rightarrow> False
      | Some p \<Rightarrow>
          registry_wf p \<and> (\<forall>e \<in> set (kp_types p). utf8_decode (te_name e) \<noteq> Inl UnicodeError))"

definition ok_name :: "pystr \<Rightarrow> bool" where
  "ok_name s = (case utf8_encode s of Inl _ \<Rightarrow> False | Inr b \<Rightarrow> b \<noteq> [] \<and> 0 \<notin> set b)"

definition ok_id :: "int \<Rightarrow> bool" where
  "ok_id i \<longleftrightarrow> 0 \<le> i \<and> i < 65536"

definition proto_reg :: "Proto \<Rightarrow> pystr \<Rightarrow> int \<Rightarrow> Proto option" where
  "proto_reg self n i =
     (case Proto_register_type quiet_env self n i of (Inl _, _) \<Rightarrow> None | (Inr _, s) \<Rightarrow> Some s)"

definition proto_by_name :: "Proto \<Rightarrow> pystr \<Rightarrow> int option" where
  "proto_by_name self n =
     (case Proto_lookup_type quiet_env self n of Inl _ \<Rightarrow> None | Inr i \<Rightarrow> Some i)"

definition proto_by_id :: "Proto \<Rightarrow> int \<Rightarrow> pystr option" where
  "proto_by_id self i =
     (case Proto_type_name quiet_env self i of Inl _ \<Rightarrow> None | Inr s \<Rightarrow> s)"

lemma quiet_env_sel [simp]: "lock_ok quiet_env" "grow_ok quiet_env" "dup_ok quiet_env"
  by (simp_all add: quiet_env_def)

lemma c_string_id [simp]: "0 \<notin> set b \<Longrightarrow> c_string b = b"
  by (auto simp: c_string_def takeWhile_eq_all_conv)

lemma name_arg_ok:
  "ok_name s \<Longrightarrow> \<exists>b. utf8_encode s = Inr b \<and> name_arg s = Inr b \<and> b \<noteq> [] \<and> 0 \<notin> set b"
  by (auto simp: ok_name_def name_arg_def split: sum.splits)

lemma uint_of_id: "ok_id i \<Longrightarrow> uint (word_of_int i :: 16 word) = i"
  by (simp add: ok_id_def uint_word_of_int)

lemma ok_id_uint: "ok_id (uint (w :: 16 word))"
  using uint_lt2p [of w] by (simp add: ok_id_def)

lemma proto_by_name_eq:
  assumes "pr_handle self = Some p" "name_arg n = Inr b"
  shows "proto_by_name self n = map_option (\<lambda>e. uint (te_id e)) (find_by_name_locked p b)"
  using assms
  by (auto simp: proto_by_name_def Proto_lookup_type_def kith_proto_lookup_type_def check_rc_def
      split: option.splits)

lemma proto_by_id_eq:
  assumes "pr_handle self = Some p" "proto_open self"
  shows "proto_by_id self i =
    (case find_by_id_locked p (word_of_int i) of
       None \<Rightarrow> None
     | Some e \<Rightarrow> Some (projr (utf8_decode (te_name e))))"
proof -
  have "te_name e \<noteq> [] \<and> utf8_decode (te_name e) \<noteq> Inl UnicodeError"
    if "find_by_id_locked p (word_of_int i) = Some e" for e
    using that assms
    by (auto simp: find_by_id_locked_def find_by_id_iff proto_open_def registry_wf_def)
  then show ?thesis
    using assms unicode_error.exhaust
    by (auto simp: proto_by_id_def Proto_type_name_def kith_proto_type_name_def
        split: option.splits sum.splits)
qed

lemma proto_openE:
  assumes "proto_open self"
  obtains p where "pr_handle self = Some p" "registry_wf p"
    "\<And>e. e \<in> set (kp_types p) \<Longrightarrow> \<exists>s. utf8_decode (te_name e) = Inr s"
proof (cases "pr_handle self")
  case (Some p)
  have "\<exists>s. utf8_decode (te_name e) = Inr s" if "e \<in> set (kp_types p)" for e
  proof (cases "utf8_decode (te_name e)")
    case (Inl x)
    then show ?thesis using assms Some that by (cases x) (auto simp: proto_open_def)
  qed simp
  then show ?thesis using that assms Some by (simp add: proto_open_def)
qed (use assms in \<open>simp add: proto_open_def\<close>)

lemma proto_agree:
  assumes "proto_open r" "ok_name n" "ok_id i"
  shows "proto_by_name r n = Some i \<longleftrightarrow> proto_by_id r i = Some n"
proof -
  obtain p where p: "pr_handle r = Some p" "registry_wf p"
    "\<And>e. e \<in> set (kp_types p) \<Longrightarrow> \<exists>s. utf8_decode (te_name e) = Inr s"
    using proto_openE [OF assms(1)] by blast
  obtain b where b: "utf8_encode n = Inr b" "name_arg n = Inr b"
    using name_arg_ok [OF assms(2)] by blast
  have id: "uint j = i \<longleftrightarrow> j = word_of_int i" for j :: "16 word"
    using uint_of_id [OF assms(3)] by auto
  have nm: "projr (utf8_decode (te_name e)) = n \<longleftrightarrow> te_name e = b" if e: "e \<in> set (kp_types p)" for e
  proof -
    obtain s where s: "utf8_decode (te_name e) = Inr s" using p(3) [OF e] by blast
    then have "utf8_encode s = Inr (te_name e)" by (rule utf8_encode_decode)
    with s b(1) show ?thesis using utf8_encode_inj by auto
  qed
  have mem: "e \<in> set (kp_types p)" if "find_by_id_locked p j = Some e" for e j
    using that p(2) by (simp add: find_by_id_locked_def find_by_id_iff registry_wf_def)
  have "proto_by_name r n = Some i \<longleftrightarrow>
      map_option te_id (find_by_name_locked p b) = Some (word_of_int i)"
    unfolding proto_by_name_eq [OF p(1) b(2)] by (auto simp: id)
  moreover have "proto_by_id r i = Some n \<longleftrightarrow>
      map_option te_name (find_by_id_locked p (word_of_int i)) = Some b"
    unfolding proto_by_id_eq [OF p(1) assms(1)] using nm mem by (auto split: option.splits)
  ultimately show ?thesis using registry_name_id [OF p(2)] by simp
qed

lemma proto_reg_eq:
  assumes "proto_open r" "ok_name n" "utf8_encode n = Inr b" "pr_handle r = Some p"
  shows "proto_reg r n i =
    (case kith_proto_register_type_id quiet_env (Some p) (Some b) (word_of_int i) of
       (Inl _, _) \<Rightarrow> None
     | (Inr _, h) \<Rightarrow> Some (r\<lparr>pr_handle := h\<rparr>))"
proof -
  have "name_arg n = Inr b" using name_arg_ok [OF assms(2)] assms(3) by auto
  moreover have "rc \<noteq> KITH_OK"
    if "kith_proto_register_type_id quiet_env (Some p) (Some b) (word_of_int i) = (Inl rc, h)" for rc h
    using that unfolding register_cases by (auto simp: Let_def split: if_splits option.splits)
  ultimately show ?thesis
    using assms
    by (auto simp: proto_reg_def Proto_register_type_def check_rc_def
        split: sum.splits prod.splits)
qed

lemma register_Inr:
  assumes "kith_proto_register_type_id env (Some p) (Some nm) i = (Inr (), Some p')"
  shows "map_option te_id (find_by_name_locked p' m) =
           (if m = nm then Some i else map_option te_id (find_by_name_locked p m))"
    and "te_name ` set (kp_types p') = insert nm (te_name ` set (kp_types p))"
proof -
  show "map_option te_id (find_by_name_locked p' m) =
      (if m = nm then Some i else map_option te_id (find_by_name_locked p m))"
    using assms unfolding register_cases
    by (auto simp: Let_def find_by_name_locked_def find_append split: if_splits option.splits)
  show "te_name ` set (kp_types p') = insert nm (te_name ` set (kp_types p))"
    using assms unfolding register_cases
    by (auto simp: Let_def find_by_name_locked_def find_Some_iff split: if_splits option.splits)
qed

lemma proto_reg_Some:
  assumes "proto_open r" "ok_name n" "ok_id i" "proto_reg r n i = Some r'"
  shows "proto_open r'"
    and "ok_name m \<Longrightarrow> proto_by_name r' m = (if m = n then Some i else proto_by_name r m)"
proof -
  obtain p where p: "pr_handle r = Some p" "registry_wf p"
    "\<And>e. e \<in> set (kp_types p) \<Longrightarrow> \<exists>s. utf8_decode (te_name e) = Inr s"
    using proto_openE [OF assms(1)] by blast
  obtain b where b: "utf8_encode n = Inr b" "name_arg n = Inr b" "b \<noteq> []" "0 \<notin> set b"
    using name_arg_ok [OF assms(2)] by blast
  have d: "utf8_decode b = Inr n" using b(1) by (rule utf8_decode_encode)
  obtain p' where reg: "kith_proto_register_type_id quiet_env (Some p) (Some b) (word_of_int i) =
      (Inr (), Some p')" and r': "r' = r\<lparr>pr_handle := Some p'\<rparr>"
    using assms(4) unfolding proto_reg_eq [OF assms(1,2) b(1) p(1)]
    by (auto split: prod.splits sum.splits dest!: register_handle)
  have "utf8_decode (te_name e) \<noteq> Inl UnicodeError" if "e \<in> set (kp_types p')" for e
  proof -
    have "te_name e \<in> insert b (te_name ` set (kp_types p))"
      using register_Inr(2) [OF reg] that by blast
    then consider "te_name e = b" | x where "x \<in> set (kp_types p)" "te_name e = te_name x"
      by blast
    then show ?thesis using p(3) d by cases fastforce+
  qed
  then show "proto_open r'"
    using register_wf [OF p(2) b(4) reg] by (simp add: proto_open_def r')
  assume m: "ok_name m"
  obtain c where c: "utf8_encode m = Inr c" "name_arg m = Inr c"
    using name_arg_ok [OF m] by blast
  have cb: "c = b \<longleftrightarrow> m = n" using b(1) c(1) utf8_encode_inj by auto
  have "proto_by_name r' m = map_option uint (map_option te_id (find_by_name_locked p' c))"
    using proto_by_name_eq [of r' p' m c] c(2) r' by (simp add: option.map_comp comp_def)
  moreover have "proto_by_name r m = map_option uint (map_option te_id (find_by_name_locked p c))"
    using proto_by_name_eq [OF p(1) c(2)] by (simp add: option.map_comp comp_def)
  ultimately show "proto_by_name r' m = (if m = n then Some i else proto_by_name r m)"
    by (simp add: register_Inr(1) [OF reg] cb uint_of_id [OF assms(3)])
qed

lemma proto_by_id_ok:
  assumes "proto_open r" "proto_by_id r i = Some n"
  shows "ok_name n"
proof -
  obtain p where p: "pr_handle r = Some p" "registry_wf p"
    "\<And>e. e \<in> set (kp_types p) \<Longrightarrow> \<exists>s. utf8_decode (te_name e) = Inr s"
    using proto_openE [OF assms(1)] by blast
  obtain e where e: "find_by_id_locked p (word_of_int i) = Some e"
    and n: "n = projr (utf8_decode (te_name e))"
    using assms(2) unfolding proto_by_id_eq [OF p(1) assms(1)] by (auto split: option.splits)
  then have mem: "e \<in> set (kp_types p)"
    using p(2) by (simp add: find_by_id_locked_def find_by_id_iff registry_wf_def)
  have "utf8_encode n = Inr (te_name e)" using p(3) [OF mem] n utf8_encode_decode by auto
  then show ?thesis using p(2) mem by (auto simp: ok_name_def registry_wf_def)
qed

lemma proto_reg_accepts:
  assumes "proto_open r" "ok_name n" "ok_id i"
  shows "proto_reg r n i \<noteq> None \<longleftrightarrow>
    proto_by_name r n = Some i \<or> (proto_by_name r n = None \<and> proto_by_id r i = None)"
proof -
  obtain p where p: "pr_handle r = Some p" using proto_openE [OF assms(1)] by blast
  obtain b where b: "utf8_encode n = Inr b" "name_arg n = Inr b" "b \<noteq> []"
    using name_arg_ok [OF assms(2)] by blast
  have id: "uint j = i \<longleftrightarrow> j = word_of_int i" for j :: "16 word"
    using uint_of_id [OF assms(3)] by auto
  show ?thesis
    unfolding proto_reg_eq [OF assms(1,2) b(1) p] proto_by_name_eq [OF p b(2)]
      proto_by_id_eq [OF p assms(1)] register_cases
    using b(3) by (auto simp: id Let_def split: option.splits)
qed

interpretation wire_types: type_registry proto_open ok_name ok_id proto_reg proto_by_name proto_by_id
  by unfold_locales
    (use proto_agree proto_reg_Some proto_reg_accepts proto_by_id_ok in \<open>blast+\<close>)


subsection \<open>Properties of the registry\<close>

lemma zero_notin_c_string [simp]: "0 \<notin> set (c_string b)"
  by (auto simp: c_string_def dest: set_takeWhileD)

lemma register_refused:
  assumes "kith_proto_register_type_id env (Some p) (Some nm) i = (Inl c, Some p')"
  shows "kp_types p' = kp_types p"
  using assms unfolding register_cases by (auto simp: Let_def split: if_splits option.splits)

text \<open>Registration keeps the registry a one-to-one table of non-empty names and ids, whatever
  name is passed and whether or not the lock and the allocations succeed. A refused registration
  leaves the table as it was; an accepted one binds exactly the given name (cut at its first zero
  byte) to the id modulo \<open>2^16\<close> and no other.\<close>

theorem register_type_keeps_registry:
  assumes "pr_handle self = Some p" "registry_wf p" "utf8_encode name = Inr b"
    and "Proto_register_type env self name type_id = (r, self')"
  shows "\<exists>p'. pr_handle self' = Some p' \<and> registry_wf p' \<and>
    (case r of
       Inl _ \<Rightarrow> kp_types p' = kp_types p
     | Inr _ \<Rightarrow> \<forall>m. map_option te_id (find_by_name_locked p' m) =
         (if m = c_string b then Some (word_of_int type_id)
          else map_option te_id (find_by_name_locked p m)))"
proof -
  obtain r0 h where reg: "kith_proto_register_type_id env (Some p) (Some (c_string b))
      (word_of_int type_id) = (r0, h)" by force
  then obtain p' where h: "h = Some p'" using register_handle by blast
  have self': "self' = self\<lparr>pr_handle := Some p'\<rparr>" and r: "r = check_rc r0 (Some KithProtocolError)"
    using assms reg by (simp_all add: Proto_register_type_def name_arg_def h)
  have wf: "registry_wf p'" by (rule register_wf [OF assms(2) zero_notin_c_string reg [unfolded h]])
  show ?thesis
  proof (cases r0)
    case (Inl c)
    then obtain x where "r = Inl x"
      by (cases "check_error (kith_error_return c) (Some KithProtocolError)")
        (auto simp: r check_rc_def)
    with Inl wf show ?thesis using register_refused [of env p _ _ c p'] reg by (simp add: h self')
  next
    case (Inr u)
    then have "r = Inr ()" by (simp add: r)
    with Inr wf show ?thesis using register_Inr(1) [of env p _ _ p'] reg by (simp add: h self')
  qed
qed

theorem register_type_keeps_registry_witness:
  "\<exists>p'. pr_handle (snd (Proto_register_type demo_env demo_proto [0x61, 0] 70000)) = Some p' \<and>
     map_option te_id (find_by_name_locked p' [0x61]) = Some 4464 \<and>
     map_option te_id (find_by_name_locked p' [0x67]) = Some 1100"
proof -
  have u: "utf8_encode [0x61, 0] = Inr [0x61, 0]"
    by (simp add: utf8_encode_def scalar_value_def utf8_char_def)
  have c: "c_string [0x61, 0] = ([0x61] :: bytes)" by (simp add: c_string_def)
  obtain self' where reg: "Proto_register_type demo_env demo_proto [0x61, 0] 70000 = (Inr (), self')"
    by (simp add: Proto_register_type_def name_arg_def u c demo_proto_def demo_env_def register_cases
        find_by_name_locked_def find_by_id_locked_def)
  have wf: "registry_wf (the (pr_handle demo_proto))"
    by (simp add: demo_proto_def registry_wf_def)
  have h: "pr_handle demo_proto = Some (the (pr_handle demo_proto))"
    by (simp add: demo_proto_def)
  obtain p' where p': "pr_handle self' = Some p'"
    "\<forall>m. map_option te_id (find_by_name_locked p' m) =
       (if m = [0x61] then Some (word_of_int 70000)
        else map_option te_id (find_by_name_locked (the (pr_handle demo_proto)) m))"
    using register_type_keeps_registry [OF h wf u reg] unfolding c by auto
  have "map_option te_id (find_by_name_locked (the (pr_handle demo_proto)) [0x67]) = Some 1100"
    by (simp add: demo_proto_def find_by_name_locked_def)
  then show ?thesis using p' reg by (intro exI [of _ p']) simp
qed

end
