(* ===== verification/Lobby.thy ===== *)
theory Lobby
  imports LobbyCodec GameStore TypeRegistry "HOL-Library.List_Lexorder"
begin

text \<open>
  The lobby example: its message catalog (\<open>examples/lobby/messages.py\<close>), the shared state
  \<open>LobbyState\<close>, the outbox sink and the five wire handlers (\<open>examples/lobby/handlers.py\<close>).

  A dict is an association list with distinct keys, a Python set of ids an \<open>int set\<close>. A handler is
  a function on the lobby (state and sink) and the calling session; it returns both and the
  exception it leaves with, if any. The locks make every method of \<open>LobbyState\<close> and \<open>OutboxSink\<close>
  atomic, so a run of the server is a sequence of handler calls. A \<open>session\<close> is what a handler can
  see of its third argument: \<open>FacadeSession\<close> is \<open>kith.gateway.Session\<close>, whose \<open>info\<close> is a method,
  \<open>AttrSession\<close> an object whose attribute \<open>info\<close> carries \<open>actor_id\<close>, and \<open>BareSession\<close> one without
  \<open>info\<close>.
\<close>

subsection \<open>Message catalog\<close>

definition USER_BASE :: int where "USER_BASE = 1000"
definition LOBBY_BASE :: int where "LOBBY_BASE = USER_BASE + 100"
definition LOGIN_TYPE :: int where "LOGIN_TYPE = LOBBY_BASE + 0"
definition PRESENCE_TYPE :: int where "PRESENCE_TYPE = LOBBY_BASE + 1"
definition ROOM_JOIN_TYPE :: int where "ROOM_JOIN_TYPE = LOBBY_BASE + 2"
definition ROOM_LEAVE_TYPE :: int where "ROOM_LEAVE_TYPE = LOBBY_BASE + 3"
definition CHAT_ROOM_TYPE :: int where "CHAT_ROOM_TYPE = LOBBY_BASE + 4"
definition PRESENCE_UPDATE_TYPE :: int where "PRESENCE_UPDATE_TYPE = LOBBY_BASE + 5"

lemmas lobby_type_ids =
  USER_BASE_def LOBBY_BASE_def LOGIN_TYPE_def PRESENCE_TYPE_def ROOM_JOIN_TYPE_def
  ROOM_LEAVE_TYPE_def CHAT_ROOM_TYPE_def PRESENCE_UPDATE_TYPE_def

definition TYPES :: "(pystr \<times> int) list" where
  "TYPES =
     [(pytext ''login'', LOGIN_TYPE),
      (pytext ''presence'', PRESENCE_TYPE),
      (pytext ''room_join'', ROOM_JOIN_TYPE),
      (pytext ''room_leave'', ROOM_LEAVE_TYPE),
      (pytext ''chat_room'', CHAT_ROOM_TYPE),
      (pytext ''presence_update'', PRESENCE_UPDATE_TYPE)]"

definition register_proto_type ::
    "call_env \<Rightarrow> Proto \<Rightarrow> pystr \<Rightarrow> int \<Rightarrow> (proto_exc + unit) \<times> Proto" where
  "register_proto_type env proto name type_id =
     (case name_arg name of
        Inl e \<Rightarrow> (Inl e, proto)
      | Inr nm \<Rightarrow>
          let (r, h) = kith_proto_register_type_id env (pr_handle proto) (Some nm)
                         (word_of_int type_id)
          in (check_rc r None, proto\<lparr>pr_handle := h\<rparr>))"

fun register_types ::
    "call_env \<Rightarrow> Proto \<Rightarrow> (pystr \<times> int) list \<Rightarrow> (proto_exc + unit) \<times> Proto" where
  "register_types env proto [] = (Inr (), proto)"
| "register_types env proto ((name, type_id) # rest) =
     (case register_proto_type env proto name type_id of
        (Inl e, proto') \<Rightarrow> (Inl e, proto')
      | (Inr _, proto') \<Rightarrow> register_types env proto' rest)"

definition messages_register :: "call_env \<Rightarrow> Proto \<Rightarrow> (proto_exc + unit) \<times> Proto" where
  "messages_register env proto = register_types env proto TYPES"

subsection \<open>Data types\<close>

record Member =
  mem_member_id :: int
  mem_principal_id :: int
  mem_display_name :: pystr
  mem_status :: int

record OutboxEntry =
  oe_session_ids :: "int list"
  oe_payload :: bytes

record OutboxSink =
  os_entries :: "OutboxEntry list"

definition sink_deliver :: "OutboxSink \<Rightarrow> int list \<Rightarrow> bytes \<Rightarrow> OutboxSink" where
  "sink_deliver self session_ids payload =
     self\<lparr>os_entries := os_entries self @ [\<lparr>oe_session_ids = session_ids, oe_payload = payload\<rparr>]\<rparr>"

definition sink_entries :: "OutboxSink \<Rightarrow> OutboxEntry list" where
  "sink_entries self = os_entries self"

definition sink_clear :: "OutboxSink \<Rightarrow> OutboxSink" where
  "sink_clear self = self\<lparr>os_entries := []\<rparr>"

record LobbyState =
  ls_members :: "(int, Member) dict"
  ls_members_by_principal :: "(int, int) dict"
  ls_rooms :: "(pystr, int set) dict"
  ls_chat_log :: "(pystr \<times> int \<times> pystr) list"
  ls_next_member_id :: int
  ls_store :: InMemoryStore

datatype lobby_exc = CodecError codec_exc | KeyError

subsection \<open>Lobby state\<close>

definition LobbyState_init :: LobbyState where
  "LobbyState_init =
     \<lparr>ls_members = [], ls_members_by_principal = [], ls_rooms = [], ls_chat_log = [],
      ls_next_member_id = 1, ls_store = store_init\<rparr>"

definition default_display_name :: "int \<Rightarrow> pystr" where
  "default_display_name member_id = pytext (''member-'' @ int_str member_id)"

definition get_or_create_member ::
    "LobbyState \<Rightarrow> int \<Rightarrow> (lobby_exc + Member) \<times> LobbyState" where
  "get_or_create_member self principal_id =
     (case map_of (ls_members_by_principal self) principal_id of
        Some member_id \<Rightarrow>
          (case map_of (ls_members self) member_id of
             Some m \<Rightarrow> (Inr m, self)
           | None \<Rightarrow> (Inl KeyError, self))
      | None \<Rightarrow>
          let member_id = ls_next_member_id self;
              member = \<lparr>mem_member_id = member_id, mem_principal_id = principal_id,
                        mem_display_name = default_display_name member_id, mem_status = 0\<rparr>
          in (Inr member,
              self\<lparr>ls_next_member_id := ls_next_member_id self + 1,
                   ls_members := AList.update member_id member (ls_members self),
                   ls_members_by_principal :=
                     AList.update principal_id member_id (ls_members_by_principal self)\<rparr>))"

definition set_display_name :: "LobbyState \<Rightarrow> int \<Rightarrow> pystr \<Rightarrow> LobbyState" where
  "set_display_name self member_id display_name =
     (case map_of (ls_members self) member_id of
        None \<Rightarrow> self
      | Some m \<Rightarrow>
          self\<lparr>ls_members :=
            AList.update member_id
              \<lparr>mem_member_id = mem_member_id m, mem_principal_id = mem_principal_id m,
               mem_display_name = display_name, mem_status = mem_status m\<rparr> (ls_members self)\<rparr>)"

definition join_room :: "LobbyState \<Rightarrow> pystr \<Rightarrow> int \<Rightarrow> bool \<times> LobbyState" where
  "join_room self room member_id =
     (let members = (case map_of (ls_rooms self) room of Some ms \<Rightarrow> ms | None \<Rightarrow> {});
          rooms = (case map_of (ls_rooms self) room of
                     Some _ \<Rightarrow> ls_rooms self
                   | None \<Rightarrow> AList.update room {} (ls_rooms self))
      in if member_id \<in> members then (False, self\<lparr>ls_rooms := rooms\<rparr>)
         else (True, self\<lparr>ls_rooms := AList.update room (insert member_id members) rooms\<rparr>))"

definition leave_room :: "LobbyState \<Rightarrow> pystr \<Rightarrow> int \<Rightarrow> bool \<times> LobbyState" where
  "leave_room self room member_id =
     (case map_of (ls_rooms self) room of
        None \<Rightarrow> (False, self)
      | Some members \<Rightarrow>
          if member_id \<notin> members then (False, self)
          else let members' = members - {member_id}
               in if members' = {} then (True, self\<lparr>ls_rooms := AList.delete room (ls_rooms self)\<rparr>)
                  else (True, self\<lparr>ls_rooms := AList.update room members' (ls_rooms self)\<rparr>))"

definition room_members :: "LobbyState \<Rightarrow> pystr \<Rightarrow> int list" where
  "room_members self room =
     (case map_of (ls_rooms self) room of
        None \<Rightarrow> []
      | Some members \<Rightarrow> sorted_list_of_set members)"

definition room_names :: "LobbyState \<Rightarrow> pystr list" where
  "room_names self = sort (map fst (ls_rooms self))"

definition record_chat :: "LobbyState \<Rightarrow> pystr \<Rightarrow> int \<Rightarrow> pystr \<Rightarrow> LobbyState" where
  "record_chat self room member_id text =
     self\<lparr>ls_chat_log := ls_chat_log self @ [(room, member_id, text)]\<rparr>"

definition chat_log :: "LobbyState \<Rightarrow> pystr option \<Rightarrow> (pystr \<times> int \<times> pystr) list" where
  "chat_log self room =
     (case room of
        None \<Rightarrow> ls_chat_log self
      | Some r \<Rightarrow> filter (\<lambda>e. fst e = r) (ls_chat_log self))"

definition set_status :: "LobbyState \<Rightarrow> int \<Rightarrow> int \<Rightarrow> bool \<times> LobbyState" where
  "set_status self member_id status =
     (case map_of (ls_members self) member_id of
        None \<Rightarrow> (False, self)
      | Some m \<Rightarrow>
          if mem_status m = status then (False, self)
          else (True, self\<lparr>ls_members :=
                  AList.update member_id
                    \<lparr>mem_member_id = mem_member_id m, mem_principal_id = mem_principal_id m,
                     mem_display_name = mem_display_name m, mem_status = status\<rparr>
                    (ls_members self)\<rparr>))"

definition lobby_member :: "LobbyState \<Rightarrow> int \<Rightarrow> Member option" where
  "lobby_member self member_id = map_of (ls_members self) member_id"

definition lobby_members :: "LobbyState \<Rightarrow> Member list" where
  "lobby_members self = sort_key mem_member_id (map snd (ls_members self))"

subsection \<open>Sessions and handlers\<close>

datatype session_kind = FacadeSession | AttrSession | BareSession

record session =
  sess_kind :: session_kind
  sess_actor_id :: int

definition bind_actor :: "session \<Rightarrow> int \<Rightarrow> session" where
  "bind_actor s actor_id =
     s\<lparr>sess_actor_id := (if sess_kind s = FacadeSession then actor_id mod 2 ^ 64 else actor_id)\<rparr>"

text \<open>
  \<open>getattr(session, "info", None)\<close> is the bound method \<open>Session.info\<close> for a facade session, and a
  method object has no \<open>actor_id\<close>.
\<close>

definition session_member_id :: "session \<Rightarrow> int" where
  "session_member_id s =
     (case sess_kind s of
        BareSession \<Rightarrow> 0
      | FacadeSession \<Rightarrow> 0
      | AttrSession \<Rightarrow> sess_actor_id s)"

record lobby =
  lb_state :: LobbyState
  lb_sink :: OutboxSink

type_synonym handler_result = "lobby \<times> session \<times> lobby_exc option"

definition notify_room :: "lobby \<Rightarrow> pystr \<Rightarrow> int \<Rightarrow> int \<Rightarrow> pystr \<Rightarrow> lobby \<times> lobby_exc option" where
  "notify_room self room kind member_id text =
     (case lobby_member (lb_state self) member_id of
        None \<Rightarrow> (self, None)
      | Some m \<Rightarrow>
          (case encode_presence
                  \<lparr>pe_kind = kind, pe_member_id = member_id, pe_display_name = mem_display_name m,
                   pe_status = mem_status m, pe_text = text\<rparr> of
             Inl e \<Rightarrow> (self, Some (CodecError e))
           | Inr payload \<Rightarrow>
               (self\<lparr>lb_sink :=
                  sink_deliver (lb_sink self) (room_members (lb_state self) room) payload\<rparr>, None)))"

definition on_login :: "bytes \<Rightarrow> session \<Rightarrow> lobby \<Rightarrow> handler_result" where
  "on_login payload session self =
     (if length payload < LOGIN_PAYLOAD_LEN then (self, session, None)
      else case decode_login payload of
             Inl e \<Rightarrow> (self, session, Some (CodecError e))
           | Inr principal_id \<Rightarrow>
               (case get_or_create_member (lb_state self) principal_id of
                  (Inl e, st) \<Rightarrow> (self\<lparr>lb_state := st\<rparr>, session, Some e)
                | (Inr m, st) \<Rightarrow>
                    (self\<lparr>lb_state := st\<rparr>, bind_actor session (mem_member_id m), None)))"

text \<open>\<open>except ValueError: return\<close>: a \<open>struct.error\<close> would pass.\<close>

definition except_value_error ::
    "codec_exc + 'a \<Rightarrow> lobby \<Rightarrow> session \<Rightarrow> ('a \<Rightarrow> handler_result) \<Rightarrow> handler_result" where
  "except_value_error r self session k =
     (case r of
        Inl (ValueErr _) \<Rightarrow> (self, session, None)
      | Inl StructErr \<Rightarrow> (self, session, Some (CodecError StructErr))
      | Inr v \<Rightarrow> k v)"

definition on_room_join :: "bytes \<Rightarrow> session \<Rightarrow> lobby \<Rightarrow> handler_result" where
  "on_room_join payload session self =
     except_value_error (decode_room_join payload) self session (\<lambda>room.
       let member_id = session_member_id session in
       if member_id = 0 then (self, session, None)
       else let (changed, st) = join_room (lb_state self) room member_id;
                self' = self\<lparr>lb_state := st\<rparr>
            in if \<not> changed then (self', session, None)
               else let (self'', e) = notify_room self' room KIND_JOIN member_id []
                    in (self'', session, e))"

definition on_room_leave :: "bytes \<Rightarrow> session \<Rightarrow> lobby \<Rightarrow> handler_result" where
  "on_room_leave payload session self =
     except_value_error (decode_room_leave payload) self session (\<lambda>room.
       let member_id = session_member_id session in
       if member_id = 0 then (self, session, None)
       else let (changed, st) = leave_room (lb_state self) room member_id;
                self' = self\<lparr>lb_state := st\<rparr>
            in if \<not> changed then (self', session, None)
               else let (self'', e) = notify_room self' room KIND_LEAVE member_id []
                    in (self'', session, e))"

definition on_chat_room :: "bytes \<Rightarrow> session \<Rightarrow> lobby \<Rightarrow> handler_result" where
  "on_chat_room payload session self =
     except_value_error (decode_chat_room payload) self session (\<lambda>(room, text).
       let member_id = session_member_id session in
       if member_id = 0 then (self, session, None)
       else if member_id \<notin> set (room_members (lb_state self) room) then (self, session, None)
       else let self' = self\<lparr>lb_state := record_chat (lb_state self) room member_id text\<rparr>;
                (self'', e) = notify_room self' room KIND_CHAT member_id text
            in (self'', session, e))"

fun notify_rooms :: "lobby \<Rightarrow> pystr list \<Rightarrow> int \<Rightarrow> lobby \<times> lobby_exc option" where
  "notify_rooms self [] member_id = (self, None)"
| "notify_rooms self (room # rooms) member_id =
     (if member_id \<in> set (room_members (lb_state self) room)
      then (case notify_room self room KIND_STATUS member_id [] of
              (self', Some e) \<Rightarrow> (self', Some e)
            | (self', None) \<Rightarrow> notify_rooms self' rooms member_id)
      else notify_rooms self rooms member_id)"

definition on_presence_update :: "bytes \<Rightarrow> session \<Rightarrow> lobby \<Rightarrow> handler_result" where
  "on_presence_update payload session self =
     (if length payload < PRESENCE_UPDATE_PAYLOAD_LEN then (self, session, None)
      else case decode_presence_update payload of
             Inl e \<Rightarrow> (self, session, Some (CodecError e))
           | Inr (member_id, status) \<Rightarrow>
               let (changed, st) = set_status (lb_state self) member_id status;
                   self' = self\<lparr>lb_state := st\<rparr>
               in if \<not> changed then (self', session, None)
                  else let (self'', e) = notify_rooms self' (room_names (lb_state self')) member_id
                       in (self'', session, e))"

text \<open>\<open>register\<close>: the handler table the gateway dispatches by message type.\<close>

definition lobby_handlers :: "(int, bytes \<Rightarrow> session \<Rightarrow> lobby \<Rightarrow> handler_result) dict" where
  "lobby_handlers =
     [(LOGIN_TYPE, on_login),
      (ROOM_JOIN_TYPE, on_room_join),
      (ROOM_LEAVE_TYPE, on_room_leave),
      (CHAT_ROOM_TYPE, on_chat_room),
      (PRESENCE_UPDATE_TYPE, on_presence_update)]"

end
