(* ===== verification/LobbyRuns.thy ===== *)
theory LobbyRuns
  imports Lobby
begin

text \<open>
  Runs of the lobby server: the invariant of \<open>LobbyState\<close>, its preservation by every operation and
  handler, and the step relation of dispatched frames with its reachable states. The second half
  proves the properties of the handlers: what a login binds, whom a chat line reaches, who may
  change what, and that no handler leaves with an exception.
\<close>

subsection \<open>Invariant of the state\<close>

definition name_ok :: "pystr \<Rightarrow> bool" where
  "name_ok s = (case utf8_encode s of Inl _ \<Rightarrow> False | Inr b \<Rightarrow> length b \<le> PRESENCE_MAX_NAME)"

definition text_ok :: "pystr \<Rightarrow> bool" where
  "text_ok s = (case utf8_encode s of Inl _ \<Rightarrow> False | Inr b \<Rightarrow> length b \<le> PRESENCE_MAX_TEXT)"

definition member_wf :: "LobbyState \<Rightarrow> int \<Rightarrow> Member \<Rightarrow> bool" where
  "member_wf st i m \<longleftrightarrow>
     mem_member_id m = i \<and> 1 \<le> i \<and> i < ls_next_member_id st \<and>
     map_of (ls_members_by_principal st) (mem_principal_id m) = Some i \<and>
     0 \<le> mem_status m \<and> mem_status m < 256 \<and>
     (mem_display_name m = default_display_name i \<or> name_ok (mem_display_name m))"

definition lobby_wf :: "LobbyState \<Rightarrow> bool" where
  "lobby_wf st \<longleftrightarrow>
     distinct (map fst (ls_members st)) \<and> distinct (map fst (ls_members_by_principal st)) \<and>
     distinct (map fst (ls_rooms st)) \<and> 1 \<le> ls_next_member_id st \<and>
     (\<forall>i m. map_of (ls_members st) i = Some m \<longrightarrow> member_wf st i m) \<and>
     (\<forall>p i. map_of (ls_members_by_principal st) p = Some i \<longrightarrow>
        (\<exists>m. map_of (ls_members st) i = Some m \<and> mem_principal_id m = p)) \<and>
     (\<forall>r ms. map_of (ls_rooms st) r = Some ms \<longrightarrow>
        finite ms \<and> ms \<noteq> {} \<and> ms \<subseteq> dom (map_of (ls_members st))) \<and>
     (\<forall>(r, i, t) \<in> set (ls_chat_log st). i \<in> dom (map_of (ls_members st)))"

definition session_wf :: "LobbyState \<Rightarrow> session \<Rightarrow> bool" where
  "session_wf st s \<longleftrightarrow>
     session_member_id s = 0 \<or> session_member_id s \<in> dom (map_of (ls_members st))"

lemma lobby_wf_init: "lobby_wf LobbyState_init"
  by (simp add: lobby_wf_def LobbyState_init_def)

lemma lobby_wfD:
  assumes "lobby_wf st"
  shows "distinct (map fst (ls_members st))" "distinct (map fst (ls_members_by_principal st))"
    "distinct (map fst (ls_rooms st))" "1 \<le> ls_next_member_id st"
    "map_of (ls_members st) i = Some m \<Longrightarrow> member_wf st i m"
    "map_of (ls_members_by_principal st) p = Some i \<Longrightarrow>
       \<exists>m. map_of (ls_members st) i = Some m \<and> mem_principal_id m = p"
    "map_of (ls_rooms st) r = Some ms \<Longrightarrow>
       finite ms \<and> ms \<noteq> {} \<and> ms \<subseteq> dom (map_of (ls_members st))"
    "(r, i, t) \<in> set (ls_chat_log st) \<Longrightarrow> i \<in> dom (map_of (ls_members st))"
  using assms unfolding lobby_wf_def by blast+

lemma lobby_wfI:
  assumes "distinct (map fst (ls_members st))" "distinct (map fst (ls_members_by_principal st))"
    "distinct (map fst (ls_rooms st))" "1 \<le> ls_next_member_id st"
    "\<And>i m. map_of (ls_members st) i = Some m \<Longrightarrow> member_wf st i m"
    "\<And>p i. map_of (ls_members_by_principal st) p = Some i \<Longrightarrow>
       \<exists>m. map_of (ls_members st) i = Some m \<and> mem_principal_id m = p"
    "\<And>r ms. map_of (ls_rooms st) r = Some ms \<Longrightarrow>
       finite ms \<and> ms \<noteq> {} \<and> ms \<subseteq> dom (map_of (ls_members st))"
    "\<And>r i t. (r, i, t) \<in> set (ls_chat_log st) \<Longrightarrow> i \<in> dom (map_of (ls_members st))"
  shows "lobby_wf st"
  using assms unfolding lobby_wf_def by blast

lemma new_member_fresh:
  assumes "lobby_wf st" "map_of (ls_members st) j = Some m"
  shows "j < ls_next_member_id st" "j \<noteq> ls_next_member_id st"
  using lobby_wfD(5) [OF assms] by (simp_all add: member_wf_def)

lemma get_or_create_member_cases:
  assumes "lobby_wf st"
  obtains (old) i m where "map_of (ls_members_by_principal st) p = Some i"
      "map_of (ls_members st) i = Some m" "mem_member_id m = i" "mem_principal_id m = p"
      "get_or_create_member st p = (Inr m, st)"
    | (new) m where "map_of (ls_members_by_principal st) p = None"
      "m = \<lparr>mem_member_id = ls_next_member_id st, mem_principal_id = p,
            mem_display_name = default_display_name (ls_next_member_id st), mem_status = 0\<rparr>"
      "get_or_create_member st p = (Inr m,
         st\<lparr>ls_next_member_id := ls_next_member_id st + 1,
            ls_members := AList.update (ls_next_member_id st) m (ls_members st),
            ls_members_by_principal :=
              AList.update p (ls_next_member_id st) (ls_members_by_principal st)\<rparr>)"
proof (cases "map_of (ls_members_by_principal st) p")
  case None
  then show ?thesis by (intro new) (simp_all add: get_or_create_member_def Let_def)
next
  case (Some i)
  then obtain m where m: "map_of (ls_members st) i = Some m" "mem_principal_id m = p"
    using lobby_wfD(6) [OF assms] by blast
  moreover have "mem_member_id m = i" using lobby_wfD(5) [OF assms m(1)] by (simp add: member_wf_def)
  ultimately show ?thesis using Some by (intro old) (simp_all add: get_or_create_member_def)
qed

lemma get_or_create_member_wf:
  assumes "lobby_wf st" "get_or_create_member st p = (r, st')"
  shows "lobby_wf st'"
  using assms(1)
proof (cases rule: get_or_create_member_cases [where p = p])
  case old
  with assms show ?thesis by simp
next
  case (new m)
  let ?n = "ls_next_member_id st"
  have st': "st' = st\<lparr>ls_next_member_id := ?n + 1, ls_members := AList.update ?n m (ls_members st),
      ls_members_by_principal := AList.update p ?n (ls_members_by_principal st)\<rparr>"
    using new(3) assms(2) by simp
  note d = lobby_wfD [OF assms(1)]
  note fresh = new_member_fresh [OF assms(1)]
  have dom: "dom (map_of (ls_members st)) \<subseteq> dom (map_of (ls_members st'))"
    by (auto simp: st' split: if_splits)
  show ?thesis
  proof (rule lobby_wfI)
    show "distinct (map fst (ls_members st'))" "distinct (map fst (ls_members_by_principal st'))"
      "distinct (map fst (ls_rooms st'))" "1 \<le> ls_next_member_id st'"
      using d(1-4) by (simp_all add: st' dict_distinct_set)
    show "member_wf st' i m'" if "map_of (ls_members st') i = Some m'" for i m'
    proof (cases "i = ?n")
      case True
      then show ?thesis using that d(4) new(2) by (auto simp: st' member_wf_def)
    next
      case False
      then have "map_of (ls_members st) i = Some m'" using that by (simp add: st')
      from d(5) [OF this] new(1) show ?thesis by (auto simp: st' member_wf_def)
    qed
    show "\<exists>m'. map_of (ls_members st') i = Some m' \<and> mem_principal_id m' = q"
      if "map_of (ls_members_by_principal st') q = Some i" for q i
      using that d(6) [of q i] new(2) fresh [of ?n] by (auto simp: st' split: if_splits)
    show "finite ms \<and> ms \<noteq> {} \<and> ms \<subseteq> dom (map_of (ls_members st'))"
      if "map_of (ls_rooms st') r = Some ms" for r ms
    proof -
      have "map_of (ls_rooms st) r = Some ms" using that by (simp add: st')
      from d(7) [OF this] dom show ?thesis by blast
    qed
    show "i \<in> dom (map_of (ls_members st'))" if "(r, i, t) \<in> set (ls_chat_log st')" for r i t
    proof -
      have "(r, i, t) \<in> set (ls_chat_log st)" using that by (simp add: st')
      from d(8) [OF this] dom show ?thesis by blast
    qed
  qed
qed

lemma get_or_create_member_grows:
  assumes "lobby_wf st" "get_or_create_member st p = (r, st')"
  shows "dom (map_of (ls_members st)) \<subseteq> dom (map_of (ls_members st'))"
    and "\<exists>m. r = Inr m \<and> map_of (ls_members st') (mem_member_id m) = Some m"
    and "ls_next_member_id st \<le> ls_next_member_id st'"
  using assms(1)
  by (cases rule: get_or_create_member_cases [where p = p]; use assms(2) in auto)+

lemma update_member_wf:
  assumes "lobby_wf st" "map_of (ls_members st) i = Some m"
    and "mem_member_id m' = mem_member_id m" "mem_principal_id m' = mem_principal_id m"
    and "0 \<le> mem_status m'" "mem_status m' < 256"
    and "mem_display_name m' = default_display_name i \<or> name_ok (mem_display_name m')"
  shows "lobby_wf (st\<lparr>ls_members := AList.update i m' (ls_members st)\<rparr>)"
proof -
  note d = lobby_wfD [OF assms(1)]
  let ?st = "st\<lparr>ls_members := AList.update i m' (ls_members st)\<rparr>"
  have mem: "map_of (ls_members ?st) j = (if j = i then Some m' else map_of (ls_members st) j)" for j
    by simp
  have dom: "dom (map_of (ls_members ?st)) = dom (map_of (ls_members st))"
    using assms(2) by (auto simp: dom_def)
  show ?thesis
  proof (rule lobby_wfI)
    show "distinct (map fst (ls_members ?st))" "distinct (map fst (ls_members_by_principal ?st))"
      "distinct (map fst (ls_rooms ?st))" "1 \<le> ls_next_member_id ?st"
      using d(1-4) by (simp_all add: dict_distinct_set)
    show "member_wf ?st j x" if "map_of (ls_members ?st) j = Some x" for j x
      using that d(5) [of j] d(5) [OF assms(2)] assms(3-7)
      by (auto simp: member_wf_def split: if_splits)
    show "\<exists>x. map_of (ls_members ?st) j = Some x \<and> mem_principal_id x = q"
      if "map_of (ls_members_by_principal ?st) q = Some j" for q j
      using that d(6) [of q j] assms(2,4) by auto
    show "finite ms \<and> ms \<noteq> {} \<and> ms \<subseteq> dom (map_of (ls_members ?st))"
      if "map_of (ls_rooms ?st) r = Some ms" for r ms
      using that d(7) [of r ms] unfolding dom by simp
    show "j \<in> dom (map_of (ls_members ?st))" if "(r, j, t) \<in> set (ls_chat_log ?st)" for r j t
      using that d(8) [of r j t] unfolding dom by simp
  qed
qed

lemma set_status_wf:
  assumes "lobby_wf st" "0 \<le> status" "status < 256" "set_status st i status = (c, st')"
  shows "lobby_wf st'" "dom (map_of (ls_members st')) = dom (map_of (ls_members st))"
    "ls_next_member_id st' = ls_next_member_id st"
proof -
  show "ls_next_member_id st' = ls_next_member_id st"
    using assms(4) by (auto simp: set_status_def split: option.splits if_splits)
  show "lobby_wf st'"
  proof (cases "map_of (ls_members st) i")
    case (Some m)
    then show ?thesis
      using assms update_member_wf [OF assms(1) Some] lobby_wfD(5) [OF assms(1) Some]
      by (auto simp: set_status_def member_wf_def split: if_splits)
  qed (use assms in \<open>auto simp: set_status_def\<close>)
  show "dom (map_of (ls_members st')) = dom (map_of (ls_members st))"
    using assms(4) by (auto simp: set_status_def dom_def split: option.splits if_splits)
qed

lemma set_display_name_wf:
  assumes "lobby_wf st" "name_ok nm"
  shows "lobby_wf (set_display_name st i nm)"
proof (cases "map_of (ls_members st) i")
  case (Some m)
  then show ?thesis
    using assms update_member_wf [OF assms(1) Some] lobby_wfD(5) [OF assms(1) Some]
    by (auto simp: set_display_name_def member_wf_def)
qed (use assms in \<open>simp add: set_display_name_def\<close>)

lemma update_rooms_wf:
  assumes "lobby_wf st" "distinct (map fst rooms)"
    and "\<And>r ms. map_of rooms r = Some ms \<Longrightarrow>
           finite ms \<and> ms \<noteq> {} \<and> ms \<subseteq> dom (map_of (ls_members st))"
  shows "lobby_wf (st\<lparr>ls_rooms := rooms\<rparr>)"
proof -
  note d = lobby_wfD [OF assms(1)]
  show ?thesis
  proof (rule lobby_wfI)
    show "member_wf (st\<lparr>ls_rooms := rooms\<rparr>) i m"
      if "map_of (ls_members (st\<lparr>ls_rooms := rooms\<rparr>)) i = Some m" for i m
      using that d(5) by (simp add: member_wf_def)
  qed (use d assms in auto)
qed

lemma join_room_wf:
  assumes "lobby_wf st" "i \<in> dom (map_of (ls_members st))" "join_room st room i = (c, st')"
  shows "lobby_wf st'" "ls_members st' = ls_members st"
    "ls_next_member_id st' = ls_next_member_id st"
proof -
  note d = lobby_wfD [OF assms(1)]
  show "ls_members st' = ls_members st" "ls_next_member_id st' = ls_next_member_id st"
    using assms(3) by (auto simp: join_room_def Let_def split: if_splits option.splits)
  show "lobby_wf st'"
  proof (cases "map_of (ls_rooms st) room")
    case None
    then have "st' = st\<lparr>ls_rooms := AList.update room {i} (AList.update room {} (ls_rooms st))\<rparr>"
      using assms(3) by (simp add: join_room_def)
    moreover have "lobby_wf \<dots>"
      by (rule update_rooms_wf [OF assms(1)])
        (use d(3,7) assms(2) in \<open>auto simp: dict_distinct_set split: if_splits\<close>)
    ultimately show ?thesis by simp
  next
    case (Some ms)
    show ?thesis
    proof (cases "i \<in> ms")
      case True
      then show ?thesis using assms Some by (simp add: join_room_def)
    next
      case False
      then have "st' = st\<lparr>ls_rooms := AList.update room (insert i ms) (ls_rooms st)\<rparr>"
        using assms(3) Some by (simp add: join_room_def)
      moreover have "lobby_wf \<dots>"
        by (rule update_rooms_wf [OF assms(1)])
          (use d(3,7) assms(2) Some in \<open>auto simp: dict_distinct_set split: if_splits\<close>)
      ultimately show ?thesis by simp
    qed
  qed
qed

lemma leave_room_wf:
  assumes "lobby_wf st" "leave_room st room i = (c, st')"
  shows "lobby_wf st'" "ls_members st' = ls_members st"
    "ls_next_member_id st' = ls_next_member_id st"
proof -
  note d = lobby_wfD [OF assms(1)]
  show "ls_members st' = ls_members st" "ls_next_member_id st' = ls_next_member_id st"
    using assms(2) by (auto simp: leave_room_def Let_def split: if_splits option.splits)
  show "lobby_wf st'"
  proof (cases "map_of (ls_rooms st) room")
    case None
    then show ?thesis using assms by (simp add: leave_room_def)
  next
    case (Some ms)
    consider "i \<notin> ms" | "i \<in> ms" "ms - {i} = {}" | "i \<in> ms" "ms - {i} \<noteq> {}" by blast
    then show ?thesis
    proof cases
      case 1
      then show ?thesis using assms Some by (simp add: leave_room_def)
    next
      case 2
      then have "st' = st\<lparr>ls_rooms := AList.delete room (ls_rooms st)\<rparr>"
        using assms(2) Some by (simp add: leave_room_def)
      moreover have "lobby_wf \<dots>"
        by (rule update_rooms_wf [OF assms(1)])
          (use d(3,7) in \<open>auto simp: dict_distinct_pop split: if_splits\<close>)
      ultimately show ?thesis by simp
    next
      case 3
      then have "st' = st\<lparr>ls_rooms := AList.update room (ms - {i}) (ls_rooms st)\<rparr>"
        using assms(2) Some by (auto simp: leave_room_def)
      moreover have "lobby_wf \<dots>"
        by (rule update_rooms_wf [OF assms(1)])
          (use d(3,7) Some 3(2) in \<open>auto simp: dict_distinct_set split: if_splits\<close>)
      ultimately show ?thesis by simp
    qed
  qed
qed

lemma record_chat_wf:
  assumes "lobby_wf st" "i \<in> dom (map_of (ls_members st))"
  shows "lobby_wf (record_chat st room i text)"
proof -
  note d = lobby_wfD [OF assms(1)]
  show ?thesis
  proof (rule lobby_wfI)
    show "member_wf (record_chat st room i text) j m"
      if "map_of (ls_members (record_chat st room i text)) j = Some m" for j m
      using that d(5) by (simp add: member_wf_def record_chat_def)
    show "j \<in> dom (map_of (ls_members (record_chat st room i text)))"
      if "(r, j, t) \<in> set (ls_chat_log (record_chat st room i text))" for r j t
      using that d(8) [of r j t] assms(2) by (auto simp: record_chat_def)
  qed (use d in \<open>auto simp: record_chat_def\<close>)
qed

subsection \<open>Notifications never fail\<close>

lemma utf8_encode_ascii:
  assumes "\<forall>c \<in> set s. c < 128"
  shows "utf8_encode s = Inr (map of_nat s)"
proof -
  have "concat (map utf8_char s) = s"
    using assms by (induction s) (simp_all add: utf8_char_def)
  then show ?thesis using assms by (auto simp: utf8_encode_def scalar_value_def)
qed

lemma length_dec_digits: "n < 10 ^ Suc k \<Longrightarrow> length (dec_digits n) \<le> Suc k"
proof (induction k arbitrary: n)
  case 0
  then show ?case by (subst dec_digits.simps) simp
next
  case (Suc k)
  have "n div 10 < 10 ^ Suc k" using Suc.prems by (simp add: less_mult_imp_div_less)
  from Suc.IH [OF this] show ?case by (subst dec_digits.simps) simp
qed

lemma digit_less_128: "is_dec_digit ch \<Longrightarrow> (of_char ch :: nat) < 128"
  by (simp add: is_dec_digit_def)

lemma default_display_name_ok:
  assumes "0 \<le> i" "i < 2 ^ 64"
  shows "name_ok (default_display_name i)"
proof -
  have "\<forall>ch \<in> set (dec_digits (nat i)). (of_char ch :: nat) < 128"
    using dec_digits_are_digits [of "nat i"] digit_less_128 by (auto simp: list_all_iff)
  then have "\<forall>c \<in> set (default_display_name i). c < 128"
    using assms(1) by (auto simp: default_display_name_def pytext_def int_str_def)
  from utf8_encode_ascii [OF this] show ?thesis
    using assms length_dec_digits [of "nat i" 19]
    by (simp add: name_ok_def default_display_name_def pytext_def int_str_def lobby_sizes nat_less_iff)
qed

lemma notify_room_state [simp]: "lb_state (fst (notify_room self room kind i text)) = lb_state self"
  by (simp add: notify_room_def split: option.splits sum.splits)

lemma notify_room_delivers:
  assumes "lobby_wf (lb_state self)" "ls_next_member_id (lb_state self) \<le> 2 ^ 64"
    and "0 \<le> kind" "kind < 256" "text_ok text"
    and "map_of (ls_members (lb_state self)) i = Some m"
  obtains payload where
    "encode_presence \<lparr>pe_kind = kind, pe_member_id = i, pe_display_name = mem_display_name m,
       pe_status = mem_status m, pe_text = text\<rparr> = Inr payload"
    "notify_room self room kind i text =
       (self\<lparr>lb_sink := sink_deliver (lb_sink self) (room_members (lb_state self) room) payload\<rparr>,
        None)"
proof -
  have m: "member_wf (lb_state self) i m" by (rule lobby_wfD(5) [OF assms(1,6)])
  then have "name_ok (mem_display_name m)"
    using default_display_name_ok [of i] assms(2) by (auto simp: member_wf_def)
  then obtain name where name: "utf8_encode (mem_display_name m) = Inr name" "length name \<le> 64"
    by (auto simp: name_ok_def lobby_sizes split: sum.splits)
  obtain tb where tb: "utf8_encode text = Inr tb" "length tb \<le> 4096"
    using assms(5) by (auto simp: text_ok_def lobby_sizes split: sum.splits)
  have "fmt_fits FQ i" using m assms(2) by (simp add: fmt_fits_def member_wf_def)
  then have "\<exists>payload. encode_presence \<lparr>pe_kind = kind, pe_member_id = i,
      pe_display_name = mem_display_name m, pe_status = mem_status m, pe_text = text\<rparr> = Inr payload"
    using name tb m assms(3,4) by (simp add: encode_presence_Inr member_wf_def)
  then obtain payload where p: "encode_presence \<lparr>pe_kind = kind, pe_member_id = i,
      pe_display_name = mem_display_name m, pe_status = mem_status m, pe_text = text\<rparr> = Inr payload"
    by blast
  show thesis
    by (rule that [OF p]) (simp add: notify_room_def lobby_member_def assms(6) p)
qed

lemma notify_room_no_exc:
  assumes "lobby_wf (lb_state self)" "ls_next_member_id (lb_state self) \<le> 2 ^ 64"
    and "0 \<le> kind" "kind < 256" "text_ok text"
  shows "snd (notify_room self room kind i text) = None"
proof (cases "map_of (ls_members (lb_state self)) i")
  case None
  then show ?thesis by (simp add: notify_room_def lobby_member_def)
next
  case (Some m)
  then show ?thesis using notify_room_delivers [OF assms Some] by (metis snd_conv)
qed

lemma notify_rooms_state [simp]: "lb_state (fst (notify_rooms self rooms i)) = lb_state self"
proof (induction self rooms i rule: notify_rooms.induct)
  case (2 self room rooms i)
  obtain x e where n: "notify_room self room KIND_STATUS i [] = (x, e)" by force
  then have "lb_state x = lb_state self"
    using notify_room_state [of self room KIND_STATUS i "[]"] by simp
  with 2 n show ?case by (cases e) simp_all
qed simp

lemma text_ok_Nil [simp]: "text_ok []"
  by (simp add: text_ok_def utf8_encode_def)

lemma notify_rooms_no_exc:
  assumes "lobby_wf (lb_state self)" "ls_next_member_id (lb_state self) \<le> 2 ^ 64"
  shows "snd (notify_rooms self rooms i) = None"
  using assms
proof (induction self rooms i rule: notify_rooms.induct)
  case (2 self room rooms i)
  have n: "snd (notify_room self room KIND_STATUS i []) = None"
    by (rule notify_room_no_exc) (use 2 in \<open>simp_all add: KIND_STATUS_def\<close>)
  obtain self' where s: "notify_room self room KIND_STATUS i [] = (self', None)"
    using n by (metis prod.collapse)
  then have "lb_state self' = lb_state self" by (metis fst_conv notify_room_state)
  then show ?case using 2 s by simp
qed simp

lemma decode_chat_text_ok: "decode_chat_room b = Inr (room, text) \<Longrightarrow> text_ok text"
proof -
  assume "decode_chat_room b = Inr (room, text)"
  then obtain p where "encode_chat_room room text = Inr p"
    using chat_codec.dec_image by fastforce
  then show ?thesis by (auto simp: encode_chat_room_Inr text_ok_def lobby_sizes)
qed

subsection \<open>Runs of the server\<close>

record world =
  w_lobby :: lobby
  w_sessions :: "nat \<Rightarrow> session"

definition world_wf :: "world \<Rightarrow> bool" where
  "world_wf w \<longleftrightarrow>
     lobby_wf (lb_state (w_lobby w)) \<and> (\<forall>i. session_wf (lb_state (w_lobby w)) (w_sessions w i))"

text \<open>
  One step of a run: the gateway dispatches a frame of some registered type from some session, the
  program sets a display name that fits a \<open>presence\<close> payload, or a reader clears the outbox.
\<close>

inductive lobby_step :: "world \<Rightarrow> lobby_exc option \<Rightarrow> world \<Rightarrow> bool" where
  dispatch: "\<lbrakk>map_of lobby_handlers msg_type = Some h;
      h payload (w_sessions w i) (w_lobby w) = (lb, s, e)\<rbrakk> \<Longrightarrow>
      lobby_step w e (w\<lparr>w_lobby := lb, w_sessions := (w_sessions w)(i := s)\<rparr>)"
| rename: "name_ok nm \<Longrightarrow>
      lobby_step w None (w\<lparr>w_lobby := (w_lobby w)\<lparr>lb_state :=
        set_display_name (lb_state (w_lobby w)) mid nm\<rparr>\<rparr>)"
| clear: "lobby_step w None (w\<lparr>w_lobby := (w_lobby w)\<lparr>lb_sink := sink_clear (lb_sink (w_lobby w))\<rparr>\<rparr>)"

inductive lobby_run :: "world \<Rightarrow> lobby_exc list \<Rightarrow> world \<Rightarrow> bool" where
  start: "lobby_run w [] w"
| more: "\<lbrakk>lobby_run w es w'; lobby_step w' e w''\<rbrakk> \<Longrightarrow>
      lobby_run w (es @ (case e of None \<Rightarrow> [] | Some x \<Rightarrow> [x])) w''"

inductive_cases lobby_stepE: "lobby_step w e w'"

definition world_init :: "(nat \<Rightarrow> session_kind) \<Rightarrow> world" where
  "world_init kinds =
     \<lparr>w_lobby = \<lparr>lb_state = LobbyState_init, lb_sink = \<lparr>os_entries = []\<rparr>\<rparr>,
      w_sessions = (\<lambda>i. \<lparr>sess_kind = kinds i, sess_actor_id = 0\<rparr>)\<rparr>"

definition handler_ok :: "lobby \<Rightarrow> session \<Rightarrow> handler_result \<Rightarrow> bool" where
  "handler_ok self s r =
     (case r of (self', s', e) \<Rightarrow>
        lobby_wf (lb_state self') \<and>
        dom (map_of (ls_members (lb_state self))) \<subseteq> dom (map_of (ls_members (lb_state self'))) \<and>
        session_wf (lb_state self') s' \<and>
        ls_next_member_id (lb_state self) \<le> ls_next_member_id (lb_state self') \<and>
        (ls_next_member_id (lb_state self') \<le> 2 ^ 64 \<longrightarrow> e = None))"

lemma session_wf_mono:
  "session_wf st s \<Longrightarrow> dom (map_of (ls_members st)) \<subseteq> dom (map_of (ls_members st')) \<Longrightarrow>
   session_wf st' s"
  by (auto simp: session_wf_def)

lemma handler_ok_same: "lobby_wf (lb_state self) \<Longrightarrow> session_wf (lb_state self) s \<Longrightarrow>
    handler_ok self s (self, s, None)"
  by (simp add: handler_ok_def)

lemma handler_ok_except:
  assumes "lobby_wf (lb_state self)" "session_wf (lb_state self) s"
    and "r \<noteq> Inl StructErr" "\<And>v. r = Inr v \<Longrightarrow> handler_ok self s (k v)"
  shows "handler_ok self s (except_value_error r self s k)"
  using assms handler_ok_same [OF assms(1,2)]
  by (auto simp: except_value_error_def split: sum.splits codec_exc.splits)

lemma handler_ok_notify:
  assumes "lobby_wf st" "session_wf st s" "0 \<le> kind" "kind < 256" "text_ok text"
    and "dom (map_of (ls_members (lb_state self))) \<subseteq> dom (map_of (ls_members st))"
    and "ls_next_member_id (lb_state self) \<le> ls_next_member_id st"
  shows "handler_ok self s (let (self'', e) = notify_room (self\<lparr>lb_state := st\<rparr>) room kind i text
           in (self'', s, e))"
proof -
  obtain self'' e where n: "notify_room (self\<lparr>lb_state := st\<rparr>) room kind i text = (self'', e)"
    by force
  have "lb_state self'' = st"
    using notify_room_state [of "self\<lparr>lb_state := st\<rparr>" room kind i "text"] n by simp
  moreover have "e = None" if "ls_next_member_id st \<le> 2 ^ 64"
    using notify_room_no_exc [of "self\<lparr>lb_state := st\<rparr>" kind "text" room i] n assms that by simp
  ultimately show ?thesis using assms n by (simp add: handler_ok_def)
qed

lemma rguard_eq_Inl [simp]: "rguard b e = Inl x \<longleftrightarrow> \<not> b \<and> x = e"
  by (auto simp: rguard_def)

lemma text_exc_no_struct [simp]: "text_exc r \<noteq> Inl StructErr"
  by (simp add: text_exc_def split: sum.splits)

lemma pack_exc_unpack_Inl [simp]:
  "pack_exc (struct_unpack e fs bs) = Inl x \<longleftrightarrow> length bs \<noteq> calcsize fs \<and> x = StructErr"
  by (auto simp: struct_unpack_def pack_exc_def)

lemma decode_no_struct_error:
  "decode_login b \<noteq> Inl StructErr" "decode_room_op b \<noteq> Inl StructErr"
  "decode_chat_room b \<noteq> Inl StructErr" "decode_presence_update b \<noteq> Inl StructErr"
  by (auto simp: decode_login_def decode_room_op_def decode_chat_room_def decode_presence_update_def
      rbind_eq_Inl lobby_sizes Let_def)

lemma on_login_ok:
  assumes "lobby_wf (lb_state self)" "session_wf (lb_state self) s"
  shows "handler_ok self s (on_login payload s self)"
proof (cases "length payload < LOGIN_PAYLOAD_LEN")
  case True
  then show ?thesis using handler_ok_same [OF assms] by (simp add: on_login_def)
next
  case False
  then obtain p where p: "decode_login payload = Inr p"
    by (simp add: decode_login_def lobby_sizes struct_unpack_def)
  obtain r st where g: "get_or_create_member (lb_state self) p = (r, st)" by force
  obtain m where m: "r = Inr m" "map_of (ls_members st) (mem_member_id m) = Some m"
    using get_or_create_member_grows(2) [OF assms(1) g] by blast
  have "session_wf st (bind_actor s (mem_member_id m))"
    using m(2) by (cases "sess_kind s") (auto simp: session_wf_def session_member_id_def bind_actor_def)
  then show ?thesis
    using False p g m get_or_create_member_wf [OF assms(1) g]
      get_or_create_member_grows(1,3) [OF assms(1) g]
    by (simp add: on_login_def handler_ok_def)
qed

lemma on_room_join_ok:
  assumes "lobby_wf (lb_state self)" "session_wf (lb_state self) s"
  shows "handler_ok self s (on_room_join payload s self)"
  unfolding on_room_join_def
proof (rule handler_ok_except [OF assms])
  show "decode_room_join payload \<noteq> Inl StructErr"
    by (simp add: decode_room_join_def decode_no_struct_error)
  fix room
  let ?i = "session_member_id s"
  obtain c st where j: "join_room (lb_state self) room ?i = (c, st)" by force
  show "handler_ok self s (let member_id = ?i in
       if member_id = 0 then (self, s, None)
       else let (changed, st) = join_room (lb_state self) room member_id;
                self' = self\<lparr>lb_state := st\<rparr>
            in if \<not> changed then (self', s, None)
               else let (self'', e) = notify_room self' room KIND_JOIN member_id []
                    in (self'', s, e))"
  proof (cases "?i = 0")
    case True
    then show ?thesis using handler_ok_same [OF assms] by simp
  next
    case False
    then have "?i \<in> dom (map_of (ls_members (lb_state self)))"
      using assms(2) by (simp add: session_wf_def)
    note wf = join_room_wf [OF assms(1) this j]
    have s': "session_wf st s" using assms(2) by (simp add: session_wf_def wf(2))
    show ?thesis
    proof (cases c)
      case True
      then show ?thesis
        using False j handler_ok_notify [of st s KIND_JOIN "[]" self room ?i, OF wf(1) s'] wf(2,3)
        by (simp add: KIND_JOIN_def)
    next
      case False
      then show ?thesis using \<open>?i \<noteq> 0\<close> j wf s' by (simp add: handler_ok_def)
    qed
  qed
qed

lemma on_room_leave_ok:
  assumes "lobby_wf (lb_state self)" "session_wf (lb_state self) s"
  shows "handler_ok self s (on_room_leave payload s self)"
  unfolding on_room_leave_def
proof (rule handler_ok_except [OF assms])
  show "decode_room_leave payload \<noteq> Inl StructErr"
    by (simp add: decode_room_leave_def decode_no_struct_error)
  fix room
  let ?i = "session_member_id s"
  obtain c st where j: "leave_room (lb_state self) room ?i = (c, st)" by force
  note wf = leave_room_wf [OF assms(1) j]
  have s': "session_wf st s" using assms(2) by (simp add: session_wf_def wf(2))
  show "handler_ok self s (let member_id = ?i in
       if member_id = 0 then (self, s, None)
       else let (changed, st) = leave_room (lb_state self) room member_id;
                self' = self\<lparr>lb_state := st\<rparr>
            in if \<not> changed then (self', s, None)
               else let (self'', e) = notify_room self' room KIND_LEAVE member_id []
                    in (self'', s, e))"
  proof (cases "?i = 0")
    case True
    then show ?thesis using handler_ok_same [OF assms] by simp
  next
    case False
    show ?thesis
    proof (cases c)
      case True
      then show ?thesis
        using False j handler_ok_notify [of st s KIND_LEAVE "[]" self room ?i, OF wf(1) s'] wf(2,3)
        by (simp add: KIND_LEAVE_def)
    next
      case False
      then show ?thesis using \<open>?i \<noteq> 0\<close> j wf s' by (simp add: handler_ok_def)
    qed
  qed
qed

lemma on_chat_room_ok:
  assumes "lobby_wf (lb_state self)" "session_wf (lb_state self) s"
  shows "handler_ok self s (on_chat_room payload s self)"
  unfolding on_chat_room_def
proof (rule handler_ok_except [OF assms])
  show "decode_chat_room payload \<noteq> Inl StructErr" by (rule decode_no_struct_error)
  fix v
  assume d: "decode_chat_room payload = Inr v"
  obtain room line where v: "v = (room, line)" by (cases v)
  have tok: "text_ok line" by (rule decode_chat_text_ok [OF d [unfolded v]])
  let ?i = "session_member_id s" and ?st = "record_chat (lb_state self) room (session_member_id s) line"
  have mem: "ls_members ?st = ls_members (lb_state self)"
    "ls_next_member_id ?st = ls_next_member_id (lb_state self)"
    by (simp_all add: record_chat_def)
  show "handler_ok self s ((\<lambda>(room, text). let member_id = ?i in
       if member_id = 0 then (self, s, None)
       else if member_id \<notin> set (room_members (lb_state self) room) then (self, s, None)
       else let self' = self\<lparr>lb_state := record_chat (lb_state self) room member_id text\<rparr>;
                (self'', e) = notify_room self' room KIND_CHAT member_id text
            in (self'', s, e)) v)"
  proof (cases "?i = 0")
    case True
    then show ?thesis using handler_ok_same [OF assms] by (simp add: v)
  next
    case False
    then have "?i \<in> dom (map_of (ls_members (lb_state self)))"
      using assms(2) by (simp add: session_wf_def)
    then have wf: "lobby_wf ?st" by (rule record_chat_wf [OF assms(1)])
    have s': "session_wf ?st s" using assms(2) by (simp add: session_wf_def mem)
    show ?thesis
      using False handler_ok_same [OF assms] mem
        handler_ok_notify [of ?st s KIND_CHAT line self room ?i, OF wf s']
      by (simp add: v tok KIND_CHAT_def Let_def)
  qed
qed

lemma on_presence_update_ok:
  assumes "lobby_wf (lb_state self)" "session_wf (lb_state self) s"
  shows "handler_ok self s (on_presence_update payload s self)"
proof (cases "length payload < PRESENCE_UPDATE_PAYLOAD_LEN")
  case True
  then show ?thesis using handler_ok_same [OF assms] by (simp add: on_presence_update_def)
next
  case False
  then obtain i status where d: "decode_presence_update payload = Inr (i, status)"
    by (simp add: decode_presence_update_def lobby_sizes struct_unpack_def)
  then obtain p where "encode_presence_update i status = Inr p"
    using status_codec.dec_image by fastforce
  then have st: "0 \<le> status" "status < 256"
    by (auto simp: encode_presence_update_def struct_pack_eq_Inr)
  obtain c st where u: "set_status (lb_state self) i status = (c, st)" by force
  note wf = set_status_wf [OF assms(1) st u]
  have s': "session_wf st s" using assms(2) by (simp add: session_wf_def wf(2))
  let ?self = "self\<lparr>lb_state := st\<rparr>"
  obtain self'' e where n: "notify_rooms ?self (room_names st) i = (self'', e)" by force
  have "lb_state self'' = st" using notify_rooms_state [of ?self "room_names st" i] n by simp
  moreover have "e = None" if "ls_next_member_id st \<le> 2 ^ 64"
    using notify_rooms_no_exc [of ?self "room_names st" i] n wf(1) that by simp
  ultimately show ?thesis
    using False d u n wf s' by (cases c) (simp_all add: on_presence_update_def handler_ok_def Let_def)
qed

lemma lobby_handlers_ok:
  assumes "map_of lobby_handlers msg_type = Some h"
    and "lobby_wf (lb_state self)" "session_wf (lb_state self) s"
  shows "handler_ok self s (h payload s self)"
  using assms(1) on_login_ok [OF assms(2,3)] on_room_join_ok [OF assms(2,3)]
    on_room_leave_ok [OF assms(2,3)] on_chat_room_ok [OF assms(2,3)]
    on_presence_update_ok [OF assms(2,3)]
  by (auto simp: lobby_handlers_def split: if_splits)

lemma set_display_name_dom:
  "dom (map_of (ls_members (set_display_name st i nm))) = dom (map_of (ls_members st))"
  by (auto simp: set_display_name_def dom_def split: option.splits if_splits)

lemma set_display_name_next [simp]:
  "ls_next_member_id (set_display_name st i nm) = ls_next_member_id st"
  by (simp add: set_display_name_def split: option.splits)

lemma lobby_step_wf:
  assumes "lobby_step w e w'" "world_wf w"
  shows "world_wf w' \<and>
    ls_next_member_id (lb_state (w_lobby w)) \<le> ls_next_member_id (lb_state (w_lobby w')) \<and>
    (ls_next_member_id (lb_state (w_lobby w')) \<le> 2 ^ 64 \<longrightarrow> e = None)"
  using assms
proof cases
  case (dispatch msg_type h payload i lb s)
  have "handler_ok (w_lobby w) (w_sessions w i) (lb, s, e)"
    using lobby_handlers_ok [OF dispatch(2)] dispatch(3) assms(2) by (metis world_wf_def)
  then show ?thesis
    using assms(2) session_wf_mono unfolding dispatch(1)
    by (auto simp: handler_ok_def world_wf_def)
next
  case (rename nm mid)
  then show ?thesis
    using assms(2) set_display_name_wf
    by (auto simp: world_wf_def session_wf_def set_display_name_dom)
next
  case clear
  then show ?thesis using assms(2) by (simp add: world_wf_def)
qed

lemma world_init_wf: "world_wf (world_init kinds)"
  by (simp add: world_wf_def world_init_def lobby_wf_init session_wf_def session_member_id_def
      split: session_kind.splits)

subsection \<open>Properties of the handlers\<close>


definition demo_world :: world where
  "demo_world = world_init (\<lambda>_. AttrSession)"


lemma get_or_create_member_bound:
  assumes "lobby_wf st"
  obtains m st' where "get_or_create_member st p = (Inr m, st')" "lobby_wf st'"
    "map_of (ls_members_by_principal st') p = Some (mem_member_id m)"
    "map_of (ls_members st') (mem_member_id m) = Some m" "mem_principal_id m = p"
    "\<And>q. q \<noteq> p \<Longrightarrow> map_of (ls_members_by_principal st') q = map_of (ls_members_by_principal st) q"
    "\<And>i. map_of (ls_members_by_principal st) p = Some i \<Longrightarrow> st' = st"
  using assms
proof (cases rule: get_or_create_member_cases [where p = p])
  case (old i m)
  then show ?thesis using assms by (intro that [of m st]) simp_all
next
  case (new m)
  let ?st = "snd (get_or_create_member st p)"
  have g: "get_or_create_member st p = (Inr m, ?st)" using new(3) by simp
  have "lobby_wf ?st" by (rule get_or_create_member_wf [OF assms g])
  then show ?thesis using new by (intro that [OF g]) simp_all
qed

lemma on_login_bound:
  assumes "lobby_wf (lb_state self)" "encode_login p = Inr b" "sess_kind s = AttrSession"
  obtains m st' where "on_login (b @ rest) s self =
      (self\<lparr>lb_state := st'\<rparr>, s\<lparr>sess_actor_id := mem_member_id m\<rparr>, None)"
    "lobby_wf st'" "map_of (ls_members_by_principal st') p = Some (mem_member_id m)"
    "map_of (ls_members st') (mem_member_id m) = Some m" "mem_principal_id m = p"
    "\<And>q. q \<noteq> p \<Longrightarrow> map_of (ls_members_by_principal st') q =
       map_of (ls_members_by_principal (lb_state self)) q"
    "\<And>i. map_of (ls_members_by_principal (lb_state self)) p = Some i \<Longrightarrow> st' = lb_state self"
proof -
  have d: "decode_login (b @ rest) = Inr p" by (rule login_codec.dec_enc [OF assms(2)])
  then have l: "\<not> length (b @ rest) < LOGIN_PAYLOAD_LEN"
    by (auto simp: decode_login_def rbind_eq_Inr)
  obtain m st' where g: "get_or_create_member (lb_state self) p = (Inr m, st')" "lobby_wf st'"
    "map_of (ls_members_by_principal st') p = Some (mem_member_id m)"
    "map_of (ls_members st') (mem_member_id m) = Some m" "mem_principal_id m = p"
    "\<And>q. q \<noteq> p \<Longrightarrow> map_of (ls_members_by_principal st') q =
       map_of (ls_members_by_principal (lb_state self)) q"
    "\<And>i. map_of (ls_members_by_principal (lb_state self)) p = Some i \<Longrightarrow> st' = lb_state self"
    using get_or_create_member_bound [OF assms(1), of p] by blast
  have "on_login (b @ rest) s self =
      (self\<lparr>lb_state := st'\<rparr>, s\<lparr>sess_actor_id := mem_member_id m\<rparr>, None)"
    using d l g(1) assms(3) by (simp add: on_login_def bind_actor_def)
  from that [OF this g(2-)] show thesis .
qed

lemma lobby_run_wf:
  assumes "lobby_run w0 es w" "world_wf w0"
  shows "world_wf w"
  using assms by (induction rule: lobby_run.induct) (auto dest: lobby_step_wf)

text \<open>A login binds the session to the one member of its principal: two logins bind the same member
  id exactly when their principals are equal, and a repeated login changes nothing in the lobby.\<close>

theorem login_one_member_per_principal:
  assumes "lobby_run (world_init kinds) es w" "sess_kind s = AttrSession" "sess_kind t = AttrSession"
    and "encode_login p = Inr b" "encode_login q = Inr c"
    and "on_login (b @ rest) s (w_lobby w) = (lb, s', e)" "on_login (c @ rest') t lb = (lb', t', e')"
  shows "e = None \<and> e' = None \<and>
    (\<exists>m. lobby_member (lb_state lb) (sess_actor_id s') = Some m \<and> mem_principal_id m = p) \<and>
    (sess_actor_id s' = sess_actor_id t' \<longleftrightarrow> p = q) \<and> (p = q \<longrightarrow> lb' = lb)"
proof -
  have wf: "lobby_wf (lb_state (w_lobby w))"
    using lobby_run_wf [OF assms(1) world_init_wf] by (simp add: world_wf_def)
  obtain m st where 1: "(lb, s', e) = ((w_lobby w)\<lparr>lb_state := st\<rparr>, s\<lparr>sess_actor_id := mem_member_id m\<rparr>, None)"
    "lobby_wf st" "map_of (ls_members_by_principal st) p = Some (mem_member_id m)"
    "map_of (ls_members st) (mem_member_id m) = Some m" "mem_principal_id m = p"
    using on_login_bound [OF wf assms(4,2), of rest] assms(6) by metis
  have wf': "lobby_wf (lb_state lb)" using 1 by simp
  obtain m' st' where 2: "(lb', t', e') = (lb\<lparr>lb_state := st'\<rparr>, t\<lparr>sess_actor_id := mem_member_id m'\<rparr>, None)"
    "lobby_wf st'" "map_of (ls_members_by_principal st') q = Some (mem_member_id m')"
    "map_of (ls_members st') (mem_member_id m') = Some m'" "mem_principal_id m' = q"
    "\<And>x. x \<noteq> q \<Longrightarrow> map_of (ls_members_by_principal st') x =
       map_of (ls_members_by_principal (lb_state lb)) x"
    "\<And>i. map_of (ls_members_by_principal (lb_state lb)) q = Some i \<Longrightarrow> st' = lb_state lb"
    using on_login_bound [OF wf' assms(5,3), of rest'] assms(7) by (metis (no_types))
  have "mem_member_id m \<noteq> mem_member_id m'" if "p \<noteq> q"
  proof
    assume eq: "mem_member_id m = mem_member_id m'"
    have "map_of (ls_members_by_principal st') p = Some (mem_member_id m)"
      using 2(6) [OF that] 1 by simp
    then obtain x where "map_of (ls_members st') (mem_member_id m) = Some x" "mem_principal_id x = p"
      using lobby_wfD(6) [OF 2(2)] by blast
    with eq 2(4,5) that show False by simp
  qed
  moreover have "st' = st \<and> mem_member_id m' = mem_member_id m" if "p = q"
  proof -
    have st: "lb_state lb = st" using 1(1) by simp
    then have "st' = st" using 2(7) [of "mem_member_id m"] 1(3) that by simp
    then show ?thesis using 2(3) 1(3) that by simp
  qed
  ultimately show ?thesis
    using 1(1,4,5) 2(1) by (auto simp: lobby_member_def)
qed

lemma room_members_sorted:
  assumes "lobby_wf st"
  shows "sorted (room_members st room)" "distinct (room_members st room)"
    "set (room_members st room) =
       (case map_of (ls_rooms st) room of None \<Rightarrow> {} | Some ms \<Rightarrow> ms)"
  using lobby_wfD(7) [OF assms, of room]
  by (auto simp: room_members_def split: option.splits)

lemma room_member_known:
  assumes "lobby_wf st" "i \<in> set (room_members st room)"
  obtains m where "map_of (ls_members st) i = Some m" "i \<noteq> 0"
proof -
  have "i \<in> dom (map_of (ls_members st))"
    using assms room_members_sorted(3) [OF assms(1), of room] lobby_wfD(7) [OF assms(1), of room]
    by (auto split: option.splits)
  then obtain m where m: "map_of (ls_members st) i = Some m" by blast
  moreover have "i \<noteq> 0" using lobby_wfD(5) [OF assms(1) m] by (simp add: member_wf_def)
  ultimately show thesis by (rule that)
qed

text \<open>A chat line from a session whose member is in the room is logged once and delivered as one
  notification addressed to exactly the members of the room, in ascending order, whose payload
  decodes to the sender's id, name, status and the text; from any other session it has no effect.\<close>

theorem chat_reaches_exactly_the_room:
  assumes "lobby_wf (lb_state self)" "ls_next_member_id (lb_state self) \<le> 2 ^ 64"
    and "encode_chat_room room line = Inr b" "session_member_id s = i"
  shows "if i \<in> set (room_members (lb_state self) room)
    then \<exists>m payload. lobby_member (lb_state self) i = Some m \<and>
      decode_presence payload =
        Inr \<lparr>pe_kind = KIND_CHAT, pe_member_id = i, pe_display_name = mem_display_name m,
             pe_status = mem_status m, pe_text = line\<rparr> \<and>
      on_chat_room (b @ rest) s self =
        (self\<lparr>lb_state := record_chat (lb_state self) room i line,
              lb_sink := sink_deliver (lb_sink self) (room_members (lb_state self) room) payload\<rparr>,
         s, None)
    else on_chat_room (b @ rest) s self = (self, s, None)"
proof (cases "i \<in> set (room_members (lb_state self) room)")
  case False
  have d: "decode_chat_room (b @ rest) = Inr (room, line)"
    using chat_codec.dec_enc [of "(room, line)" b rest] assms(3) by simp
  show ?thesis
    using False d assms(4) by (simp add: on_chat_room_def except_value_error_def Let_def)
next
  case True
  then obtain m where m: "map_of (ls_members (lb_state self)) i = Some m" "i \<noteq> 0"
    using room_member_known [OF assms(1)] by blast
  have d: "decode_chat_room (b @ rest) = Inr (room, line)"
    using chat_codec.dec_enc [of "(room, line)" b rest] assms(3) by simp
  let ?st = "record_chat (lb_state self) room i line"
  let ?self = "self\<lparr>lb_state := ?st\<rparr>"
  have wf: "lobby_wf (lb_state ?self)" using record_chat_wf [OF assms(1)] m by auto
  have next': "ls_next_member_id (lb_state ?self) \<le> 2 ^ 64" using assms(2) by (simp add: record_chat_def)
  have m': "map_of (ls_members (lb_state ?self)) i = Some m" using m by (simp add: record_chat_def)
  have k: "0 \<le> KIND_CHAT" "KIND_CHAT < 256" by (simp_all add: KIND_CHAT_def)
  obtain payload where p: "encode_presence \<lparr>pe_kind = KIND_CHAT, pe_member_id = i,
      pe_display_name = mem_display_name m, pe_status = mem_status m, pe_text = line\<rparr> = Inr payload"
    "notify_room ?self room KIND_CHAT i line =
       (?self\<lparr>lb_sink := sink_deliver (lb_sink ?self) (room_members (lb_state ?self) room) payload\<rparr>, None)"
    using notify_room_delivers [OF wf next' k decode_chat_text_ok [OF d] m'] by blast
  have rm: "room_members ?st room = room_members (lb_state self) room"
    by (simp add: room_members_def record_chat_def)
  show ?thesis
    using True d m p event_codec.dec_enc_exact [OF p(1)] assms(4)
    by (auto simp: on_chat_room_def except_value_error_def Let_def lobby_member_def rm)
qed

text \<open>C37: For the sessions the gateway really passes (\<open>kith.gateway.Session\<close>, whose \<open>info\<close> is a
  method), the handlers of \<open>room_join\<close>, \<open>room_leave\<close> and \<open>chat_room\<close> drop every frame, also after a
  login.\<close>

theorem facade_session_frames_dropped:
  assumes "sess_kind s = FacadeSession"
  shows "on_room_join payload s self = (self, s, None) \<and>
    on_room_leave payload s self = (self, s, None) \<and>
    on_chat_room payload s self = (self, s, None)"
proof -
  have i: "session_member_id s = 0" using assms by (simp add: session_member_id_def)
  show ?thesis
    using decode_no_struct_error [of payload]
    by (auto simp: on_room_join_def on_room_leave_def on_chat_room_def except_value_error_def i
        decode_room_join_def decode_room_leave_def split: sum.splits codec_exc.splits)
qed

theorem facade_session_frames_dropped_witness:
  "on_room_join [1, 0x61] \<lparr>sess_kind = FacadeSession, sess_actor_id = 1\<rparr> (w_lobby demo_world) =
     (w_lobby demo_world, \<lparr>sess_kind = FacadeSession, sess_actor_id = 1\<rparr>, None)"
  using facade_session_frames_dropped [of "\<lparr>sess_kind = FacadeSession, sess_actor_id = 1\<rparr>"
      "[1, 0x61]" "w_lobby demo_world"] by simp

lemma notify_rooms_entries:
  assumes "lobby_wf (lb_state self)" "ls_next_member_id (lb_state self) \<le> 2 ^ 64"
    and "map_of (ls_members (lb_state self)) i = Some m"
    and "encode_presence \<lparr>pe_kind = KIND_STATUS, pe_member_id = i,
      pe_display_name = mem_display_name m, pe_status = mem_status m, pe_text = []\<rparr> = Inr payload"
  shows "notify_rooms self rooms i =
    (self\<lparr>lb_sink := (lb_sink self)\<lparr>os_entries := os_entries (lb_sink self) @
       map (\<lambda>r. \<lparr>oe_session_ids = room_members (lb_state self) r, oe_payload = payload\<rparr>)
         (filter (\<lambda>r. i \<in> set (room_members (lb_state self) r)) rooms)\<rparr>\<rparr>, None)"
  using assms
proof (induction rooms arbitrary: self)
  case (Cons r rooms)
  have "notify_room self r KIND_STATUS i [] =
      (self\<lparr>lb_sink := sink_deliver (lb_sink self) (room_members (lb_state self) r) payload\<rparr>, None)"
    using Cons.prems by (simp add: notify_room_def lobby_member_def)
  then show ?case using Cons by (simp add: sink_deliver_def)
qed simp

text \<open>C38: A \<open>presence_update\<close> frame changes the status of the member it names and notifies every room
  of that member once, in name order; the session it arrives on plays no part, so any session can
  change any member's status.\<close>

theorem status_update_ignores_session:
  assumes "lobby_wf (lb_state self)" "ls_next_member_id (lb_state self) \<le> 2 ^ 64"
    and "encode_presence_update i status = Inr b"
    and "lobby_member (lb_state self) i = Some m" "mem_status m \<noteq> status"
  shows "\<exists>st payload. lobby_member st i = Some (m\<lparr>mem_status := status\<rparr>) \<and>
    decode_presence payload =
      Inr \<lparr>pe_kind = KIND_STATUS, pe_member_id = i, pe_display_name = mem_display_name m,
           pe_status = status, pe_text = []\<rparr> \<and>
    (\<forall>s. on_presence_update (b @ rest) s self =
      (\<lparr>lb_state = st, lb_sink = \<lparr>os_entries = os_entries (lb_sink self) @
          map (\<lambda>r. \<lparr>oe_session_ids = room_members (lb_state self) r, oe_payload = payload\<rparr>)
            (filter (\<lambda>r. i \<in> set (room_members (lb_state self) r))
              (room_names (lb_state self)))\<rparr>\<rparr>, s, None))"
proof -
  have d: "decode_presence_update (b @ rest) = Inr (i, status)"
    using status_codec.dec_enc [of "(i, status)" b rest] assms(3) by simp
  then have l: "\<not> length (b @ rest) < PRESENCE_UPDATE_PAYLOAD_LEN"
    by (auto simp: decode_presence_update_def rbind_eq_Inr)
  have st: "0 \<le> status" "status < 256"
    using assms(3) by (auto simp: encode_presence_update_def struct_pack_eq_Inr)
  define m' where "m' = m\<lparr>mem_status := status\<rparr>"
  define st' where "st' = (lb_state self)\<lparr>ls_members := AList.update i m' (ls_members (lb_state self))\<rparr>"
  have u: "set_status (lb_state self) i status = (True, st')"
    using assms(4,5) by (cases m) (simp add: set_status_def lobby_member_def st'_def m'_def)
  let ?self = "self\<lparr>lb_state := st'\<rparr>"
  have wf: "lobby_wf (lb_state ?self)" using set_status_wf(1) [OF assms(1) st u] by simp
  have nx: "ls_next_member_id (lb_state ?self) \<le> 2 ^ 64" using assms(2) by (simp add: st'_def)
  have mem: "map_of (ls_members (lb_state ?self)) i = Some m'" by (simp add: st'_def)
  have k: "0 \<le> KIND_STATUS" "KIND_STATUS < 256" by (simp_all add: KIND_STATUS_def)
  obtain payload where p: "encode_presence \<lparr>pe_kind = KIND_STATUS, pe_member_id = i,
      pe_display_name = mem_display_name m', pe_status = mem_status m', pe_text = []\<rparr> = Inr payload"
    using notify_room_delivers [OF wf nx k text_ok_Nil mem] by blast
  have rooms: "room_members st' r = room_members (lb_state self) r" "room_names st' = room_names (lb_state self)" for r
    by (simp_all add: room_members_def room_names_def st'_def)
  have "on_presence_update (b @ rest) s self = (\<lparr>lb_state = st', lb_sink = \<lparr>os_entries = os_entries (lb_sink self) @
          map (\<lambda>r. \<lparr>oe_session_ids = room_members (lb_state self) r, oe_payload = payload\<rparr>)
            (filter (\<lambda>r. i \<in> set (room_members (lb_state self) r))
              (room_names (lb_state self)))\<rparr>\<rparr>, s, None)" for s
    using l d u notify_rooms_entries [OF wf nx mem p, of "room_names st'"]
    by (simp add: on_presence_update_def rooms Let_def)
  moreover have "lobby_member st' i = Some (m\<lparr>mem_status := status\<rparr>)"
    by (simp add: lobby_member_def st'_def m'_def)
  moreover have "decode_presence payload = Inr \<lparr>pe_kind = KIND_STATUS, pe_member_id = i,
      pe_display_name = mem_display_name m, pe_status = status, pe_text = []\<rparr>"
    using event_codec.dec_enc_exact [OF p] by (simp add: m'_def)
  ultimately show ?thesis by blast
qed

definition demo_member :: "int \<Rightarrow> Member" where
  "demo_member i = \<lparr>mem_member_id = i, mem_principal_id = i + 4,
                    mem_display_name = default_display_name i, mem_status = 0\<rparr>"

definition demo_lobby :: lobby where
  "demo_lobby =
     \<lparr>lb_state = \<lparr>ls_members = [(1, demo_member 1), (2, demo_member 2)],
                  ls_members_by_principal = [(5, 1), (6, 2)], ls_rooms = [([0x61], {1, 2})],
                  ls_chat_log = [], ls_next_member_id = 3, ls_store = store_init\<rparr>,
      lb_sink = \<lparr>os_entries = []\<rparr>\<rparr>"

lemma demo_lobby_wf: "lobby_wf (lb_state demo_lobby)"
  by (auto simp: lobby_wf_def member_wf_def demo_lobby_def demo_member_def split: if_splits)

lemma demo_chat: "encode_chat_room [0x61] [0x68] = Inr [1, 0x61, 1, 0, 0x68]"
  by (simp add: encode_chat_room_def utf8_encode_def utf8_char_def scalar_value_def
      lobby_sizes struct_pack.simps fmt_fits_def pack_field_def byte_order_def be_bytes_numeral)

theorem chat_reaches_exactly_the_room_witness:
  "\<exists>payload. on_chat_room [1, 0x61, 1, 0, 0x68] \<lparr>sess_kind = AttrSession, sess_actor_id = 2\<rparr> demo_lobby =
     (demo_lobby\<lparr>lb_state := record_chat (lb_state demo_lobby) [0x61] 2 [0x68],
        lb_sink := \<lparr>os_entries = [\<lparr>oe_session_ids = [1, 2], oe_payload = payload\<rparr>]\<rparr>\<rparr>,
      \<lparr>sess_kind = AttrSession, sess_actor_id = 2\<rparr>, None)"
proof -
  have r: "room_members (lb_state demo_lobby) [0x61] = [1, 2]"
    by (simp add: room_members_def demo_lobby_def)
  have n: "ls_next_member_id (lb_state demo_lobby) \<le> 2 ^ 64" by (simp add: demo_lobby_def)
  have s: "session_member_id \<lparr>sess_kind = AttrSession, sess_actor_id = 2\<rparr> = 2"
    by (simp add: session_member_id_def)
  have k: "lb_sink demo_lobby = \<lparr>os_entries = []\<rparr>" by (simp add: demo_lobby_def)
  from chat_reaches_exactly_the_room [OF demo_lobby_wf n demo_chat s, of "[]"] show ?thesis
    by (auto simp: r sink_deliver_def k)
qed

theorem status_update_ignores_session_witness:
  "\<exists>lb. on_presence_update [2, 0, 0, 0, 0, 0, 0, 0, 1] \<lparr>sess_kind = FacadeSession, sess_actor_id = 0\<rparr>
          demo_lobby = (lb, \<lparr>sess_kind = FacadeSession, sess_actor_id = 0\<rparr>, None) \<and>
     map_option mem_status (lobby_member (lb_state lb) 2) = Some 1"
proof -
  have e: "encode_presence_update 2 1 = Inr [2, 0, 0, 0, 0, 0, 0, 0, 1]"
    by (simp add: encode_presence_update_def struct_pack.simps fmt_fits_def pack_field_def
        byte_order_def be_bytes_numeral)
  have n: "ls_next_member_id (lb_state demo_lobby) \<le> 2 ^ 64" by (simp add: demo_lobby_def)
  have m: "lobby_member (lb_state demo_lobby) 2 = Some (demo_member 2)"
    "mem_status (demo_member 2) \<noteq> 1"
    by (simp_all add: demo_lobby_def lobby_member_def demo_member_def)
  from status_update_ignores_session [OF demo_lobby_wf n e m, of "[]"] show ?thesis
    by fastforce
qed

theorem login_one_member_per_principal_witness:
  "\<exists>lb s lb' t. on_login [5, 0, 0, 0, 0, 0, 0, 0] \<lparr>sess_kind = AttrSession, sess_actor_id = 0\<rparr>
       (w_lobby demo_world) = (lb, s, None) \<and>
     on_login [6, 0, 0, 0, 0, 0, 0, 0] \<lparr>sess_kind = AttrSession, sess_actor_id = 0\<rparr> lb = (lb', t, None) \<and>
     sess_actor_id s \<noteq> sess_actor_id t"
proof -
  have e: "encode_login 5 = Inr [5, 0, 0, 0, 0, 0, 0, 0]" "encode_login 6 = Inr [6, 0, 0, 0, 0, 0, 0, 0]"
    by (simp_all add: encode_login_def struct_pack.simps fmt_fits_def pack_field_def
        byte_order_def be_bytes_numeral)
  have k: "sess_kind \<lparr>sess_kind = AttrSession, sess_actor_id = 0\<rparr> = AttrSession" by simp
  obtain lb s e1 where 1: "on_login ([5, 0, 0, 0, 0, 0, 0, 0] @ []) \<lparr>sess_kind = AttrSession, sess_actor_id = 0\<rparr>
       (w_lobby demo_world) = (lb, s, e1)" by (rule prod_cases3)
  obtain lb' t e2 where 2: "on_login ([6, 0, 0, 0, 0, 0, 0, 0] @ []) \<lparr>sess_kind = AttrSession, sess_actor_id = 0\<rparr>
       lb = (lb', t, e2)" by (rule prod_cases3)
  from login_one_member_per_principal [OF lobby_run.start k k e 1 [unfolded demo_world_def] 2] 1 2
  show ?thesis by auto
qed

subsection \<open>The catalog\<close>

lemma register_proto_type_eq:
  "Proto_register_type env p n i = (Inr (), p') \<longleftrightarrow> register_proto_type env p n i = (Inr (), p')"
proof -
  have "check_rc r (Some KithProtocolError) = Inr () \<longleftrightarrow> check_rc r None = Inr ()" for r
    by (cases r) (auto simp: check_rc_def check_error_def Let_def split: sum.splits)
  then show ?thesis
    by (auto simp: Proto_register_type_def register_proto_type_def split: sum.splits prod.splits)
qed

lemma register_types_reg_all:
  "register_types quiet_env p cat = (Inr (), p') \<longleftrightarrow> wire_types.reg_all p cat = Some p'"
proof (induction cat arbitrary: p)
  case (Cons ni cat)
  obtain n i where ni: "ni = (n, i)" by (cases ni)
  obtain r q where r: "register_proto_type quiet_env p n i = (r, q)" by force
  show ?case
  proof (cases r)
    case (Inr u)
    then have "proto_reg p n i = Some q"
      using r register_proto_type_eq [of quiet_env p n i q] by (simp add: proto_reg_def)
    then show ?thesis using Cons r Inr by (simp add: ni)
  next
    case (Inl e)
    have "proto_reg p n i = None"
    proof (rule ccontr)
      assume "proto_reg p n i \<noteq> None"
      then obtain p1 where "Proto_register_type quiet_env p n i = (Inr (), p1)"
        by (auto simp: proto_reg_def split: prod.splits sum.splits)
      then show False using register_proto_type_eq [of quiet_env p n i p1] r Inl by simp
    qed
    then show ?thesis using r Inl by (simp add: ni)
  qed
qed auto

lemma Proto_init_open:
  assumes "Proto_init quiet_env mp = Inr a"
  shows "proto_open a" "ok_name n \<Longrightarrow> proto_by_name a n = None" "proto_by_id a i = None"
proof -
  obtain p where p: "pr_handle a = Some p" "kp_types p = []"
    using assms by (auto simp: Proto_init_def kith_proto_create_def rbind_eq_Inr)
  show o: "proto_open a" using p by (simp add: proto_open_def registry_wf_def)
  show "proto_by_id a i = None"
    using proto_by_id_eq [OF p(1) o] p(2) by (simp add: find_by_id_locked_def)
  show "proto_by_name a n = None" if ok: "ok_name n"
  proof -
    obtain b where "name_arg n = Inr b" using name_arg_ok [OF ok] by blast
    from proto_by_name_eq [OF p(1) this] p(2) show ?thesis by (simp add: find_by_name_locked_def)
  qed
qed

lemma TYPES_ok: "wire_types.catalog_ok TYPES"
proof -
  have nm: "ok_name (pytext s)" if "s \<noteq> []" "\<forall>c \<in> set s. 0 < (of_char c :: nat) \<and> (of_char c :: nat) < 128" for s
  proof -
    have u: "utf8_encode (pytext s) = Inr (map of_nat (pytext s))"
      by (rule utf8_encode_ascii) (use that in \<open>auto simp: pytext_def\<close>)
    have "(of_nat n :: byte) \<noteq> 0" if "0 < n" "n < 128" for n :: nat
      using that by (simp add: word_unat_eq_iff)
    then have "0 \<notin> set (map of_nat (pytext s) :: bytes)" using that by (force simp: pytext_def)
    with u that show ?thesis by (simp add: ok_name_def pytext_def)
  qed
  show ?thesis
    unfolding wire_types.catalog_ok_def
    by (simp add: TYPES_def lobby_type_ids ok_id_def nm) (simp add: pytext_def)
qed

lemma lookup_Some: "proto_by_name a n = Some i \<Longrightarrow> Proto_lookup_type quiet_env a n = Inr i"
  by (simp add: proto_by_name_def split: sum.splits)

lemma type_name_Some: "proto_by_id a i = Some n \<Longrightarrow> Proto_type_name quiet_env a i = Inr (Some n)"
  by (simp add: proto_by_id_def split: sum.splits)

text \<open>Two peers that start from fresh codecs and register the lobby's catalog, one of them in any
  order, both succeed and agree on it: every name maps to its id on one side and back on the
  other.\<close>

theorem lobby_peers_agree:
  assumes "Proto_init quiet_env mp = Inr server" "Proto_init quiet_env mp' = Inr client"
    and "mset cat = mset TYPES"
  shows "\<exists>server' client'. messages_register quiet_env server = (Inr (), server') \<and>
    register_types quiet_env client cat = (Inr (), client') \<and>
    (\<forall>(n, i) \<in> set TYPES. Proto_lookup_type quiet_env server' n = Inr i \<and>
       Proto_type_name quiet_env client' i = Inr (Some n))"
proof -
  note s = Proto_init_open [OF assms(1)] and c = Proto_init_open [OF assms(2)]
  have ok: "\<forall>(n, i) \<in> set TYPES. ok_name n" using TYPES_ok by (auto simp: wire_types.catalog_ok_def)
  have "\<forall>(n, i) \<in> set TYPES. proto_by_name server n = None \<and> proto_by_id server i = None"
    "\<forall>(n, i) \<in> set TYPES. proto_by_name client n = None \<and> proto_by_id client i = None"
    using s(2,3) c(2,3) ok by blast+
  from wire_types.peers_agree [OF s(1) c(1) TYPES_ok assms(3) this]
  show ?thesis
    unfolding messages_register_def register_types_reg_all using lookup_Some type_name_Some by blast
qed

theorem lobby_peers_agree_witness:
  "\<exists>server client server' client'. Proto_init quiet_env 0 = Inr server \<and>
     Proto_init quiet_env 512 = Inr client \<and>
     messages_register quiet_env server = (Inr (), server') \<and>
     register_types quiet_env client (rev TYPES) = (Inr (), client') \<and>
     Proto_lookup_type quiet_env server' (pytext ''chat_room'') = Inr 1104 \<and>
     Proto_type_name quiet_env client' 1104 = Inr (Some (pytext ''chat_room''))"
proof -
  obtain server client where i: "Proto_init quiet_env 0 = Inr server" "Proto_init quiet_env 512 = Inr client"
    by (simp add: Proto_init_def kith_proto_create_def)
  have "mset (rev TYPES) = mset TYPES" by simp
  from lobby_peers_agree [OF i this] obtain server' client' where
    r: "messages_register quiet_env server = (Inr (), server')"
      "register_types quiet_env client (rev TYPES) = (Inr (), client')"
    and a: "\<forall>(n, i) \<in> set TYPES. Proto_lookup_type quiet_env server' n = Inr i \<and>
       Proto_type_name quiet_env client' i = Inr (Some n)" by blast
  have "(pytext ''chat_room'', 1104) \<in> set TYPES" by (simp add: TYPES_def lobby_type_ids)
  with a i r show ?thesis by blast
qed

end
