(* ===== verification/PyJson.thy ===== *)
theory PyJson
  imports PyText "HOL-Library.List_Lexorder"
begin

text \<open>
  The part of Python's \<open>json\<close> module the sources use: \<open>json.dumps(obj, sort_keys=True)\<close> with its
  default separators and \<open>ensure_ascii\<close>, and \<open>json.loads\<close> of a \<open>str\<close>. Code points are numbers: 34 is
  the quotation mark, 92 the backslash, 44 the comma, 58 the colon, 91/93 the brackets, 123/125 the
  braces. A float is kept as its text. An integer of more than 4300 digits raises a plain
  \<open>ValueError\<close> in both directions, as the interpreter's limit on integer strings does.

  The scanner is fuelled; \<open>loads\<close> gives it twice the length of the text and two, and
  \<open>loads_fuel\<close> shows that this is always enough. \<open>loads_dumps\<close> is the round trip.
\<close>

datatype json =
    JNull
  | JBool bool
  | JInt int
  | JFloat pystr
  | JStr pystr
  | JList "json list"
  | JObj "(pystr \<times> json) list"

datatype json_exc = JSONDecodeError | IntDigitLimit | OutOfFuel

definition INT_MAX_STR_DIGITS :: nat where "INT_MAX_STR_DIGITS = 4300"

subsection \<open>Writing\<close>

primrec json_sorted :: "json \<Rightarrow> json" where
  "json_sorted JNull = JNull"
| "json_sorted (JBool b) = JBool b"
| "json_sorted (JInt i) = JInt i"
| "json_sorted (JFloat l) = JFloat l"
| "json_sorted (JStr s) = JStr s"
| "json_sorted (JList js) = JList (map json_sorted js)"
| "json_sorted (JObj kvs) = JObj (sort_key fst (map (map_prod id json_sorted) kvs))"

definition hex4 :: "nat \<Rightarrow> pystr" where
  "hex4 n = pytext (hex_fixed 4 n)"

definition json_escape :: "nat \<Rightarrow> pystr" where
  "json_escape c =
     (if c = 34 then [92, 34]
      else if c = 92 then [92, 92]
      else if c = 8 then [92, 98]
      else if c = 12 then [92, 102]
      else if c = 10 then [92, 110]
      else if c = 13 then [92, 114]
      else if c = 9 then [92, 116]
      else if 32 \<le> c \<and> c < 127 then [c]
      else if c < 0x10000 then [92, 117] @ hex4 c
      else [92, 117] @ hex4 (0xD800 + (c - 0x10000) div 0x400) @
           [92, 117] @ hex4 (0xDC00 + (c - 0x10000) mod 0x400))"

definition json_string :: "pystr \<Rightarrow> pystr" where
  "json_string s = [34] @ concat (map json_escape s) @ [34]"

fun json_join :: "pystr list \<Rightarrow> pystr" where
  "json_join [] = []"
| "json_join [x] = x"
| "json_join (x # y # zs) = x @ [44, 32] @ json_join (y # zs)"

primrec json_text :: "json \<Rightarrow> pystr" where
  "json_text JNull = pytext ''null''"
| "json_text (JBool b) = (if b then pytext ''true'' else pytext ''false'')"
| "json_text (JInt i) = pytext (int_str i)"
| "json_text (JFloat l) = l"
| "json_text (JStr s) = json_string s"
| "json_text (JList js) = [91] @ json_join (map json_text js) @ [93]"
| "json_text (JObj kvs) =
     [123] @ json_join (map (\<lambda>(k, t). json_string k @ [58, 32] @ t) (map (map_prod id json_text) kvs))
     @ [125]"

definition int_digits_ok :: "int \<Rightarrow> bool" where
  "int_digits_ok i \<longleftrightarrow> length (dec_digits (nat \<bar>i\<bar>)) \<le> INT_MAX_STR_DIGITS"

primrec json_ints :: "json \<Rightarrow> int list" where
  "json_ints JNull = []"
| "json_ints (JBool b) = []"
| "json_ints (JInt i) = [i]"
| "json_ints (JFloat l) = []"
| "json_ints (JStr s) = []"
| "json_ints (JList js) = concat (map json_ints js)"
| "json_ints (JObj kvs) = concat (map snd (map (map_prod id json_ints) kvs))"

definition json_dumps :: "json \<Rightarrow> json_exc + pystr" where
  "json_dumps j =
     (if list_all int_digits_ok (json_ints j) then Inr (json_text (json_sorted j))
      else Inl IntDigitLimit)"

subsection \<open>Reading\<close>

definition skip_ws :: "pystr \<Rightarrow> pystr" where
  "skip_ws = dropWhile (\<lambda>c. c = 32 \<or> c = 9 \<or> c = 10 \<or> c = 13)"

definition hex_code :: "pystr \<Rightarrow> nat option" where
  "hex_code s =
     (if length s = 4 \<and> list_all (\<lambda>c. c < 128) s then hex_val 0 (map char_of s) else None)"

definition json_unescape :: "nat \<Rightarrow> nat option" where
  "json_unescape e =
     (if e = 34 then Some 34
      else if e = 92 then Some 92
      else if e = 47 then Some 47
      else if e = 98 then Some 8
      else if e = 102 then Some 12
      else if e = 110 then Some 10
      else if e = 114 then Some 13
      else if e = 116 then Some 9
      else None)"

definition low_surrogate :: "pystr \<Rightarrow> nat option" where
  "low_surrogate s =
     (if take 2 s = [92, 117]
      then (case hex_code (take 4 (drop 2 s)) of
              Some c \<Rightarrow> if 0xDC00 \<le> c \<and> c < 0xE000 then Some c else None
            | None \<Rightarrow> None)
      else None)"

function scan_string :: "pystr \<Rightarrow> json_exc + (pystr \<times> pystr)" where
  "scan_string [] = Inl JSONDecodeError"
| "scan_string (c # s) =
     (if c = 34 then Inr ([], s)
      else if c = 92 then
        (case s of
           [] \<Rightarrow> Inl JSONDecodeError
         | e # t \<Rightarrow>
             if e = 117 then
               (case hex_code (take 4 t) of
                  None \<Rightarrow> Inl JSONDecodeError
                | Some u \<Rightarrow>
                    (case (if 0xD800 \<le> u \<and> u < 0xDC00 then low_surrogate (drop 4 t) else None) of
                       None \<Rightarrow> rbind (scan_string (drop 4 t)) (\<lambda>(r, rest). Inr (u # r, rest))
                     | Some l \<Rightarrow>
                         rbind (scan_string (drop 10 t)) (\<lambda>(r, rest).
                           Inr ((0x10000 + (u - 0xD800) * 0x400 + (l - 0xDC00)) # r, rest))))
             else
               (case json_unescape e of
                  None \<Rightarrow> Inl JSONDecodeError
                | Some d \<Rightarrow> rbind (scan_string t) (\<lambda>(r, rest). Inr (d # r, rest))))
      else if c < 32 then Inl JSONDecodeError
      else rbind (scan_string s) (\<lambda>(r, rest). Inr (c # r, rest)))"
  by pat_completeness auto
termination
  by (relation "measure length") auto

definition is_digit :: "nat \<Rightarrow> bool" where
  "is_digit c \<longleftrightarrow> 48 \<le> c \<and> c < 58"

definition digits_val :: "pystr \<Rightarrow> nat" where
  "digits_val ds = foldl (\<lambda>acc c. 10 * acc + (c - 48)) 0 ds"

text \<open>\<open>scan_int_part\<close>, \<open>scan_frac\<close>, \<open>scan_exp\<close> return the matched text and the rest.\<close>

definition scan_int_part :: "pystr \<Rightarrow> (pystr \<times> pystr) option" where
  "scan_int_part s =
     (let sign = (if take 1 s = [45] then [45] else []);
          t = drop (length sign) s
      in case t of
           [] \<Rightarrow> None
         | c # r \<Rightarrow>
             if c = 48 then Some (sign @ [48], r)
             else if is_digit c then Some (sign @ takeWhile is_digit t, dropWhile is_digit t)
             else None)"

definition scan_frac :: "pystr \<Rightarrow> pystr \<times> pystr" where
  "scan_frac s =
     (case s of
        [] \<Rightarrow> ([], s)
      | c # r \<Rightarrow>
          if c = 46 \<and> takeWhile is_digit r \<noteq> [] then (c # takeWhile is_digit r, dropWhile is_digit r)
          else ([], s))"

definition scan_exp :: "pystr \<Rightarrow> pystr \<times> pystr" where
  "scan_exp s =
     (case s of
        [] \<Rightarrow> ([], s)
      | c # r \<Rightarrow>
          let sign = (if take 1 r = [45] \<or> take 1 r = [43] then take 1 r else []);
              t = drop (length sign) r
          in if (c = 101 \<or> c = 69) \<and> takeWhile is_digit t \<noteq> []
             then (c # sign @ takeWhile is_digit t, dropWhile is_digit t)
             else ([], s))"

definition scan_number :: "pystr \<Rightarrow> json_exc + (json \<times> pystr)" where
  "scan_number s =
     (case scan_int_part s of
        None \<Rightarrow> Inl JSONDecodeError
      | Some (ip, r) \<Rightarrow>
          let (fr, r1) = scan_frac r;
              (ex, r2) = scan_exp r1
          in if fr = [] \<and> ex = []
             then let neg = (take 1 ip = [45]);
                      ds = (if neg then drop 1 ip else ip)
                  in if INT_MAX_STR_DIGITS < length ds then Inl IntDigitLimit
                     else Inr (JInt (if neg then - int (digits_val ds) else int (digits_val ds)), r2)
             else Inr (JFloat (ip @ fr @ ex), r2))"

definition scan_literal :: "pystr \<Rightarrow> (json \<times> pystr) option" where
  "scan_literal s =
     (if take 4 s = pytext ''null'' then Some (JNull, drop 4 s)
      else if take 4 s = pytext ''true'' then Some (JBool True, drop 4 s)
      else if take 5 s = pytext ''false'' then Some (JBool False, drop 5 s)
      else if take 3 s = pytext ''NaN'' then Some (JFloat (pytext ''NaN''), drop 3 s)
      else if take 8 s = pytext ''Infinity'' then Some (JFloat (pytext ''Infinity''), drop 8 s)
      else if take 9 s = pytext ''-Infinity'' then Some (JFloat (pytext ''-Infinity''), drop 9 s)
      else None)"

text \<open>\<open>dict(pairs)\<close>: a repeated key keeps its first place and its last value.\<close>

definition dict_of_pairs :: "('k \<times> 'v) list \<Rightarrow> ('k, 'v) dict" where
  "dict_of_pairs kvs = fold (\<lambda>(k, v) d. AList.update k v d) kvs []"

fun scan_value :: "nat \<Rightarrow> pystr \<Rightarrow> json_exc + (json \<times> pystr)"
and scan_items :: "nat \<Rightarrow> pystr \<Rightarrow> json_exc + (json list \<times> pystr)"
and scan_members :: "nat \<Rightarrow> pystr \<Rightarrow> json_exc + ((pystr \<times> json) list \<times> pystr)" where
  "scan_value 0 s = Inl OutOfFuel"
| "scan_value (Suc n) [] = Inl JSONDecodeError"
| "scan_value (Suc n) (c # s) =
     (if c = 34 then rbind (scan_string s) (\<lambda>(t, r). Inr (JStr t, r))
      else if c = 123 then
        (if take 1 (skip_ws s) = [125] then Inr (JObj [], drop 1 (skip_ws s))
         else rbind (scan_members n (skip_ws s)) (\<lambda>(kvs, r). Inr (JObj (dict_of_pairs kvs), r)))
      else if c = 91 then
        (if take 1 (skip_ws s) = [93] then Inr (JList [], drop 1 (skip_ws s))
         else rbind (scan_items n (skip_ws s)) (\<lambda>(js, r). Inr (JList js, r)))
      else case scan_literal (c # s) of
             Some jr \<Rightarrow> Inr jr
           | None \<Rightarrow> scan_number (c # s))"
| "scan_items 0 s = Inl OutOfFuel"
| "scan_items (Suc n) s =
     rbind (scan_value n s) (\<lambda>(j, r).
       case skip_ws r of
         [] \<Rightarrow> Inl JSONDecodeError
       | c # t \<Rightarrow>
           if c = 93 then Inr ([j], t)
           else if c = 44 then rbind (scan_items n (skip_ws t)) (\<lambda>(js, r'). Inr (j # js, r'))
           else Inl JSONDecodeError)"
| "scan_members 0 s = Inl OutOfFuel"
| "scan_members (Suc n) s =
     (if take 1 s \<noteq> [34] then Inl JSONDecodeError
      else rbind (scan_string (drop 1 s)) (\<lambda>(k, r).
        if take 1 (skip_ws r) \<noteq> [58] then Inl JSONDecodeError
        else rbind (scan_value n (skip_ws (drop 1 (skip_ws r)))) (\<lambda>(j, r').
          case skip_ws r' of
            [] \<Rightarrow> Inl JSONDecodeError
          | c # t \<Rightarrow>
              if c = 125 then Inr ([(k, j)], t)
              else if c = 44 then
                rbind (scan_members n (skip_ws t)) (\<lambda>(kvs, r''). Inr ((k, j) # kvs, r''))
              else Inl JSONDecodeError)))"

definition json_loads :: "pystr \<Rightarrow> json_exc + json" where
  "json_loads s =
     (if take 1 s = [0xFEFF] then Inl JSONDecodeError
      else rbind (scan_value (2 * length s + 2) (skip_ws s)) (\<lambda>(j, r).
             if skip_ws r = [] then Inr j else Inl JSONDecodeError))"

subsection \<open>Fuel\<close>

subsection \<open>The scanner consumes its input\<close>

lemma length_skip_ws: "length (skip_ws s) \<le> length s"
  by (simp add: skip_ws_def length_dropWhile_le)

lemma scan_string_length: "scan_string s = Inr (t, r) \<Longrightarrow> length r < length s"
proof (induction s arbitrary: t r rule: scan_string.induct)
  case (2 c s)
  then show ?case
    by (force simp: rbind_eq_Inr split: if_splits list.splits option.splits)
qed simp

lemma dropWhile_less: "takeWhile P s \<noteq> [] \<Longrightarrow> length (dropWhile P s) < length s"
  by (cases s) (auto simp: length_dropWhile_le less_Suc_eq_le split: if_splits)

lemma dropWhile_le_Suc: "length (dropWhile P s) \<le> Suc (length s)"
  "length (dropWhile P s) < Suc (length s)" "length (dropWhile P s) < Suc (Suc (length s))"
  using length_dropWhile_le [of P s] by simp_all

lemma scan_int_part_length: "scan_int_part s = Some (ip, r) \<Longrightarrow> length r < length s"
  by (cases s; cases "tl s")
    (auto simp: scan_int_part_def Let_def dropWhile_le_Suc split: if_splits)

lemma scan_frac_length: "scan_frac s = (x, r) \<Longrightarrow> length r \<le> length s"
  by (auto simp: scan_frac_def length_dropWhile_le le_SucI split: list.splits if_splits)

lemma scan_exp_length: "scan_exp s = (x, r) \<Longrightarrow> length r \<le> length s"
  by (cases s; cases "tl s")
    (auto simp: scan_exp_def Let_def dropWhile_le_Suc le_SucI length_dropWhile_le split: if_splits)

lemma scan_number_length: "scan_number s = Inr (j, r) \<Longrightarrow> length r < length s"
proof -
  assume a: "scan_number s = Inr (j, r)"
  then obtain ip r0 where i: "scan_int_part s = Some (ip, r0)"
    by (auto simp: scan_number_def split: option.splits)
  obtain fr r1 where f: "scan_frac r0 = (fr, r1)" by force
  obtain ex r2 where e: "scan_exp r1 = (ex, r2)" by force
  have "r = r2" using a i f e by (auto simp: scan_number_def Let_def split: if_splits)
  then show ?thesis
    using scan_int_part_length [OF i] scan_frac_length [OF f] scan_exp_length [OF e] by simp
qed

lemma scan_literal_length: "scan_literal s = Some (j, r) \<Longrightarrow> length r < length s"
  by (cases s) (auto simp: scan_literal_def pytext_def split: if_splits)

lemma scan_string_fuel: "scan_string s \<noteq> Inl OutOfFuel"
proof (induction s rule: scan_string.induct)
  case (2 c s)
  then show ?case
    by (auto simp: rbind_eq_Inl split: list.splits option.splits if_splits)
qed simp

lemma scan_number_fuel: "scan_number s \<noteq> Inl OutOfFuel"
  by (auto simp: scan_number_def Let_def split: option.splits prod.splits)

lemma skip_ws_shorter: "skip_ws s = c # t \<Longrightarrow> length t < length s"
  using length_skip_ws [of s] by simp

lemma length_drop_skip_ws: "length (drop 1 (skip_ws s)) \<le> length s"
  using length_skip_ws [of s] by simp

text \<open>Enough fuel, and the rest is shorter: by simultaneous induction over the three scanners.\<close>

lemma scan_fuel:
  "2 * length s + 1 \<le> n \<Longrightarrow>
     scan_value n s \<noteq> Inl OutOfFuel \<and> (\<forall>j r. scan_value n s = Inr (j, r) \<longrightarrow> length r < length s)"
  "2 * length s + 2 \<le> n \<Longrightarrow>
     scan_items n s \<noteq> Inl OutOfFuel \<and> (\<forall>j r. scan_items n s = Inr (j, r) \<longrightarrow> length r < length s)"
  "2 * length s + 2 \<le> n \<Longrightarrow>
     scan_members n s \<noteq> Inl OutOfFuel \<and> (\<forall>j r. scan_members n s = Inr (j, r) \<longrightarrow> length r < length s)"
proof (induction n s and n s and n s rule: scan_value_scan_items_scan_members.induct)
  case (3 n c s)
  let ?w = "skip_ws s"
  have w: "2 * length ?w + 2 \<le> n" "length ?w \<le> length s"
    using 3(3) length_skip_ws [of s] by simp_all
  consider (str) "c = 34" | (obj) "c = 123" | (arr) "c = 91"
    | (other) "c \<noteq> 34" "c \<noteq> 123" "c \<noteq> 91" by blast
  then show ?case
  proof cases
    case str
    then show ?thesis
      using scan_string_fuel [of s] scan_string_length [of s]
      by (force simp: rbind_eq_Inl rbind_eq_Inr)
  next
    case obj
    show ?thesis
    proof (cases "take 1 ?w = [125]")
      case True
      then show ?thesis using obj w(2) by (cases ?w) auto
    next
      case False
      have "scan_members n ?w \<noteq> Inl OutOfFuel \<and>
          (\<forall>j r. scan_members n ?w = Inr (j, r) \<longrightarrow> length r < length ?w)"
        using 3(1) obj False w(1) by simp
      then show ?thesis using obj False w(2) by (force simp: rbind_eq_Inl rbind_eq_Inr)
    qed
  next
    case arr
    show ?thesis
    proof (cases "take 1 ?w = [93]")
      case True
      then show ?thesis using arr w(2) by (cases ?w) auto
    next
      case False
      have "scan_items n ?w \<noteq> Inl OutOfFuel \<and>
          (\<forall>j r. scan_items n ?w = Inr (j, r) \<longrightarrow> length r < length ?w)"
        using 3(2) arr False w(1) by simp
      then show ?thesis using arr False w(2) by (force simp: rbind_eq_Inl rbind_eq_Inr)
    qed
  next
    case other
    then show ?thesis
      using scan_number_fuel [of "c # s"] scan_number_length [of "c # s"] scan_literal_length [of "c # s"]
      by (auto split: option.splits)
  qed
next
  case (5 n s)
  have v: "scan_value n s \<noteq> Inl OutOfFuel" "\<And>j r. scan_value n s = Inr (j, r) \<Longrightarrow> length r < length s"
    using 5(1) 5(3) by auto
  show ?case
  proof (cases "scan_value n s")
    case (Inl e)
    then show ?thesis using v(1) by auto
  next
    case (Inr jr)
    obtain j r where jr: "jr = (j, r)" by (cases jr)
    have r: "length r < length s" using v(2) Inr jr by simp
    show ?thesis
    proof (cases "skip_ws r")
      case Nil
      then show ?thesis using Inr jr by simp
    next
      case (Cons c t)
      have t: "length (skip_ws t) < length s"
        using skip_ws_shorter [OF Cons] length_skip_ws [of t] r by simp
      then have f: "2 * length (skip_ws t) + 2 \<le> n" using 5(3) by simp
      show ?thesis
      proof (cases "c = 44")
        case True
        have "scan_items n (skip_ws t) \<noteq> Inl OutOfFuel \<and>
            (\<forall>j r. scan_items n (skip_ws t) = Inr (j, r) \<longrightarrow> length r < length (skip_ws t))"
          using 5(2) [OF Inr jr [symmetric] Cons] f True by auto
        then show ?thesis using Inr jr Cons True t by (force simp: rbind_eq_Inl rbind_eq_Inr)
      next
        case False
        then show ?thesis using Inr jr Cons r skip_ws_shorter [OF Cons] by auto
      qed
    qed
  qed
next
  case (7 n s)
  show ?case
  proof (cases "take 1 s = [34]")
    case False
    then show ?thesis by simp
  next
    case quote: True
    then have s: "length (drop 1 s) < length s" by (cases s) simp_all
    show ?thesis
    proof (cases "scan_string (drop 1 s)")
      case (Inl e)
      then show ?thesis using quote scan_string_fuel [of "drop 1 s"] by auto
    next
      case (Inr kr)
      obtain k r where kr: "kr = (k, r)" by (cases kr)
      have r: "length r < length s" using scan_string_length [of "drop 1 s" k r] Inr kr s by simp
      show ?thesis
      proof (cases "take 1 (skip_ws r) = [58]")
        case False
        then show ?thesis using quote Inr kr by simp
      next
        case colon: True
        let ?v = "skip_ws (drop 1 (skip_ws r))"
        have v: "length ?v < length s"
          using length_skip_ws [of "drop 1 (skip_ws r)"] length_drop_skip_ws [of r] r by simp
        have ih: "scan_value n ?v \<noteq> Inl OutOfFuel \<and>
            (\<forall>j r. scan_value n ?v = Inr (j, r) \<longrightarrow> length r < length ?v)"
          by (rule 7(1) [OF _ Inr kr [symmetric]]) (use quote colon v 7(3) in simp_all)
        show ?thesis
        proof (cases "scan_value n ?v")
          case (Inl e)
          then show ?thesis using quote \<open>scan_string (drop 1 s) = Inr kr\<close> kr colon conjunct1 [OF ih]
            by simp
        next
          case jr: (Inr jr)
          obtain j r' where j: "jr = (j, r')" by (cases jr)
          have r': "length r' < length s" using ih jr j v by auto
          show ?thesis
          proof (cases "skip_ws r'")
            case Nil
            then show ?thesis using quote Inr kr colon jr j by simp
          next
            case (Cons c t)
            have t: "length (skip_ws t) < length s"
              using skip_ws_shorter [OF Cons] length_skip_ws [of t] r' by simp
            have ih2: "scan_members n (skip_ws t) \<noteq> Inl OutOfFuel \<and>
                (\<forall>j r. scan_members n (skip_ws t) = Inr (j, r) \<longrightarrow> length r < length (skip_ws t))"
              if "c = 44"
              by (rule 7(2) [OF _ Inr kr [symmetric] _ jr j [symmetric] Cons])
                (use quote colon that t 7(3) in simp_all)
            show ?thesis
            proof (cases "c = 44")
              case True
              have m: "scan_members (Suc n) s =
                  rbind (scan_members n (skip_ws t)) (\<lambda>(kvs, r''). Inr ((k, j) # kvs, r''))"
                using quote Inr kr colon jr j Cons True by simp
              show ?thesis unfolding m using ih2 [OF True] t by (force simp: rbind_eq_Inl rbind_eq_Inr)
            next
              case False
              then show ?thesis using quote Inr kr colon jr j Cons r' skip_ws_shorter [OF Cons] by auto
            qed
          qed
        qed
      qed
    qed
  qed
qed simp_all

lemma loads_fuel: "json_loads s \<noteq> Inl OutOfFuel"
proof -
  have "2 * length (skip_ws s) + 1 \<le> 2 * length s + 2" using length_skip_ws [of s] by simp
  from scan_fuel(1) [OF this] show ?thesis by (auto simp: json_loads_def rbind_def split: sum.splits if_splits)
qed

subsection \<open>Round trip\<close>

primrec json_ok :: "json \<Rightarrow> bool" where
  "json_ok JNull = True"
| "json_ok (JBool b) = True"
| "json_ok (JInt i) = int_digits_ok i"
| "json_ok (JFloat l) = False"
| "json_ok (JStr s) = list_all scalar_value s"
| "json_ok (JList js) = list_all id (map json_ok js)"
| "json_ok (JObj kvs) =
     (distinct (map fst kvs) \<and> list_all (\<lambda>(k, ok). list_all scalar_value k \<and> ok)
        (map (map_prod id json_ok) kvs))"

lemma hex_digit_ascii: "n < 16 \<Longrightarrow> (of_char (hex_digit n) :: nat) < 128"
  using less_16_cases [of n] by (auto simp: hex_digit_def)

lemma hex_fixed_ascii: "ch \<in> set (hex_fixed n v) \<Longrightarrow> (of_char ch :: nat) < 128"
  by (induction n arbitrary: v) (auto simp: hex_digit_ascii)

lemma length_hex4 [simp]: "length (hex4 n) = 4"
  by (simp add: hex4_def pytext_def)

lemma hex_code_hex4 [simp]: "n < 0x10000 \<Longrightarrow> hex_code (hex4 n) = Some n"
proof -
  assume n: "n < 0x10000"
  have "list_all (\<lambda>c. c < 128) (hex4 n)"
    using hex_fixed_ascii by (auto simp: hex4_def pytext_def list_all_iff)
  moreover have "map char_of (hex4 n) = hex_fixed 4 n"
    by (simp add: hex4_def pytext_def comp_def)
  ultimately show ?thesis using n hex_val_hex_fixed [of 0 4 n] by (simp add: hex_code_def)
qed

lemma scan_string_escape:
  assumes "scalar_value c"
  shows "scan_string (json_escape c @ t) = rbind (scan_string t) (\<lambda>(r, rest). Inr (c # r, rest))"
proof (cases "c < 0x10000")
  case True
  then show ?thesis
    using assms by (auto simp: json_escape_def json_unescape_def scalar_value_def)
next
  case False
  define h where "h = (c - 0x10000) div 0x400"
  define l where "l = (c - 0x10000) mod 0x400"
  have hl: "h < 0x400" "l < 0x400" "0x10000 + h * 0x400 + l = c"
    using False assms by (auto simp: h_def l_def scalar_value_def)
  have e: "json_escape c = [92, 117] @ hex4 (0xD800 + h) @ [92, 117] @ hex4 (0xDC00 + l)"
    using False by (simp add: json_escape_def h_def l_def)
  have lo: "low_surrogate (92 # 117 # hex4 (0xDC00 + l) @ t) = Some (0xDC00 + l)"
    using hl by (simp add: low_surrogate_def)
  show ?thesis
    using hl lo by (simp add: e)
qed

lemma scan_string_text:
  "list_all scalar_value s \<Longrightarrow> scan_string (concat (map json_escape s) @ 34 # rest) = Inr (s, rest)"
  by (induction s) (simp_all add: scan_string_escape)

definition json_delim :: "pystr \<Rightarrow> bool" where
  "json_delim rest \<longleftrightarrow> rest = [] \<or> hd rest \<in> {44, 93, 125}"

lemma is_digit_pytext:
  "list_all is_dec_digit ds \<Longrightarrow> \<forall>c \<in> set (pytext ds). is_digit c"
  by (auto simp: pytext_def list_all_iff is_dec_digit_def is_digit_def)

lemma digits_val_pytext: "digits_val (pytext ds) = dec_val ds"
proof -
  have "foldl (\<lambda>acc c. 10 * acc + (c - 48)) a (map of_char ds) =
      foldl (\<lambda>acc ch. 10 * acc + (of_char ch - 48)) a ds" for a :: nat
    by (induction ds arbitrary: a) simp_all
  then show ?thesis by (simp add: digits_val_def pytext_def dec_val_def)
qed

lemma char_of_48 [simp]: "char_of (48 :: nat) = CHR ''0''"
proof -
  have "char_of (of_char CHR ''0'' :: nat) = CHR ''0''" by (rule char_of_char)
  moreover have "(of_char CHR ''0'' :: nat) = 48" by simp
  ultimately show ?thesis by (simp only:)
qed

lemma hd_dec_digits: "0 < n \<Longrightarrow> hd (dec_digits n) \<noteq> CHR ''0''"
proof (induction n rule: dec_digits.induct)
  case (1 n)
  show ?case
  proof (cases "n < 10")
    case True
    have "char_of (48 + n) \<noteq> CHR ''0''"
    proof
      assume "char_of (48 + n) = CHR ''0''"
      then have "of_char (char_of (48 + n) :: char) = (of_char CHR ''0'' :: nat)" by simp
      with True 1(2) show False by simp
    qed
    with True show ?thesis by (subst dec_digits.simps) simp
  next
    case False
    then have "hd (dec_digits (n div 10)) \<noteq> CHR ''0''" using 1 by simp
    with False show ?thesis by (subst dec_digits.simps) simp
  qed
qed

lemma dec_digits_0: "dec_digits 0 = ''0''"
  by (simp add: dec_digits.simps [of 0])

lemma delim_not_digit: "json_delim rest \<Longrightarrow> takeWhile is_digit rest = []"
  by (cases rest) (auto simp: json_delim_def is_digit_def)

lemma delim_no_frac: "json_delim rest \<Longrightarrow> scan_frac rest = ([], rest) \<and> scan_exp rest = ([], rest)"
  by (cases rest) (auto simp: json_delim_def scan_frac_def scan_exp_def Let_def)

lemma scan_int_part_digits:
  assumes "json_delim rest" "sign = [] \<or> sign = [45]"
  shows "scan_int_part (sign @ pytext (dec_digits n) @ rest) = Some (sign @ pytext (dec_digits n), rest)"
proof -
  obtain c ds where d: "pytext (dec_digits n) = c # ds"
    using dec_digits_nonempty [of n] by (cases "dec_digits n") (auto simp: pytext_def)
  have dig: "\<forall>x \<in> set (c # ds). is_digit x"
    using is_digit_pytext [OF dec_digits_are_digits [of n]] d by simp
  have tw: "takeWhile is_digit (c # ds @ rest) = c # ds" "dropWhile is_digit (c # ds @ rest) = rest"
    using dig delim_not_digit [OF assms(1)]
    by (simp_all add: takeWhile_append2 dropWhile_append2)
      (metis append_Nil takeWhile_dropWhile_id)
  have c: "c \<noteq> 45" "is_digit c" using dig by (auto simp: is_digit_def)
  show ?thesis
  proof (cases "n = 0")
    case True
    then have "c = 48 \<and> ds = []" using d by (simp add: dec_digits_0 pytext_def)
    then show ?thesis using assms(2) by (auto simp: d scan_int_part_def Let_def)
  next
    case False
    have "c \<noteq> 48"
    proof
      assume "c = 48"
      then have "of_char (hd (dec_digits n)) = (48 :: nat)"
        using d by (cases "dec_digits n") (auto simp: pytext_def)
      then have "hd (dec_digits n) = char_of (48 :: nat)" by (metis char_of_char)
      then show False using hd_dec_digits [of n] False by simp
    qed
    then show ?thesis using assms(2) c tw by (auto simp: d scan_int_part_def Let_def)
  qed
qed

lemma scan_number_int:
  assumes "json_delim rest" "int_digits_ok i"
  shows "scan_number (pytext (int_str i) @ rest) = Inr (JInt i, rest)"
proof -
  define sign where "sign = (if i < 0 then [45::nat] else [])"
  have t: "pytext (int_str i) = sign @ pytext (dec_digits (nat \<bar>i\<bar>))"
    by (simp add: sign_def int_str_def pytext_def)
  have ip: "scan_int_part (pytext (int_str i) @ rest) = Some (sign @ pytext (dec_digits (nat \<bar>i\<bar>)), rest)"
    unfolding t append_assoc
    by (rule scan_int_part_digits [OF assms(1)]) (simp add: sign_def)
  obtain c ds where d: "pytext (dec_digits (nat \<bar>i\<bar>)) = c # ds"
    using dec_digits_nonempty [of "nat \<bar>i\<bar>"] by (cases "dec_digits (nat \<bar>i\<bar>)") (auto simp: pytext_def)
  have c: "c \<noteq> 45"
    using is_digit_pytext [OF dec_digits_are_digits [of "nat \<bar>i\<bar>"]] d by (auto simp: is_digit_def)
  have v: "digits_val (c # ds) = nat \<bar>i\<bar>" using digits_val_pytext [of "dec_digits (nat \<bar>i\<bar>)"] d by simp
  have l: "\<not> INT_MAX_STR_DIGITS < length (c # ds)"
    using assms(2) d [symmetric] by (simp add: int_digits_ok_def pytext_def)
  show ?thesis
    unfolding scan_number_def ip
    using delim_no_frac [OF assms(1)] c v l by (auto simp: d sign_def Let_def)
qed

lemma pytext_Cons: "pytext (c # s) = of_char c # pytext s"
  by (simp add: pytext_def)

lemma scan_literal_number:
  assumes "is_digit c \<or> (c = 45 \<and> (\<exists>d r. s = d # r \<and> is_digit d))"
  shows "scan_literal (c # s) = None"
  using assms by (auto simp: scan_literal_def pytext_def is_digit_def)

lemma int_text_shape:
  obtains c s where "pytext (int_str i) = c # s"
    "is_digit c \<or> (c = 45 \<and> (\<exists>d r. s = d # r \<and> is_digit d))"
proof -
  obtain d r where d: "pytext (dec_digits (nat \<bar>i\<bar>)) = d # r"
    using dec_digits_nonempty [of "nat \<bar>i\<bar>"] by (cases "dec_digits (nat \<bar>i\<bar>)") (auto simp: pytext_def)
  have "is_digit d" using is_digit_pytext [OF dec_digits_are_digits [of "nat \<bar>i\<bar>"]] d by simp
  then show thesis
    using that d by (cases "i < 0") (auto simp: int_str_def pytext_Cons)
qed

lemma scan_value_int:
  assumes "json_delim rest" "int_digits_ok i" "0 < n"
  shows "scan_value n (pytext (int_str i) @ rest) = Inr (JInt i, rest)"
proof -
  obtain c s where t: "pytext (int_str i) = c # s"
    and sh: "is_digit c \<or> (c = 45 \<and> (\<exists>d r. s = d # r \<and> is_digit d))"
    by (rule int_text_shape)
  have "is_digit c \<or> (c = 45 \<and> (\<exists>d r. s @ rest = d # r \<and> is_digit d))" using sh by auto
  then have lit: "scan_literal (c # s @ rest) = None" by (rule scan_literal_number)
  have "c \<noteq> 34" "c \<noteq> 123" "c \<noteq> 91" using sh by (auto simp: is_digit_def)
  then show ?thesis
    using scan_number_int [OF assms(1,2)] lit assms(3) by (cases n) (simp_all add: t)
qed

lemma json_text_hd:
  assumes "json_ok j"
  obtains c s where "json_text j = c # s" "c \<notin> {32, 9, 10, 13, 93, 125, 0xFEFF}"
proof (cases j)
  case (JInt i)
  obtain c s where "pytext (int_str i) = c # s"
    "is_digit c \<or> (c = 45 \<and> (\<exists>d r. s = d # r \<and> is_digit d))"
    by (rule int_text_shape)
  then show ?thesis using that [of c s] JInt by (auto simp: is_digit_def)
next
  case (JBool b)
  then show ?thesis using that by (cases b) (auto simp: pytext_def)
qed (use assms that in \<open>auto simp: pytext_def json_string_def\<close>)

lemma skip_ws_id: "c \<notin> {32, 9, 10, 13} \<Longrightarrow> skip_ws (c # s) = c # s"
  by (simp add: skip_ws_def)

lemma skip_ws_space: "skip_ws (32 # s) = skip_ws s"
  by (simp add: skip_ws_def)

lemma skip_ws_text: "json_ok j \<Longrightarrow> skip_ws (json_text j @ t) = json_text j @ t"
  by (rule json_text_hd [of j]) (auto simp: skip_ws_id)

definition value_rt :: "json \<Rightarrow> bool" where
  "value_rt j \<longleftrightarrow> (\<forall>n rest. json_delim rest \<longrightarrow> 2 * length (json_text j @ rest) + 1 \<le> n \<longrightarrow>
     scan_value n (json_text j @ rest) = Inr (j, rest))"

lemma value_rtD:
  "value_rt j \<Longrightarrow> json_delim rest \<Longrightarrow> 2 * length (json_text j @ rest) + 1 \<le> n \<Longrightarrow>
   scan_value n (json_text j @ rest) = Inr (j, rest)"
  by (simp add: value_rt_def)

lemma json_delim_simps [simp]: "json_delim (44 # s)" "json_delim (93 # s)" "json_delim (125 # s)"
  "json_delim []"
  by (simp_all add: json_delim_def)

lemma skip_ws_delim [simp]: "skip_ws (44 # s) = 44 # s" "skip_ws (93 # s) = 93 # s"
  "skip_ws (125 # s) = 125 # s" "skip_ws (58 # s) = 58 # s" "skip_ws (34 # s) = 34 # s"
  by (simp_all add: skip_ws_def)

lemma scan_items_text:
  assumes "js \<noteq> []" "\<forall>j \<in> set js. json_ok j \<and> value_rt j"
    and "2 * length (json_join (map json_text js) @ 93 # rest) + 2 \<le> n"
  shows "scan_items n (json_join (map json_text js) @ 93 # rest) = Inr (js, rest)"
  using assms
proof (induction js arbitrary: n rule: list_nonempty_induct)
  case (single j)
  then obtain m where n: "n = Suc m" by (cases n) auto
  have "scan_value m (json_text j @ 93 # rest) = Inr (j, 93 # rest)"
    by (rule value_rtD) (use single n in auto)
  then show ?case by (simp add: n)
next
  case (cons j js)
  then obtain m where n: "n = Suc m" by (cases n) auto
  let ?t = "json_join (map json_text js) @ 93 # rest"
  obtain k ks where js: "js = k # ks" using cons.hyps by (cases js) auto
  have tx: "json_join (map json_text (j # js)) @ 93 # rest = json_text j @ 44 # 32 # ?t"
    by (simp add: js)
  have v: "scan_value m (json_text j @ 44 # 32 # ?t) = Inr (j, 44 # 32 # ?t)"
    by (rule value_rtD) (use cons.prems n in \<open>auto simp: js\<close>)
  have ws: "skip_ws (32 # ?t) = ?t"
  proof -
    have "skip_ws (json_text k @ u) = json_text k @ u" for u
      using cons.prems by (simp add: skip_ws_text js)
    moreover obtain u where "?t = json_text k @ u" by (cases ks) (auto simp: js)
    ultimately show ?thesis by (simp add: skip_ws_space)
  qed
  have "scan_items m ?t = Inr (js, rest)"
    by (rule cons.IH) (use cons.prems n in \<open>auto simp: js\<close>)
  then show ?case unfolding tx n using v ws by simp
qed

lemma scan_members_text:
  assumes "kvs \<noteq> []" "\<forall>(k, j) \<in> set kvs. list_all scalar_value k \<and> json_ok j \<and> value_rt j"
    and "2 * length (json_join (map (\<lambda>(k, j). json_string k @ [58, 32] @ json_text j) kvs) @ 125 # rest) + 2 \<le> n"
  shows "scan_members n (json_join (map (\<lambda>(k, j). json_string k @ [58, 32] @ json_text j) kvs) @ 125 # rest)
           = Inr (kvs, rest)"
  using assms
proof (induction kvs arbitrary: n rule: list_nonempty_induct)
  case (single kj)
  obtain k j where kj: "kj = (k, j)" by (cases kj)
  obtain m where n: "n = Suc m" using single by (cases n) auto
  have "scan_value m (json_text j @ 125 # rest) = Inr (j, 125 # rest)"
    by (rule value_rtD) (use single n in \<open>auto simp: kj\<close>)
  then show ?case
    using single.prems
    by (simp add: n kj json_string_def scan_string_text skip_ws_space skip_ws_text)
next
  case (cons kj kvs)
  obtain k j where kj: "kj = (k, j)" by (cases kj)
  obtain m where n: "n = Suc m" using cons by (cases n) auto
  let ?f = "\<lambda>(k, j). json_string k @ [58, 32] @ json_text j"
  let ?t = "json_join (map ?f kvs) @ 125 # rest"
  obtain kj' rest' where kvs: "kvs = kj' # rest'" using cons.hyps by (cases kvs) auto
  have tx: "json_join (map ?f (kj # kvs)) @ 125 # rest =
      json_string k @ [58, 32] @ json_text j @ 44 # 32 # ?t"
    by (simp add: kvs kj)
  have v: "scan_value m (json_text j @ 44 # 32 # ?t) = Inr (j, 44 # 32 # ?t)"
    by (rule value_rtD) (use cons.prems n in \<open>auto simp: kvs kj\<close>)
  have ws: "skip_ws (32 # ?t) = ?t"
  proof -
    obtain u where "?t = 34 # u" by (cases rest'; cases kj') (auto simp: kvs json_string_def)
    then show ?thesis by (simp add: skip_ws_space)
  qed
  have "scan_members m ?t = Inr (kvs, rest)"
    by (rule cons.IH) (use cons.prems n in \<open>auto simp: kvs kj\<close>)
  then show ?case
    unfolding tx n using v ws cons.prems
    by (simp add: kj json_string_def scan_string_text skip_ws_space skip_ws_text)
qed

lemma dict_of_pairs_aux:
  "distinct (map fst (d @ kvs)) \<Longrightarrow> fold (\<lambda>(k, v) d. AList.update k v d) kvs d = d @ kvs"
proof (induction kvs arbitrary: d)
  case (Cons kv kvs)
  obtain k v where kv: "kv = (k, v)" by (cases kv)
  have "k \<notin> fst ` set d" using Cons.prems by (auto simp: kv)
  then have "AList.update k v d = d @ [(k, v)]" by (induction d) auto
  then show ?case using Cons.IH [of "d @ [(k, v)]"] Cons.prems by (simp add: kv)
qed simp

lemma dict_of_pairs_distinct: "distinct (map fst kvs) \<Longrightarrow> dict_of_pairs kvs = kvs"
  using dict_of_pairs_aux [of "[]" kvs] by (simp add: dict_of_pairs_def)

lemma json_text_Obj:
  "json_text (JObj kvs) =
     [123] @ json_join (map (\<lambda>(k, j). json_string k @ [58, 32] @ json_text j) kvs) @ [125]"
  by (simp add: case_prod_unfold comp_def)

lemma json_ok_Obj:
  "json_ok (JObj kvs) \<longleftrightarrow> distinct (map fst kvs) \<and>
     (\<forall>(k, j) \<in> set kvs. list_all scalar_value k \<and> json_ok j)"
  by (auto simp: list_all_iff)

lemma json_ok_List: "json_ok (JList js) \<longleftrightarrow> (\<forall>j \<in> set js. json_ok j)"
  by (simp add: list_all_iff)

lemma value_rt_scalar: "value_rt JNull" "value_rt (JBool b)"
proof -
  show "value_rt JNull"
    unfolding value_rt_def
  proof (intro allI impI)
    fix n rest assume n: "2 * length (json_text JNull @ rest) + 1 \<le> n"
    then obtain m where "n = Suc m" by (cases n) auto
    then show "scan_value n (json_text JNull @ rest) = Inr (JNull, rest)"
      by (simp add: pytext_def scan_literal_def)
  qed
  show "value_rt (JBool b)"
    unfolding value_rt_def
  proof (intro allI impI)
    fix n rest assume n: "2 * length (json_text (JBool b) @ rest) + 1 \<le> n"
    then obtain m where "n = Suc m" by (cases n) auto
    then show "scan_value n (json_text (JBool b) @ rest) = Inr (JBool b, rest)"
      by (cases b) (simp_all add: pytext_def scan_literal_def)
  qed
qed

lemma value_rt_int: "int_digits_ok i \<Longrightarrow> value_rt (JInt i)"
  by (simp add: value_rt_def scan_value_int)

lemma value_rt_str: "list_all scalar_value s \<Longrightarrow> value_rt (JStr s)"
  unfolding value_rt_def
proof (intro allI impI)
  fix n rest assume s: "list_all scalar_value s" and n: "2 * length (json_text (JStr s) @ rest) + 1 \<le> n"
  then obtain m where "n = Suc m" by (cases n) auto
  then show "scan_value n (json_text (JStr s) @ rest) = Inr (JStr s, rest)"
    using s by (simp add: json_string_def scan_string_text)
qed

lemma json_join_hd:
  "json_join (x # xs) @ t = x @ (if xs = [] then t else [44, 32] @ json_join xs @ t)"
  by (cases xs) auto

lemma value_rt_list:
  assumes js: "\<forall>j \<in> set js. json_ok j \<and> value_rt j"
  shows "value_rt (JList js)"
  unfolding value_rt_def
proof (intro allI impI)
  fix n rest assume n: "2 * length (json_text (JList js) @ rest) + 1 \<le> n"
  obtain m where m: "n = Suc m" using n by (cases n) auto
  let ?t = "json_join (map json_text js) @ 93 # rest"
  have goal: "json_text (JList js) @ rest = 91 # ?t" by simp
  show "scan_value n (json_text (JList js) @ rest) = Inr (JList js, rest)"
  proof (cases js)
    case Nil
    then show ?thesis by (simp add: m)
  next
    case (Cons j js')
    have it: "scan_items m ?t = Inr (js, rest)"
      by (rule scan_items_text) (use js n m Cons in auto)
    obtain c s where c: "json_text j = c # s" "c \<notin> {32, 9, 10, 13, 93, 125, 0xFEFF}"
      by (rule json_text_hd [of j]) (use js Cons in auto)
    obtain u where u: "?t = c # u" by (simp add: Cons json_join_hd c)
    have ws: "skip_ws ?t = ?t" and ne: "take 1 ?t \<noteq> [93]" unfolding u using c by (auto simp: skip_ws_id)
    show ?thesis unfolding goal m using it ws ne by simp
  qed
qed

lemma value_rt_obj:
  assumes kvs: "\<forall>(k, j) \<in> set kvs. list_all scalar_value k \<and> json_ok j \<and> value_rt j"
    and d: "distinct (map fst kvs)"
  shows "value_rt (JObj kvs)"
  unfolding value_rt_def
proof (intro allI impI)
  fix n rest assume n: "2 * length (json_text (JObj kvs) @ rest) + 1 \<le> n"
  obtain m where m: "n = Suc m" using n by (cases n) auto
  let ?t = "json_join (map (\<lambda>(k, j). json_string k @ [58, 32] @ json_text j) kvs) @ 125 # rest"
  have goal: "json_text (JObj kvs) @ rest = 123 # ?t" unfolding json_text_Obj by simp
  show "scan_value n (json_text (JObj kvs) @ rest) = Inr (JObj kvs, rest)"
  proof (cases kvs)
    case Nil
    then show ?thesis by (simp add: m)
  next
    case (Cons kj kvs')
    obtain k j where kj: "kj = (k, j)" by (cases kj)
    have it: "scan_members m ?t = Inr (kvs, rest)"
      by (rule scan_members_text) (use kvs n m Cons goal in auto)
    obtain u where u: "?t = 34 # u" by (simp add: Cons kj json_join_hd json_string_def)
    have ws: "skip_ws ?t = ?t" and ne: "take 1 ?t \<noteq> [125]" unfolding u by auto
    show ?thesis unfolding goal m using it ws ne by (simp add: dict_of_pairs_distinct [OF d])
  qed
qed

lemma value_rt_ok: "json_ok j \<Longrightarrow> value_rt j"
proof (induction j)
  case (JObj kvs)
  have "\<forall>(k, j) \<in> set kvs. list_all scalar_value k \<and> json_ok j \<and> value_rt j"
  proof clarify
    fix k j assume kj: "(k, j) \<in> set kvs"
    then have ok: "list_all scalar_value k" "json_ok j" using JObj.prems unfolding json_ok_Obj by auto
    moreover have "value_rt j" by (rule JObj.IH [OF kj _ ok(2)]) simp
    ultimately show "list_all scalar_value k \<and> json_ok j \<and> value_rt j" by simp
  qed
  then show ?case using JObj.prems unfolding json_ok_Obj by (intro value_rt_obj) auto
next
  case (JList js)
  then show ?case unfolding json_ok_List by (intro value_rt_list) auto
qed (auto intro: value_rt_scalar value_rt_int value_rt_str)

text \<open>Sorting the keys.\<close>

lemma json_ok_sorted: "json_ok j \<Longrightarrow> json_ok (json_sorted j)"
proof (induction j)
  case (JObj kvs)
  let ?s = "sort_key fst (map (map_prod id json_sorted) kvs)"
  have "distinct (map fst ?s)"
  proof -
    have "map fst (map (map_prod id json_sorted) kvs) = map fst kvs" by simp
    then have "mset (map fst ?s) = mset (map fst kvs)" by (metis mset_map mset_sort)
    then show ?thesis using JObj.prems unfolding json_ok_Obj by (metis mset_eq_imp_distinct_iff)
  qed
  moreover have "\<forall>(k, j) \<in> set ?s. list_all scalar_value k \<and> json_ok j"
  proof clarify
    fix k j assume "(k, j) \<in> set ?s"
    then obtain i where i: "(k, i) \<in> set kvs" "j = json_sorted i" by auto
    then have ok: "list_all scalar_value k" "json_ok i" using JObj.prems unfolding json_ok_Obj by auto
    moreover have "json_ok (json_sorted i)" by (rule JObj.IH [OF i(1) _ ok(2)]) simp
    ultimately show "list_all scalar_value k \<and> json_ok j" using i by simp
  qed
  ultimately show ?case unfolding json_sorted.simps json_ok_Obj by blast
next
  case (JList js)
  then show ?case unfolding json_ok_List json_sorted.simps by auto
qed auto

lemma json_ok_ints: "json_ok j \<Longrightarrow> list_all int_digits_ok (json_ints j)"
proof (induction j)
  case (JObj kvs)
  have "list_all int_digits_ok (json_ints j)" if "(k, j) \<in> set kvs" for k j
    by (rule JObj.IH [OF that]) (use that JObj.prems in \<open>auto simp: json_ok_Obj simp del: json_ok.simps\<close>)
  then show ?case by (auto simp: list_all_iff)
next
  case (JList js)
  then show ?case unfolding json_ok_List by (auto simp: list_all_iff)
qed auto

lemma loads_text:
  assumes "json_ok j"
  shows "json_loads (json_text j) = Inr j"
proof -
  obtain c s where c: "json_text j = c # s" "c \<notin> {32, 9, 10, 13, 93, 125, 0xFEFF}"
    by (rule json_text_hd [OF assms])
  show ?thesis
    using value_rtD [OF value_rt_ok [OF assms], of "[]" "2 * length (json_text j) + 2"] skip_ws_text [OF assms, of "[]"]
    using c by (simp add: json_loads_def) (simp add: skip_ws_def)
qed

lemma loads_dumps:
  "json_ok j \<Longrightarrow> rbind (json_dumps j) json_loads = Inr (json_sorted j)"
  by (simp add: json_dumps_def json_ok_ints loads_text json_ok_sorted)

end
