(* ===== verification/ReplayFormat.thy ===== *)
theory ReplayFormat
  imports PyJson WireCodec
begin

text \<open>
  The binary replay record of \<open>src/examples/_common/replay_format.py\<close>: the logical model, the
  streaming \<open>ReplayWriter\<close> with its ordering law, the strict reader \<open>read_document\<close>,
  \<open>encode_document\<close> and the differ.

  A writable stream is the list of bytes written so far. An exception message is a constructor: a
  reason of \<open>ReplayFormatError\<close> carries the byte offset its text names, where it names one. A call
  of the writer that raises leaves the writer as it was, since every check and every packing
  precedes the first \<open>write\<close>.

  The lemmas of \<open>ReplayLaws\<close> and \<open>ReplayDocs\<close> show that what the writer has emitted is, after every call, a
  record the reader accepts, and that the reader returns the document the calls describe.
\<close>

subsection \<open>Exceptions\<close>

datatype format_reason =
    FileShorterThanHeader
  | BadMagic
  | UnsupportedVersion int
  | UnknownHeaderFlags int
  | BadTickHz int
  | HeaderSizeBelow int
  | TruncatedFraming nat
  | PayloadBeyondEof nat
  | UnknownRecordFlags nat
  | TickNotAscending nat
  | MetaMisplaced nat
  | DuplicateExpectation nat
  | EventCountBeyondPayload nat
  | EventsNotCanonical nat
  | UnknownEventCode nat
  | WrongPayloadLength nat
  | PayloadTooShort nat
  | MetaNotJson nat
  | MetaNotObject nat
  | CheckpointNotAtTick nat
  | CheckpointKeyNotAscending nat
  | CheckpointStateLength nat

datatype replay_value_reason =
    TickHzBelowOne
  | WriterClosed
  | MetaTwice
  | MetaAfterTick
  | IntTooManyDigits
  | TickNotAdvancing
  | TooManyEvents
  | CheckpointTickMismatch
  | StreamKeyNotAscending
  | RngStateLength
  | UnknownCheckpointTicks "int list"
  | RecorderClosed
  | ProviderStateLength

datatype replay_exc =
    ReplayFormatError format_reason
  | ReplayValueError replay_value_reason
  | ReplayStructError
  | ReplayUnicodeError
  | ReplayIndexError

definition rp_struct :: "struct_error + 'a \<Rightarrow> replay_exc + 'a" where
  "rp_struct r = (case r of Inl _ \<Rightarrow> Inl ReplayStructError | Inr v \<Rightarrow> Inr v)"

definition rp_text :: "unicode_error + 'a \<Rightarrow> replay_exc + 'a" where
  "rp_text r = (case r of Inl _ \<Rightarrow> Inl ReplayUnicodeError | Inr v \<Rightarrow> Inr v)"

definition rp_json :: "json_exc + 'a \<Rightarrow> replay_exc + 'a" where
  "rp_json r = (case r of Inl _ \<Rightarrow> Inl (ReplayValueError IntTooManyDigits) | Inr v \<Rightarrow> Inr v)"

subsection \<open>Constants\<close>

definition MAGIC :: bytes where "MAGIC = [0x4B, 0x52, 0x50, 0x4C]"
definition FORMAT_VERSION :: int where "FORMAT_VERSION = 1"
definition HEADER_SIZE :: nat where "HEADER_SIZE = 16"
definition RECORD_HEADER_SIZE :: nat where "RECORD_HEADER_SIZE = 8"
definition RNG_STATE_SIZE :: nat where "RNG_STATE_SIZE = 40"
definition TICK_RECORD_TYPE :: int where "TICK_RECORD_TYPE = 1"
definition META_RECORD_TYPE :: int where "META_RECORD_TYPE = 2"
definition EXPECTED_HASH_RECORD_TYPE :: int where "EXPECTED_HASH_RECORD_TYPE = 3"
definition RNG_CHECKPOINT_RECORD_TYPE :: int where "RNG_CHECKPOINT_RECORD_TYPE = 4"
definition SPAWN_EVENT_CODE :: int where "SPAWN_EVENT_CODE = 1"
definition MOVE_EVENT_CODE :: int where "MOVE_EVENT_CODE = 2"
definition DESPAWN_EVENT_CODE :: int where "DESPAWN_EVENT_CODE = 3"
definition U16_MAX :: nat where "U16_MAX = 0xFFFF"

definition HEADER_TAIL_FMT :: "fmt list" where "HEADER_TAIL_FMT = [FH, FH, FI, FI]"
definition RECORD_FMT :: "fmt list" where "RECORD_FMT = [FB, FB, FH, FI]"
definition TICK_HEAD_FMT :: "fmt list" where "TICK_HEAD_FMT = [FQ, FH]"
definition SPAWN_FMT :: "fmt list" where "SPAWN_FMT = [FQ, Fq, Fq, Fq, Fq, Fq, Fq, FI]"
definition MOVE_FMT :: "fmt list" where "MOVE_FMT = [FQ, FI, Fh, Fh, Fh, FB]"
definition DESPAWN_FMT :: "fmt list" where "DESPAWN_FMT = [FQ]"
definition EXPECTED_HASH_FMT :: "fmt list" where "EXPECTED_HASH_FMT = [FQ, FQ]"
definition CHECKPOINT_HEAD_FMT :: "fmt list" where "CHECKPOINT_HEAD_FMT = [FQ, FQ, FI]"

lemmas replay_consts = MAGIC_def FORMAT_VERSION_def HEADER_SIZE_def RECORD_HEADER_SIZE_def
  RNG_STATE_SIZE_def TICK_RECORD_TYPE_def META_RECORD_TYPE_def EXPECTED_HASH_RECORD_TYPE_def
  RNG_CHECKPOINT_RECORD_TYPE_def SPAWN_EVENT_CODE_def MOVE_EVENT_CODE_def DESPAWN_EVENT_CODE_def
  U16_MAX_def

lemmas replay_fmts = HEADER_TAIL_FMT_def RECORD_FMT_def TICK_HEAD_FMT_def SPAWN_FMT_def
  MOVE_FMT_def DESPAWN_FMT_def EXPECTED_HASH_FMT_def CHECKPOINT_HEAD_FMT_def

subsection \<open>Logical model\<close>

datatype replay_event =
    SpawnEvent (ev_actor_id: int) (ev_pos_x: int) (ev_pos_y: int) (ev_pos_z: int)
      (ev_vel_x: int) (ev_vel_y: int) (ev_vel_z: int) (ev_flags: int)
  | MoveEvent (ev_actor_id: int) (ev_input_tick: int) (ev_move_x: int) (ev_move_y: int)
      (ev_move_z: int) (ev_flags: int)
  | DespawnEvent (ev_actor_id: int)

record tick_record =
  tr_tick :: int
  tr_events :: "replay_event list"

record expected_hash =
  eh_tick :: int
  eh_hash :: int

record rng_checkpoint =
  ck_tick :: int
  ck_stream_key :: int
  ck_state :: bytes

record replay_header =
  rh_tick_hz :: int
  rh_flags :: int

record replay_document =
  rd_header :: replay_header
  rd_meta :: "(pystr, json) dict option"
  rd_ticks :: "tick_record list"
  rd_expected :: "expected_hash list"
  rd_checkpoints :: "rng_checkpoint list"

definition TickRecord :: "int \<Rightarrow> replay_event list \<Rightarrow> tick_record" where
  "TickRecord t es = \<lparr>tr_tick = t, tr_events = es\<rparr>"

definition ExpectedHash :: "int \<Rightarrow> int \<Rightarrow> expected_hash" where
  "ExpectedHash t h = \<lparr>eh_tick = t, eh_hash = h\<rparr>"

definition RngCheckpoint :: "int \<Rightarrow> int \<Rightarrow> bytes \<Rightarrow> replay_exc + rng_checkpoint" where
  "RngCheckpoint t k s =
     rbind (rguard (length s = RNG_STATE_SIZE) (ReplayValueError RngStateLength)) (\<lambda>_.
     Inr \<lparr>ck_tick = t, ck_stream_key = k, ck_state = s\<rparr>)"

fun canonical_event_key :: "replay_event \<Rightarrow> int \<times> int \<times> int" where
  "canonical_event_key (SpawnEvent a x y z vx vy vz f) = (0, a, 0)"
| "canonical_event_key (MoveEvent a t x y z f) = (1, a, t)"
| "canonical_event_key (DespawnEvent a) = (2, a, 0)"

definition sort_events :: "replay_event list \<Rightarrow> replay_event list" where
  "sort_events es = sort_key canonical_event_key es"

subsection \<open>Events on the wire\<close>

fun pack_event :: "replay_event \<Rightarrow> replay_exc + bytes" where
  "pack_event (SpawnEvent a x y z vx vy vz f) =
     rbind (rp_struct (struct_pack Big [FB] [SPAWN_EVENT_CODE])) (\<lambda>c.
     rbind (rp_struct (struct_pack Big SPAWN_FMT [a, x, y, z, vx, vy, vz, f])) (\<lambda>b. Inr (c @ b)))"
| "pack_event (MoveEvent a t x y z f) =
     rbind (rp_struct (struct_pack Big [FB] [MOVE_EVENT_CODE])) (\<lambda>c.
     rbind (rp_struct (struct_pack Big MOVE_FMT [a, t, x, y, z, f])) (\<lambda>b. Inr (c @ b)))"
| "pack_event (DespawnEvent a) =
     rbind (rp_struct (struct_pack Big [FB] [DESPAWN_EVENT_CODE])) (\<lambda>c.
     rbind (rp_struct (struct_pack Big DESPAWN_FMT [a])) (\<lambda>b. Inr (c @ b)))"

definition require_exact_len :: "bytes \<Rightarrow> nat \<Rightarrow> nat \<Rightarrow> replay_exc + unit" where
  "require_exact_len actual expected at =
     rguard (length actual = expected) (ReplayFormatError (WrongPayloadLength at))"

definition require_at_least :: "bytes \<Rightarrow> nat \<Rightarrow> nat \<Rightarrow> replay_exc + unit" where
  "require_at_least actual minimum at =
     rguard (minimum \<le> length actual) (ReplayFormatError (PayloadTooShort at))"

fun spawn_of_fields :: "int list \<Rightarrow> replay_exc + replay_event" where
  "spawn_of_fields [a, x, y, z, vx, vy, vz, f] = Inr (SpawnEvent a x y z vx vy vz f)"
| "spawn_of_fields _ = Inl ReplayStructError"

fun move_of_fields :: "int list \<Rightarrow> replay_exc + replay_event" where
  "move_of_fields [a, t, x, y, z, f] = Inr (MoveEvent a t x y z f)"
| "move_of_fields _ = Inl ReplayStructError"

fun despawn_of_fields :: "int list \<Rightarrow> replay_exc + replay_event" where
  "despawn_of_fields [a] = Inr (DespawnEvent a)"
| "despawn_of_fields _ = Inl ReplayStructError"

definition unpack_event :: "bytes \<Rightarrow> nat \<Rightarrow> nat \<Rightarrow> replay_exc + replay_event" where
  "unpack_event payload offset at =
     (if length payload \<le> offset then Inl ReplayIndexError
      else let code = uint (payload ! offset);
               body = drop (offset + 1) payload
           in if code = SPAWN_EVENT_CODE then
                rbind (require_at_least body (calcsize SPAWN_FMT) at) (\<lambda>_.
                rbind (rp_struct (struct_unpack_from Big SPAWN_FMT body)) spawn_of_fields)
              else if code = MOVE_EVENT_CODE then
                rbind (require_at_least body (calcsize MOVE_FMT) at) (\<lambda>_.
                rbind (rp_struct (struct_unpack_from Big MOVE_FMT body)) move_of_fields)
              else if code = DESPAWN_EVENT_CODE then
                rbind (require_at_least body (calcsize DESPAWN_FMT) at) (\<lambda>_.
                rbind (rp_struct (struct_unpack_from Big DESPAWN_FMT body)) despawn_of_fields)
              else Inl (ReplayFormatError (UnknownEventCode at)))"

fun event_body_size :: "replay_event \<Rightarrow> nat" where
  "event_body_size (SpawnEvent a x y z vx vy vz f) = calcsize SPAWN_FMT"
| "event_body_size (MoveEvent a t x y z f) = calcsize MOVE_FMT"
| "event_body_size (DespawnEvent a) = calcsize DESPAWN_FMT"

subsection \<open>The writer\<close>

record replay_writer =
  rw_stream :: bytes
  rw_closed :: bool
  rw_meta_written :: bool
  rw_last_tick :: "int option"
  rw_last_stream_key :: "int option"

definition replay_writer_init :: "int \<Rightarrow> replay_exc + replay_writer" where
  "replay_writer_init tick_hz =
     rbind (rguard (1 \<le> tick_hz) (ReplayValueError TickHzBelowOne)) (\<lambda>_.
     rbind (rp_struct (struct_pack Big HEADER_TAIL_FMT [FORMAT_VERSION, int HEADER_SIZE, tick_hz, 0]))
       (\<lambda>tail.
     Inr \<lparr>rw_stream = MAGIC @ tail, rw_closed = False, rw_meta_written = False,
          rw_last_tick = None, rw_last_stream_key = None\<rparr>))"

definition writer_ensure_open :: "replay_writer \<Rightarrow> replay_exc + unit" where
  "writer_ensure_open w = rguard (\<not> rw_closed w) (ReplayValueError WriterClosed)"

definition writer_emit :: "replay_writer \<Rightarrow> int \<Rightarrow> bytes \<Rightarrow> replay_exc + replay_writer" where
  "writer_emit w record_type payload =
     rbind (rp_struct (struct_pack Big RECORD_FMT [record_type, 0, 0, int (length payload)])) (\<lambda>head.
     Inr (w\<lparr>rw_stream := rw_stream w @ head @ payload\<rparr>))"

definition write_meta :: "replay_writer \<Rightarrow> (pystr, json) dict \<Rightarrow> replay_exc + replay_writer" where
  "write_meta w meta =
     rbind (writer_ensure_open w) (\<lambda>_.
     rbind (rguard (\<not> rw_meta_written w) (ReplayValueError MetaTwice)) (\<lambda>_.
     rbind (rguard (rw_last_tick w = None) (ReplayValueError MetaAfterTick)) (\<lambda>_.
     rbind (rp_json (json_dumps (JObj meta))) (\<lambda>s.
     rbind (rp_text (utf8_encode s)) (\<lambda>payload.
     rbind (writer_emit w META_RECORD_TYPE payload) (\<lambda>w'.
     Inr (w'\<lparr>rw_meta_written := True\<rparr>)))))))"

definition write_tick :: "replay_writer \<Rightarrow> int \<Rightarrow> replay_event list \<Rightarrow> replay_exc + replay_writer" where
  "write_tick w tick events =
     rbind (writer_ensure_open w) (\<lambda>_.
     rbind (rguard (case rw_last_tick w of None \<Rightarrow> True | Some l \<Rightarrow> l < tick)
              (ReplayValueError TickNotAdvancing)) (\<lambda>_.
     let ordered = sort_events events in
     rbind (rguard (length ordered \<le> U16_MAX) (ReplayValueError TooManyEvents)) (\<lambda>_.
     rbind (rp_struct (struct_pack Big TICK_HEAD_FMT [tick, int (length ordered)])) (\<lambda>head.
     rbind (rmap pack_event ordered) (\<lambda>bodies.
     rbind (writer_emit w TICK_RECORD_TYPE (head @ concat bodies)) (\<lambda>w'.
     Inr (w'\<lparr>rw_last_tick := Some tick, rw_last_stream_key := None\<rparr>)))))))"

definition write_expected_hash :: "replay_writer \<Rightarrow> int \<Rightarrow> int \<Rightarrow> replay_exc + replay_writer" where
  "write_expected_hash w tick hash =
     rbind (writer_ensure_open w) (\<lambda>_.
     rbind (rp_struct (struct_pack Big EXPECTED_HASH_FMT [tick, hash])) (\<lambda>payload.
     writer_emit w EXPECTED_HASH_RECORD_TYPE payload))"

definition write_rng_checkpoint ::
  "replay_writer \<Rightarrow> int \<Rightarrow> int \<Rightarrow> bytes \<Rightarrow> replay_exc + replay_writer" where
  "write_rng_checkpoint w tick stream_key state =
     rbind (writer_ensure_open w) (\<lambda>_.
     rbind (rguard (rw_last_tick w = Some tick) (ReplayValueError CheckpointTickMismatch)) (\<lambda>_.
     rbind (rguard (case rw_last_stream_key w of None \<Rightarrow> True | Some k \<Rightarrow> k < stream_key)
              (ReplayValueError StreamKeyNotAscending)) (\<lambda>_.
     rbind (rguard (length state = RNG_STATE_SIZE) (ReplayValueError RngStateLength)) (\<lambda>_.
     rbind (rp_struct (struct_pack Big CHECKPOINT_HEAD_FMT [tick, stream_key, int (length state)]))
       (\<lambda>head.
     rbind (writer_emit w RNG_CHECKPOINT_RECORD_TYPE (head @ state)) (\<lambda>w'.
     Inr (w'\<lparr>rw_last_stream_key := Some stream_key\<rparr>)))))))"

definition writer_close :: "replay_writer \<Rightarrow> replay_writer" where
  "writer_close w = w\<lparr>rw_closed := True\<rparr>"

subsection \<open>The reader\<close>

definition sniff_is_binary :: "bytes \<Rightarrow> bool" where
  "sniff_is_binary data \<longleftrightarrow> take (length MAGIC) data = MAGIC"

record read_state =
  rs_meta :: "(pystr, json) dict option"
  rs_ticks :: "tick_record list"
  rs_expected :: "expected_hash list"
  rs_checkpoints :: "rng_checkpoint list"

definition read_start :: read_state where
  "read_start = \<lparr>rs_meta = None, rs_ticks = [], rs_expected = [], rs_checkpoints = []\<rparr>"

fun parse_events ::
  "nat \<Rightarrow> bytes \<Rightarrow> nat \<Rightarrow> nat \<Rightarrow> (int \<times> int \<times> int) option \<Rightarrow> replay_event list \<Rightarrow>
     replay_exc + (replay_event list \<times> nat)" where
  "parse_events 0 payload offset at previous_key events = Inr (events, offset)"
| "parse_events (Suc n) payload offset at previous_key events =
     (if length payload \<le> offset then Inl (ReplayFormatError (EventCountBeyondPayload at))
      else rbind (unpack_event payload offset at) (\<lambda>event.
           let offset' = offset + (1 + event_body_size event);
               key = canonical_event_key event
           in if (case previous_key of None \<Rightarrow> False | Some k \<Rightarrow> key < k)
              then Inl (ReplayFormatError (EventsNotCanonical at))
              else parse_events n payload offset' at (Some key) (events @ [event])))"

fun int_pair :: "int list \<Rightarrow> replay_exc + (int \<times> int)" where
  "int_pair [a, b] = Inr (a, b)"
| "int_pair _ = Inl ReplayStructError"

fun int_triple :: "int list \<Rightarrow> replay_exc + (int \<times> int \<times> int)" where
  "int_triple [a, b, c] = Inr (a, b, c)"
| "int_triple _ = Inl ReplayStructError"

fun int_quad :: "int list \<Rightarrow> replay_exc + (int \<times> int \<times> int \<times> int)" where
  "int_quad [a, b, c, d] = Inr (a, b, c, d)"
| "int_quad _ = Inl ReplayStructError"

definition parse_tick :: "bytes \<Rightarrow> nat \<Rightarrow> replay_exc + tick_record" where
  "parse_tick payload at =
     rbind (require_at_least payload (calcsize TICK_HEAD_FMT) at) (\<lambda>_.
     rbind (rp_struct (struct_unpack_from Big TICK_HEAD_FMT payload)) (\<lambda>vs.
     rbind (int_pair vs) (\<lambda>(tick, count).
     rbind (parse_events (nat count) payload (calcsize TICK_HEAD_FMT) at None []) (\<lambda>(events, offset).
     rbind (require_exact_len (drop offset payload) 0 at) (\<lambda>_.
     Inr (TickRecord tick events))))))"

definition parse_meta :: "bytes \<Rightarrow> nat \<Rightarrow> replay_exc + (pystr, json) dict" where
  "parse_meta payload at =
     (case utf8_decode payload of
        Inl _ \<Rightarrow> Inl (ReplayFormatError (MetaNotJson at))
      | Inr s \<Rightarrow>
          (case json_loads s of
             Inl JSONDecodeError \<Rightarrow> Inl (ReplayFormatError (MetaNotJson at))
           | Inl e \<Rightarrow> rp_json (Inl e)
           | Inr decoded \<Rightarrow>
               (case decoded of
                  JObj kvs \<Rightarrow> Inr kvs
                | _ \<Rightarrow> Inl (ReplayFormatError (MetaNotObject at)))))"

definition parse_checkpoint ::
  "bytes \<Rightarrow> nat \<Rightarrow> tick_record list \<Rightarrow> rng_checkpoint list \<Rightarrow> replay_exc + rng_checkpoint" where
  "parse_checkpoint payload at ticks previous =
     rbind (require_exact_len payload (calcsize CHECKPOINT_HEAD_FMT + RNG_STATE_SIZE) at) (\<lambda>_.
     rbind (rp_struct (struct_unpack_from Big CHECKPOINT_HEAD_FMT payload)) (\<lambda>vs.
     rbind (int_triple vs) (\<lambda>(tick, stream_key, state_len).
     rbind (rguard (ticks \<noteq> [] \<and> tick = tr_tick (last ticks))
              (ReplayFormatError (CheckpointNotAtTick at))) (\<lambda>_.
     rbind (rguard (\<not> (previous \<noteq> [] \<and> ck_tick (last previous) = tick \<and>
                       stream_key \<le> ck_stream_key (last previous)))
              (ReplayFormatError (CheckpointKeyNotAscending at))) (\<lambda>_.
     rbind (rguard (state_len = int RNG_STATE_SIZE)
              (ReplayFormatError (CheckpointStateLength at))) (\<lambda>_.
     RngCheckpoint tick stream_key (drop (calcsize CHECKPOINT_HEAD_FMT) payload)))))))"

text \<open>One turn of the record loop, after the framing has been cut: the four known record types
  and the skipped unknown ones.\<close>

definition read_record ::
  "int \<Rightarrow> int \<Rightarrow> bytes \<Rightarrow> nat \<Rightarrow> read_state \<Rightarrow> replay_exc + read_state" where
  "read_record record_type record_flags payload at st =
     (if record_type = TICK_RECORD_TYPE then
        rbind (rguard (record_flags = 0) (ReplayFormatError (UnknownRecordFlags at))) (\<lambda>_.
        rbind (parse_tick payload at) (\<lambda>tr.
        rbind (rguard (\<not> (rs_ticks st \<noteq> [] \<and> tr_tick tr \<le> tr_tick (last (rs_ticks st))))
                 (ReplayFormatError (TickNotAscending at))) (\<lambda>_.
        Inr (st\<lparr>rs_ticks := rs_ticks st @ [tr]\<rparr>))))
      else if record_type = META_RECORD_TYPE then
        rbind (rguard (rs_meta st = None \<and> rs_ticks st = []) (ReplayFormatError (MetaMisplaced at)))
          (\<lambda>_.
        rbind (parse_meta payload at) (\<lambda>meta. Inr (st\<lparr>rs_meta := Some meta\<rparr>)))
      else if record_type = EXPECTED_HASH_RECORD_TYPE then
        rbind (rguard (record_flags = 0) (ReplayFormatError (UnknownRecordFlags at))) (\<lambda>_.
        rbind (require_exact_len payload (calcsize EXPECTED_HASH_FMT) at) (\<lambda>_.
        rbind (rp_struct (struct_unpack Big EXPECTED_HASH_FMT payload)) (\<lambda>vs.
        rbind (int_pair vs) (\<lambda>(exp_tick, exp_hash).
        rbind (rguard (\<not> list_ex (\<lambda>seen. exp_tick = eh_tick seen) (rs_expected st))
                 (ReplayFormatError (DuplicateExpectation at))) (\<lambda>_.
        Inr (st\<lparr>rs_expected := rs_expected st @ [ExpectedHash exp_tick exp_hash]\<rparr>))))))
      else if record_type = RNG_CHECKPOINT_RECORD_TYPE then
        rbind (rguard (record_flags = 0) (ReplayFormatError (UnknownRecordFlags at))) (\<lambda>_.
        rbind (parse_checkpoint payload at (rs_ticks st) (rs_checkpoints st)) (\<lambda>ck.
        Inr (st\<lparr>rs_checkpoints := rs_checkpoints st @ [ck]\<rparr>)))
      else Inr st)"

function read_records :: "bytes \<Rightarrow> nat \<Rightarrow> read_state \<Rightarrow> replay_exc + read_state" where
  "read_records data offset st =
     (if offset < length data then
        if length data - offset < RECORD_HEADER_SIZE
        then Inl (ReplayFormatError (TruncatedFraming offset))
        else
          rbind (rp_struct (struct_unpack_from Big RECORD_FMT (drop offset data))) (\<lambda>vs.
          rbind (int_quad vs) (\<lambda>(record_type, record_flags, reserved, payload_len).
            let offset' = offset + RECORD_HEADER_SIZE in
            if length data < offset' + nat payload_len
            then Inl (ReplayFormatError (PayloadBeyondEof offset'))
            else
              rbind (read_record record_type record_flags
                       (py_slice offset' (offset' + nat payload_len) data) offset st) (\<lambda>st'.
              read_records data (offset' + nat payload_len) st')))
      else Inr st)"
  by pat_completeness auto
termination
  by (relation "measure (\<lambda>(data, offset, st). length data - offset)")
    (auto simp: RECORD_HEADER_SIZE_def)

definition read_document :: "bytes \<Rightarrow> replay_exc + replay_document" where
  "read_document data =
     rbind (rguard (HEADER_SIZE \<le> length data) (ReplayFormatError FileShorterThanHeader)) (\<lambda>_.
     let magic = take 4 data in
     rbind (rp_struct (struct_unpack_from Big HEADER_TAIL_FMT (drop 4 data))) (\<lambda>vs.
     rbind (int_quad vs) (\<lambda>(version, header_size, tick_hz, flags).
     rbind (rguard (magic = MAGIC) (ReplayFormatError BadMagic)) (\<lambda>_.
     rbind (rguard (version = FORMAT_VERSION) (ReplayFormatError (UnsupportedVersion version))) (\<lambda>_.
     rbind (rguard (flags = 0) (ReplayFormatError (UnknownHeaderFlags flags))) (\<lambda>_.
     rbind (rguard (1 \<le> tick_hz) (ReplayFormatError (BadTickHz tick_hz))) (\<lambda>_.
     rbind (rguard (int HEADER_SIZE \<le> header_size)
              (ReplayFormatError (HeaderSizeBelow header_size))) (\<lambda>_.
     rbind (read_records data (nat header_size) read_start) (\<lambda>st.
     Inr \<lparr>rd_header = \<lparr>rh_tick_hz = tick_hz, rh_flags = flags\<rparr>, rd_meta = rs_meta st,
          rd_ticks = rs_ticks st, rd_expected = rs_expected st,
          rd_checkpoints = rs_checkpoints st\<rparr>)))))))))"

subsection \<open>Document assembly\<close>

text \<open>\<open>checkpoints_by_tick.setdefault(tick, []).append(checkpoint)\<close> over the document's
  checkpoints.\<close>

definition checkpoints_by_tick :: "rng_checkpoint list \<Rightarrow> (int, rng_checkpoint list) dict" where
  "checkpoints_by_tick cks =
     fold (\<lambda>ck d. AList.update (ck_tick ck)
                    ((case map_of d (ck_tick ck) of None \<Rightarrow> [] | Some l \<Rightarrow> l) @ [ck]) d) cks []"

definition encode_tick ::
  "(int, rng_checkpoint list) dict \<Rightarrow> replay_writer \<Rightarrow> tick_record \<Rightarrow> replay_exc + replay_writer" where
  "encode_tick by_tick w tr =
     rbind (write_tick w (tr_tick tr) (tr_events tr)) (\<lambda>w1.
     rfold (\<lambda>w ck. write_rng_checkpoint w (ck_tick ck) (ck_stream_key ck) (ck_state ck)) w1
       (case map_of by_tick (tr_tick tr) of None \<Rightarrow> [] | Some l \<Rightarrow> l))"

definition encode_document :: "replay_document \<Rightarrow> replay_exc + bytes" where
  "encode_document document =
     rbind (replay_writer_init (rh_tick_hz (rd_header document))) (\<lambda>w0.
     rbind (case rd_meta document of None \<Rightarrow> Inr w0 | Some meta \<Rightarrow> write_meta w0 meta) (\<lambda>w1.
     let by_tick = checkpoints_by_tick (rd_checkpoints document);
         known_ticks = set (map tr_tick (rd_ticks document));
         unknown = sort (filter (\<lambda>t. t \<notin> known_ticks) (map fst by_tick))
     in
     rbind (rguard (unknown = []) (ReplayValueError (UnknownCheckpointTicks unknown))) (\<lambda>_.
     rbind (rfold (encode_tick by_tick) w1 (rd_ticks document)) (\<lambda>w2.
     rbind (rfold (\<lambda>w e. write_expected_hash w (eh_tick e) (eh_hash e)) w2 (rd_expected document))
       (\<lambda>w3.
     Inr (rw_stream (writer_close w3)))))))"

subsection \<open>Document differ\<close>

text \<open>\<open>a == b\<close> on decoded JSON values. Two dicts are equal when they have as many items and
  every item of the first is found in the second; a \<open>bool\<close> is the integer 0 or 1. A comparison
  with a float is the argument \<open>feq\<close>: floating-point values are not modelled.\<close>

fun json_num :: "json \<Rightarrow> int option" where
  "json_num (JBool b) = Some (if b then 1 else 0)"
| "json_num (JInt i) = Some i"
| "json_num _ = None"

fun json_is_float :: "json \<Rightarrow> bool" where
  "json_is_float (JFloat l) = True"
| "json_is_float _ = False"

definition json_num_eq :: "(json \<Rightarrow> json \<Rightarrow> bool) \<Rightarrow> json \<Rightarrow> json \<Rightarrow> bool" where
  "json_num_eq feq a b =
     (case (json_num a, json_num b) of
        (Some x, Some y) \<Rightarrow> x = y
      | (Some x, None) \<Rightarrow> json_is_float b \<and> feq a b
      | (None, Some y) \<Rightarrow> json_is_float a \<and> feq a b
      | (None, None) \<Rightarrow> json_is_float a \<and> json_is_float b \<and> feq a b)"

function (sequential) json_eq :: "(json \<Rightarrow> json \<Rightarrow> bool) \<Rightarrow> json \<Rightarrow> json \<Rightarrow> bool" where
  "json_eq feq (JObj as) (JObj bs) =
     (length as = length bs \<and>
      (\<forall>(k, v) \<in> set as. case map_of bs k of None \<Rightarrow> False | Some w \<Rightarrow> json_eq feq v w))"
| "json_eq feq (JList as) (JList bs) =
     (length as = length bs \<and> (\<forall>(v, w) \<in> set (zip as bs). json_eq feq v w))"
| "json_eq feq (JStr s) (JStr t) = (s = t)"
| "json_eq feq JNull JNull = True"
| "json_eq feq a b = json_num_eq feq a b"
  by pat_completeness auto

lemma size_json_obj: "(k, v) \<in> set kvs \<Longrightarrow> size v < size (JObj kvs)"
  by (induction kvs) auto

lemma size_json_list: "v \<in> set js \<Longrightarrow> size v < size (JList js)"
  by (induction js) auto

termination json_eq
  by (relation "measure (\<lambda>(feq, a, b). size a)")
    (auto dest: size_json_obj size_json_list set_zip_leftD simp del: json.size)

definition meta_eq ::
  "(json \<Rightarrow> json \<Rightarrow> bool) \<Rightarrow> (pystr, json) dict option \<Rightarrow> (pystr, json) dict option \<Rightarrow> bool" where
  "meta_eq feq l r =
     (case (l, r) of
        (None, None) \<Rightarrow> True
      | (Some a, Some b) \<Rightarrow> json_eq feq (JObj a) (JObj b)
      | _ \<Rightarrow> False)"

definition dict_eq :: "('k, 'v) dict \<Rightarrow> ('k, 'v) dict \<Rightarrow> bool" where
  "dict_eq l r \<longleftrightarrow> length l = length r \<and> list_all (\<lambda>(k, v). map_of r k = Some v) l"

datatype difference =
    HeaderDiffers replay_header replay_header
  | MetaDiffers "(pystr, json) dict option" "(pystr, json) dict option"
  | OnlyInRight int
  | OnlyInLeft int
  | EventsDiffer int string string
  | ExpectedDiffer "(int, int) dict" "(int, int) dict"
  | CheckpointsDiffer "rng_checkpoint list" "rng_checkpoint list"

fun event_kind :: "replay_event \<Rightarrow> string" where
  "event_kind (SpawnEvent a x y z vx vy vz f) = ''spawn''"
| "event_kind (MoveEvent a t x y z f) = ''move''"
| "event_kind (DespawnEvent a) = ''despawn''"

fun str_join :: "string \<Rightarrow> string list \<Rightarrow> string" where
  "str_join sep [] = []"
| "str_join sep [x] = x"
| "str_join sep (x # y # zs) = x @ sep @ str_join sep (y # zs)"

definition summarize :: "replay_event list \<Rightarrow> string" where
  "summarize events =
     str_join '', ''
       (map (\<lambda>e. event_kind e @ ''(actor '' @ int_str (ev_actor_id e) @ '')'') (take 4 events) @
        (if 4 < length events then [''+'' @ int_str (int (length events - 4)) @ '' more''] else []))"

definition diff_ticks :: "tick_record list \<Rightarrow> tick_record list \<Rightarrow> difference list" where
  "diff_ticks left right =
     (let left_by_tick = dict_of_pairs (map (\<lambda>t. (tr_tick t, t)) left);
          right_by_tick = dict_of_pairs (map (\<lambda>t. (tr_tick t, t)) right)
      in concat (map (\<lambda>tick.
           case map_of left_by_tick tick of
             None \<Rightarrow> [OnlyInRight tick]
           | Some l \<Rightarrow>
               (case map_of right_by_tick tick of
                  None \<Rightarrow> [OnlyInLeft tick]
                | Some r \<Rightarrow>
                    if tr_events l \<noteq> tr_events r
                    then [EventsDiffer tick (summarize (tr_events l)) (summarize (tr_events r))]
                    else []))
         (sorted_list_of_set (set (map fst left_by_tick) \<union> set (map fst right_by_tick)))))"

definition expectations :: "expected_hash list \<Rightarrow> (int, int) dict" where
  "expectations es = dict_of_pairs (map (\<lambda>e. (eh_tick e, eh_hash e)) es)"

definition diff_documents ::
  "(json \<Rightarrow> json \<Rightarrow> bool) \<Rightarrow> replay_document \<Rightarrow> replay_document \<Rightarrow> difference list" where
  "diff_documents feq left right =
     (if rd_header left \<noteq> rd_header right then [HeaderDiffers (rd_header left) (rd_header right)] else []) @
     (if \<not> meta_eq feq (rd_meta left) (rd_meta right)
      then [MetaDiffers (rd_meta left) (rd_meta right)] else []) @
     diff_ticks (rd_ticks left) (rd_ticks right) @
     (if \<not> dict_eq (expectations (rd_expected left)) (expectations (rd_expected right))
      then [ExpectedDiffer (expectations (rd_expected left)) (expectations (rd_expected right))] else []) @
     (if rd_checkpoints left \<noteq> rd_checkpoints right
      then [CheckpointsDiffer (rd_checkpoints left) (rd_checkpoints right)] else [])"

end
