(* ===== verification/ReplayLaws.thy ===== *)
theory ReplayLaws
  imports ReplayFormat
begin

text \<open>
  Reading back what the writer emits. \<open>writer_inv hz w st\<close> relates a writer to the reader's state
  after the bytes written so far: the reader accepts the stream at every moment, and the writer's
  bookkeeping (last tick, last stream key, META written) is that of the records read. Each writer
  operation has one lemma that it keeps this relation with the record it describes appended;
  \<open>encode_read\<close> composes them over \<open>encode_document\<close>.
\<close>

subsection \<open>Reading back one record\<close>

lemma rp_struct_eq_Inr [simp]: "rp_struct r = Inr v \<longleftrightarrow> r = Inr v"
  by (cases r) (auto simp: rp_struct_def)

lemma rp_struct_Inr [simp]: "rp_struct (Inr v) = Inr v"
  by (simp add: rp_struct_def)

lemma rp_text_eq_Inr [simp]: "rp_text r = Inr v \<longleftrightarrow> r = Inr v"
  by (cases r) (auto simp: rp_text_def)

lemma rp_json_eq_Inr [simp]: "rp_json r = Inr v \<longleftrightarrow> r = Inr v"
  by (cases r) (auto simp: rp_json_def)

lemma pack_code: "struct_pack Big [FB] [v] = Inr b \<Longrightarrow> 0 \<le> v \<and> v < 256 \<and> b = [word_of_int v]"
  by (auto simp: struct_pack_single pack_field_FB simp del: struct_pack.simps)

lemma nth_middle: "(pre @ (c # b) @ post) ! length pre = c"
  by simp

lemma drop_middle: "drop (length pre + 1) (pre @ (c # b) @ post) = b @ post"
  by simp

fun event_code :: "replay_event \<Rightarrow> int" where
  "event_code (SpawnEvent a x y z vx vy vz f) = SPAWN_EVENT_CODE"
| "event_code (MoveEvent a t x y z f) = MOVE_EVENT_CODE"
| "event_code (DespawnEvent a) = DESPAWN_EVENT_CODE"

fun event_fmt :: "replay_event \<Rightarrow> fmt list" where
  "event_fmt (SpawnEvent a x y z vx vy vz f) = SPAWN_FMT"
| "event_fmt (MoveEvent a t x y z f) = MOVE_FMT"
| "event_fmt (DespawnEvent a) = DESPAWN_FMT"

fun event_fields :: "replay_event \<Rightarrow> int list" where
  "event_fields (SpawnEvent a x y z vx vy vz f) = [a, x, y, z, vx, vy, vz, f]"
| "event_fields (MoveEvent a t x y z f) = [a, t, x, y, z, f]"
| "event_fields (DespawnEvent a) = [a]"

lemma pack_event_layout:
  "pack_event e =
     rbind (rp_struct (struct_pack Big [FB] [event_code e])) (\<lambda>c.
     rbind (rp_struct (struct_pack Big (event_fmt e) (event_fields e))) (\<lambda>b. Inr (c @ b)))"
  by (cases e) simp_all

lemma unpack_pack_event:
  assumes "pack_event e = Inr b"
  shows "unpack_event (pre @ b @ post) (length pre) at = Inr e" and "length b = 1 + event_body_size e"
proof -
  obtain body where b: "b = word_of_int (event_code e) # body"
      "struct_pack Big (event_fmt e) (event_fields e) = Inr body"
    and code: "0 \<le> event_code e" "event_code e < 256"
    using assms by (auto simp: pack_event_layout rbind_eq_Inr dest!: pack_code simp del: struct_pack.simps)
  have len: "length body = calcsize (event_fmt e)" by (rule struct_pack_length [OF b(2)])
  have un: "struct_unpack_from Big (event_fmt e) (body @ post) = Inr (event_fields e)"
    by (rule struct_unpack_from_pack [OF b(2)])
  have u: "uint (word_of_int (event_code e) :: byte) = event_code e" using code by simp
  have "\<not> length (pre @ b @ post) \<le> length pre" by (simp add: b)
  then show "unpack_event (pre @ b @ post) (length pre) at = Inr e"
    unfolding unpack_event_def b nth_middle drop_middle u Let_def
    using un len by (cases e) (simp_all add: require_at_least_def replay_consts)
  show "length b = 1 + event_body_size e" using len by (cases e) (simp_all add: b)
qed

lemma parse_events_pack:
  assumes "rmap pack_event es = Inr bs"
    and "sorted (map canonical_event_key es)"
    and "\<forall>k. prev = Some k \<longrightarrow> (\<forall>e \<in> set es. k \<le> canonical_event_key e)"
    and "n = length es" and "off = length pre"
  shows "parse_events n (pre @ concat bs) off at prev acc
           = Inr (acc @ es, length (pre @ concat bs))"
  using assms
proof (induction es arbitrary: bs pre prev acc n off)
  case (Cons e es)
  from Cons.prems obtain b bs' where b: "pack_event e = Inr b" "rmap pack_event es = Inr bs'"
    and bs: "bs = b # bs'" by (auto simp: rbind_eq_Inr)
  have n: "n = Suc (length es)" and off: "off = length pre" using Cons.prems by simp_all
  note un = unpack_pack_event [OF b(1)]
  have pos: "\<not> length (pre @ b @ concat bs') \<le> length pre" by (simp add: un(2))
  have key: "\<not> (case prev of None \<Rightarrow> False | Some k \<Rightarrow> canonical_event_key e < k)"
    using Cons.prems(3) by (auto split: option.splits)
  have "parse_events (length es) ((pre @ b) @ concat bs') (length (pre @ b)) at
          (Some (canonical_event_key e)) (acc @ [e])
        = Inr ((acc @ [e]) @ es, length ((pre @ b) @ concat bs'))"
    by (rule Cons.IH) (use Cons.prems b in auto)
  then show ?case
    unfolding n off bs using un pos key by (simp add: Let_def)
qed auto

lemma sorted_sort_events [simp]: "sorted (map canonical_event_key (sort_events es))"
  by (simp add: sort_events_def)

lemma parse_tick_pack:
  assumes "struct_pack Big TICK_HEAD_FMT [t, int (length es)] = Inr head"
    and "rmap pack_event es = Inr bs" and "sorted (map canonical_event_key es)"
  shows "parse_tick (head @ concat bs) at = Inr (TickRecord t es)"
proof -
  have len: "length head = calcsize TICK_HEAD_FMT" by (rule struct_pack_length [OF assms(1)])
  have un: "struct_unpack_from Big TICK_HEAD_FMT (head @ concat bs) = Inr [t, int (length es)]"
    by (rule struct_unpack_from_pack [OF assms(1)])
  have "parse_events (length es) (head @ concat bs) (calcsize TICK_HEAD_FMT) at None []
      = Inr ([] @ es, length (head @ concat bs))"
    by (rule parse_events_pack [OF assms(2,3)]) (simp_all add: len)
  then show ?thesis
    using un len by (simp add: parse_tick_def require_at_least_def require_exact_len_def)
qed

definition meta_sorted :: "(pystr, json) dict \<Rightarrow> (pystr, json) dict" where
  "meta_sorted meta = sort_key fst (map (map_prod id json_sorted) meta)"

lemma parse_meta_pack:
  assumes "json_ok (JObj meta)" "json_dumps (JObj meta) = Inr s" "utf8_encode s = Inr b"
  shows "parse_meta b at = Inr (meta_sorted meta)"
proof -
  have "utf8_decode b = Inr s" by (rule utf8_decode_encode [OF assms(3)])
  moreover have "json_loads s = Inr (JObj (meta_sorted meta))"
    using loads_dumps [OF assms(1)] assms(2) by (simp add: meta_sorted_def)
  ultimately show ?thesis by (simp add: parse_meta_def)
qed

lemma parse_checkpoint_pack:
  assumes "struct_pack Big CHECKPOINT_HEAD_FMT [t, k, int (length s)] = Inr head"
    and "length s = RNG_STATE_SIZE" and "ticks \<noteq> []" "t = tr_tick (last ticks)"
    and "\<not> (previous \<noteq> [] \<and> ck_tick (last previous) = t \<and> k \<le> ck_stream_key (last previous))"
  shows "parse_checkpoint (head @ s) at ticks previous
           = Inr \<lparr>ck_tick = t, ck_stream_key = k, ck_state = s\<rparr>"
proof -
  have len: "length head = calcsize CHECKPOINT_HEAD_FMT" by (rule struct_pack_length [OF assms(1)])
  have un: "struct_unpack_from Big CHECKPOINT_HEAD_FMT (head @ s) = Inr [t, k, int (length s)]"
    by (rule struct_unpack_from_pack [OF assms(1)])
  show ?thesis
    using un len assms(2-)
    by (simp add: parse_checkpoint_def require_exact_len_def RngCheckpoint_def)
qed

subsection \<open>The record loop\<close>

declare read_records.simps [simp del]

lemma read_records_end: "length data \<le> off \<Longrightarrow> read_records data off st = Inr st"
  by (subst read_records.simps) simp

definition frame :: "bytes \<Rightarrow> nat \<Rightarrow> (int \<times> int \<times> bytes \<times> nat) option" where
  "frame data off =
     (if length data - off < RECORD_HEADER_SIZE then None
      else case unpack_fields Big RECORD_FMT (drop off data) of
             [ty, fl, r, len] \<Rightarrow>
               if length data < off + RECORD_HEADER_SIZE + nat len then None
               else Some (ty, fl, py_slice (off + RECORD_HEADER_SIZE) (off + RECORD_HEADER_SIZE + nat len) data,
                          off + RECORD_HEADER_SIZE + nat len)
           | _ \<Rightarrow> None)"

lemma calcsize_RECORD [simp]: "calcsize RECORD_FMT = RECORD_HEADER_SIZE"
  by (simp add: replay_fmts replay_consts)

lemma RECORD_fields:
  obtains ty fl r len where "unpack_fields Big RECORD_FMT bs = [ty, fl, r, len]"
  by (simp add: RECORD_FMT_def)

lemma read_records_step:
  assumes "off < length data"
  shows "read_records data off st =
    (case frame data off of
       None \<Rightarrow> Inl (ReplayFormatError
                 (if length data - off < RECORD_HEADER_SIZE then TruncatedFraming off
                  else PayloadBeyondEof (off + RECORD_HEADER_SIZE)))
     | Some (ty, fl, payload, off') \<Rightarrow>
         rbind (read_record ty fl payload off st) (read_records data off'))"
proof (cases "length data - off < RECORD_HEADER_SIZE")
  case True
  then show ?thesis using assms by (subst read_records.simps) (simp add: frame_def)
next
  case False
  obtain ty fl r len where f: "unpack_fields Big RECORD_FMT (drop off data) = [ty, fl, r, len]"
    by (rule RECORD_fields)
  have "struct_unpack_from Big RECORD_FMT (drop off data) = Inr [ty, fl, r, len]"
    using False by (simp add: struct_unpack_from_def f)
  then show ?thesis using assms False by (subst read_records.simps) (simp add: frame_def f Let_def)
qed

lemma unpack_fields_append:
  "calcsize fs \<le> length bs \<Longrightarrow> unpack_fields e fs (bs @ rest) = unpack_fields e fs bs"
  by (induction e fs bs rule: unpack_fields.induct) auto

lemma frame_append: "frame data off = Some f \<Longrightarrow> frame (data @ xtra) off = Some f"
proof -
  assume f: "frame data off = Some f"
  then have len: "\<not> length data - off < RECORD_HEADER_SIZE" by (auto simp: frame_def split: if_splits)
  have pos: "0 < RECORD_HEADER_SIZE" by (simp add: replay_consts)
  have le: "off \<le> length data" using len pos by auto
  have "unpack_fields Big RECORD_FMT (drop off (data @ xtra)) = unpack_fields Big RECORD_FMT (drop off data)"
    using len le by (simp add: unpack_fields_append)
  moreover obtain ty fl r n where "unpack_fields Big RECORD_FMT (drop off data) = [ty, fl, r, n]"
    by (rule RECORD_fields)
  ultimately show ?thesis
    using f len by (auto simp: frame_def py_slice_def split: if_splits)
qed

lemma frame_bounds: "frame data off = Some (ty, fl, p, off') \<Longrightarrow> off < off' \<and> off' \<le> length data"
  by (auto simp: frame_def replay_consts split: if_splits list.splits)

lemma read_records_append:
  assumes "read_records data off st = Inr st'" "off \<le> length data"
  shows "read_records (data @ xtra) off st = read_records (data @ xtra) (length data) st'"
  using assms
proof (induction "length data - off" arbitrary: off st rule: less_induct)
  case less
  show ?case
  proof (cases "off < length data")
    case False
    then show ?thesis using less.prems by (simp add: read_records_end)
  next
    case True
    from less.prems(1) obtain ty fl p off' st1 where
      f: "frame data off = Some (ty, fl, p, off')" and r: "read_record ty fl p off st = Inr st1"
        "read_records data off' st1 = Inr st'"
      by (auto simp: read_records_step [OF True] rbind_eq_Inr split: option.splits)
    have "read_records (data @ xtra) off' st1 = read_records (data @ xtra) (length data) st'"
      by (rule less.hyps) (use frame_bounds [OF f] r True in auto)
    then show ?thesis using frame_append [OF f] r True by (simp add: read_records_step)
  qed
qed

lemma read_records_append_Inl:
  assumes "read_records data off st = Inl (ReplayFormatError e)" "off \<le> length data"
    and "\<And>at. e \<noteq> TruncatedFraming at" "\<And>at. e \<noteq> PayloadBeyondEof at"
  shows "read_records (data @ xtra) off st = Inl (ReplayFormatError e)"
  using assms
proof (induction "length data - off" arbitrary: off st rule: less_induct)
  case less
  show ?case
  proof (cases "off < length data")
    case False
    then show ?thesis using less.prems by (simp add: read_records_end)
  next
    case True
    from less.prems obtain ty fl p off' where f: "frame data off = Some (ty, fl, p, off')"
      by (auto simp: read_records_step [OF True] split: option.splits if_splits)
    show ?thesis
    proof (cases "read_record ty fl p off st")
      case (Inl a)
      then show ?thesis
        using less.prems(1) f frame_append [OF f] True by (simp add: read_records_step)
    next
      case (Inr st1)
      have "read_records (data @ xtra) off' st1 = Inl (ReplayFormatError e)"
        by (rule less.hyps) (use frame_bounds [OF f] less.prems f Inr True in \<open>auto simp: read_records_step\<close>)
      then show ?thesis using frame_append [OF f] Inr True by (simp add: read_records_step)
    qed
  qed
qed

lemma read_emit:
  assumes "writer_emit w ty payload = Inr w'"
    and "read_records (rw_stream w) off st0 = Inr st" "off \<le> length (rw_stream w)"
  shows "read_records (rw_stream w') off st0 = read_record ty 0 payload (length (rw_stream w)) st"
proof -
  let ?d = "rw_stream w"
  obtain head where h: "struct_pack Big RECORD_FMT [ty, 0, 0, int (length payload)] = Inr head"
    and w': "rw_stream w' = ?d @ head @ payload"
    using assms(1) by (auto simp: writer_emit_def rbind_eq_Inr)
  have len: "length head = RECORD_HEADER_SIZE" using struct_pack_length [OF h] by simp
  have pos: "0 < RECORD_HEADER_SIZE" by (simp add: replay_consts)
  have "unpack_fields Big RECORD_FMT (head @ payload) = [ty, 0, 0, int (length payload)]"
    by (rule unpack_fields_pack [OF h])
  then have fr: "frame (?d @ head @ payload) (length ?d)
      = Some (ty, 0, payload, length (?d @ head @ payload))"
    by (simp add: frame_def len py_slice_def)
  have "read_records (rw_stream w') off st0 = read_records (?d @ head @ payload) (length ?d) st"
    using read_records_append [OF assms(2,3)] by (simp add: w')
  also have "\<dots> = rbind (read_record ty 0 payload (length ?d) st)
                    (read_records (?d @ head @ payload) (length (?d @ head @ payload)))"
    using fr len pos by (simp add: read_records_step)
  also have "\<dots> = read_record ty 0 payload (length ?d) st"
    by (cases "read_record ty 0 payload (length ?d) st") (simp_all add: read_records_end)
  finally show ?thesis .
qed

subsection \<open>The writer's invariant\<close>

definition header_bytes :: "int \<Rightarrow> bytes \<Rightarrow> bool" where
  "header_bytes hz data \<longleftrightarrow> 1 \<le> hz \<and> (\<exists>tail rest.
     struct_pack Big HEADER_TAIL_FMT [FORMAT_VERSION, int HEADER_SIZE, hz, 0] = Inr tail \<and>
     data = MAGIC @ tail @ rest)"

definition doc_of :: "int \<Rightarrow> read_state \<Rightarrow> replay_document" where
  "doc_of hz st = \<lparr>rd_header = \<lparr>rh_tick_hz = hz, rh_flags = 0\<rparr>, rd_meta = rs_meta st,
     rd_ticks = rs_ticks st, rd_expected = rs_expected st, rd_checkpoints = rs_checkpoints st\<rparr>"

lemma header_bytes_append: "header_bytes hz data \<Longrightarrow> header_bytes hz (data @ xs)"
  unfolding header_bytes_def by auto

lemma length_MAGIC [simp]: "length MAGIC = 4"
  by (simp add: MAGIC_def)

lemma read_document_header:
  assumes "header_bytes hz data"
  shows "read_document data =
           rbind (read_records data HEADER_SIZE read_start) (\<lambda>st. Inr (doc_of hz st))"
    and "HEADER_SIZE \<le> length data"
proof -
  obtain tail rest where t: "struct_pack Big HEADER_TAIL_FMT [FORMAT_VERSION, int HEADER_SIZE, hz, 0] = Inr tail"
    and d: "data = MAGIC @ tail @ rest" and hz: "1 \<le> hz"
    using assms by (auto simp: header_bytes_def)
  have len: "length tail = 12" using struct_pack_length [OF t] by (simp add: HEADER_TAIL_FMT_def)
  have un: "struct_unpack_from Big HEADER_TAIL_FMT (tail @ rest) = Inr [FORMAT_VERSION, int HEADER_SIZE, hz, 0]"
    by (rule struct_unpack_from_pack [OF t])
  show le: "HEADER_SIZE \<le> length data" by (simp add: d len HEADER_SIZE_def)
  have parts: "take 4 data = MAGIC" "drop 4 data = tail @ rest" by (simp_all add: d)
  show "read_document data = rbind (read_records data HEADER_SIZE read_start) (\<lambda>st. Inr (doc_of hz st))"
    unfolding read_document_def Let_def parts un using hz le by (simp add: doc_of_def)
qed

definition last_key :: "read_state \<Rightarrow> int option" where
  "last_key st =
     (if rs_checkpoints st \<noteq> [] \<and> rs_ticks st \<noteq> [] \<and>
         ck_tick (last (rs_checkpoints st)) = tr_tick (last (rs_ticks st))
      then Some (ck_stream_key (last (rs_checkpoints st))) else None)"

definition writer_inv :: "int \<Rightarrow> replay_writer \<Rightarrow> read_state \<Rightarrow> bool" where
  "writer_inv hz w st \<longleftrightarrow>
     header_bytes hz (rw_stream w) \<and>
     read_records (rw_stream w) HEADER_SIZE read_start = Inr st \<and>
     rw_meta_written w = (rs_meta st \<noteq> None) \<and>
     rw_last_tick w = (if rs_ticks st = [] then None else Some (tr_tick (last (rs_ticks st)))) \<and>
     rw_last_stream_key w = last_key st \<and>
     (rs_checkpoints st \<noteq> [] \<longrightarrow>
        rs_ticks st \<noteq> [] \<and> ck_tick (last (rs_checkpoints st)) \<le> tr_tick (last (rs_ticks st)))"

lemma writer_inv_reads: "writer_inv hz w st \<Longrightarrow> read_document (rw_stream w) = Inr (doc_of hz st)"
  using read_document_header(1) [of hz "rw_stream w"] by (simp add: writer_inv_def)

lemma emit_stream: "writer_emit w ty payload = Inr w' \<Longrightarrow>
    \<exists>xs. rw_stream w' = rw_stream w @ xs \<and> rw_closed w' = rw_closed w \<and>
      rw_meta_written w' = rw_meta_written w \<and> rw_last_tick w' = rw_last_tick w \<and>
      rw_last_stream_key w' = rw_last_stream_key w"
  by (auto simp: writer_emit_def rbind_eq_Inr)

text \<open>One emitted record: the header stays, and the reader goes on with that record.\<close>

lemma emit_inv:
  assumes "writer_inv hz w st" and "writer_emit w ty payload = Inr w'"
  shows "header_bytes hz (rw_stream w')"
    and "read_records (rw_stream w') HEADER_SIZE read_start
           = read_record ty 0 payload (length (rw_stream w)) st"
proof -
  have h: "header_bytes hz (rw_stream w)" using assms(1) by (simp add: writer_inv_def)
  then show "header_bytes hz (rw_stream w')" using emit_stream [OF assms(2)] header_bytes_append by auto
  show "read_records (rw_stream w') HEADER_SIZE read_start
      = read_record ty 0 payload (length (rw_stream w)) st"
    using read_emit [OF assms(2)] assms(1) read_document_header(2) [OF h]
    by (simp add: writer_inv_def)
qed

lemma init_inv: "replay_writer_init hz = Inr w \<Longrightarrow> writer_inv hz w read_start"
proof -
  assume "replay_writer_init hz = Inr w"
  then obtain tail where hz: "1 \<le> hz"
    and t: "struct_pack Big HEADER_TAIL_FMT [FORMAT_VERSION, int HEADER_SIZE, hz, 0] = Inr tail"
    and w: "w = \<lparr>rw_stream = MAGIC @ tail, rw_closed = False, rw_meta_written = False,
          rw_last_tick = None, rw_last_stream_key = None\<rparr>"
    by (auto simp: replay_writer_init_def rbind_eq_Inr simp del: struct_pack.simps)
  have len: "length tail = 12" using struct_pack_length [OF t] by (simp add: HEADER_TAIL_FMT_def)
  have "header_bytes hz (MAGIC @ tail)" unfolding header_bytes_def using hz t by fastforce
  then show ?thesis
    by (simp add: writer_inv_def w read_records_end len HEADER_SIZE_def read_start_def last_key_def)
qed

lemma write_meta_inv:
  assumes "writer_inv hz w st" and "write_meta w meta = Inr w'" and "json_ok (JObj meta)"
  shows "writer_inv hz w' (st\<lparr>rs_meta := Some (meta_sorted meta)\<rparr>)"
proof -
  obtain s b w1 where s: "json_dumps (JObj meta) = Inr s" "utf8_encode s = Inr b"
    and e: "writer_emit w META_RECORD_TYPE b = Inr w1"
    and g: "\<not> rw_meta_written w" "rw_last_tick w = None"
    and w': "w' = w1\<lparr>rw_meta_written := True\<rparr>"
    using assms(2) by (auto simp: write_meta_def rbind_eq_Inr)
  have st: "rs_meta st = None" "rs_ticks st = []"
    using g assms(1) by (auto simp: writer_inv_def split: if_splits)
  have "read_record META_RECORD_TYPE 0 b (length (rw_stream w)) st = Inr (st\<lparr>rs_meta := Some (meta_sorted meta)\<rparr>)"
    using parse_meta_pack [OF assms(3) s] st by (simp add: read_record_def replay_consts)
  then show ?thesis
    using emit_inv [OF assms(1) e] emit_stream [OF e] assms(1) st
    by (auto simp: writer_inv_def w' last_key_def)
qed

lemma write_tick_inv:
  assumes "writer_inv hz w st" and "write_tick w t es = Inr w'"
  shows "writer_inv hz w' (st\<lparr>rs_ticks := rs_ticks st @ [TickRecord t (sort_events es)]\<rparr>)"
proof -
  obtain head bs w1 where p: "struct_pack Big TICK_HEAD_FMT [t, int (length (sort_events es))] = Inr head"
      "rmap pack_event (sort_events es) = Inr bs"
    and e: "writer_emit w TICK_RECORD_TYPE (head @ concat bs) = Inr w1"
    and g: "case rw_last_tick w of None \<Rightarrow> True | Some l \<Rightarrow> l < t"
    and w': "w' = w1\<lparr>rw_last_tick := Some t, rw_last_stream_key := None\<rparr>"
    using assms(2) by (auto simp: write_tick_def Let_def rbind_eq_Inr simp del: struct_pack.simps)
  have lt: "rs_ticks st \<noteq> [] \<Longrightarrow> tr_tick (last (rs_ticks st)) < t"
    using g assms(1) by (auto simp: writer_inv_def)
  have "read_record TICK_RECORD_TYPE 0 (head @ concat bs) (length (rw_stream w)) st
      = Inr (st\<lparr>rs_ticks := rs_ticks st @ [TickRecord t (sort_events es)]\<rparr>)"
    using parse_tick_pack [OF p sorted_sort_events] lt
    by (fastforce simp: read_record_def replay_consts TickRecord_def)
  moreover have "rs_checkpoints st \<noteq> [] \<Longrightarrow> ck_tick (last (rs_checkpoints st)) < t"
    using assms(1) lt by (fastforce simp: writer_inv_def)
  ultimately show ?thesis
    using emit_inv [OF assms(1) e] emit_stream [OF e] assms(1)
    by (auto simp: writer_inv_def w' last_key_def TickRecord_def)
qed

lemma write_expected_hash_inv:
  assumes "writer_inv hz w st" and "write_expected_hash w t h = Inr w'"
  shows "t \<notin> eh_tick ` set (rs_expected st) \<Longrightarrow>
           writer_inv hz w' (st\<lparr>rs_expected := rs_expected st @ [ExpectedHash t h]\<rparr>)"
    and "t \<in> eh_tick ` set (rs_expected st) \<Longrightarrow>
           header_bytes hz (rw_stream w') \<and>
           read_records (rw_stream w') HEADER_SIZE read_start
             = Inl (ReplayFormatError (DuplicateExpectation (length (rw_stream w))))"
proof -
  obtain b where p: "struct_pack Big EXPECTED_HASH_FMT [t, h] = Inr b"
    and e: "writer_emit w EXPECTED_HASH_RECORD_TYPE b = Inr w'"
    using assms(2) by (auto simp: write_expected_hash_def rbind_eq_Inr simp del: struct_pack.simps)
  have len: "length b = calcsize EXPECTED_HASH_FMT" by (rule struct_pack_length [OF p])
  have un: "struct_unpack Big EXPECTED_HASH_FMT b = Inr [t, h]" by (rule struct_unpack_pack [OF p])
  have ex: "list_ex (\<lambda>seen. t = eh_tick seen) (rs_expected st) \<longleftrightarrow> t \<in> eh_tick ` set (rs_expected st)"
    by (auto simp: list_ex_iff)
  have r: "read_record EXPECTED_HASH_RECORD_TYPE 0 b (length (rw_stream w)) st =
      (if t \<in> eh_tick ` set (rs_expected st)
       then Inl (ReplayFormatError (DuplicateExpectation (length (rw_stream w))))
       else Inr (st\<lparr>rs_expected := rs_expected st @ [ExpectedHash t h]\<rparr>))"
    using un len by (simp add: read_record_def replay_consts require_exact_len_def ex)
  note inv = emit_inv [OF assms(1) e]
  show "writer_inv hz w' (st\<lparr>rs_expected := rs_expected st @ [ExpectedHash t h]\<rparr>)"
    if "t \<notin> eh_tick ` set (rs_expected st)"
    using that inv r emit_stream [OF e] assms(1) by (auto simp: writer_inv_def last_key_def)
  show "header_bytes hz (rw_stream w') \<and> read_records (rw_stream w') HEADER_SIZE read_start
      = Inl (ReplayFormatError (DuplicateExpectation (length (rw_stream w))))"
    if "t \<in> eh_tick ` set (rs_expected st)"
    using that inv r by simp
qed

lemma write_rng_checkpoint_inv:
  assumes "writer_inv hz w st" and "write_rng_checkpoint w t k s = Inr w'"
  shows "writer_inv hz w' (st\<lparr>rs_checkpoints := rs_checkpoints st @
           [\<lparr>ck_tick = t, ck_stream_key = k, ck_state = s\<rparr>]\<rparr>)"
proof -
  obtain head w1 where p: "struct_pack Big CHECKPOINT_HEAD_FMT [t, k, int (length s)] = Inr head"
    and e: "writer_emit w RNG_CHECKPOINT_RECORD_TYPE (head @ s) = Inr w1"
    and g: "rw_last_tick w = Some t" "length s = RNG_STATE_SIZE"
      "case rw_last_stream_key w of None \<Rightarrow> True | Some l \<Rightarrow> l < k"
    and w': "w' = w1\<lparr>rw_last_stream_key := Some k\<rparr>"
    using assms(2) by (auto simp: write_rng_checkpoint_def rbind_eq_Inr simp del: struct_pack.simps)
  have t: "rs_ticks st \<noteq> []" "t = tr_tick (last (rs_ticks st))"
    using g(1) assms(1) by (auto simp: writer_inv_def split: if_splits)
  have key: "\<not> (rs_checkpoints st \<noteq> [] \<and> ck_tick (last (rs_checkpoints st)) = t \<and>
      k \<le> ck_stream_key (last (rs_checkpoints st)))"
    using g(3) assms(1) t by (auto simp: writer_inv_def last_key_def)
  have "read_record RNG_CHECKPOINT_RECORD_TYPE 0 (head @ s) (length (rw_stream w)) st
      = Inr (st\<lparr>rs_checkpoints := rs_checkpoints st @ [\<lparr>ck_tick = t, ck_stream_key = k, ck_state = s\<rparr>]\<rparr>)"
    using parse_checkpoint_pack [OF p g(2) t key] by (simp add: read_record_def replay_consts)
  then show ?thesis
    using emit_inv [OF assms(1) e] emit_stream [OF e] assms(1) t
    by (auto simp: writer_inv_def w' last_key_def)
qed

subsection \<open>Encoding a whole document\<close>

lemma map_of_checkpoints_by_tick:
  "map_of (checkpoints_by_tick cks) t =
     (if t \<in> ck_tick ` set cks then Some (filter (\<lambda>c. ck_tick c = t) cks) else None)"
proof (induction cks arbitrary: t rule: rev_induct)
  case (snoc c cks)
  show ?case
    using snoc [of t] snoc [of "ck_tick c"]
    by (auto simp: checkpoints_by_tick_def filter_empty_conv eq_commute [of "[]"]
        intro: rev_image_eqI split: option.splits)
qed (simp add: checkpoints_by_tick_def)

lemma by_tick_get:
  "(case map_of (checkpoints_by_tick cks) t of None \<Rightarrow> [] | Some l \<Rightarrow> l) = filter (\<lambda>c. ck_tick c = t) cks"
  by (auto simp: map_of_checkpoints_by_tick filter_empty_conv eq_commute [of "[]"])

lemma encode_tick_eq:
  "encode_tick (checkpoints_by_tick cks) w tr =
     rbind (write_tick w (tr_tick tr) (tr_events tr)) (\<lambda>w1.
     rfold (\<lambda>w ck. write_rng_checkpoint w (ck_tick ck) (ck_stream_key ck) (ck_state ck)) w1
       (filter (\<lambda>c. ck_tick c = tr_tick tr) cks))"
  by (simp add: encode_tick_def by_tick_get)

lemma write_checkpoints_inv:
  assumes "writer_inv hz w st"
    and "rfold (\<lambda>w ck. write_rng_checkpoint w (ck_tick ck) (ck_stream_key ck) (ck_state ck)) w cks = Inr w'"
  shows "writer_inv hz w' (st\<lparr>rs_checkpoints := rs_checkpoints st @ cks\<rparr>)"
  using assms
proof (induction cks arbitrary: w st)
  case (Cons c cks)
  from Cons.prems(2) obtain w1 where
    w1: "write_rng_checkpoint w (ck_tick c) (ck_stream_key c) (ck_state c) = Inr w1"
      "rfold (\<lambda>w ck. write_rng_checkpoint w (ck_tick ck) (ck_stream_key ck) (ck_state ck)) w1 cks = Inr w'"
    by (auto simp: rbind_eq_Inr)
  have c: "\<lparr>ck_tick = ck_tick c, ck_stream_key = ck_stream_key c, ck_state = ck_state c\<rparr> = c" by simp
  from Cons.IH [OF write_rng_checkpoint_inv [OF Cons.prems(1) w1(1)] w1(2)] show ?case
    unfolding c by simp
qed simp

definition canonical_tick :: "tick_record \<Rightarrow> tick_record" where
  "canonical_tick tr = TickRecord (tr_tick tr) (sort_events (tr_events tr))"

lemma encode_ticks_inv:
  assumes "writer_inv hz w st"
    and "rfold (encode_tick (checkpoints_by_tick cks)) w trs = Inr w'"
  shows "writer_inv hz w' (st\<lparr>rs_ticks := rs_ticks st @ map canonical_tick trs,
           rs_checkpoints := rs_checkpoints st @
             concat (map (\<lambda>tr. filter (\<lambda>c. ck_tick c = tr_tick tr) cks) trs)\<rparr>)"
  using assms
proof (induction trs arbitrary: w st)
  case (Cons tr trs)
  from Cons.prems(2) obtain w1 w2 where w1: "write_tick w (tr_tick tr) (tr_events tr) = Inr w1"
    and w2: "rfold (\<lambda>w ck. write_rng_checkpoint w (ck_tick ck) (ck_stream_key ck) (ck_state ck)) w1
      (filter (\<lambda>c. ck_tick c = tr_tick tr) cks) = Inr w2"
      "rfold (encode_tick (checkpoints_by_tick cks)) w2 trs = Inr w'"
    unfolding rfold.simps rbind_eq_Inr encode_tick_eq [of cks w tr] by blast
  from Cons.IH [OF write_checkpoints_inv [OF write_tick_inv [OF Cons.prems(1) w1] w2(1)] w2(2)]
  show ?case by (simp add: canonical_tick_def)
qed simp

lemma write_expected_dup:
  assumes "header_bytes hz (rw_stream w)"
    and "read_records (rw_stream w) HEADER_SIZE read_start = Inl (ReplayFormatError (DuplicateExpectation at))"
    and "rfold (\<lambda>w e. write_expected_hash w (eh_tick e) (eh_hash e)) w es = Inr w'"
  shows "header_bytes hz (rw_stream w') \<and> read_records (rw_stream w') HEADER_SIZE read_start
           = Inl (ReplayFormatError (DuplicateExpectation at))"
  using assms
proof (induction es arbitrary: w)
  case (Cons e es)
  from Cons.prems(3) obtain w1 xs where s: "rw_stream w1 = rw_stream w @ xs"
    and f: "rfold (\<lambda>w e. write_expected_hash w (eh_tick e) (eh_hash e)) w1 es = Inr w'"
    by (auto simp: rbind_eq_Inr write_expected_hash_def dest!: emit_stream)
  show ?case
    by (rule Cons.IH [OF _ _ f])
      (use Cons.prems s read_document_header(2) [OF Cons.prems(1)] in
        \<open>auto intro!: header_bytes_append read_records_append_Inl\<close>)
qed simp

lemma write_expected_inv:
  assumes "writer_inv hz w st"
    and "rfold (\<lambda>w e. write_expected_hash w (eh_tick e) (eh_hash e)) w es = Inr w'"
    and "distinct (map eh_tick (rs_expected st))"
  shows "if distinct (map eh_tick (rs_expected st @ es))
         then writer_inv hz w' (st\<lparr>rs_expected := rs_expected st @ es\<rparr>)
         else header_bytes hz (rw_stream w') \<and> (\<exists>at. read_records (rw_stream w') HEADER_SIZE read_start
                = Inl (ReplayFormatError (DuplicateExpectation at)))"
  using assms
proof (induction es arbitrary: w st)
  case (Cons e es)
  from Cons.prems(2) obtain w1 where w1: "write_expected_hash w (eh_tick e) (eh_hash e) = Inr w1"
    and f: "rfold (\<lambda>w e. write_expected_hash w (eh_tick e) (eh_hash e)) w1 es = Inr w'"
    by (auto simp: rbind_eq_Inr)
  have e: "ExpectedHash (eh_tick e) (eh_hash e) = e" by (simp add: ExpectedHash_def)
  show ?case
  proof (cases "eh_tick e \<in> eh_tick ` set (rs_expected st)")
    case True
    then have "\<not> distinct (map eh_tick (rs_expected st @ e # es))" by auto
    moreover have "header_bytes hz (rw_stream w') \<and> (\<exists>at. read_records (rw_stream w') HEADER_SIZE read_start
                = Inl (ReplayFormatError (DuplicateExpectation at)))"
      using write_expected_hash_inv(2) [OF Cons.prems(1) w1 True] write_expected_dup [OF _ _ f] by blast
    ultimately show ?thesis by (simp only: if_False)
  next
    case False
    define st1 where "st1 = st\<lparr>rs_expected := rs_expected st @ [e]\<rparr>"
    have inv: "writer_inv hz w1 st1"
      using write_expected_hash_inv(1) [OF Cons.prems(1) w1 False] by (simp add: e st1_def)
    have d: "distinct (map eh_tick (rs_expected st1))" using False Cons.prems(3) by (auto simp: st1_def)
    have eq: "rs_expected st1 @ es = rs_expected st @ e # es"
      "st1\<lparr>rs_expected := rs_expected st @ e # es\<rparr> = st\<lparr>rs_expected := rs_expected st @ e # es\<rparr>"
      by (simp_all add: st1_def)
    show ?thesis using Cons.IH [OF inv f d] unfolding eq .
  qed
qed simp

definition canonical_document :: "replay_document \<Rightarrow> replay_document" where
  "canonical_document d =
     \<lparr>rd_header = \<lparr>rh_tick_hz = rh_tick_hz (rd_header d), rh_flags = 0\<rparr>,
      rd_meta = map_option meta_sorted (rd_meta d),
      rd_ticks = map canonical_tick (rd_ticks d),
      rd_expected = rd_expected d,
      rd_checkpoints = concat (map (\<lambda>tr. filter (\<lambda>c. ck_tick c = tr_tick tr) (rd_checkpoints d)) (rd_ticks d))\<rparr>"

definition meta_ok :: "(pystr, json) dict option \<Rightarrow> bool" where
  "meta_ok m = (case m of None \<Rightarrow> True | Some kvs \<Rightarrow> json_ok (JObj kvs))"

lemma encode_read:
  assumes "encode_document d = Inr b" and "meta_ok (rd_meta d)"
  shows "if distinct (map eh_tick (rd_expected d)) then read_document b = Inr (canonical_document d)
         else \<exists>at. read_document b = Inl (ReplayFormatError (DuplicateExpectation at))"
proof -
  let ?hz = "rh_tick_hz (rd_header d)"
  obtain w0 w1 w2 w3 where w0: "replay_writer_init ?hz = Inr w0"
    and w1: "(case rd_meta d of None \<Rightarrow> Inr w0 | Some m \<Rightarrow> write_meta w0 m) = Inr w1"
    and w2: "rfold (encode_tick (checkpoints_by_tick (rd_checkpoints d))) w1 (rd_ticks d) = Inr w2"
    and w3: "rfold (\<lambda>w e. write_expected_hash w (eh_tick e) (eh_hash e)) w2 (rd_expected d) = Inr w3"
    and b: "b = rw_stream w3"
    using assms(1) by (auto simp: encode_document_def Let_def rbind_eq_Inr writer_close_def)
  have "writer_inv ?hz w1 (read_start\<lparr>rs_meta := map_option meta_sorted (rd_meta d)\<rparr>)"
  proof (cases "rd_meta d")
    case None
    then show ?thesis using init_inv [OF w0] w1 by (simp add: read_start_def)
  next
    case (Some m)
    then show ?thesis using write_meta_inv [OF init_inv [OF w0]] w1 assms(2) by (simp add: meta_ok_def)
  qed
  from write_expected_inv [OF encode_ticks_inv [OF this w2] w3]
  show ?thesis
    using writer_inv_reads [of ?hz w3] read_document_header(1) [of ?hz "rw_stream w3"]
    by (auto simp: b doc_of_def canonical_document_def read_start_def split: if_splits)
qed

end
