(* ===== verification/ReplayDocs.thy ===== *)
theory ReplayDocs
  imports ReplayLaws
begin

text \<open>
  What the reader guarantees of a document (\<open>document_wf\<close>), that every such document can be encoded
  again, and the differ. The properties of the replay format are at the end.
\<close>

subsection \<open>What the reader accepts\<close>

definition event_ok :: "replay_event \<Rightarrow> bool" where
  "event_ok e \<longleftrightarrow> fits_all (event_fmt e) (event_fields e)"

definition tick_ok :: "tick_record \<Rightarrow> bool" where
  "tick_ok tr \<longleftrightarrow> fmt_fits FQ (tr_tick tr) \<and> length (tr_events tr) \<le> U16_MAX \<and>
     sorted (map canonical_event_key (tr_events tr)) \<and> list_all event_ok (tr_events tr)"

definition expected_ok :: "expected_hash \<Rightarrow> bool" where
  "expected_ok e \<longleftrightarrow> fmt_fits FQ (eh_tick e) \<and> fmt_fits FQ (eh_hash e)"

definition checkpoint_ok :: "rng_checkpoint \<Rightarrow> bool" where
  "checkpoint_ok c \<longleftrightarrow> fmt_fits FQ (ck_tick c) \<and> fmt_fits FQ (ck_stream_key c) \<and>
     length (ck_state c) = RNG_STATE_SIZE"

definition ck_key :: "rng_checkpoint \<Rightarrow> int \<times> int" where
  "ck_key c = (ck_tick c, ck_stream_key c)"

definition document_wf :: "replay_document \<Rightarrow> bool" where
  "document_wf d \<longleftrightarrow>
     1 \<le> rh_tick_hz (rd_header d) \<and> fmt_fits FI (rh_tick_hz (rd_header d)) \<and>
     rh_flags (rd_header d) = 0 \<and>
     sorted_wrt (<) (map tr_tick (rd_ticks d)) \<and> list_all tick_ok (rd_ticks d) \<and>
     distinct (map eh_tick (rd_expected d)) \<and> list_all expected_ok (rd_expected d) \<and>
     sorted_wrt (<) (map ck_key (rd_checkpoints d)) \<and> list_all checkpoint_ok (rd_checkpoints d) \<and>
     ck_tick ` set (rd_checkpoints d) \<subseteq> tr_tick ` set (rd_ticks d)"

definition state_wf :: "read_state \<Rightarrow> bool" where
  "state_wf st \<longleftrightarrow>
     sorted_wrt (<) (map tr_tick (rs_ticks st)) \<and> list_all tick_ok (rs_ticks st) \<and>
     distinct (map eh_tick (rs_expected st)) \<and> list_all expected_ok (rs_expected st) \<and>
     sorted_wrt (<) (map ck_key (rs_checkpoints st)) \<and> list_all checkpoint_ok (rs_checkpoints st) \<and>
     ck_tick ` set (rs_checkpoints st) \<subseteq> tr_tick ` set (rs_ticks st)"

lemma unpack_from_fits: "struct_unpack_from e fs bs = Inr vs \<Longrightarrow> fits_all fs vs"
  by (auto simp: struct_unpack_from_def unpack_fields_fits split: if_splits)

lemma unpack_fits: "struct_unpack e fs bs = Inr vs \<Longrightarrow> fits_all fs vs"
  by (auto simp: struct_unpack_def unpack_fields_fits split: if_splits)

lemma spawn_of_fields_fields: "spawn_of_fields vs = Inr e \<Longrightarrow> event_fmt e = SPAWN_FMT \<and> event_fields e = vs"
  by (cases vs rule: spawn_of_fields.cases) auto

lemma move_of_fields_fields: "move_of_fields vs = Inr e \<Longrightarrow> event_fmt e = MOVE_FMT \<and> event_fields e = vs"
  by (cases vs rule: move_of_fields.cases) auto

lemma despawn_of_fields_fields: "despawn_of_fields vs = Inr e \<Longrightarrow> event_fmt e = DESPAWN_FMT \<and> event_fields e = vs"
  by (cases vs rule: despawn_of_fields.cases) auto

lemma unpack_event_ok: "unpack_event payload off at = Inr e \<Longrightarrow> event_ok e"
  by (auto simp: unpack_event_def Let_def event_ok_def rbind_eq_Inr split: if_splits
      dest!: unpack_from_fits spawn_of_fields_fields move_of_fields_fields despawn_of_fields_fields)

lemma parse_events_ok:
  assumes "parse_events n payload off at prev acc = Inr (es, off')"
    and "list_all event_ok acc" "sorted (map canonical_event_key acc)"
    and "prev = (if acc = [] then None else Some (canonical_event_key (last acc)))"
  shows "list_all event_ok es \<and> sorted (map canonical_event_key es) \<and> length es = length acc + n"
  using assms
proof (induction n payload off at prev acc rule: parse_events.induct)
  case (2 n payload off at prev acc)
  from "2.prems"(1) obtain e where e: "unpack_event payload off at = Inr e"
    and k: "\<not> (case prev of None \<Rightarrow> False | Some k \<Rightarrow> canonical_event_key e < k)"
    and off: "\<not> length payload \<le> off"
    and r: "parse_events n payload (off + (1 + event_body_size e)) at (Some (canonical_event_key e)) (acc @ [e])
              = Inr (es, off')"
    by (auto simp: rbind_eq_Inr Let_def split: if_splits)
  have "\<forall>x \<in> set acc. canonical_event_key x \<le> canonical_event_key e"
  proof (cases acc rule: rev_cases)
    case (snoc ys y)
    then show ?thesis using "2.prems"(3,4) k by (auto simp: sorted_append)
  qed simp
  then have "sorted (map canonical_event_key (acc @ [e]))" using "2.prems"(3) by (auto simp: sorted_append)
  then show ?case
    using "2.IH" [OF off e refl refl k r] "2.prems"(2) unpack_event_ok [OF e] by auto
qed auto

lemma parse_tick_ok: "parse_tick payload at = Inr tr \<Longrightarrow> tick_ok tr"
proof -
  assume "parse_tick payload at = Inr tr"
  then obtain vs t n es off where u: "struct_unpack_from Big TICK_HEAD_FMT payload = Inr vs"
    and v: "int_pair vs = Inr (t, n)"
    and p: "parse_events (nat n) payload (calcsize TICK_HEAD_FMT) at None [] = Inr (es, off)"
    and tr: "tr = TickRecord t es"
    by (auto simp: parse_tick_def rbind_eq_Inr)
  have vs: "vs = [t, n]" using v by (cases vs rule: int_pair.cases) auto
  have "fmt_fits FQ t \<and> fmt_fits FH n" using unpack_from_fits [OF u] by (simp add: vs TICK_HEAD_FMT_def)
  then show ?thesis
    using parse_events_ok [OF p] by (auto simp: tick_ok_def tr TickRecord_def U16_MAX_def)
qed

lemma parse_checkpoint_ok:
  assumes "parse_checkpoint payload at ticks prev = Inr c"
  shows "checkpoint_ok c \<and> ticks \<noteq> [] \<and> ck_tick c = tr_tick (last ticks) \<and>
    (prev \<noteq> [] \<longrightarrow> ck_tick (last prev) = ck_tick c \<longrightarrow> ck_stream_key (last prev) < ck_stream_key c)"
proof -
  obtain vs t k n where u: "struct_unpack_from Big CHECKPOINT_HEAD_FMT payload = Inr vs"
    and v: "int_triple vs = Inr (t, k, n)"
    and g: "ticks \<noteq> []" "t = tr_tick (last ticks)"
      "\<not> (prev \<noteq> [] \<and> ck_tick (last prev) = t \<and> k \<le> ck_stream_key (last prev))"
    and c: "RngCheckpoint t k (drop (calcsize CHECKPOINT_HEAD_FMT) payload) = Inr c"
    using assms by (auto simp: parse_checkpoint_def rbind_eq_Inr)
  have vs: "vs = [t, k, n]" using v by (cases vs rule: int_triple.cases) auto
  have "fmt_fits FQ t \<and> fmt_fits FQ k" using unpack_from_fits [OF u] by (simp add: vs CHECKPOINT_HEAD_FMT_def)
  then show ?thesis
    using g c by (auto simp: RngCheckpoint_def rbind_eq_Inr checkpoint_ok_def)
qed

lemma sorted_wrt_snoc:
  assumes "sorted_wrt (<) (map f xs)" "xs \<noteq> [] \<Longrightarrow> f (last xs) < (f x :: 'k::linorder)"
  shows "sorted_wrt (<) (map f (xs @ [x]))"
proof (cases xs rule: rev_cases)
  case (snoc ys y)
  then show ?thesis using assms by (auto simp: sorted_wrt_append)
qed simp

lemma last_tick_max:
  assumes "sorted_wrt (<) (map tr_tick ticks)" "tr \<in> set ticks"
  shows "tr_tick tr \<le> tr_tick (last ticks)"
proof (cases ticks rule: rev_cases)
  case (snoc ys y)
  then show ?thesis using assms by (auto simp: sorted_wrt_append)
qed (use assms in simp)

lemma read_record_cases:
  assumes "read_record ty fl payload at st = Inr st'"
  obtains (tick) tr where "parse_tick payload at = Inr tr"
      "\<not> (rs_ticks st \<noteq> [] \<and> tr_tick tr \<le> tr_tick (last (rs_ticks st)))"
      "st' = st\<lparr>rs_ticks := rs_ticks st @ [tr]\<rparr>"
    | (meta) m where "st' = st\<lparr>rs_meta := Some m\<rparr>"
    | (hash) vs t h where "struct_unpack Big EXPECTED_HASH_FMT payload = Inr vs" "int_pair vs = Inr (t, h)"
      "\<not> list_ex (\<lambda>seen. t = eh_tick seen) (rs_expected st)"
      "st' = st\<lparr>rs_expected := rs_expected st @ [ExpectedHash t h]\<rparr>"
    | (ck) c where "parse_checkpoint payload at (rs_ticks st) (rs_checkpoints st) = Inr c"
      "st' = st\<lparr>rs_checkpoints := rs_checkpoints st @ [c]\<rparr>"
    | (skip) "st' = st"
proof -
  consider "ty = 1" | "ty = 2" | "ty = 3" | "ty = 4" | "ty \<notin> {1, 2, 3, 4}" by blast
  then show thesis
  proof cases
    case 1
    with assms show ?thesis by (auto simp: read_record_def replay_consts rbind_eq_Inr intro: tick)
  next
    case 2
    with assms show ?thesis by (auto simp: read_record_def replay_consts rbind_eq_Inr intro: meta)
  next
    case 3
    with assms show ?thesis by (auto simp: read_record_def replay_consts rbind_eq_Inr intro: hash)
  next
    case 4
    with assms show ?thesis by (auto simp: read_record_def replay_consts rbind_eq_Inr intro: ck)
  next
    case 5
    with assms show ?thesis by (auto simp: read_record_def replay_consts intro: skip)
  qed
qed

lemma read_record_wf:
  assumes "read_record ty fl payload at st = Inr st'" "state_wf st"
  shows "state_wf st'"
  using assms(1)
proof (cases rule: read_record_cases)
    case (tick tr)
    have "sorted_wrt (<) (map tr_tick (rs_ticks st @ [tr]))"
      by (rule sorted_wrt_snoc) (use assms(2) tick in \<open>auto simp: state_wf_def\<close>)
    then show ?thesis using assms(2) tick parse_tick_ok [OF tick(1)] by (auto simp: state_wf_def)
  next
    case (hash vs t h)
    have vs: "vs = [t, h]" using hash(2) by (cases vs rule: int_pair.cases) auto
    have "expected_ok (ExpectedHash t h)"
      using unpack_fits [OF hash(1)] by (simp add: vs EXPECTED_HASH_FMT_def expected_ok_def ExpectedHash_def)
    then show ?thesis
      using assms(2) hash by (auto simp: state_wf_def list_ex_iff ExpectedHash_def)
  next
    case (ck c)
    note ok = parse_checkpoint_ok [OF ck(1)]
    have "sorted_wrt (<) (map ck_key (rs_checkpoints st @ [c]))"
    proof (rule sorted_wrt_snoc)
      show "sorted_wrt (<) (map ck_key (rs_checkpoints st))" using assms(2) by (simp add: state_wf_def)
      assume ne: "rs_checkpoints st \<noteq> []"
      then have "last (rs_checkpoints st) \<in> set (rs_checkpoints st)" by simp
      then obtain tr where "tr \<in> set (rs_ticks st)" "ck_tick (last (rs_checkpoints st)) = tr_tick tr"
        using assms(2) unfolding state_wf_def by blast
      then have "ck_tick (last (rs_checkpoints st)) \<le> ck_tick c"
        using last_tick_max [of "rs_ticks st"] assms(2) ok by (auto simp: state_wf_def)
      then show "ck_key (last (rs_checkpoints st)) < ck_key c"
        using ok ne by (auto simp: ck_key_def less_prod_def)
    qed
    then show ?thesis using assms(2) ck ok by (auto simp: state_wf_def)
qed (use assms(2) in \<open>auto simp: state_wf_def\<close>)

lemma read_records_wf: "read_records data off st = Inr st' \<Longrightarrow> state_wf st \<Longrightarrow> state_wf st'"
proof (induction "length data - off" arbitrary: off st rule: less_induct)
  case less
  show ?case
  proof (cases "off < length data")
    case False
    then show ?thesis using less.prems by (simp add: read_records_end)
  next
    case True
    from less.prems(1) obtain ty fl p off' st1 where
      f: "frame data off = Some (ty, fl, p, off')" and r: "read_record ty fl p off st = Inr st1"
        "read_records data off' st1 = Inr st'"
      by (auto simp: read_records_step [OF True] rbind_eq_Inr split: option.splits)
    show ?thesis
      by (rule less.hyps [OF _ r(2) read_record_wf [OF r(1) less.prems(2)]])
        (use frame_bounds [OF f] True in auto)
  qed
qed

lemma read_document_document_wf: "read_document data = Inr d \<Longrightarrow> document_wf d"
proof -
  assume "read_document data = Inr d"
  then obtain vs v hs hz fl st where u: "struct_unpack_from Big HEADER_TAIL_FMT (drop 4 data) = Inr vs"
    and q: "int_quad vs = Inr (v, hs, hz, fl)" and g: "fl = 0" "1 \<le> hz"
    and r: "read_records data (nat hs) read_start = Inr st"
    and d: "d = \<lparr>rd_header = \<lparr>rh_tick_hz = hz, rh_flags = fl\<rparr>, rd_meta = rs_meta st,
          rd_ticks = rs_ticks st, rd_expected = rs_expected st, rd_checkpoints = rs_checkpoints st\<rparr>"
    by (auto simp: read_document_def Let_def rbind_eq_Inr)
  have vs: "vs = [v, hs, hz, fl]" using q by (cases vs rule: int_quad.cases) auto
  have "fmt_fits FI hz" using unpack_from_fits [OF u] by (simp add: vs HEADER_TAIL_FMT_def)
  moreover have "state_wf st"
    by (rule read_records_wf [OF r]) (simp add: state_wf_def read_start_def)
  ultimately show ?thesis using g by (simp add: document_wf_def d state_wf_def)
qed

subsection \<open>A document the reader returns can be encoded again\<close>

lemma struct_pack_fits: "fits_all fs vs \<Longrightarrow> struct_pack e fs vs = Inr (concat (map2 (pack_field e) fs vs))"
  by (simp add: struct_pack_eq_Inr)

lemma emit_total:
  assumes "0 \<le> ty" "ty < 256" "length payload < 2 ^ 32"
  shows "\<exists>w'. writer_emit w ty payload = Inr w'"
proof -
  have "fits_all RECORD_FMT [ty, 0, 0, int (length payload)]"
    using assms by (simp add: RECORD_FMT_def fmt_fits_def)
  then show ?thesis by (simp add: writer_emit_def struct_pack_fits)
qed

lemma emit_keeps_closed: "writer_emit w ty payload = Inr w' \<Longrightarrow> rw_closed w' = rw_closed w"
  using emit_stream by blast

lemma pack_event_total:
  assumes "event_ok e"
  shows "\<exists>b. pack_event e = Inr b \<and> length b \<le> 61"
proof -
  have "fits_all [FB] [event_code e]" by (cases e) (simp_all add: replay_consts fmt_fits_def)
  then have "\<exists>b. pack_event e = Inr b"
    using assms by (simp add: pack_event_layout event_ok_def struct_pack_fits del: struct_pack.simps)
  then obtain b where b: "pack_event e = Inr b" by blast
  have "event_body_size e \<le> 60" by (cases e) (simp_all add: replay_fmts)
  then show ?thesis using b unpack_pack_event(2) [OF b] by auto
qed

lemma pack_events_total:
  "list_all event_ok es \<Longrightarrow> \<exists>bs. rmap pack_event es = Inr bs \<and> length (concat bs) \<le> 61 * length es"
proof (induction es)
  case (Cons e es)
  obtain b where b: "pack_event e = Inr b" "length b \<le> 61"
    using pack_event_total [of e] Cons.prems by auto
  obtain bs where bs: "rmap pack_event es = Inr bs" "length (concat bs) \<le> 61 * length es"
    using Cons by auto
  show ?case using b bs by simp
qed simp

lemma sort_events_id: "sorted (map canonical_event_key es) \<Longrightarrow> sort_events es = es"
  by (simp add: sort_events_def sort_key_id_if_sorted)

lemma write_tick_total:
  assumes "\<not> rw_closed w" "case rw_last_tick w of None \<Rightarrow> True | Some l \<Rightarrow> l < tr_tick tr" "tick_ok tr"
  shows "\<exists>w'. write_tick w (tr_tick tr) (tr_events tr) = Inr w' \<and> \<not> rw_closed w' \<and>
           rw_last_tick w' = Some (tr_tick tr) \<and> rw_last_stream_key w' = None"
proof -
  have s: "sort_events (tr_events tr) = tr_events tr" using assms(3) by (simp add: tick_ok_def sort_events_id)
  have len: "length (tr_events tr) \<le> U16_MAX" using assms(3) by (simp add: tick_ok_def)
  have "fits_all TICK_HEAD_FMT [tr_tick tr, int (length (tr_events tr))]"
    using assms(3) by (simp add: tick_ok_def TICK_HEAD_FMT_def U16_MAX_def)
  then obtain head where h: "struct_pack Big TICK_HEAD_FMT [tr_tick tr, int (length (tr_events tr))] = Inr head"
    using struct_pack_total by blast
  obtain bs where bs: "rmap pack_event (tr_events tr) = Inr bs" "length (concat bs) \<le> 61 * length (tr_events tr)"
    using pack_events_total [of "tr_events tr"] assms(3) by (auto simp: tick_ok_def)
  have "length (head @ concat bs) < 2 ^ 32"
    using struct_pack_length [OF h] bs(2) len by (simp add: TICK_HEAD_FMT_def U16_MAX_def)
  then obtain w1 where w1: "writer_emit w TICK_RECORD_TYPE (head @ concat bs) = Inr w1"
    using emit_total [of TICK_RECORD_TYPE "head @ concat bs" w] by (auto simp: replay_consts)
  have "write_tick w (tr_tick tr) (tr_events tr) =
      Inr (w1\<lparr>rw_last_tick := Some (tr_tick tr), rw_last_stream_key := None\<rparr>)"
    using assms s len h bs(1) w1
    by (simp add: write_tick_def writer_ensure_open_def Let_def del: struct_pack.simps)
  then show ?thesis using emit_keeps_closed [OF w1] assms(1) by simp
qed

lemma write_rng_checkpoint_total:
  assumes "\<not> rw_closed w" "rw_last_tick w = Some (ck_tick c)" "checkpoint_ok c"
    and "case rw_last_stream_key w of None \<Rightarrow> True | Some k \<Rightarrow> k < ck_stream_key c"
  shows "\<exists>w'. write_rng_checkpoint w (ck_tick c) (ck_stream_key c) (ck_state c) = Inr w' \<and>
           \<not> rw_closed w' \<and> rw_last_tick w' = rw_last_tick w \<and> rw_last_stream_key w' = Some (ck_stream_key c)"
proof -
  have len: "length (ck_state c) = RNG_STATE_SIZE" using assms(3) by (simp add: checkpoint_ok_def)
  have "fits_all CHECKPOINT_HEAD_FMT [ck_tick c, ck_stream_key c, int (length (ck_state c))]"
    using assms(3) by (simp add: checkpoint_ok_def CHECKPOINT_HEAD_FMT_def replay_consts fmt_fits_def)
  then obtain head where h: "struct_pack Big CHECKPOINT_HEAD_FMT
      [ck_tick c, ck_stream_key c, int (length (ck_state c))] = Inr head"
    using struct_pack_total by blast
  have "length (head @ ck_state c) < 2 ^ 32"
    using struct_pack_length [OF h] len by (simp add: CHECKPOINT_HEAD_FMT_def replay_consts)
  then obtain w1 where w1: "writer_emit w RNG_CHECKPOINT_RECORD_TYPE (head @ ck_state c) = Inr w1"
    using emit_total [of RNG_CHECKPOINT_RECORD_TYPE "head @ ck_state c" w] by (auto simp: replay_consts)
  have "write_rng_checkpoint w (ck_tick c) (ck_stream_key c) (ck_state c) =
      Inr (w1\<lparr>rw_last_stream_key := Some (ck_stream_key c)\<rparr>)"
    using assms len h w1
    by (simp add: write_rng_checkpoint_def writer_ensure_open_def del: struct_pack.simps)
  then show ?thesis using emit_stream [OF w1] assms(1) by auto
qed

lemma write_checkpoints_total:
  assumes "\<not> rw_closed w" "rw_last_tick w = Some t" "list_all checkpoint_ok cks"
    and "\<forall>c \<in> set cks. ck_tick c = t" "sorted_wrt (<) (map ck_stream_key cks)"
    and "case rw_last_stream_key w of None \<Rightarrow> True | Some k \<Rightarrow> (\<forall>c \<in> set cks. k < ck_stream_key c)"
  shows "\<exists>w'. rfold (\<lambda>w ck. write_rng_checkpoint w (ck_tick ck) (ck_stream_key ck) (ck_state ck)) w cks = Inr w' \<and>
           \<not> rw_closed w' \<and> rw_last_tick w' = Some t"
  using assms
proof (induction cks arbitrary: w)
  case (Cons c cks)
  then obtain w1 where w1: "write_rng_checkpoint w (ck_tick c) (ck_stream_key c) (ck_state c) = Inr w1"
      "\<not> rw_closed w1" "rw_last_tick w1 = rw_last_tick w" "rw_last_stream_key w1 = Some (ck_stream_key c)"
    using write_rng_checkpoint_total [of w c] by (auto split: option.splits)
  show ?case using Cons.IH [of w1] Cons.prems w1 by auto
qed auto

lemma sorted_filter_tick:
  "sorted_wrt (<) (map ck_key cks) \<Longrightarrow> sorted_wrt (<) (map ck_stream_key (filter (\<lambda>c. ck_tick c = t) cks))"
proof (induction cks)
  case (Cons c cks)
  then show ?case by (auto simp: ck_key_def less_prod_def)
qed simp

lemma encode_ticks_total:
  assumes "\<not> rw_closed w" "list_all tick_ok trs" "sorted_wrt (<) (map tr_tick trs)"
    and "list_all checkpoint_ok cks" "sorted_wrt (<) (map ck_key cks)"
    and "case rw_last_tick w of None \<Rightarrow> True | Some l \<Rightarrow> (\<forall>tr \<in> set trs. l < tr_tick tr)"
  shows "\<exists>w'. rfold (encode_tick (checkpoints_by_tick cks)) w trs = Inr w' \<and> \<not> rw_closed w'"
  using assms
proof (induction trs arbitrary: w)
  case (Cons tr trs)
  then obtain w1 where w1: "write_tick w (tr_tick tr) (tr_events tr) = Inr w1" "\<not> rw_closed w1"
      "rw_last_tick w1 = Some (tr_tick tr)" "rw_last_stream_key w1 = None"
    using write_tick_total [of w tr] by (auto split: option.splits)
  let ?f = "filter (\<lambda>c. ck_tick c = tr_tick tr) cks"
  have f: "list_all checkpoint_ok ?f" "\<forall>c \<in> set ?f. ck_tick c = tr_tick tr"
    "case rw_last_stream_key w1 of None \<Rightarrow> True | Some k \<Rightarrow> (\<forall>c \<in> set ?f. k < ck_stream_key c)"
    using Cons.prems(4) w1(4) by (auto simp: list_all_iff)
  from write_checkpoints_total [OF w1(2,3) f(1,2) sorted_filter_tick [OF Cons.prems(5)] f(3)]
  obtain w2 where w2: "rfold (\<lambda>w ck. write_rng_checkpoint w (ck_tick ck) (ck_stream_key ck) (ck_state ck)) w1 ?f
      = Inr w2" "\<not> rw_closed w2" "rw_last_tick w2 = Some (tr_tick tr)" by blast
  have "\<exists>w'. rfold (encode_tick (checkpoints_by_tick cks)) w2 trs = Inr w' \<and> \<not> rw_closed w'"
    by (rule Cons.IH) (use Cons.prems w2 in auto)
  moreover have "encode_tick (checkpoints_by_tick cks) w tr = Inr w2"
    unfolding encode_tick_eq w1(1) rbind_Inr by (rule w2(1))
  ultimately show ?case by simp
qed auto

lemma write_expected_total:
  "\<not> rw_closed w \<Longrightarrow> list_all expected_ok es \<Longrightarrow>
   \<exists>w'. rfold (\<lambda>w e. write_expected_hash w (eh_tick e) (eh_hash e)) w es = Inr w'"
proof (induction es arbitrary: w)
  case (Cons e es)
  have "fits_all EXPECTED_HASH_FMT [eh_tick e, eh_hash e]"
    using Cons.prems by (simp add: expected_ok_def EXPECTED_HASH_FMT_def)
  then obtain b where b: "struct_pack Big EXPECTED_HASH_FMT [eh_tick e, eh_hash e] = Inr b"
    using struct_pack_total by blast
  obtain w1 where w1: "writer_emit w EXPECTED_HASH_RECORD_TYPE b = Inr w1"
    using emit_total [of EXPECTED_HASH_RECORD_TYPE b w] struct_pack_length [OF b]
    by (auto simp: replay_consts EXPECTED_HASH_FMT_def)
  have "write_expected_hash w (eh_tick e) (eh_hash e) = Inr w1"
    using b w1 Cons.prems by (simp add: write_expected_hash_def writer_ensure_open_def del: struct_pack.simps)
  then show ?case using Cons.IH [of w1] Cons.prems emit_keeps_closed [OF w1] by auto
qed simp

lemma concat_filter_ticks:
  assumes "sorted_wrt (<) (map tr_tick trs)" "sorted_wrt (<) (map ck_key cks)"
    and "ck_tick ` set cks \<subseteq> tr_tick ` set trs"
  shows "concat (map (\<lambda>tr. filter (\<lambda>c. ck_tick c = tr_tick tr) cks) trs) = cks"
  using assms
proof (induction trs arbitrary: cks)
  case Nil
  then show ?case by simp
next
  case (Cons tr trs)
  let ?a = "filter (\<lambda>c. ck_tick c = tr_tick tr) cks" and ?b = "filter (\<lambda>c. ck_tick c \<noteq> tr_tick tr) cks"
  have ge: "\<forall>c \<in> set cks. tr_tick tr \<le> ck_tick c" using Cons.prems by fastforce
  have split: "?a @ ?b = cks"
    using Cons.prems(2) ge
  proof (induction cks)
    case (Cons c cks)
    show ?case
    proof (cases "ck_tick c = tr_tick tr")
      case True
      then show ?thesis using Cons by simp
    next
      case False
      have "\<forall>c' \<in> set cks. ck_tick c' \<noteq> tr_tick tr"
        using Cons.prems False by (force simp: ck_key_def less_prod_def)
      then have "filter (\<lambda>c. ck_tick c = tr_tick tr) cks = []"
        "filter (\<lambda>c. ck_tick c \<noteq> tr_tick tr) cks = cks" by (auto simp: filter_empty_conv filter_id_conv)
      then show ?thesis using False by simp
    qed
  qed simp
  have sb: "sorted_wrt (<) (map ck_key ?b)"
    using Cons.prems(2) unfolding sorted_wrt_map by (rule sorted_wrt_filter)
  have "concat (map (\<lambda>tr. filter (\<lambda>c. ck_tick c = tr_tick tr) ?b) trs) = ?b"
    by (rule Cons.IH) (use Cons.prems sb in auto)
  moreover have "filter (\<lambda>c. ck_tick c = tr_tick u) ?b = filter (\<lambda>c. ck_tick c = tr_tick u) cks" if "u \<in> set trs" for u
    using Cons.prems(1) that by (auto intro!: filter_cong)
  ultimately have "concat (map (\<lambda>tr. filter (\<lambda>c. ck_tick c = tr_tick tr) cks) trs) = ?b"
    by (metis (no_types, lifting) map_cong)
  then show ?case using split by simp
qed

lemma canonical_document_wf:
  assumes "document_wf d"
  shows "canonical_document d = d\<lparr>rd_meta := map_option meta_sorted (rd_meta d)\<rparr>"
proof -
  have "map canonical_tick (rd_ticks d) = rd_ticks d"
    using assms by (intro map_idI)
      (auto simp: document_wf_def list_all_iff tick_ok_def canonical_tick_def TickRecord_def sort_events_id)
  moreover have "\<lparr>rh_tick_hz = rh_tick_hz (rd_header d), rh_flags = 0\<rparr> = rd_header d"
    using assms by (simp add: document_wf_def)
  moreover have "concat (map (\<lambda>tr. filter (\<lambda>c. ck_tick c = tr_tick tr) (rd_checkpoints d)) (rd_ticks d))
      = rd_checkpoints d"
    by (rule concat_filter_ticks) (use assms in \<open>auto simp: document_wf_def\<close>)
  ultimately show ?thesis by (simp add: canonical_document_def)
qed

text \<open>Lookups.\<close>

lemma map_of_distinct_iff: "distinct (map fst d) \<Longrightarrow> map_of d k = Some v \<longleftrightarrow> (k, v) \<in> set d"
  by (auto dest: map_of_SomeD)

lemma dict_eq_iff:
  assumes "distinct (map fst l)" "distinct (map fst r)"
  shows "dict_eq l r \<longleftrightarrow> set l = set r"
proof
  assume e: "dict_eq l r"
  then have sub: "set l \<subseteq> set r" using assms by (auto simp: dict_eq_def list_all_iff map_of_distinct_iff)
  have "card (set l) = card (set r)"
    using e assms by (simp add: dict_eq_def distinct_map distinct_card)
  with sub show "set l = set r" by (simp add: card_subset_eq)
next
  assume s: "set l = set r"
  then have "length l = length r" using assms by (metis distinct_card distinct_map)
  then show "dict_eq l r" using s assms by (auto simp: dict_eq_def list_all_iff map_of_distinct_iff)
qed

lemma diff_ticks_lookup:
  "diff_ticks l r = [] \<longleftrightarrow>
     (\<forall>k. map_option tr_events (map_of (dict_of_pairs (map (\<lambda>t. (tr_tick t, t)) l)) k) =
          map_option tr_events (map_of (dict_of_pairs (map (\<lambda>t. (tr_tick t, t)) r)) k))"
  (is "_ \<longleftrightarrow> (\<forall>k. map_option _ (map_of ?L k) = map_option _ (map_of ?R k))")
proof -
  let ?K = "set (map fst ?L) \<union> set (map fst ?R)"
  have out: "map_of ?L k = None \<and> map_of ?R k = None" if "k \<notin> ?K" for k
    using that by (simp add: map_of_eq_None_iff)
  have "diff_ticks l r = [] \<longleftrightarrow>
      (\<forall>k \<in> ?K. map_option tr_events (map_of ?L k) = map_option tr_events (map_of ?R k))"
  proof -
    have "(case map_of ?L k of None \<Rightarrow> [OnlyInRight k] | Some l \<Rightarrow>
        (case map_of ?R k of None \<Rightarrow> [OnlyInLeft k] | Some r \<Rightarrow>
          if tr_events l \<noteq> tr_events r
          then [EventsDiffer k (summarize (tr_events l)) (summarize (tr_events r))] else [])) = []
      \<longleftrightarrow> map_option tr_events (map_of ?L k) = map_option tr_events (map_of ?R k)" if "k \<in> ?K" for k
    proof -
      have "\<not> (map_of ?L k = None \<and> map_of ?R k = None)" using that by (auto simp: map_of_eq_None_iff)
      then show ?thesis by (cases "map_of ?L k"; cases "map_of ?R k") auto
    qed
    then show ?thesis unfolding diff_ticks_def Let_def by simp
  qed
  also have "\<dots> \<longleftrightarrow> (\<forall>k. map_option tr_events (map_of ?L k) = map_option tr_events (map_of ?R k))"
    using out by fastforce
  finally show ?thesis .
qed

lemma diff_ticks_Nil:
  fixes l r :: "tick_record list"
  assumes "sorted_wrt (<) (map tr_tick l)" "sorted_wrt (<) (map tr_tick r)"
  shows "diff_ticks l r = [] \<longleftrightarrow> l = r"
proof
  have d: "distinct (map tr_tick l)" "distinct (map tr_tick r)"
    using assms by (simp_all add: strict_sorted_iff)
  have get: "map_of (dict_of_pairs (map (\<lambda>t. (tr_tick t, t)) xs)) k = Some x \<longleftrightarrow> x \<in> set xs \<and> tr_tick x = k"
    if "distinct (map tr_tick xs)" for xs k and x :: tick_record
  proof -
    have dd: "distinct (map fst (map (\<lambda>t. (tr_tick t, t)) xs))" using that by (simp add: comp_def)
    show ?thesis unfolding dict_of_pairs_distinct [OF dd] map_of_distinct_iff [OF dd] by auto
  qed
  have sub: "set a \<subseteq> set b"
    if n: "\<forall>k. map_option tr_events (map_of (dict_of_pairs (map (\<lambda>t. (tr_tick t, t)) a)) k) =
          map_option tr_events (map_of (dict_of_pairs (map (\<lambda>t. (tr_tick t, t)) b)) k)"
    and da: "distinct (map tr_tick a)" and db: "distinct (map tr_tick b)" for a b :: "tick_record list"
  proof
    fix x assume x: "x \<in> set a"
    have "map_of (dict_of_pairs (map (\<lambda>t. (tr_tick t, t)) a)) (tr_tick x) = Some x" using x da by (simp add: get)
    then obtain y where y: "map_of (dict_of_pairs (map (\<lambda>t. (tr_tick t, t)) b)) (tr_tick x) = Some y"
      "tr_events y = tr_events x" using spec [OF n, of "tr_tick x"]
      by (cases "map_of (dict_of_pairs (map (\<lambda>t. (tr_tick t, t)) b)) (tr_tick x)") auto
    then have "y \<in> set b" "tr_tick y = tr_tick x" using db by (simp_all add: get)
    moreover have "y = x" using y(2) \<open>tr_tick y = tr_tick x\<close> by (intro tick_record.equality) auto
    ultimately show "x \<in> set b" by simp
  qed
  show "l = r" if "diff_ticks l r = []"
  proof -
    note n = that [unfolded diff_ticks_lookup]
    have s: "set l = set r" using sub [OF n d] sub [of r l] n d by auto
    have "inj_on tr_tick (set l \<union> set r)" using d s by (simp add: distinct_map)
    then show "l = r"
      using assms d s by (intro map_sorted_distinct_set_unique [of tr_tick]) (auto simp: strict_sorted_iff)
  qed
  show "diff_ticks l r = []" if "l = r" using that by (simp add: diff_ticks_lookup)
qed

lemma expectations_distinct:
  "distinct (map eh_tick es) \<Longrightarrow> expectations es = map (\<lambda>e. (eh_tick e, eh_hash e)) es"
  unfolding expectations_def by (rule dict_of_pairs_distinct) (simp add: comp_def)

lemma expectations_set_eq:
  fixes l r :: "expected_hash list"
  shows "set (map (\<lambda>e. (eh_tick e, eh_hash e)) l) = set (map (\<lambda>e. (eh_tick e, eh_hash e)) r) \<longleftrightarrow> set l = set r"
proof -
  have "inj (\<lambda>e :: expected_hash. (eh_tick e, eh_hash e))" by (auto simp: inj_def intro!: expected_hash.equality)
  then show ?thesis by (simp add: inj_image_eq_iff)
qed

lemma diff_documents_Nil:
  assumes "document_wf l" "document_wf r"
  shows "diff_documents feq l r = [] \<longleftrightarrow>
    rd_header l = rd_header r \<and> meta_eq feq (rd_meta l) (rd_meta r) \<and> rd_ticks l = rd_ticks r \<and>
    set (rd_expected l) = set (rd_expected r) \<and> rd_checkpoints l = rd_checkpoints r"
proof -
  have e: "dict_eq (expectations (rd_expected l)) (expectations (rd_expected r)) \<longleftrightarrow>
      set (rd_expected l) = set (rd_expected r)"
  proof -
    have "distinct (map eh_tick (rd_expected l))" "distinct (map eh_tick (rd_expected r))"
      using assms by (simp_all add: document_wf_def)
    then show ?thesis
      by (subst dict_eq_iff) (simp_all add: expectations_distinct comp_def expectations_set_eq [simplified])
  qed
  have t: "diff_ticks (rd_ticks l) (rd_ticks r) = [] \<longleftrightarrow> rd_ticks l = rd_ticks r"
    using assms by (intro diff_ticks_Nil) (simp_all add: document_wf_def)
  show ?thesis unfolding diff_documents_def append_is_Nil_conv e t by auto
qed

subsection \<open>META on the wire is ASCII\<close>

lemma pytext_ascii: "list_all is_dec_digit s \<Longrightarrow> \<forall>c \<in> set (pytext s). c < 128"
  using is_digit_pytext [of s] by (fastforce simp: is_digit_def)

lemma hex4_ascii: "c \<in> set (hex4 n) \<Longrightarrow> c < 128"
  by (auto simp: hex4_def pytext_def hex_fixed_ascii)

lemma json_escape_ascii: "x \<in> set (json_escape c) \<Longrightarrow> x < 128"
  by (auto simp: json_escape_def dest: hex4_ascii split: if_splits)

lemma json_string_ascii: "x \<in> set (json_string s) \<Longrightarrow> x < 128"
  by (auto simp: json_string_def dest: json_escape_ascii)

lemma int_str_ascii: "x \<in> set (pytext (int_str i)) \<Longrightarrow> x < 128"
  using pytext_ascii [OF dec_digits_are_digits]
  by (auto simp: int_str_def pytext_def split: if_splits)

lemma json_join_set: "set (json_join xs) \<subseteq> {44, 32} \<union> \<Union> (set ` set xs)"
  by (induction xs rule: json_join.induct) auto

lemma json_text_ascii: "json_ok j \<Longrightarrow> x \<in> set (json_text j) \<Longrightarrow> x < 128"
proof (induction j arbitrary: x)
  case (JBool b)
  then show ?case by (cases b) (auto simp: pytext_def)
next
  case (JList js)
  have "x \<in> {91, 93, 44, 32} \<union> \<Union> (set ` set (map json_text js))"
    using JList.prems(2) json_join_set [of "map json_text js"] by auto
  then consider "x \<in> {91, 93, 44, 32}" | j where "j \<in> set js" "x \<in> set (json_text j)" by auto
  then show ?case
  proof cases
    case 2
    then show ?thesis using JList.IH [OF 2(1) _ 2(2)] JList.prems(1) by (simp add: list_all_iff)
  qed auto
next
  case (JObj kvs)
  let ?f = "\<lambda>(k, j). json_string k @ [58, 32] @ json_text j"
  have "x \<in> {123, 125, 44, 32} \<union> \<Union> (set ` set (map ?f kvs))"
    using JObj.prems(2) json_join_set [of "map ?f kvs"] unfolding json_text_Obj by auto
  then consider "x \<in> {123, 125, 44, 32, 58}" | k j where "(k, j) \<in> set kvs" "x \<in> set (json_string k)"
    | k j where "(k, j) \<in> set kvs" "x \<in> set (json_text j)" by fastforce
  then show ?case
  proof cases
    case 2
    then show ?thesis by (simp add: json_string_ascii)
  next
    case (3 k j)
    have "json_ok j" using JObj.prems(1) 3(1) unfolding json_ok_Obj by auto
    then show ?thesis using JObj.IH [OF 3(1), of j] 3(2) by simp
  qed auto
qed (auto simp: pytext_def int_str_ascii dest: json_string_ascii int_str_ascii)

lemma utf8_encode_ascii_length: "\<forall>c \<in> set s. c < 128 \<Longrightarrow> \<exists>b. utf8_encode s = Inr b \<and> length b = length s"
proof -
  assume a: "\<forall>c \<in> set s. c < 128"
  have "list_all scalar_value s" using a by (auto simp: list_all_iff scalar_value_def)
  moreover have "length (concat (map utf8_char s)) = length s"
    using a by (induction s) (auto simp: utf8_char_def)
  ultimately show ?thesis by (simp add: utf8_encode_def list_all_iff)
qed

definition meta_fits :: "(pystr, json) dict option \<Rightarrow> bool" where
  "meta_fits m = (case m of None \<Rightarrow> True | Some kvs \<Rightarrow> length (json_text (json_sorted (JObj kvs))) < 2 ^ 32)"

lemma write_meta_total:
  assumes "\<not> rw_closed w" "\<not> rw_meta_written w" "rw_last_tick w = None"
    and "meta_ok (Some kvs)" "meta_fits (Some kvs)"
  shows "\<exists>w'. write_meta w kvs = Inr w' \<and> \<not> rw_closed w' \<and> rw_last_tick w' = None"
proof -
  have ok: "json_ok (JObj kvs)" using assms(4) by (simp add: meta_ok_def del: json_ok.simps)
  obtain b where b: "utf8_encode (json_text (json_sorted (JObj kvs))) = Inr b"
      "length b = length (json_text (json_sorted (JObj kvs)))"
    using utf8_encode_ascii_length json_text_ascii [OF json_ok_sorted [OF ok]] by blast
  have d: "json_dumps (JObj kvs) = Inr (json_text (json_sorted (JObj kvs)))"
    unfolding json_dumps_def using json_ok_ints [OF ok] by simp
  obtain w1 where w1: "writer_emit w META_RECORD_TYPE b = Inr w1"
    using emit_total [of META_RECORD_TYPE b w] b(2) assms(5)
    by (auto simp: replay_consts meta_fits_def simp del: json_text.simps json_sorted.simps)
  have r: "rp_json (Inr s) = Inr s" "rp_text (Inr c) = Inr c" for s :: pystr and c :: bytes
    by simp_all
  have "write_meta w kvs = Inr (w1\<lparr>rw_meta_written := True\<rparr>)"
    unfolding write_meta_def d r b(1) rbind_Inr w1
    using assms(1-3) by (simp add: writer_ensure_open_def)
  then show ?thesis using emit_stream [OF w1] assms(1,3) by auto
qed

lemma encode_document_total:
  assumes "document_wf d" "meta_ok (rd_meta d)" "meta_fits (rd_meta d)"
  shows "\<exists>b. encode_document d = Inr b"
proof -
  let ?hz = "rh_tick_hz (rd_header d)"
  have "fits_all HEADER_TAIL_FMT [FORMAT_VERSION, int HEADER_SIZE, ?hz, 0]"
    using assms(1) by (simp add: document_wf_def HEADER_TAIL_FMT_def replay_consts fmt_fits_def)
  then obtain w0 where w0: "replay_writer_init ?hz = Inr w0"
      "\<not> rw_closed w0" "\<not> rw_meta_written w0" "rw_last_tick w0 = None"
    using assms(1)
    by (auto simp: replay_writer_init_def document_wf_def struct_pack_fits simp del: struct_pack.simps)
  obtain w1 where w1: "(case rd_meta d of None \<Rightarrow> Inr w0 | Some meta \<Rightarrow> write_meta w0 meta) = Inr w1"
      "\<not> rw_closed w1" "rw_last_tick w1 = None"
  proof (cases "rd_meta d")
    case None
    then show ?thesis using that [of w0] w0 by simp
  next
    case (Some m)
    then show ?thesis using that write_meta_total [OF w0(2-4), of m] assms(2,3) by auto
  qed
  obtain w2 where w2: "rfold (encode_tick (checkpoints_by_tick (rd_checkpoints d))) w1 (rd_ticks d) = Inr w2"
      "\<not> rw_closed w2"
    using encode_ticks_total [of w1 "rd_ticks d" "rd_checkpoints d"] w1 assms(1)
    unfolding document_wf_def by auto
  obtain w3 where w3: "rfold (\<lambda>w e. write_expected_hash w (eh_tick e) (eh_hash e)) w2 (rd_expected d) = Inr w3"
    using write_expected_total [OF w2(2)] assms(1) unfolding document_wf_def by blast
  have "filter (\<lambda>t. t \<notin> set (map tr_tick (rd_ticks d))) (map fst (checkpoints_by_tick (rd_checkpoints d))) = []"
  proof -
    have "fst ` set (checkpoints_by_tick (rd_checkpoints d)) = ck_tick ` set (rd_checkpoints d)"
      unfolding dom_map_of_conv_image_fst [symmetric]
      by (auto simp: dom_def map_of_checkpoints_by_tick)
    then show ?thesis using assms(1) by (auto simp: document_wf_def filter_empty_conv)
  qed
  then show ?thesis using w0(1) w1(1) w2(1) w3 by (simp add: encode_document_def)
qed

lemma json_eq_sorted: "json_ok j \<Longrightarrow> json_eq feq j (json_sorted j)"
proof (induction j)
  case (JList js)
  have "json_eq feq v w" if "(v, w) \<in> set (zip js (map json_sorted js))" for v w
  proof -
    have "v \<in> set js" "w = json_sorted v" using that by (auto simp: set_zip)
    then show ?thesis using JList by (simp add: list_all_iff)
  qed
  then show ?case by auto
next
  case (JObj kvs)
  let ?s = "sort_key fst (map (map_prod id json_sorted) kvs)"
  have d: "distinct (map fst kvs)" using JObj.prems by simp
  have "map fst (map (map_prod id json_sorted) kvs) = map fst kvs" by simp
  then have ds: "distinct (map fst ?s)"
    by (metis d mset_eq_imp_distinct_iff mset_map mset_sort)
  have "case map_of ?s k of None \<Rightarrow> False | Some w \<Rightarrow> json_eq feq v w" if kv: "(k, v) \<in> set kvs" for k v
  proof -
    have "(k, json_sorted v) \<in> set ?s" using kv by force
    then have "map_of ?s k = Some (json_sorted v)" using ds by (simp add: map_of_distinct_iff)
    moreover have "json_ok v" using JObj.prems kv unfolding json_ok_Obj by auto
    ultimately show ?thesis using JObj.IH [OF kv, of v] by simp
  qed
  then show ?case by auto
qed (auto simp: json_num_eq_def)

lemma meta_eq_sorted: "meta_ok m \<Longrightarrow> meta_eq feq m (map_option meta_sorted m)"
proof (cases m)
  case (Some kvs)
  assume "meta_ok m"
  then show ?thesis using json_eq_sorted [of "JObj kvs" feq] Some
    by (simp add: meta_ok_def meta_eq_def meta_sorted_def del: json_eq.simps json_ok.simps)
qed (simp add: meta_eq_def)

subsection \<open>Properties\<close>

definition demo_document :: replay_document where
  "demo_document =
     \<lparr>rd_header = \<lparr>rh_tick_hz = 60, rh_flags = 0\<rparr>,
      rd_meta = Some [([98], JInt 2), ([97], JStr [120])],
      rd_ticks =
        [TickRecord 1 [SpawnEvent 7 65536 0 (- 5) 0 0 0 1, DespawnEvent 9],
         TickRecord 4 [MoveEvent 7 3 (- 1) 1 0 0]],
      rd_expected = [ExpectedHash 4 99, ExpectedHash 1 98],
      rd_checkpoints = [\<lparr>ck_tick = 4, ck_stream_key = 0, ck_state = replicate 40 0\<rparr>]\<rparr>"

lemma demo_document_ok:
  "document_wf demo_document" "meta_ok (rd_meta demo_document)" "meta_fits (rd_meta demo_document)"
proof -
  show "document_wf demo_document"
    by (simp add: demo_document_def document_wf_def tick_ok_def event_ok_def expected_ok_def checkpoint_ok_def
        TickRecord_def ExpectedHash_def ck_key_def replay_consts replay_fmts fmt_fits_def)
  show "meta_ok (rd_meta demo_document)"
    by (simp add: demo_document_def meta_ok_def scalar_value_def int_digits_ok_def INT_MAX_STR_DIGITS_def dec_digits.simps [of 2])
  show "meta_fits (rd_meta demo_document)"
    by (simp add: demo_document_def meta_fits_def insort_key_def int_str_def pytext_def json_string_def
        json_escape_def dec_digits.simps [of 2])
qed



text \<open>C28: every byte string the reader accepts describes a well-formed document: a positive tick rate
  and no header flags, strictly ascending ticks, canonically ordered events whose fields are within
  their wire ranges, at most one expectation per tick, and checkpoints of 40-byte states in ascending
  order of tick and stream key, each for a tick of the document.\<close>

theorem read_document_accepts_wf:
  assumes "read_document data = Inr d"
  shows "document_wf d"
  by (rule read_document_document_wf [OF assms])

theorem read_document_accepts_wf_witness:
  "\<exists>b d. read_document b = Inr d \<and> document_wf d"
proof -
  obtain b where b: "encode_document demo_document = Inr b"
    using encode_document_total [OF demo_document_ok] by blast
  have "distinct (map eh_tick (rd_expected demo_document))"
    by (simp add: demo_document_def ExpectedHash_def)
  then have "read_document b = Inr (canonical_document demo_document)"
    using encode_read [OF b demo_document_ok(2)] by simp
  from read_document_accepts_wf [OF this] this show ?thesis by blast
qed

text \<open>a record that was read can always be written again, and nothing is lost: for a META without
  floats that fits a record, \<open>encode_document\<close> of what \<open>read_document\<close> returned succeeds, reading the
  new bytes gives the same document up to the order of META's keys, and \<open>diff_documents\<close> reports no
  difference between the two.\<close>

theorem reencode_read_document:
  assumes "read_document data = Inr d" and "meta_ok (rd_meta d)" and "meta_fits (rd_meta d)"
  shows "\<exists>b d'. encode_document d = Inr b \<and> read_document b = Inr d' \<and>
           d' = d\<lparr>rd_meta := map_option meta_sorted (rd_meta d)\<rparr> \<and> diff_documents feq d d' = []"
proof -
  have wf: "document_wf d" by (rule read_document_document_wf [OF assms(1)])
  obtain b where b: "encode_document d = Inr b"
    using encode_document_total [OF wf assms(2,3)] by blast
  let ?d = "d\<lparr>rd_meta := map_option meta_sorted (rd_meta d)\<rparr>"
  have r: "read_document b = Inr ?d"
    using encode_read [OF b assms(2)] wf by (simp add: canonical_document_wf document_wf_def)
  have "diff_documents feq d ?d = []"
    using meta_eq_sorted [OF assms(2)] read_document_document_wf [OF r]
    by (simp add: diff_documents_Nil [OF wf])
  then show ?thesis using b r by blast
qed

theorem reencode_read_document_witness:
  "\<exists>data d b d'. read_document data = Inr d \<and> encode_document d = Inr b \<and> read_document b = Inr d' \<and>
     diff_documents (\<lambda>_ _. False) d d' = []"
proof -
  obtain b where b: "encode_document demo_document = Inr b"
    using encode_document_total [OF demo_document_ok] by blast
  have "distinct (map eh_tick (rd_expected demo_document))"
    by (simp add: demo_document_def ExpectedHash_def)
  then have r: "read_document b = Inr (canonical_document demo_document)"
    using encode_read [OF b demo_document_ok(2)] by simp
  have m: "rd_meta (canonical_document demo_document) = Some [([97], JStr [120]), ([98], JInt 2)]"
    by (simp add: canonical_document_def demo_document_def meta_sorted_def insort_key_def)
  have "meta_ok (rd_meta (canonical_document demo_document))"
    unfolding m by (simp add: meta_ok_def scalar_value_def int_digits_ok_def INT_MAX_STR_DIGITS_def dec_digits.simps [of 2])
  moreover have "meta_fits (rd_meta (canonical_document demo_document))"
    unfolding m by (simp add: meta_fits_def insort_key_def int_str_def pytext_def json_string_def json_escape_def
        dec_digits.simps [of 2])
  ultimately show ?thesis using reencode_read_document [OF r, of "\<lambda>_ _. False"] r by blast
qed

text \<open>the differ is exact on documents the reader can return: it reports nothing if and only if the
  two documents have the same header, equal META, the same tick records, the same set of expectations
  and the same checkpoints.\<close>

theorem diff_documents_exact:
  assumes "document_wf l" "document_wf r"
  shows "diff_documents feq l r = [] \<longleftrightarrow>
    rd_header l = rd_header r \<and> meta_eq feq (rd_meta l) (rd_meta r) \<and> rd_ticks l = rd_ticks r \<and>
    set (rd_expected l) = set (rd_expected r) \<and> rd_checkpoints l = rd_checkpoints r"
  by (rule diff_documents_Nil [OF assms])

theorem diff_documents_exact_witness:
  "diff_documents (\<lambda>_ _. False) demo_document
     (demo_document\<lparr>rd_expected := rev (rd_expected demo_document)\<rparr>) = []"
proof -
  have wf: "document_wf (demo_document\<lparr>rd_expected := rev (rd_expected demo_document)\<rparr>)"
    using demo_document_ok(1) by (simp add: document_wf_def rev_map [symmetric])
  have "meta_eq (\<lambda>_ _. False) (rd_meta demo_document) (rd_meta demo_document)"
    by (simp add: demo_document_def meta_eq_def json_num_eq_def)
  then show ?thesis
    using diff_documents_exact [OF demo_document_ok(1) wf] by simp
qed

end
