(* ===== verification/ReplayRecorder.thy ===== *)
theory ReplayRecorder
  imports ReplayDocs
begin

text \<open>
  \<open>src/examples/_common/replay_recorder.py\<close>: the recorder buffers events and drains them at tick
  boundaries through a \<open>ReplayWriter\<close>. Every method runs under one lock, so an interleaving of the
  calling threads is a sequence of calls, and a run of the recorder is a list of \<open>recorder_op\<close>s.

  A method that raises may already have changed the recorder (the buffer is cleared before the tick
  is written, the tick is written before the provider is asked), so each method returns the exception,
  if any, together with the recorder. \<open>rc_flushed\<close> is what the stream's last \<open>flush()\<close> made durable.
  The RNG provider is a caller's function: what it does at one call is an argument of the drain.

  The locale \<open>tick_sink\<close> is the contract the drain needs of a writer; \<open>replay_sink\<close> interprets it
  with the writer of \<open>ReplayFormat\<close>.
\<close>

datatype provider_call = NoProvider | ProviderReturns bytes | ProviderRaises

datatype recorder_exc = RecorderError replay_exc | ProviderException

definition DEFAULT_STREAM_KEY :: int where "DEFAULT_STREAM_KEY = 0"

record replay_recorder =
  rc_writer :: replay_writer
  rc_pending :: "replay_event list"
  rc_closed :: bool
  rc_flushed :: bytes

definition recorder_init :: "int \<Rightarrow> replay_exc + replay_recorder" where
  "recorder_init tick_hz =
     rbind (replay_writer_init tick_hz) (\<lambda>w.
     Inr \<lparr>rc_writer = w, rc_pending = [], rc_closed = False, rc_flushed = []\<rparr>)"

definition recorder_ensure_open :: "replay_recorder \<Rightarrow> replay_exc + unit" where
  "recorder_ensure_open rc = rguard (\<not> rc_closed rc) (ReplayValueError RecorderClosed)"

definition stream_flush :: "replay_recorder \<Rightarrow> replay_recorder" where
  "stream_flush rc = rc\<lparr>rc_flushed := rw_stream (rc_writer rc)\<rparr>"

definition recorder_write_meta ::
  "replay_recorder \<Rightarrow> (pystr, json) dict \<Rightarrow> recorder_exc option \<times> replay_recorder" where
  "recorder_write_meta rc meta =
     (case rbind (recorder_ensure_open rc) (\<lambda>_. write_meta (rc_writer rc) meta) of
        Inl e \<Rightarrow> (Some (RecorderError e), rc)
      | Inr w \<Rightarrow> (None, stream_flush (rc\<lparr>rc_writer := w\<rparr>)))"

definition recorder_record :: "replay_recorder \<Rightarrow> replay_event \<Rightarrow> replay_recorder" where
  "recorder_record rc event =
     (if rc_closed rc then rc else rc\<lparr>rc_pending := rc_pending rc @ [event]\<rparr>)"

text \<open>The body of the drain over the writer's two operations: the tick record, then the checkpoint.\<close>

definition drain ::
  "('w \<Rightarrow> int \<Rightarrow> replay_event list \<Rightarrow> replay_exc + 'w) \<Rightarrow>
   ('w \<Rightarrow> int \<Rightarrow> int \<Rightarrow> bytes \<Rightarrow> replay_exc + 'w) \<Rightarrow>
   'w \<Rightarrow> int \<Rightarrow> replay_event list \<Rightarrow> provider_call \<Rightarrow> recorder_exc option \<times> 'w" where
  "drain wt wc w tick events provider =
     (case wt w tick events of
        Inl e \<Rightarrow> (Some (RecorderError e), w)
      | Inr w1 \<Rightarrow>
          (case provider of
             NoProvider \<Rightarrow> (None, w1)
           | ProviderRaises \<Rightarrow> (Some ProviderException, w1)
           | ProviderReturns state \<Rightarrow>
               if length state \<noteq> RNG_STATE_SIZE
               then (Some (RecorderError (ReplayValueError ProviderStateLength)), w1)
               else (case wc w1 tick DEFAULT_STREAM_KEY state of
                       Inl e \<Rightarrow> (Some (RecorderError e), w1)
                     | Inr w2 \<Rightarrow> (None, w2))))"

definition flush_tick ::
  "replay_recorder \<Rightarrow> int \<Rightarrow> provider_call \<Rightarrow> recorder_exc option \<times> replay_recorder" where
  "flush_tick rc tick provider =
     (if rc_closed rc then (None, rc)
      else let events = sort_key canonical_event_key (rc_pending rc);
               rc1 = rc\<lparr>rc_pending := []\<rparr>
           in if events = [] then (None, rc1)
              else (case drain write_tick write_rng_checkpoint (rc_writer rc1) tick events provider of
                      (Some e, w) \<Rightarrow> (Some e, rc1\<lparr>rc_writer := w\<rparr>)
                    | (None, w) \<Rightarrow> (None, stream_flush (rc1\<lparr>rc_writer := w\<rparr>))))"

definition recorder_close :: "replay_recorder \<Rightarrow> replay_recorder" where
  "recorder_close rc =
     (if rc_closed rc then rc
      else rc\<lparr>rc_closed := True, rc_pending := [], rc_writer := writer_close (rc_writer rc)\<rparr>)"

subsection \<open>Runs\<close>

datatype recorder_op =
    OpMeta "(pystr, json) dict"
  | OpRecord replay_event
  | OpFlush int provider_call
  | OpClose

fun recorder_step :: "replay_recorder \<Rightarrow> recorder_op \<Rightarrow> replay_recorder" where
  "recorder_step rc (OpMeta meta) = snd (recorder_write_meta rc meta)"
| "recorder_step rc (OpRecord event) = recorder_record rc event"
| "recorder_step rc (OpFlush tick provider) = snd (flush_tick rc tick provider)"
| "recorder_step rc OpClose = recorder_close rc"

definition recorder_run :: "replay_recorder \<Rightarrow> recorder_op list \<Rightarrow> replay_recorder" where
  "recorder_run rc ops = foldl recorder_step rc ops"

subsection \<open>What a recording should hold\<close>

text \<open>The specification keeps the logical document, the events since the last boundary and whether the
  recording has ended; it knows nothing of bytes.\<close>

record recording =
  rg_doc :: read_state
  rg_pending :: "replay_event list"
  rg_closed :: bool

definition last_tick_of :: "read_state \<Rightarrow> int option" where
  "last_tick_of st = (if rs_ticks st = [] then None else Some (tr_tick (last (rs_ticks st))))"

definition accepts_tick :: "read_state \<Rightarrow> int \<Rightarrow> replay_event list \<Rightarrow> bool" where
  "accepts_tick st t es \<longleftrightarrow>
     (case last_tick_of st of None \<Rightarrow> True | Some l \<Rightarrow> l < t) \<and> tick_ok (TickRecord t (sort_events es))"

definition add_tick :: "read_state \<Rightarrow> int \<Rightarrow> replay_event list \<Rightarrow> read_state" where
  "add_tick st t es = st\<lparr>rs_ticks := rs_ticks st @ [TickRecord t (sort_events es)]\<rparr>"

definition add_checkpoint :: "read_state \<Rightarrow> int \<Rightarrow> int \<Rightarrow> bytes \<Rightarrow> read_state" where
  "add_checkpoint st t k s =
     st\<lparr>rs_checkpoints := rs_checkpoints st @ [\<lparr>ck_tick = t, ck_stream_key = k, ck_state = s\<rparr>]\<rparr>"

definition drained :: "read_state \<Rightarrow> int \<Rightarrow> replay_event list \<Rightarrow> provider_call \<Rightarrow> read_state" where
  "drained st t es provider =
     (if \<not> accepts_tick st t es then st
      else case provider of
             ProviderReturns s \<Rightarrow>
               if length s = RNG_STATE_SIZE then add_checkpoint (add_tick st t es) t DEFAULT_STREAM_KEY s
               else add_tick st t es
           | _ \<Rightarrow> add_tick st t es)"

fun recording_step :: "recording \<Rightarrow> recorder_op \<Rightarrow> recording" where
  "recording_step rg (OpMeta meta) =
     (if rg_closed rg \<or> rs_meta (rg_doc rg) \<noteq> None \<or> rs_ticks (rg_doc rg) \<noteq> [] then rg
      else rg\<lparr>rg_doc := (rg_doc rg)\<lparr>rs_meta := Some (meta_sorted meta)\<rparr>\<rparr>)"
| "recording_step rg (OpRecord event) =
     (if rg_closed rg then rg else rg\<lparr>rg_pending := rg_pending rg @ [event]\<rparr>)"
| "recording_step rg (OpFlush tick provider) =
     (if rg_closed rg then rg
      else if rg_pending rg = [] then rg
      else rg\<lparr>rg_pending := [], rg_doc := drained (rg_doc rg) tick (rg_pending rg) provider\<rparr>)"
| "recording_step rg OpClose = (if rg_closed rg then rg else rg\<lparr>rg_closed := True, rg_pending := []\<rparr>)"

definition recording_start :: recording where
  "recording_start = \<lparr>rg_doc = read_start, rg_pending = [], rg_closed = False\<rparr>"

definition recording_run :: "recording \<Rightarrow> recorder_op list \<Rightarrow> recording" where
  "recording_run rg ops = foldl recording_step rg ops"

subsection \<open>The contract of a writer\<close>

locale tick_sink =
  fixes wt :: "'w \<Rightarrow> int \<Rightarrow> replay_event list \<Rightarrow> replay_exc + 'w"
    and wc :: "'w \<Rightarrow> int \<Rightarrow> int \<Rightarrow> bytes \<Rightarrow> replay_exc + 'w"
    and inv :: "'w \<Rightarrow> read_state \<Rightarrow> bool"
  assumes wt_accepts: "inv w st \<Longrightarrow> accepts_tick st t es \<Longrightarrow>
      \<exists>w'. wt w t es = Inr w' \<and> inv w' (add_tick st t es)"
    and wt_refuses: "inv w st \<Longrightarrow> \<not> accepts_tick st t es \<Longrightarrow> \<exists>e. wt w t es = Inl e"
    and wc_after_tick: "inv w st \<Longrightarrow> wt w t es = Inr w1 \<Longrightarrow>
      length s = RNG_STATE_SIZE \<Longrightarrow> fmt_fits FQ k \<Longrightarrow>
      \<exists>w'. wc w1 t k s = Inr w' \<and> inv w' (add_checkpoint (add_tick st t es) t k s)"
begin

lemma drain_drained:
  assumes "inv w st" and "drain wt wc w t es p = (e, w')"
  shows "inv w' (drained st t es p)"
    and "e = None \<longleftrightarrow> accepts_tick st t es \<and>
           (case p of NoProvider \<Rightarrow> True | ProviderReturns s \<Rightarrow> length s = RNG_STATE_SIZE | ProviderRaises \<Rightarrow> False)"
proof -
  have "inv w' (drained st t es p) \<and> (e = None \<longleftrightarrow> accepts_tick st t es \<and>
      (case p of NoProvider \<Rightarrow> True | ProviderReturns s \<Rightarrow> length s = RNG_STATE_SIZE | ProviderRaises \<Rightarrow> False))"
  proof (cases "accepts_tick st t es")
    case False
    then obtain x where "wt w t es = Inl x" using wt_refuses [OF assms(1)] by blast
    then show ?thesis using assms False by (auto simp: drain_def drained_def)
  next
    case True
    then obtain w1 where w1: "wt w t es = Inr w1" "inv w1 (add_tick st t es)"
      using wt_accepts [OF assms(1)] by blast
    show ?thesis
    proof (cases p)
      case (ProviderReturns s)
      show ?thesis
      proof (cases "length s = RNG_STATE_SIZE")
        case len: True
        have "fmt_fits FQ DEFAULT_STREAM_KEY" by (simp add: DEFAULT_STREAM_KEY_def fmt_fits_def)
        then obtain w2 where "wc w1 t DEFAULT_STREAM_KEY s = Inr w2"
          "inv w2 (add_checkpoint (add_tick st t es) t DEFAULT_STREAM_KEY s)"
          using wc_after_tick [OF assms(1) w1(1) len] by blast
        then show ?thesis using assms(2) w1 True len ProviderReturns by (auto simp: drain_def drained_def)
      qed (use assms(2) w1 True ProviderReturns in \<open>auto simp: drain_def drained_def\<close>)
    qed (use assms(2) w1 True in \<open>auto simp: drain_def drained_def\<close>)
  qed
  then show "inv w' (drained st t es p)" and "e = None \<longleftrightarrow> accepts_tick st t es \<and>
      (case p of NoProvider \<Rightarrow> True | ProviderReturns s \<Rightarrow> length s = RNG_STATE_SIZE | ProviderRaises \<Rightarrow> False)"
    by simp_all
qed

end

subsection \<open>The replay writer meets the contract\<close>

lemma sort_events_idem [simp]: "sort_events (sort_events es) = sort_events es"
  by (simp add: sort_events_def sort_key_idem)

lemma write_tick_sorted: "write_tick w t (sort_events es) = write_tick w t es"
  by (simp add: write_tick_def)

lemma writer_inv_state_wf: "writer_inv hz w st \<Longrightarrow> state_wf st"
  unfolding writer_inv_def
  by (elim conjE, erule read_records_wf) (simp add: state_wf_def read_start_def)

lemma writer_last_tick: "writer_inv hz w st \<Longrightarrow> rw_last_tick w = last_tick_of st"
  by (simp add: writer_inv_def last_tick_of_def)

lemma write_tick_accepts:
  assumes "writer_inv hz w st" "\<not> rw_closed w" "accepts_tick st t es"
  shows "\<exists>w'. write_tick w t es = Inr w' \<and> writer_inv hz w' (add_tick st t es) \<and> \<not> rw_closed w' \<and>
           rw_last_tick w' = Some t \<and> rw_last_stream_key w' = None"
proof -
  let ?tr = "TickRecord t (sort_events es)"
  have f: "tr_tick ?tr = t" "tr_events ?tr = sort_events es" by (simp_all add: TickRecord_def)
  have g: "case rw_last_tick w of None \<Rightarrow> True | Some l \<Rightarrow> l < tr_tick ?tr" "tick_ok ?tr"
    using assms(3) unfolding accepts_tick_def writer_last_tick [OF assms(1)] f by simp_all
  obtain w' where w': "write_tick w t es = Inr w'" "\<not> rw_closed w'" "rw_last_tick w' = Some t"
      "rw_last_stream_key w' = None"
    using write_tick_total [OF assms(2) g] unfolding f write_tick_sorted by blast
  then show ?thesis using write_tick_inv [OF assms(1) w'(1)] by (simp add: add_tick_def)
qed

lemma write_tick_accepted:
  assumes "writer_inv hz w st" "write_tick w t es = Inr w'"
  shows "accepts_tick st t es"
proof -
  have "state_wf (st\<lparr>rs_ticks := rs_ticks st @ [TickRecord t (sort_events es)]\<rparr>)"
    by (rule writer_inv_state_wf [OF write_tick_inv [OF assms]])
  then have "tick_ok (TickRecord t (sort_events es))" by (simp add: state_wf_def)
  moreover have "case rw_last_tick w of None \<Rightarrow> True | Some l \<Rightarrow> l < t"
    using assms(2) by (auto simp: write_tick_def rbind_eq_Inr)
  ultimately show ?thesis by (simp add: accepts_tick_def writer_last_tick [OF assms(1)])
qed

interpretation replay_sink: tick_sink write_tick write_rng_checkpoint
  "\<lambda>w st. writer_inv hz w st \<and> \<not> rw_closed w" for hz
proof (unfold_locales, goal_cases)
  case (1 w st t es)
  then show ?case using write_tick_accepts [of hz w st t es] by blast
next
  case (2 w st t es)
  then show ?case using write_tick_accepted [of hz w st t es] by (cases "write_tick w t es") auto
next
  case (3 w st t es w1 s k)
  then have inv: "writer_inv hz w st" "\<not> rw_closed w" and w1: "write_tick w t es = Inr w1" by auto
  from write_tick_accepts [OF inv write_tick_accepted [OF inv(1) w1]] w1
  have t: "writer_inv hz w1 (add_tick st t es)" "\<not> rw_closed w1" "rw_last_tick w1 = Some t"
    "rw_last_stream_key w1 = None" by auto
  have "tick_ok (TickRecord t (sort_events es))"
    using write_tick_accepted [OF inv(1) w1] by (simp add: accepts_tick_def)
  then have ok: "checkpoint_ok \<lparr>ck_tick = t, ck_stream_key = k, ck_state = s\<rparr>"
    using 3 by (simp add: checkpoint_ok_def tick_ok_def TickRecord_def)
  obtain w2 where w2: "write_rng_checkpoint w1 t k s = Inr w2" "\<not> rw_closed w2"
    using write_rng_checkpoint_total [of w1 "\<lparr>ck_tick = t, ck_stream_key = k, ck_state = s\<rparr>"] t ok by auto
  then show ?case using write_rng_checkpoint_inv [OF t(1) w2(1)] by (simp add: add_checkpoint_def)
qed

subsection \<open>Simulation\<close>

definition recorder_rel :: "int \<Rightarrow> replay_recorder \<Rightarrow> recording \<Rightarrow> bool" where
  "recorder_rel hz rc rg \<longleftrightarrow>
     writer_inv hz (rc_writer rc) (rg_doc rg) \<and> rc_pending rc = rg_pending rg \<and>
     rc_closed rc = rg_closed rg \<and> rw_closed (rc_writer rc) = rc_closed rc"

fun op_ok :: "recorder_op \<Rightarrow> bool" where
  "op_ok (OpMeta meta) = (meta_ok (Some meta) \<and> meta_fits (Some meta))"
| "op_ok _ = True"

lemma sort_pending: "accepts_tick st t (sort_key canonical_event_key es) = accepts_tick st t es"
  "add_tick st t (sort_key canonical_event_key es) = add_tick st t es"
  "drained st t (sort_key canonical_event_key es) p = drained st t es p"
proof -
  have "sort_events (sort_key canonical_event_key es) = sort_events es"
    by (simp add: sort_events_def sort_key_idem)
  then show "accepts_tick st t (sort_key canonical_event_key es) = accepts_tick st t es"
    "add_tick st t (sort_key canonical_event_key es) = add_tick st t es"
    "drained st t (sort_key canonical_event_key es) p = drained st t es p"
    by (simp_all add: accepts_tick_def add_tick_def drained_def split: provider_call.splits)
qed

lemma sort_key_Nil_iff [simp]: "sort_key f xs = [] \<longleftrightarrow> xs = []"
  by (metis length_0_conv length_sort)

lemma flush_rel:
  assumes "recorder_rel hz rc rg"
  shows "recorder_rel hz (snd (flush_tick rc t p)) (recording_step rg (OpFlush t p))"
proof (cases "rc_closed rc \<or> rc_pending rc = []")
  case True
  then show ?thesis using assms by (auto simp: recorder_rel_def flush_tick_def)
next
  case False
  let ?es = "sort_key canonical_event_key (rc_pending rc)"
  obtain e w where d: "drain write_tick write_rng_checkpoint (rc_writer rc) t ?es p = (e, w)"
    by (cases "drain write_tick write_rng_checkpoint (rc_writer rc) t ?es p")
  have inv: "writer_inv hz (rc_writer rc) (rg_doc rg) \<and> \<not> rw_closed (rc_writer rc)"
    using assms False by (simp add: recorder_rel_def)
  have w: "writer_inv hz w (drained (rg_doc rg) t (rc_pending rc) p)" "\<not> rw_closed w"
    using replay_sink.drain_drained(1) [OF inv d] unfolding sort_pending by simp_all
  have "rc_writer (snd (flush_tick rc t p)) = w" "rc_pending (snd (flush_tick rc t p)) = []"
    "rc_closed (snd (flush_tick rc t p)) = rc_closed rc"
    using False d by (auto simp: flush_tick_def Let_def stream_flush_def split: option.splits)
  then show ?thesis using assms False w by (auto simp: recorder_rel_def)
qed

lemma meta_rel:
  assumes "recorder_rel hz rc rg" "op_ok (OpMeta meta)"
  shows "recorder_rel hz (snd (recorder_write_meta rc meta)) (recording_step rg (OpMeta meta))"
proof -
  have inv: "writer_inv hz (rc_writer rc) (rg_doc rg)" and eq: "rc_closed rc = rg_closed rg"
      "rw_closed (rc_writer rc) = rc_closed rc"
    using assms(1) by (auto simp: recorder_rel_def)
  have m: "rw_meta_written (rc_writer rc) = (rs_meta (rg_doc rg) \<noteq> None)"
    and l: "rw_last_tick (rc_writer rc) = None \<longleftrightarrow> rs_ticks (rg_doc rg) = []"
    using inv by (auto simp: writer_inv_def)
  show ?thesis
  proof (cases "rg_closed rg \<or> rs_meta (rg_doc rg) \<noteq> None \<or> rs_ticks (rg_doc rg) \<noteq> []")
    case True
    then have "\<exists>e. rbind (recorder_ensure_open rc) (\<lambda>_. write_meta (rc_writer rc) meta) = Inl e"
      using eq m l by (auto simp: recorder_ensure_open_def write_meta_def writer_ensure_open_def rguard_def)
    then show ?thesis using True assms(1) by (auto simp: recorder_write_meta_def)
  next
    case False
    obtain w where w: "write_meta (rc_writer rc) meta = Inr w" "\<not> rw_closed w"
      using write_meta_total [of "rc_writer rc" meta] False eq m l assms(2) by auto
    have "json_ok (JObj meta)" using assms(2) by (simp add: meta_ok_def del: json_ok.simps)
    from write_meta_inv [OF inv w(1) this]
    show ?thesis using False eq w assms(1)
      by (auto simp: recorder_write_meta_def recorder_ensure_open_def stream_flush_def recorder_rel_def)
  qed
qed

lemma step_rel:
  assumes "recorder_rel hz rc rg" "op_ok op"
  shows "recorder_rel hz (recorder_step rc op) (recording_step rg op)"
proof (cases op)
  case (OpMeta meta)
  then show ?thesis using meta_rel [OF assms(1)] assms(2) by (simp del: recording_step.simps)
next
  case (OpRecord e)
  then show ?thesis using assms(1) by (auto simp: recorder_rel_def recorder_record_def)
next
  case (OpFlush t p)
  then show ?thesis using flush_rel [OF assms(1)] by (simp del: recording_step.simps)
next
  case OpClose
  then show ?thesis
    using assms(1) by (auto simp: recorder_rel_def recorder_close_def writer_close_def writer_inv_def)
qed

lemma run_rel:
  "recorder_rel hz rc rg \<Longrightarrow> list_all op_ok ops \<Longrightarrow>
   recorder_rel hz (recorder_run rc ops) (recording_run rg ops)"
  unfolding recorder_run_def recording_run_def
  by (induction ops arbitrary: rc rg) (auto intro: step_rel)

lemma init_rel: "recorder_init hz = Inr rc \<Longrightarrow> recorder_rel hz rc recording_start"
proof -
  assume "recorder_init hz = Inr rc"
  then obtain w where w: "replay_writer_init hz = Inr w"
    and rc: "rc = \<lparr>rc_writer = w, rc_pending = [], rc_closed = False, rc_flushed = []\<rparr>"
    by (auto simp: recorder_init_def rbind_eq_Inr)
  have "\<not> rw_closed w" using w by (auto simp: replay_writer_init_def rbind_eq_Inr)
  then show ?thesis using init_inv [OF w] by (simp add: recorder_rel_def rc recording_start_def)
qed

text \<open>What has been flushed is what the stream held at some earlier point of the run.\<close>

lemma step_flushed:
  "rc_flushed (recorder_step rc op) \<in> {rc_flushed rc, rw_stream (rc_writer (recorder_step rc op))}"
proof (cases op)
  case (OpMeta meta)
  then show ?thesis by (auto simp: recorder_write_meta_def stream_flush_def split: sum.splits)
next
  case (OpRecord e)
  then show ?thesis by (simp add: recorder_record_def)
next
  case (OpFlush t p)
  then show ?thesis
    by (auto simp: flush_tick_def Let_def stream_flush_def split: prod.splits option.splits)
next
  case OpClose
  then show ?thesis by (simp add: recorder_close_def)
qed

lemma run_snoc: "recorder_run rc (ops @ [op]) = recorder_step (recorder_run rc ops) op"
  by (simp add: recorder_run_def)

lemma run_flushed:
  "rc_flushed (recorder_run rc ops) = rc_flushed rc \<or>
   (\<exists>n \<le> length ops. rc_flushed (recorder_run rc ops) = rw_stream (rc_writer (recorder_run rc (take n ops))))"
proof (induction ops rule: rev_induct)
  case (snoc op ops)
  consider "rc_flushed (recorder_run rc (ops @ [op])) = rc_flushed (recorder_run rc ops)"
    | "rc_flushed (recorder_run rc (ops @ [op])) = rw_stream (rc_writer (recorder_run rc (ops @ [op])))"
    using step_flushed [of "recorder_run rc ops" op] by (auto simp: run_snoc)
  then show ?case
  proof cases
    case 1
    show ?thesis
    proof (cases "rc_flushed (recorder_run rc ops) = rc_flushed rc")
      case False
      then obtain n where "n \<le> length ops"
        "rc_flushed (recorder_run rc ops) = rw_stream (rc_writer (recorder_run rc (take n ops)))"
        using snoc by blast
      then show ?thesis using 1 by (intro disjI2 exI [of _ n]) simp
    qed (use 1 in simp)
  next
    case 2
    then show ?thesis by (intro disjI2 exI [of _ "Suc (length ops)"]) simp
  qed
qed (simp add: recorder_run_def)

lemma run_reads:
  assumes "recorder_init hz = Inr rc" "list_all op_ok ops"
  shows "read_document (rw_stream (rc_writer (recorder_run rc ops)))
           = Inr (doc_of hz (rg_doc (recording_run recording_start ops)))"
  using run_rel [OF init_rel [OF assms(1)] assms(2)] writer_inv_reads by (simp add: recorder_rel_def)

subsection \<open>Properties\<close>

lemma demo_recorder: "\<exists>rc. recorder_init 20 = Inr rc \<and> rc_flushed rc = []"
proof -
  have "fits_all HEADER_TAIL_FMT [FORMAT_VERSION, int HEADER_SIZE, 20, 0]"
    by (simp add: HEADER_TAIL_FMT_def replay_consts fmt_fits_def)
  then show ?thesis
    by (simp add: recorder_init_def replay_writer_init_def struct_pack_fits del: struct_pack.simps)
qed





text \<open>the arrival order of concurrently recorded events does not reach the artifact. Two recorders
  that differ only in the order in which the events of the current tick arrived drain to the same
  writer with the same outcome, as long as no two of the events have the same canonical key.\<close>

theorem drain_ignores_arrival_order:
  assumes "mset es = mset (rc_pending rc)" "inj_on canonical_event_key (set es)"
  shows "flush_tick (rc\<lparr>rc_pending := es\<rparr>) t p = (if rc_closed rc then (None, rc\<lparr>rc_pending := es\<rparr>)
           else flush_tick rc t p)"
proof -
  have s: "sort_key canonical_event_key es = sort_key canonical_event_key (rc_pending rc)"
    by (rule sort_key_eq_if_mset_eq [OF assms])
  show ?thesis by (simp add: flush_tick_def s Let_def)
qed

theorem drain_ignores_arrival_order_witness:
  "\<exists>rc. recorder_init 20 = Inr rc \<and>
     flush_tick (rc\<lparr>rc_pending := [DespawnEvent 2, MoveEvent 1 0 5 0 0 0]\<rparr>) 9 NoProvider =
     flush_tick (rc\<lparr>rc_pending := [MoveEvent 1 0 5 0 0 0, DespawnEvent 2]\<rparr>) 9 NoProvider"
proof -
  obtain rc where rc: "recorder_init 20 = Inr rc" using demo_recorder by blast
  have o: "\<not> rc_closed rc" using rc by (auto simp: recorder_init_def rbind_eq_Inr)
  show ?thesis
    using drain_ignores_arrival_order [of "[DespawnEvent 2, MoveEvent 1 0 5 0 0 0]"
        "rc\<lparr>rc_pending := [MoveEvent 1 0 5 0 0 0, DespawnEvent 2]\<rparr>" 9 NoProvider] rc o
    by (auto simp: add_mset_commute)
qed

end
