(* ===== verification/PyStrings.thy ===== *)
theory PyStrings
  imports PyText
begin

text \<open>
  The \<open>str\<close> methods the text-reading sources use: \<open>isspace\<close>, \<open>strip\<close>, \<open>split\<close>, \<open>splitlines\<close>,
  \<open>startswith\<close>, \<open>replace\<close> of one character, and \<open>int(s)\<close> and \<open>int(s, 16)\<close>. White space and line
  boundaries are Python's Unicode sets, written out. The decimal digits beyond ASCII are data of the
  interpreter's Unicode database: the argument \<open>nd\<close> gives the digit value of such a character.
\<close>

definition py_isspace :: "nat \<Rightarrow> bool" where
  "py_isspace c \<longleftrightarrow>
     (9 \<le> c \<and> c \<le> 13) \<or> (28 \<le> c \<and> c \<le> 32) \<or> c = 0x85 \<or> c = 0xA0 \<or> c = 0x1680 \<or>
     (0x2000 \<le> c \<and> c \<le> 0x200A) \<or> c = 0x2028 \<or> c = 0x2029 \<or> c = 0x202F \<or> c = 0x205F \<or> c = 0x3000"

definition py_islinebreak :: "nat \<Rightarrow> bool" where
  "py_islinebreak c \<longleftrightarrow>
     (10 \<le> c \<and> c \<le> 13) \<or> (28 \<le> c \<and> c \<le> 30) \<or> c = 0x85 \<or> c = 0x2028 \<or> c = 0x2029"

definition py_strip :: "pystr \<Rightarrow> pystr" where
  "py_strip s = rev (dropWhile py_isspace (rev (dropWhile py_isspace s)))"

function py_split :: "pystr \<Rightarrow> pystr list" where
  "py_split s =
     (let t = dropWhile py_isspace s
      in if t = [] then []
         else takeWhile (\<lambda>c. \<not> py_isspace c) t # py_split (dropWhile (\<lambda>c. \<not> py_isspace c) t))"
  by pat_completeness auto

lemma dropWhile_shorter:
  assumes "t = dropWhile P s" "t \<noteq> []"
  shows "length (dropWhile (\<lambda>c. \<not> P c) t) < length s"
proof -
  obtain c u where c: "t = c # u" using assms(2) by (cases t) auto
  have "dropWhile P s = c # u" using assms(1) c by simp
  then have "\<not> P c" using hd_dropWhile [of P s] by simp
  then have "dropWhile (\<lambda>c. \<not> P c) t = dropWhile (\<lambda>c. \<not> P c) u" by (simp add: c)
  also have "length \<dots> \<le> length u" by (rule length_dropWhile_le)
  also have "\<dots> < length t" by (simp add: c)
  also have "length t \<le> length s" unfolding assms(1) by (rule length_dropWhile_le)
  finally show ?thesis .
qed

termination py_split
  by (relation "measure length") (auto intro: dropWhile_shorter)

declare py_split.simps [simp del]

fun py_splitlines_from :: "pystr \<Rightarrow> pystr \<Rightarrow> pystr list" where
  "py_splitlines_from cur [] = (if cur = [] then [] else [cur])"
| "py_splitlines_from cur (c # s) =
     (if c = 13 \<and> take 1 s = [10] then cur # py_splitlines_from [] (drop 1 s)
      else if py_islinebreak c then cur # py_splitlines_from [] s
      else py_splitlines_from (cur @ [c]) s)"

definition py_splitlines :: "pystr \<Rightarrow> pystr list" where
  "py_splitlines s = py_splitlines_from [] s"

definition py_startswith :: "pystr \<Rightarrow> pystr \<Rightarrow> bool" where
  "py_startswith s p \<longleftrightarrow> take (length p) s = p"

definition py_endswith :: "pystr \<Rightarrow> pystr \<Rightarrow> bool" where
  "py_endswith s p \<longleftrightarrow> length p \<le> length s \<and> drop (length s - length p) s = p"

definition py_replace_char :: "nat \<Rightarrow> nat \<Rightarrow> pystr \<Rightarrow> pystr" where
  "py_replace_char a b s = map (\<lambda>c. if c = a then b else c) s"

subsection \<open>Integers from text\<close>

definition dec_digit_value :: "(nat \<Rightarrow> nat option) \<Rightarrow> nat \<Rightarrow> nat option" where
  "dec_digit_value nd c = (if c < 128 then (if 48 \<le> c \<and> c \<le> 57 then Some (c - 48) else None) else nd c)"

definition hex_digit_value :: "(nat \<Rightarrow> nat option) \<Rightarrow> nat \<Rightarrow> nat option" where
  "hex_digit_value nd c =
     (if 97 \<le> c \<and> c \<le> 102 then Some (c - 87)
      else if 65 \<le> c \<and> c \<le> 70 then Some (c - 55)
      else dec_digit_value nd c)"

text \<open>Digits with single underscores between them; the flag says that the last character was a
  digit.\<close>

fun us_digits :: "(nat \<Rightarrow> nat option) \<Rightarrow> bool \<Rightarrow> pystr \<Rightarrow> nat list option" where
  "us_digits v after_digit [] = (if after_digit then Some [] else None)"
| "us_digits v after_digit (c # s) =
     (if c = 95 then (if after_digit then us_digits v False s else None)
      else (case v c of
              None \<Rightarrow> None
            | Some d \<Rightarrow> map_option (\<lambda>ds. d # ds) (us_digits v True s)))"

definition digits_nat :: "nat \<Rightarrow> nat list \<Rightarrow> nat" where
  "digits_nat base ds = foldl (\<lambda>acc d. base * acc + d) 0 ds"

definition split_sign :: "pystr \<Rightarrow> bool \<times> pystr" where
  "split_sign s =
     (case s of
        [] \<Rightarrow> (False, s)
      | c # r \<Rightarrow> if c = 45 then (True, r) else if c = 43 then (False, r) else (False, s))"

definition signed_int :: "bool \<Rightarrow> nat \<Rightarrow> int" where
  "signed_int neg n = (if neg then - int n else int n)"

text \<open>\<open>int(s)\<close>; \<open>None\<close> is \<open>ValueError\<close>, which an integer of more than 4300 digits raises too.\<close>

definition py_int :: "(nat \<Rightarrow> nat option) \<Rightarrow> pystr \<Rightarrow> int option" where
  "py_int nd s =
     (let (neg, u) = split_sign (py_strip s)
      in case us_digits (dec_digit_value nd) False u of
           None \<Rightarrow> None
         | Some ds \<Rightarrow> if 4300 < length ds then None else Some (signed_int neg (digits_nat 10 ds)))"

definition py_int_hex :: "(nat \<Rightarrow> nat option) \<Rightarrow> pystr \<Rightarrow> int option" where
  "py_int_hex nd s =
     (let (neg, u) = split_sign (py_strip s);
          v = (if take 2 u = [48, 120] \<or> take 2 u = [48, 88]
               then (if take 1 (drop 2 u) = [95] then drop 3 u else drop 2 u) else u)
      in case us_digits (hex_digit_value nd) False v of
           None \<Rightarrow> None
         | Some ds \<Rightarrow> Some (signed_int neg (digits_nat 16 ds)))"

subsection \<open>Reading back what \<open>str\<close> and the hex format write\<close>

lemma us_digits_all:
  assumes "\<forall>c \<in> set s. c \<noteq> 95 \<and> v c \<noteq> None" "s \<noteq> [] \<or> b"
  shows "us_digits v b s = Some (map (\<lambda>c. the (v c)) s)"
  using assms
proof (induction s arbitrary: b)
  case (Cons c s)
  obtain d where d: "v c = Some d" "c \<noteq> 95" using Cons.prems(1) by auto
  have "us_digits v True s = Some (map (\<lambda>c. the (v c)) s)"
    by (rule Cons.IH) (use Cons.prems(1) in simp_all)
  then show ?case using d by simp
qed simp

lemma digits_nat_snoc: "digits_nat base (ds @ [d]) = base * digits_nat base ds + d"
  by (simp add: digits_nat_def)

lemma pytext_dec_digit: "is_dec_digit ch \<Longrightarrow> dec_digit_value nd (of_char ch) = Some (of_char ch - 48)"
  by (auto simp: is_dec_digit_def dec_digit_value_def)

lemma py_strip_id:
  assumes "s \<noteq> []" "\<not> py_isspace (hd s)" "\<not> py_isspace (last s)"
  shows "py_strip s = s"
proof -
  have "dropWhile py_isspace s = s" using assms(1,2) by (cases s) auto
  moreover have "dropWhile py_isspace (rev s) = rev s"
    using assms(1,3) by (cases s rule: rev_cases) auto
  ultimately show ?thesis by (simp add: py_strip_def)
qed

lemma isspace_bounds: "py_isspace c \<Longrightarrow> 9 \<le> c \<and> (c \<le> 32 \<or> 127 < c)"
  by (auto simp: py_isspace_def)

lemma digits_nat_pytext:
  "digits_nat 10 (map (\<lambda>c. c - 48) (pytext ds)) = dec_val ds"
proof (induction ds rule: rev_induct)
  case (snoc d ds)
  then show ?case by (simp add: pytext_def digits_nat_snoc dec_val_append)
qed (simp add: digits_nat_def dec_val_def pytext_def)

lemma us_digits_dec:
  "us_digits (dec_digit_value nd) False (pytext (dec_digits n)) = Some (map (\<lambda>c. c - 48) (pytext (dec_digits n)))"
proof -
  have d: "48 \<le> c \<and> c \<le> 57" if "c \<in> set (pytext (dec_digits n))" for c
    using that dec_digits_are_digits [of n] by (fastforce simp: pytext_def list_all_iff is_dec_digit_def)
  have "us_digits (dec_digit_value nd) False (pytext (dec_digits n)) =
      Some (map (\<lambda>c. the (dec_digit_value nd c)) (pytext (dec_digits n)))"
    by (rule us_digits_all) (use d in \<open>fastforce simp: dec_digit_value_def pytext_def\<close>)+
  also have "map (\<lambda>c. the (dec_digit_value nd c)) (pytext (dec_digits n)) = map (\<lambda>c. c - 48) (pytext (dec_digits n))"
    using d by (intro map_cong) (fastforce simp: dec_digit_value_def)+
  finally show ?thesis .
qed

lemma py_int_int_str:
  assumes "length (dec_digits (nat \<bar>i\<bar>)) \<le> 4300"
  shows "py_int nd (pytext (int_str i)) = Some i"
proof -
  let ?ds = "pytext (dec_digits (nat \<bar>i\<bar>))"
  have dg: "48 \<le> c \<and> c \<le> 57" if "c \<in> set ?ds" for c
    using that dec_digits_are_digits [of "nat \<bar>i\<bar>"] by (fastforce simp: pytext_def list_all_iff is_dec_digit_def)
  have ne: "?ds \<noteq> []" by (simp add: pytext_def)
  have tx: "pytext (int_str i) = (if i < 0 then 45 # ?ds else ?ds)"
    by (simp add: int_str_def pytext_def)
  have nsp: "\<not> py_isspace c" if "c \<in> set ?ds" for c
    using dg [OF that] isspace_bounds [of c] by auto
  have "\<not> py_isspace 45" using isspace_bounds [of 45] by auto
  then have strip: "py_strip (pytext (int_str i)) = pytext (int_str i)"
    unfolding tx using ne nsp hd_in_set [OF ne] last_in_set [OF ne] by (intro py_strip_id) auto
  have sign: "split_sign (pytext (int_str i)) = (i < 0, ?ds)"
  proof (cases "i < 0")
    case False
    obtain c r where c: "?ds = c # r" using ne by (cases ?ds) auto
    then have "c \<noteq> 45" "c \<noteq> 43" using dg [of c] by auto
    then have "split_sign ?ds = (False, ?ds)" unfolding c split_sign_def by simp
    then show ?thesis using False by (simp add: tx)
  qed (simp add: tx split_sign_def)
  have "digits_nat 10 (map (\<lambda>c. c - 48) ?ds) = nat \<bar>i\<bar>"
    unfolding digits_nat_pytext by simp
  moreover have "length ?ds = length (dec_digits (nat \<bar>i\<bar>))" by (simp add: pytext_def)
  ultimately show ?thesis
    unfolding py_int_def strip sign Let_def using assms
    by (simp add: us_digits_dec signed_int_def)
qed

end
