(* ===== verification/ReplayTool.thy ===== *)
theory ReplayTool
  imports ReplayRecorder PyStrings
begin

text \<open>
  \<open>src/tools/replay.py\<close>: the legacy text record, the actor store, the replay loop with its rolling
  FNV-1a hash, expectation checking, and the four modes.

  The simulation library is reached through its C ABI: \<open>sim_lib\<close> holds, for every function the tool
  calls, what the call returns and how it changes the model and the actors it is given; the tool's
  properties hold for every library. \<open>sim_actor\<close> and \<open>sim_input\<close> are the \<open>ctypes\<close> structures; assigning
  a Python integer to a field truncates it to the field's width. Files are a map from paths to
  contents. Standard output is the list of printed lines.
\<close>

subsection \<open>Constants and exceptions\<close>

definition KITH_ABI_VERSION :: int where "KITH_ABI_VERSION = 1"
definition DEFAULT_TICK_HZ :: int where "DEFAULT_TICK_HZ = 20"
definition MAX_ACTORS :: nat where "MAX_ACTORS = 65536"
definition MAX_REPORTED_MISSING :: nat where "MAX_REPORTED_MISSING = 8"
definition FNV_OFFSET :: nat where "FNV_OFFSET = 0xCBF29CE484222325"
definition FNV_PRIME :: nat where "FNV_PRIME = 0x100000001B3"
definition U64_MASK :: nat where "U64_MASK = 0xFFFFFFFFFFFFFFFF"

datatype sim_reason = CallFailed int | NullHandle | ActorCapacity

datatype record_reason =
    ExpectedInteger
  | OutOfRange
  | TooFewTokens
  | SpawnTokens
  | MoveTokens
  | DespawnTokens
  | UnknownKind
  | BadExpectLine nat
  | AtLine nat record_reason
  | ActorExists int
  | ActorNotSpawned int

datatype tool_exc =
    KithSimError sim_reason
  | RecordError record_reason
  | ToolReplay replay_exc
  | ToolValueError
  | ToolUnicodeError
  | ToolOSError

definition tool_replay :: "replay_exc + 'a \<Rightarrow> tool_exc + 'a" where
  "tool_replay r = (case r of Inl e \<Rightarrow> Inl (ToolReplay e) | Inr v \<Rightarrow> Inr v)"

subsection \<open>The simulation library\<close>

record sim_actor =
  sa_id :: "64 word"
  sa_pos_x :: "64 word"
  sa_pos_y :: "64 word"
  sa_pos_z :: "64 word"
  sa_vel_x :: "64 word"
  sa_vel_y :: "64 word"
  sa_vel_z :: "64 word"
  sa_input_tick :: "32 word"
  sa_flags :: "32 word"

record sim_input =
  si_input_tick :: "32 word"
  si_move_x :: "16 word"
  si_move_y :: "16 word"
  si_move_z :: "16 word"
  si_flags :: "8 word"

record 'f sim_config =
  sc_size :: nat
  sc_abi_version :: int
  sc_base_speed :: "32 word"
  sc_run_speed :: "32 word"
  sc_accel :: "32 word"
  sc_decel :: "32 word"
  sc_move_eps :: 'f
  sc_collision_radius :: "32 word"

record ('m, 'f) sim_lib =
  sl_create :: "int \<times> bool"
  sl_create_model :: "pystr \<Rightarrow> 'f sim_config option \<Rightarrow> int \<times> 'm option"
  sl_load_behavior :: "'m \<Rightarrow> pystr \<Rightarrow> int \<times> 'm"
  sl_step :: "'m \<Rightarrow> sim_actor list \<Rightarrow> 32 word \<Rightarrow> int \<times> 'm \<times> sim_actor list"
  sl_apply_input :: "'m \<Rightarrow> sim_actor \<Rightarrow> sim_input \<Rightarrow> int \<times> 'm \<times> sim_actor"
  sl_config_size :: nat
  sl_zero_eps :: 'f

definition check_rc :: "int \<Rightarrow> tool_exc + int" where
  "check_rc rc = (if rc < 0 then Inl (KithSimError (CallFailed (- rc))) else Inr rc)"

definition create_sim :: "('m, 'f) sim_lib \<Rightarrow> tool_exc + unit" where
  "create_sim lib =
     (let (code, handle) = sl_create lib in
      rbind (check_rc code) (\<lambda>rc.
      rguard (\<not> (rc \<noteq> 0 \<or> \<not> handle)) (KithSimError NullHandle)))"

definition create_model :: "('m, 'f) sim_lib \<Rightarrow> pystr \<Rightarrow> 'f sim_config option \<Rightarrow> tool_exc + 'm" where
  "create_model lib name cfg =
     (let (code, handle) = sl_create_model lib name cfg in
      rbind (check_rc code) (\<lambda>rc.
      if rc \<noteq> 0 then Inl (KithSimError NullHandle)
      else case handle of None \<Rightarrow> Inl (KithSimError NullHandle) | Some m \<Rightarrow> Inr m))"

subsection \<open>Arguments\<close>

datatype command = Play | Verify | Diff | Transcode

record 'f tool_args =
  ta_command :: command
  ta_input :: pystr
  ta_input_b :: pystr
  ta_output :: pystr
  ta_model :: pystr
  ta_tick_hz :: "int option"
  ta_ticks :: "int option"
  ta_hash_every :: int
  ta_behavior :: "pystr option"
  ta_base_speed :: int
  ta_run_speed :: int
  ta_accel :: int
  ta_decel :: int
  ta_move_eps :: "'f option"
  ta_collision_radius :: "int option"
  ta_expect_hash :: "pystr option"
  ta_expect_file :: "pystr option"
  ta_expectations_from :: "pystr option"
  ta_quiet :: bool

definition build_config :: "('m, 'f) sim_lib \<Rightarrow> 'f tool_args \<Rightarrow> 'f sim_config option" where
  "build_config lib args =
     (if \<not> (ta_base_speed args \<noteq> 0 \<or> ta_run_speed args \<noteq> 0 \<or> ta_accel args \<noteq> 0 \<or> ta_decel args \<noteq> 0 \<or>
            ta_collision_radius args \<noteq> None \<or> ta_move_eps args \<noteq> None)
      then None
      else Some
        \<lparr>sc_size = sl_config_size lib,
         sc_abi_version = KITH_ABI_VERSION,
         sc_base_speed = word_of_int (ta_base_speed args),
         sc_run_speed = word_of_int (ta_run_speed args),
         sc_accel = word_of_int (ta_accel args),
         sc_decel = word_of_int (ta_decel args),
         sc_move_eps = (case ta_move_eps args of Some e \<Rightarrow> e | None \<Rightarrow> sl_zero_eps lib),
         sc_collision_radius =
           word_of_int (case ta_collision_radius args of Some r \<Rightarrow> r | None \<Rightarrow> 0)\<rparr>)"

text \<open>An option that is a string counts as given when it is not empty.\<close>

definition given :: "pystr option \<Rightarrow> pystr option" where
  "given a = (case a of Some (c # s) \<Rightarrow> Some (c # s) | _ \<Rightarrow> None)"

subsection \<open>The text record\<close>

definition parse_int :: "(nat \<Rightarrow> nat option) \<Rightarrow> pystr \<Rightarrow> int \<Rightarrow> int \<Rightarrow> tool_exc + int" where
  "parse_int nd token lo hi =
     (case py_int nd token of
        None \<Rightarrow> Inl (RecordError ExpectedInteger)
      | Some v \<Rightarrow> if v < lo \<or> hi < v then Inl (RecordError OutOfRange) else Inr v)"

definition parse_event :: "(nat \<Rightarrow> nat option) \<Rightarrow> pystr list \<Rightarrow> tool_exc + (int \<times> replay_event)" where
  "parse_event nd tokens =
     rbind (rguard (3 \<le> length tokens) (RecordError TooFewTokens)) (\<lambda>_.
     rbind (parse_int nd (tokens ! 0) 0 (2 ^ 63 - 1)) (\<lambda>tick.
     let kind = tokens ! 1 in
     rbind (parse_int nd (tokens ! 2) 0 (2 ^ 64 - 1)) (\<lambda>actor_id.
     if kind = pytext ''SPAWN'' then
       rbind (rguard (length tokens = 10) (RecordError SpawnTokens)) (\<lambda>_.
       rbind (parse_int nd (tokens ! 3) (- (2 ^ 63)) (2 ^ 63 - 1)) (\<lambda>pos_x.
       rbind (parse_int nd (tokens ! 4) (- (2 ^ 63)) (2 ^ 63 - 1)) (\<lambda>pos_y.
       rbind (parse_int nd (tokens ! 5) (- (2 ^ 63)) (2 ^ 63 - 1)) (\<lambda>pos_z.
       rbind (parse_int nd (tokens ! 6) (- (2 ^ 63)) (2 ^ 63 - 1)) (\<lambda>vel_x.
       rbind (parse_int nd (tokens ! 7) (- (2 ^ 63)) (2 ^ 63 - 1)) (\<lambda>vel_y.
       rbind (parse_int nd (tokens ! 8) (- (2 ^ 63)) (2 ^ 63 - 1)) (\<lambda>vel_z.
       rbind (parse_int nd (tokens ! 9) 0 (2 ^ 32 - 1)) (\<lambda>flags.
       Inr (tick, SpawnEvent actor_id pos_x pos_y pos_z vel_x vel_y vel_z flags)))))))))
     else if kind = pytext ''MOVE'' then
       rbind (rguard (length tokens = 8) (RecordError MoveTokens)) (\<lambda>_.
       rbind (parse_int nd (tokens ! 3) 0 (2 ^ 32 - 1)) (\<lambda>input_tick.
       rbind (parse_int nd (tokens ! 4) (- (2 ^ 15)) (2 ^ 15 - 1)) (\<lambda>move_x.
       rbind (parse_int nd (tokens ! 5) (- (2 ^ 15)) (2 ^ 15 - 1)) (\<lambda>move_y.
       rbind (parse_int nd (tokens ! 6) (- (2 ^ 15)) (2 ^ 15 - 1)) (\<lambda>move_z.
       rbind (parse_int nd (tokens ! 7) 0 (2 ^ 8 - 1)) (\<lambda>flags.
       Inr (tick, MoveEvent actor_id input_tick move_x move_y move_z flags)))))))
     else if kind = pytext ''DESPAWN'' then
       rbind (rguard (length tokens = 3) (RecordError DespawnTokens)) (\<lambda>_.
       Inr (tick, DespawnEvent actor_id))
     else Inl (RecordError UnknownKind))))"

definition at_line :: "nat \<Rightarrow> tool_exc + 'a \<Rightarrow> tool_exc + 'a" where
  "at_line lineno r = (case r of Inl (RecordError e) \<Rightarrow> Inl (RecordError (AtLine lineno e)) | _ \<Rightarrow> r)"

definition skip_line :: "pystr \<Rightarrow> bool" where
  "skip_line line \<longleftrightarrow> line = [] \<or> py_startswith line (pytext ''#'')"

fun parse_lines :: "(nat \<Rightarrow> nat option) \<Rightarrow> nat \<Rightarrow> pystr list \<Rightarrow> tool_exc + (int \<times> replay_event) list" where
  "parse_lines nd lineno [] = Inr []"
| "parse_lines nd lineno (raw # raws) =
     (let line = py_strip raw in
      if skip_line line then parse_lines nd (Suc lineno) raws
      else rbind (at_line lineno (parse_event nd (py_split line))) (\<lambda>pair.
           rbind (parse_lines nd (Suc lineno) raws) (\<lambda>pairs. Inr (pair # pairs))))"

definition read_text :: "bytes \<Rightarrow> tool_exc + pystr" where
  "read_text data = (case utf8_decode data of Inl _ \<Rightarrow> Inl ToolUnicodeError | Inr s \<Rightarrow> Inr s)"

definition parse_record :: "(nat \<Rightarrow> nat option) \<Rightarrow> bytes \<Rightarrow> tool_exc + (int \<times> replay_event) list" where
  "parse_record nd data = rbind (read_text data) (\<lambda>s. parse_lines nd 1 (py_splitlines s))"

text \<open>\<open>itertools.groupby\<close> on the tick: maximal runs of equal ticks.\<close>

fun group_ticks :: "(int \<times> replay_event) list \<Rightarrow> tick_record list" where
  "group_ticks [] = []"
| "group_ticks ((t, e) # ps) =
     (case group_ticks ps of
        [] \<Rightarrow> [TickRecord t [e]]
      | g # gs \<Rightarrow> if tr_tick g = t then TickRecord t (e # tr_events g) # gs else TickRecord t [e] # g # gs)"

definition text_groups :: "(int \<times> replay_event) list \<Rightarrow> tick_record list" where
  "text_groups pairs = group_ticks (sort_key fst pairs)"

subsection \<open>The actor store\<close>

record actor_store =
  as_buf :: "nat \<Rightarrow> sim_actor"
  as_slot :: "(int, nat) dict"
  as_live :: nat

definition zero_actor :: sim_actor where
  "zero_actor = \<lparr>sa_id = 0, sa_pos_x = 0, sa_pos_y = 0, sa_pos_z = 0, sa_vel_x = 0, sa_vel_y = 0,
     sa_vel_z = 0, sa_input_tick = 0, sa_flags = 0\<rparr>"

definition actor_store_init :: actor_store where
  "actor_store_init = \<lparr>as_buf = (\<lambda>_. zero_actor), as_slot = [], as_live = 0\<rparr>"

fun spawn_actor :: "replay_event \<Rightarrow> sim_actor" where
  "spawn_actor (SpawnEvent a x y z vx vy vz f) =
     \<lparr>sa_id = word_of_int a, sa_pos_x = word_of_int x, sa_pos_y = word_of_int y, sa_pos_z = word_of_int z,
      sa_vel_x = word_of_int vx, sa_vel_y = word_of_int vy, sa_vel_z = word_of_int vz,
      sa_input_tick = 0, sa_flags = word_of_int f\<rparr>"
| "spawn_actor _ = zero_actor"

definition store_spawn :: "actor_store \<Rightarrow> replay_event \<Rightarrow> tool_exc + actor_store" where
  "store_spawn st event =
     rbind (rguard (ev_actor_id event \<notin> set (map fst (as_slot st)))
              (RecordError (ActorExists (ev_actor_id event)))) (\<lambda>_.
     rbind (rguard (as_live st < MAX_ACTORS) (KithSimError ActorCapacity)) (\<lambda>_.
     let idx = as_live st in
     Inr (st\<lparr>as_buf := (as_buf st)(idx := spawn_actor event),
             as_slot := AList.update (ev_actor_id event) idx (as_slot st),
             as_live := as_live st + 1\<rparr>)))"

fun move_input :: "replay_event \<Rightarrow> sim_input" where
  "move_input (MoveEvent a t x y z f) =
     \<lparr>si_input_tick = word_of_int t, si_move_x = word_of_int x, si_move_y = word_of_int y,
      si_move_z = word_of_int z, si_flags = word_of_int f\<rparr>"
| "move_input _ = \<lparr>si_input_tick = 0, si_move_x = 0, si_move_y = 0, si_move_z = 0, si_flags = 0\<rparr>"

definition store_apply_move ::
  "('m, 'f) sim_lib \<Rightarrow> 'm \<Rightarrow> actor_store \<Rightarrow> replay_event \<Rightarrow> tool_exc + ('m \<times> actor_store)" where
  "store_apply_move lib model st event =
     (case map_of (as_slot st) (ev_actor_id event) of
        None \<Rightarrow> Inl (RecordError (ActorNotSpawned (ev_actor_id event)))
      | Some idx \<Rightarrow>
          let (code, model', actor) = sl_apply_input lib model (as_buf st idx) (move_input event) in
          rbind (check_rc code) (\<lambda>_. Inr (model', st\<lparr>as_buf := (as_buf st)(idx := actor)\<rparr>)))"

definition store_despawn :: "actor_store \<Rightarrow> replay_event \<Rightarrow> actor_store" where
  "store_despawn st event =
     (case map_of (as_slot st) (ev_actor_id event) of
        None \<Rightarrow> st
      | Some idx \<Rightarrow>
          let slot = AList.delete (ev_actor_id event) (as_slot st);
              final = as_live st - 1
          in if idx \<noteq> final
             then let buf = (as_buf st)(idx := as_buf st final);
                      last_id = uint (sa_id (buf idx))
                  in st\<lparr>as_buf := buf, as_slot := AList.update last_id idx slot, as_live := final\<rparr>
             else st\<lparr>as_slot := slot, as_live := final\<rparr>)"

definition live_actors :: "actor_store \<Rightarrow> sim_actor list" where
  "live_actors st = map (as_buf st) [0..<as_live st]"

definition store_step :: "('m, 'f) sim_lib \<Rightarrow> 'm \<Rightarrow> actor_store \<Rightarrow> int \<Rightarrow> tool_exc + ('m \<times> actor_store)" where
  "store_step lib model st dt_ms =
     (if as_live st = 0 then Inr (model, st)
      else let (code, model', actors) = sl_step lib model (live_actors st) (word_of_int dt_ms) in
           rbind (check_rc code) (\<lambda>_.
           Inr (model', st\<lparr>as_buf := (\<lambda>i. if i < as_live st \<and> i < length actors then actors ! i else as_buf st i)\<rparr>)))"

fun fnv1a_update :: "nat \<Rightarrow> bytes \<Rightarrow> nat" where
  "fnv1a_update h [] = h"
| "fnv1a_update h (b # bs) =
     fnv1a_update (and ((xor h (unat b)) * FNV_PRIME) U64_MASK) bs"

definition actor_fields :: "int \<Rightarrow> sim_actor \<Rightarrow> int list" where
  "actor_fields aid node =
     [aid, sint (sa_pos_x node), sint (sa_pos_y node), sint (sa_pos_z node), sint (sa_vel_x node),
      sint (sa_vel_y node), sint (sa_vel_z node), uint (sa_input_tick node), uint (sa_flags node)]"

definition ACTOR_FMT :: "fmt list" where
  "ACTOR_FMT = [FQ, Fq, Fq, Fq, Fq, Fq, Fq, FI, FI]"

definition hash_actor :: "nat \<Rightarrow> int \<Rightarrow> sim_actor \<Rightarrow> tool_exc + nat" where
  "hash_actor h aid node =
     rbind (tool_replay (rp_struct (struct_pack Big ACTOR_FMT (actor_fields aid node)))) (\<lambda>b.
     Inr (fnv1a_update h b))"

definition store_hash :: "actor_store \<Rightarrow> tool_exc + nat" where
  "store_hash st =
     (let ordered = sort (map fst (as_slot st)) in
      rbind (tool_replay (rp_struct (struct_pack Big [FQ] [int (length ordered)]))) (\<lambda>b.
      rbind (rfold (\<lambda>h aid. hash_actor h aid (as_buf st (the (map_of (as_slot st) aid))))
               (fnv1a_update FNV_OFFSET b) ordered) (\<lambda>h.
      Inr (and h U64_MASK))))"

subsection \<open>Replay\<close>

fun apply_event ::
  "('m, 'f) sim_lib \<Rightarrow> 'm \<times> actor_store \<Rightarrow> replay_event \<Rightarrow> tool_exc + ('m \<times> actor_store)" where
  "apply_event lib (model, st) (SpawnEvent a x y z vx vy vz f) =
     rbind (store_spawn st (SpawnEvent a x y z vx vy vz f)) (\<lambda>st'. Inr (model, st'))"
| "apply_event lib (model, st) (MoveEvent a t x y z f) =
     store_apply_move lib model st (MoveEvent a t x y z f)"
| "apply_event lib (model, st) (DespawnEvent a) = Inr (model, store_despawn st (DespawnEvent a))"

text \<open>The inner \<open>while\<close>: the groups still to apply are \<open>groups[index:]\<close>.\<close>

fun apply_due ::
  "('m, 'f) sim_lib \<Rightarrow> int \<Rightarrow> 'm \<times> actor_store \<Rightarrow> tick_record list \<Rightarrow>
     tool_exc + (('m \<times> actor_store) \<times> tick_record list)" where
  "apply_due lib tick world [] = Inr (world, [])"
| "apply_due lib tick world (g # gs) =
     (if tr_tick g = tick
      then rbind (rfold (apply_event lib) world (tr_events g)) (\<lambda>world'. apply_due lib tick world' gs)
      else Inr (world, g # gs))"

definition emit_hash :: "int \<Rightarrow> int \<Rightarrow> actor_store \<Rightarrow> tool_exc + (int \<times> nat) list" where
  "emit_hash hash_every tick st =
     (if 0 < hash_every \<and> tick mod hash_every = 0
      then rbind (store_hash st) (\<lambda>h. Inr [(tick, h)]) else Inr [])"

fun replay_ticks ::
  "('m, 'f) sim_lib \<Rightarrow> int \<Rightarrow> int \<Rightarrow> int list \<Rightarrow> 'm \<times> actor_store \<Rightarrow> tick_record list \<Rightarrow>
     tool_exc + (int \<times> nat) list" where
  "replay_ticks lib dt_ms hash_every [] world gs = Inr []"
| "replay_ticks lib dt_ms hash_every (tick # ticks) world gs =
     rbind (apply_due lib tick world gs) (\<lambda>((model, st), gs').
     rbind (store_step lib model st dt_ms) (\<lambda>(model', st').
     rbind (emit_hash hash_every tick st') (\<lambda>out.
     rbind (replay_ticks lib dt_ms hash_every ticks (model', st') gs') (\<lambda>outs.
     Inr (out @ outs)))))"

definition tick_dt_ms :: "int \<Rightarrow> int" where
  "tick_dt_ms tick_hz = (1000 + tick_hz div 2) div tick_hz"

definition tick_limit :: "'f tool_args \<Rightarrow> tick_record list \<Rightarrow> int" where
  "tick_limit args groups =
     (case ta_ticks args of
        Some n \<Rightarrow> n
      | None \<Rightarrow> (if groups = [] then 0 else Max (set (map tr_tick groups))) + 1)"

definition replay ::
  "('m, 'f) sim_lib \<Rightarrow> tick_record list \<Rightarrow> 'f tool_args \<Rightarrow> int \<Rightarrow> tool_exc + (int \<times> nat) list" where
  "replay lib groups args tick_hz =
     rbind (create_sim lib) (\<lambda>_.
     rbind (create_model lib (ta_model args) (build_config lib args)) (\<lambda>model.
     rbind (case ta_behavior args of
              None \<Rightarrow> Inr model
            | Some path \<Rightarrow>
                let (code, model') = sl_load_behavior lib model path in
                rbind (check_rc code) (\<lambda>_. Inr model')) (\<lambda>model1.
     replay_ticks lib (tick_dt_ms tick_hz) (ta_hash_every args)
       (map int [0..<nat (tick_limit args groups)]) (model1, actor_store_init) groups)))"

subsection \<open>Expectations\<close>

fun parse_expect_lines ::
  "(nat \<Rightarrow> nat option) \<Rightarrow> nat \<Rightarrow> (int, int) dict \<Rightarrow> pystr list \<Rightarrow> tool_exc + (int, int) dict" where
  "parse_expect_lines nd lineno expected [] = Inr expected"
| "parse_expect_lines nd lineno expected (raw # raws) =
     (let line = py_strip raw in
      if skip_line line then parse_expect_lines nd (Suc lineno) expected raws
      else let tokens = py_split (py_replace_char 61 32 line) in
           if length tokens \<noteq> 4 \<or> tokens ! 0 \<noteq> pytext ''tick'' \<or> tokens ! 2 \<noteq> pytext ''hash''
           then Inl (RecordError (BadExpectLine lineno))
           else case py_int_hex nd (tokens ! 3) of
                  None \<Rightarrow> Inl ToolValueError
                | Some h \<Rightarrow>
                    (case py_int nd (tokens ! 1) of
                       None \<Rightarrow> Inl ToolValueError
                     | Some t \<Rightarrow> parse_expect_lines nd (Suc lineno) (AList.update t h expected) raws))"

definition load_expect_file :: "(nat \<Rightarrow> nat option) \<Rightarrow> bytes \<Rightarrow> tool_exc + (int, int) dict" where
  "load_expect_file nd data =
     rbind (read_text data) (\<lambda>s. parse_expect_lines nd 1 [] (py_splitlines s))"

definition compare_final_hash :: "(int \<times> nat) list \<Rightarrow> int \<Rightarrow> int" where
  "compare_final_hash hashes want =
     (if hashes = [] then 1 else if int (snd (last hashes)) \<noteq> want then 1 else 0)"

fun compare_emitted :: "(int \<times> nat) list \<Rightarrow> (int, int) dict \<Rightarrow> bool \<Rightarrow> int option" where
  "compare_emitted [] expected require_coverage = None"
| "compare_emitted ((tick, h) # hashes) expected require_coverage =
     (case map_of expected tick of
        None \<Rightarrow> if require_coverage then Some 1 else compare_emitted hashes expected require_coverage
      | Some want \<Rightarrow>
          if int h \<noteq> want then Some 1 else compare_emitted hashes expected require_coverage)"

definition compare_against_map :: "(int \<times> nat) list \<Rightarrow> (int, int) dict \<Rightarrow> bool \<Rightarrow> int" where
  "compare_against_map hashes expected require_coverage =
     (case compare_emitted hashes expected require_coverage of
        Some status \<Rightarrow> status
      | None \<Rightarrow>
          let missing = sort (filter (\<lambda>t. t \<notin> set (map fst hashes)) (map fst expected))
          in if missing \<noteq> [] then 1 else 0)"

definition hash_line :: "int \<times> nat \<Rightarrow> pystr" where
  "hash_line th = (case th of (tick, h) \<Rightarrow>
     pytext (''tick='' @ int_str tick @ '' hash='' @ hex_fixed 16 h))"

definition print_hashes :: "(int \<times> nat) list \<Rightarrow> bool \<Rightarrow> pystr list" where
  "print_hashes hashes quiet = (if quiet then [] else map hash_line hashes)"

subsection \<open>Modes\<close>

type_synonym files = "pystr \<Rightarrow> bytes option"

definition read_file :: "files \<Rightarrow> pystr \<Rightarrow> tool_exc + bytes" where
  "read_file fs path = (case fs path of None \<Rightarrow> Inl ToolOSError | Some b \<Rightarrow> Inr b)"

definition load_record ::
  "(nat \<Rightarrow> nat option) \<Rightarrow> bytes \<Rightarrow> tool_exc + (tick_record list \<times> replay_document option)" where
  "load_record nd data =
     (if sniff_is_binary data
      then rbind (tool_replay (read_document data)) (\<lambda>document. Inr (rd_ticks document, Some document))
      else rbind (parse_record nd data) (\<lambda>pairs. Inr (text_groups pairs, None)))"

definition resolve_tick_hz :: "'f tool_args \<Rightarrow> replay_document option \<Rightarrow> int" where
  "resolve_tick_hz args document =
     (case ta_tick_hz args of
        Some hz \<Rightarrow> hz
      | None \<Rightarrow> (case document of Some d \<Rightarrow> rh_tick_hz (rd_header d) | None \<Rightarrow> DEFAULT_TICK_HZ))"

definition expectation_map ::
  "(nat \<Rightarrow> nat option) \<Rightarrow> files \<Rightarrow> 'f tool_args \<Rightarrow> replay_document option \<Rightarrow> tool_exc + (int, int) dict" where
  "expectation_map nd fs args document =
     (case given (ta_expect_file args) of
        Some path \<Rightarrow> rbind (read_file fs path) (load_expect_file nd)
      | None \<Rightarrow>
          if given (ta_expect_hash args) \<noteq> None then Inr []
          else case document of
                 Some d \<Rightarrow> Inr (if rd_expected d \<noteq> [] then expectations (rd_expected d) else [])
               | None \<Rightarrow> Inr [])"

definition parse_expect_hash :: "(nat \<Rightarrow> nat option) \<Rightarrow> pystr \<Rightarrow> tool_exc + int" where
  "parse_expect_hash nd s = (case py_int_hex nd s of None \<Rightarrow> Inl ToolValueError | Some h \<Rightarrow> Inr h)"

text \<open>The result of a mode is the printed lines and the exit status.\<close>

definition run_play ::
  "(nat \<Rightarrow> nat option) \<Rightarrow> files \<Rightarrow> 'f tool_args \<Rightarrow> (int \<times> nat) list \<Rightarrow> tool_exc + (pystr list \<times> int)" where
  "run_play nd fs args hashes =
     (let out = print_hashes hashes (ta_quiet args) in
      case given (ta_expect_file args) of
        Some path \<Rightarrow>
          rbind (rbind (read_file fs path) (load_expect_file nd)) (\<lambda>expected.
          let status = compare_against_map hashes expected True in
          if status \<noteq> 0 then Inr (out, status) else Inr (out, 0))
      | None \<Rightarrow>
          (case given (ta_expect_hash args) of
             Some s \<Rightarrow> rbind (parse_expect_hash nd s) (\<lambda>want. Inr (out, compare_final_hash hashes want))
           | None \<Rightarrow> Inr (out, 0)))"

definition run_verify ::
  "(nat \<Rightarrow> nat option) \<Rightarrow> files \<Rightarrow> 'f tool_args \<Rightarrow> (int \<times> nat) list \<Rightarrow> replay_document option \<Rightarrow>
     tool_exc + (pystr list \<times> int)" where
  "run_verify nd fs args hashes document =
     rbind (expectation_map nd fs args document) (\<lambda>expected.
     if expected = [] \<and> given (ta_expect_hash args) = None then Inr ([], 2)
     else let out = print_hashes hashes (ta_quiet args) in
          case given (ta_expect_hash args) of
            Some s \<Rightarrow> rbind (parse_expect_hash nd s) (\<lambda>want. Inr (out, compare_final_hash hashes want))
          | None \<Rightarrow> Inr (out, compare_against_map hashes expected True))"

definition run_play_or_verify ::
  "(nat \<Rightarrow> nat option) \<Rightarrow> files \<Rightarrow> ('m, 'f) sim_lib \<Rightarrow> 'f tool_args \<Rightarrow> tool_exc + (pystr list \<times> int)" where
  "run_play_or_verify nd fs lib args =
     (if ta_command args = Verify \<and> ta_hash_every args \<le> 0 then Inr ([], 2)
      else
        rbind (rbind (read_file fs (ta_input args)) (load_record nd)) (\<lambda>(groups, document).
        if groups = [] then Inr ([], 1)
        else
          rbind (replay lib groups args (resolve_tick_hz args document)) (\<lambda>hashes.
          if ta_command args = Play then run_play nd fs args hashes
          else run_verify nd fs args hashes document)))"

definition text_document :: "tick_record list \<Rightarrow> replay_document" where
  "text_document groups =
     \<lparr>rd_header = \<lparr>rh_tick_hz = DEFAULT_TICK_HZ, rh_flags = 0\<rparr>, rd_meta = None, rd_ticks = groups,
      rd_expected = [], rd_checkpoints = []\<rparr>"

definition as_document :: "tick_record list \<times> replay_document option \<Rightarrow> replay_document" where
  "as_document gd = (case gd of (groups, Some d) \<Rightarrow> d | (groups, None) \<Rightarrow> text_document groups)"

definition run_diff ::
  "(nat \<Rightarrow> nat option) \<Rightarrow> (json \<Rightarrow> json \<Rightarrow> bool) \<Rightarrow> files \<Rightarrow> 'f tool_args \<Rightarrow> tool_exc + (difference list \<times> int)" where
  "run_diff nd feq fs args =
     rbind (rbind (read_file fs (ta_input args)) (load_record nd)) (\<lambda>left.
     rbind (rbind (read_file fs (ta_input_b args)) (load_record nd)) (\<lambda>right.
     let differences = diff_documents feq (as_document left) (as_document right) in
     Inr (differences, if differences = [] then 0 else 1)))"

definition transcode_document ::
  "pystr \<Rightarrow> int \<Rightarrow> (int, int) dict \<Rightarrow> tick_record list \<Rightarrow> replay_document" where
  "transcode_document model tick_hz expected groups =
     \<lparr>rd_header = \<lparr>rh_tick_hz = tick_hz, rh_flags = 0\<rparr>,
      rd_meta = Some [(pytext ''model'', JStr model)],
      rd_ticks = groups,
      rd_expected = map (\<lambda>(t, h). ExpectedHash t h) (sort expected),
      rd_checkpoints = []\<rparr>"

definition run_transcode ::
  "(nat \<Rightarrow> nat option) \<Rightarrow> files \<Rightarrow> 'f tool_args \<Rightarrow> tool_exc + (bytes option \<times> int)" where
  "run_transcode nd fs args =
     rbind (read_file fs (ta_input args)) (\<lambda>data.
     if sniff_is_binary data then Inr (None, 2)
     else
       rbind (parse_record nd data) (\<lambda>pairs.
       let groups = text_groups pairs in
       if groups = [] then Inr (None, 1)
       else
         rbind (case given (ta_expectations_from args) of
                  Some path \<Rightarrow> rbind (read_file fs path) (load_expect_file nd)
                | None \<Rightarrow> Inr []) (\<lambda>expected.
         let document = transcode_document (ta_model args)
                          (case ta_tick_hz args of Some hz \<Rightarrow> hz | None \<Rightarrow> DEFAULT_TICK_HZ) expected groups in
         rbind (tool_replay (encode_document document)) (\<lambda>b. Inr (Some b, 0)))))"

text \<open>\<open>main\<close> after argument parsing: the two range checks, the mode, and the translation of the three
  exceptions it catches. An exception it does not catch leaves through \<open>Inl\<close>.\<close>

definition exit_contract :: "tool_exc + int \<Rightarrow> tool_exc + int" where
  "exit_contract r =
     (case r of
        Inr status \<Rightarrow> Inr status
      | Inl (KithSimError e) \<Rightarrow> Inr 1
      | Inl (RecordError e) \<Rightarrow> Inr 2
      | Inl (ToolReplay (ReplayFormatError e)) \<Rightarrow> Inr 2
      | Inl e \<Rightarrow> Inl e)"

definition tool_main ::
  "(nat \<Rightarrow> nat option) \<Rightarrow> (json \<Rightarrow> json \<Rightarrow> bool) \<Rightarrow> files \<Rightarrow> ('m, 'f) sim_lib \<Rightarrow> 'f tool_args \<Rightarrow> tool_exc + int" where
  "tool_main nd feq fs lib args =
     (if (case ta_tick_hz args of Some hz \<Rightarrow> hz \<le> 0 | None \<Rightarrow> False) then Inr 2
      else if ta_hash_every args < 0 then Inr 2
      else exit_contract
        (case ta_command args of
           Diff \<Rightarrow> rbind (run_diff nd feq fs args) (\<lambda>(ds, status). Inr status)
         | Transcode \<Rightarrow> rbind (run_transcode nd fs args) (\<lambda>(b, status). Inr status)
         | _ \<Rightarrow> rbind (run_play_or_verify nd fs lib args) (\<lambda>(out, status). Inr status)))"

end
