(* ===== verification/ActorWorld.thy ===== *)
theory ActorWorld
  imports ReplayTool
begin

text \<open>
  The replay tool's actor store against a map from ids to actors. The locale \<open>actor_table\<close> is what the
  replay relies on; \<open>dense_store\<close> interprets it with the dense array, its id-to-slot dictionary and the
  swap-removal of \<open>despawn\<close>. \<open>apply_event_world\<close> lifts it to events, \<open>store_hash_world\<close> shows that the
  rolling hash depends on the map only.
\<close>

subsection \<open>The contract of an actor table\<close>

text \<open>What the replay needs of the store: a finite map from actor ids to actors, with a capacity.\<close>

locale actor_table =
  fixes wf :: "'s \<Rightarrow> bool"
    and view :: "'s \<Rightarrow> int \<rightharpoonup> sim_actor"
    and spawn :: "'s \<Rightarrow> replay_event \<Rightarrow> tool_exc + 's"
    and despawn :: "'s \<Rightarrow> replay_event \<Rightarrow> 's"
    and cap :: nat
  assumes spawn_view: "wf s \<Longrightarrow> fmt_fits FQ (ev_actor_id e) \<Longrightarrow> is_SpawnEvent e \<Longrightarrow>
      (case spawn s e of
         Inl x \<Rightarrow> x = (if view s (ev_actor_id e) \<noteq> None then RecordError (ActorExists (ev_actor_id e))
                        else KithSimError ActorCapacity) \<and>
                  (view s (ev_actor_id e) \<noteq> None \<or> cap \<le> card (dom (view s)))
       | Inr s' \<Rightarrow> wf s' \<and> view s (ev_actor_id e) = None \<and> card (dom (view s)) < cap \<and>
                   view s' = (view s)(ev_actor_id e \<mapsto> spawn_actor e))"
    and despawn_view: "wf s \<Longrightarrow> wf (despawn s e) \<and> view (despawn s e) = (view s)(ev_actor_id e := None)"
begin

lemma despawn_undoes_spawn:
  assumes "wf s" "fmt_fits FQ (ev_actor_id e)" "is_SpawnEvent e" "spawn s e = Inr s'"
    and "ev_actor_id d = ev_actor_id e"
  shows "view (despawn s' d) = view s"
proof -
  have "wf s'" "view s (ev_actor_id e) = None" "view s' = (view s)(ev_actor_id e \<mapsto> spawn_actor e)"
    using spawn_view [OF assms(1-3)] assms(4) by simp_all
  then show ?thesis using despawn_view [of s' d] assms(5) by auto
qed

lemma respawn_refused:
  assumes "wf s" "fmt_fits FQ (ev_actor_id e)" "is_SpawnEvent e" "spawn s e = Inr s'"
  shows "spawn s' e = Inl (RecordError (ActorExists (ev_actor_id e)))"
proof -
  have "wf s'" "view s' (ev_actor_id e) \<noteq> None"
    using spawn_view [OF assms(1-3)] assms(4) by auto
  then show ?thesis using spawn_view [of s' e] assms(2,3) by (auto split: sum.splits)
qed

lemma spawn_wf: "wf s \<Longrightarrow> fmt_fits FQ (ev_actor_id e) \<Longrightarrow> is_SpawnEvent e \<Longrightarrow> spawn s e = Inr s' \<Longrightarrow> wf s'"
  using spawn_view [of s e] by auto

end

subsection \<open>The dense store is such a table\<close>

definition store_inv :: "actor_store \<Rightarrow> bool" where
  "store_inv st \<longleftrightarrow>
     distinct (map fst (as_slot st)) \<and> distinct (map snd (as_slot st)) \<and>
     set (map snd (as_slot st)) = {..<as_live st} \<and> as_live st \<le> MAX_ACTORS \<and>
     (\<forall>(aid, i) \<in> set (as_slot st). uint (sa_id (as_buf st i)) = aid)"

definition world_of :: "actor_store \<Rightarrow> int \<rightharpoonup> sim_actor" where
  "world_of st = (\<lambda>aid. map_option (as_buf st) (map_of (as_slot st) aid))"

lemma dom_world_of: "dom (world_of st) = fst ` set (as_slot st)"
  by (auto simp: world_of_def dom_def) (metis domI domIff dom_map_of_conv_image_fst option.exhaust image_eqI fst_conv)+

lemma length_slot: "store_inv st \<Longrightarrow> length (as_slot st) = as_live st"
  using distinct_card [of "map snd (as_slot st)"] by (simp add: store_inv_def)

lemma card_world_of: "store_inv st \<Longrightarrow> card (dom (world_of st)) = as_live st"
proof -
  assume inv: "store_inv st"
  then have "card (set (map fst (as_slot st))) = length (as_slot st)"
    using distinct_card [of "map fst (as_slot st)"] by (simp add: store_inv_def)
  then show ?thesis using length_slot [OF inv] by (simp add: dom_world_of)
qed

lemma slot_bound: "store_inv st \<Longrightarrow> map_of (as_slot st) aid = Some i \<Longrightarrow> i < as_live st"
proof -
  assume inv: "store_inv st" and m: "map_of (as_slot st) aid = Some i"
  have "i \<in> snd ` set (as_slot st)" by (rule image_eqI [OF _ map_of_SomeD [OF m]]) simp
  then show "i < as_live st" using inv by (simp add: store_inv_def)
qed

lemma slot_id: "store_inv st \<Longrightarrow> map_of (as_slot st) aid = Some i \<Longrightarrow> uint (sa_id (as_buf st i)) = aid"
  by (drule map_of_SomeD) (auto simp: store_inv_def)

lemma slot_inj:
  assumes "store_inv st" "(a, i) \<in> set (as_slot st)" "(b, i) \<in> set (as_slot st)"
  shows "a = b"
proof -
  have "uint (sa_id (as_buf st i)) = a" "uint (sa_id (as_buf st i)) = b"
    using assms by (auto simp: store_inv_def)
  then show ?thesis by simp
qed

lemma slot_of_index:
  assumes "store_inv st" "i < as_live st"
  shows "(uint (sa_id (as_buf st i)), i) \<in> set (as_slot st)"
proof -
  have "i \<in> set (map snd (as_slot st))" using assms by (simp add: store_inv_def)
  then obtain a where a: "(a, i) \<in> set (as_slot st)" by auto
  then show ?thesis using assms(1) by (auto simp: store_inv_def)
qed

lemma uint_actor_id: "fmt_fits FQ a \<Longrightarrow> uint (word_of_int a :: 64 word) = a"
  by (simp add: fmt_fits_def uint_word_of_int)

lemma store_spawn_inv:
  assumes inv: "store_inv st" and id: "fmt_fits FQ (ev_actor_id e)" and sp: "is_SpawnEvent e"
    and r: "store_spawn st e = Inr st'"
  shows "store_inv st' \<and> world_of st (ev_actor_id e) = None \<and> as_live st < MAX_ACTORS \<and>
         world_of st' = (world_of st)(ev_actor_id e \<mapsto> spawn_actor e)"
proof -
  let ?a = "ev_actor_id e" and ?n = "as_live st"
  have new: "?a \<notin> fst ` set (as_slot st)" and cap: "?n < MAX_ACTORS"
    and st': "st' = st\<lparr>as_buf := (as_buf st)(?n := spawn_actor e),
             as_slot := as_slot st @ [(?a, ?n)], as_live := ?n + 1\<rparr>"
    using r by (auto simp: store_spawn_def rbind_eq_Inr dict_set_new Let_def)
  have idx: "i < ?n" if "(a, i) \<in> set (as_slot st)" for a i
  proof -
    have "i \<in> snd ` set (as_slot st)" by (rule image_eqI [OF _ that]) simp
    then show ?thesis using inv by (simp add: store_inv_def)
  qed
  have sid: "uint (sa_id (spawn_actor e)) = ?a" using sp id by (cases e) (simp_all add: uint_actor_id)
  have inv': "store_inv st'"
    using inv new cap idx sid
    by (auto simp: store_inv_def st' lessThan_Suc)
  have none: "map_of (as_slot st) ?a = None" using new by (simp add: map_of_eq_None_iff)
  have "world_of st' = (world_of st)(?a \<mapsto> spawn_actor e)"
  proof
    fix aid
    show "world_of st' aid = ((world_of st)(?a \<mapsto> spawn_actor e)) aid"
    proof (cases "map_of (as_slot st) aid")
      case (Some i)
      then have "i < ?n" "aid \<noteq> ?a" using slot_bound [OF inv] none by auto
      then show ?thesis using Some by (auto simp: world_of_def st' map_add_def)
    qed (auto simp: world_of_def st' map_add_def)
  qed
  then show ?thesis using inv' cap none by (simp add: world_of_def)
qed

lemma distinct_fst_delete_update:
  "distinct (map fst d) \<Longrightarrow> distinct (map fst (AList.update k v (AList.delete k' d)))"
  by (simp add: dict_distinct_set dict_distinct_pop)

lemma set_delete: "set (AList.delete k d) = {(a, i) \<in> set d. a \<noteq> k}"
  by (auto simp: AList.delete_eq)

lemma set_update_distinct:
  "distinct (map fst d) \<Longrightarrow> set (AList.update k v d) = insert (k, v) {(a, i) \<in> set d. a \<noteq> k}"
proof -
  assume d: "distinct (map fst d)"
  have d': "distinct (map fst (AList.update k v d))" by (rule dict_distinct_set [OF d])
  have "(a, i) \<in> set (AList.update k v d) \<longleftrightarrow> (a, i) \<in> insert (k, v) {(a, i) \<in> set d. a \<noteq> k}" for a i
    using map_of_distinct_iff [OF d', of a i] map_of_distinct_iff [OF d, of a i] by (cases "a = k") auto
  then show ?thesis by auto
qed

lemma store_invI:
  assumes "distinct (map fst slot)" "snd ` set slot = {..<live}" "live \<le> MAX_ACTORS"
    and "\<forall>(aid, i) \<in> set slot. uint (sa_id (buf i)) = aid"
  shows "store_inv \<lparr>as_buf = buf, as_slot = slot, as_live = live\<rparr>"
proof -
  have "inj_on snd (set slot)"
  proof (rule inj_onI)
    fix x y assume xy: "x \<in> set slot" "y \<in> set slot" "snd x = snd y"
    obtain a i b j where "x = (a, i)" "y = (b, j)" by (cases x; cases y)
    then show "x = y" using xy bspec [OF assms(4) xy(1)] bspec [OF assms(4) xy(2)] by auto
  qed
  moreover have "distinct slot" using assms(1) by (simp add: distinct_map)
  ultimately show ?thesis using assms by (simp add: store_inv_def distinct_map)
qed

lemma store_despawn_absent:
  "map_of (as_slot st) (ev_actor_id e) = None \<Longrightarrow>
   store_despawn st e = st \<and> world_of st = (world_of st)(ev_actor_id e := None)"
  by (auto simp: store_despawn_def world_of_def)

lemma store_despawn_last:
  assumes inv: "store_inv st" and m: "map_of (as_slot st) (ev_actor_id e) = Some (as_live st - 1)"
  shows "store_inv (store_despawn st e) \<and> world_of (store_despawn st e) = (world_of st)(ev_actor_id e := None)"
proof -
  let ?a = "ev_actor_id e" and ?f = "as_live st - 1"
  have am: "(?a, ?f) \<in> set (as_slot st)" by (rule map_of_SomeD [OF m])
  have live: "as_live st = Suc ?f" using slot_bound [OF inv m] by simp
  have d: "store_despawn st e = \<lparr>as_buf = as_buf st, as_slot = AList.delete ?a (as_slot st), as_live = ?f\<rparr>"
    using m by (simp add: store_despawn_def Let_def)
  have others: "c \<noteq> ?a \<longleftrightarrow> i \<noteq> ?f" if "(c, i) \<in> set (as_slot st)" for c i
  proof
    assume "c \<noteq> ?a"
    then show "i \<noteq> ?f" using slot_inj [OF inv that] am by blast
  next
    assume "i \<noteq> ?f"
    moreover have "map_of (as_slot st) c = Some i" using that inv by (simp add: store_inv_def)
    ultimately show "c \<noteq> ?a" using m by auto
  qed
  have snds: "snd ` set (AList.delete ?a (as_slot st)) = {..<?f}"
  proof -
    have "snd ` set (AList.delete ?a (as_slot st)) = snd ` set (as_slot st) - {?f}"
      unfolding set_delete using others am by force
    then show ?thesis using inv live by (auto simp: store_inv_def)
  qed
  have "store_inv \<lparr>as_buf = as_buf st, as_slot = AList.delete ?a (as_slot st), as_live = ?f\<rparr>"
    by (rule store_invI) (use inv snds in \<open>auto simp: store_inv_def set_delete dict_distinct_pop\<close>)
  then show ?thesis unfolding d by (auto simp: world_of_def)
qed

lemma store_despawn_swap:
  assumes inv: "store_inv st" and m: "map_of (as_slot st) (ev_actor_id e) = Some idx"
    and ne: "idx \<noteq> as_live st - 1"
  shows "store_inv (store_despawn st e) \<and> world_of (store_despawn st e) = (world_of st)(ev_actor_id e := None)"
proof -
  let ?a = "ev_actor_id e" and ?f = "as_live st - 1"
  define b where "b = uint (sa_id (as_buf st ?f))"
  define buf where "buf = (as_buf st)(idx := as_buf st ?f)"
  define slot where "slot = AList.update b idx (AList.delete ?a (as_slot st))"
  have am: "(?a, idx) \<in> set (as_slot st)" by (rule map_of_SomeD [OF m])
  have lt: "idx < as_live st" by (rule slot_bound [OF inv m])
  have bm: "(b, ?f) \<in> set (as_slot st)" unfolding b_def by (rule slot_of_index [OF inv]) (use lt in simp)
  have df: "distinct (map fst (as_slot st))" using inv by (simp add: store_inv_def)
  have bf: "map_of (as_slot st) b = Some ?f" using bm df by simp
  have ab: "b \<noteq> ?a" using bf m ne by auto
  have d: "store_despawn st e = \<lparr>as_buf = buf, as_slot = slot, as_live = ?f\<rparr>"
    using m ne by (simp add: store_despawn_def Let_def buf_def slot_def b_def)
  have ss: "set slot = insert (b, idx) {(c, i) \<in> set (as_slot st). c \<noteq> ?a \<and> c \<noteq> b}"
    unfolding slot_def set_update_distinct [OF dict_distinct_pop [OF df]] set_delete by auto
  have rest: "i \<noteq> idx \<and> i \<noteq> ?f" if "(c, i) \<in> set (as_slot st)" "c \<noteq> ?a" "c \<noteq> b" for c i
    using slot_inj [OF inv that(1)] am bm that(2,3) by blast
  have ids: "\<forall>(c, i) \<in> set slot. uint (sa_id (buf i)) = c"
    using inv rest by (auto simp: ss buf_def b_def store_inv_def)
  have snds: "snd ` set slot = {..<?f}"
  proof (rule set_eqI)
    fix i
    show "i \<in> snd ` set slot \<longleftrightarrow> i \<in> {..<?f}"
    proof
      assume "i \<in> snd ` set slot"
      then consider "i = idx" | c where "(c, i) \<in> set (as_slot st)" "c \<noteq> ?a" "c \<noteq> b" unfolding ss by auto
      then show "i \<in> {..<?f}"
      proof cases
        case 2
        have "map_of (as_slot st) c = Some i" using 2(1) df by simp
        then have "i < as_live st" by (rule slot_bound [OF inv])
        then show ?thesis using rest [OF 2] by auto
      qed (use lt ne in simp)
    next
      assume i: "i \<in> {..<?f}"
      show "i \<in> snd ` set slot"
      proof (cases "i = idx")
        case False
        let ?c = "uint (sa_id (as_buf st i))"
        have c: "(?c, i) \<in> set (as_slot st)" by (rule slot_of_index [OF inv]) (use i in simp)
        then have mc: "map_of (as_slot st) ?c = Some i" using df by simp
        have "?c \<noteq> ?a" "?c \<noteq> b" using mc m bf False i by auto
        then show ?thesis unfolding ss using c by force
      qed (simp add: ss)
    qed
  qed
  have inv': "store_inv (store_despawn st e)"
    unfolding d by (rule store_invI) (use snds ids inv lt df in
      \<open>auto simp: slot_def distinct_fst_delete_update store_inv_def\<close>)
  have "world_of (store_despawn st e) = (world_of st)(?a := None)"
  proof
    fix c
    show "world_of (store_despawn st e) c = ((world_of st)(?a := None)) c"
    proof (cases "c = ?a \<or> c = b")
      case True
      then show ?thesis using ab bf by (auto simp: d world_of_def slot_def buf_def)
    next
      case False
      show ?thesis
      proof (cases "map_of (as_slot st) c")
        case (Some i)
        have "i \<noteq> idx" using rest [OF map_of_SomeD [OF Some]] False by simp
        then show ?thesis using False Some by (simp add: d world_of_def slot_def buf_def)
      qed (use False in \<open>simp add: d world_of_def slot_def\<close>)
    qed
  qed
  with inv' show ?thesis by simp
qed

lemma store_despawn_view:
  assumes "store_inv st"
  shows "store_inv (store_despawn st e) \<and> world_of (store_despawn st e) = (world_of st)(ev_actor_id e := None)"
proof (cases "map_of (as_slot st) (ev_actor_id e)")
  case None
  then show ?thesis using store_despawn_absent [OF None] assms by auto
next
  case (Some i)
  then show ?thesis
    using store_despawn_last [OF assms] store_despawn_swap [OF assms Some] by (cases "i = as_live st - 1") auto
qed

lemma store_spawn_refused:
  assumes "store_inv st" "store_spawn st e = Inl x"
  shows "x = (if world_of st (ev_actor_id e) \<noteq> None then RecordError (ActorExists (ev_actor_id e))
              else KithSimError ActorCapacity) \<and>
         (world_of st (ev_actor_id e) \<noteq> None \<or> MAX_ACTORS \<le> as_live st)"
proof -
  have "world_of st (ev_actor_id e) \<noteq> None \<longleftrightarrow> ev_actor_id e \<in> fst ` set (as_slot st)"
    using dom_world_of [of st] by (auto simp: dom_def)
  then show ?thesis
    using assms(2) by (auto simp: store_spawn_def Let_def rguard_def split: if_splits)
qed

interpretation dense_store: actor_table store_inv world_of store_spawn store_despawn MAX_ACTORS
proof (unfold_locales, goal_cases)
  case (1 s e)
  then show ?case
    using store_spawn_inv [OF 1] store_spawn_refused [OF 1(1)] card_world_of [OF 1(1)]
    by (cases "store_spawn s e") auto
next
  case (2 s e)
  then show ?case by (rule store_despawn_view)
qed

lemma store_init_inv: "store_inv actor_store_init" and world_of_init: "world_of actor_store_init = Map.empty"
  by (auto simp: store_inv_def actor_store_init_def world_of_def)

subsection \<open>Events on the world\<close>

text \<open>What an event means, without slots: the world is a map from ids to actors.\<close>

definition world_spawn :: "(int \<rightharpoonup> sim_actor) \<Rightarrow> replay_event \<Rightarrow> tool_exc + (int \<rightharpoonup> sim_actor)" where
  "world_spawn w e =
     (if w (ev_actor_id e) \<noteq> None then Inl (RecordError (ActorExists (ev_actor_id e)))
      else if MAX_ACTORS \<le> card (dom w) then Inl (KithSimError ActorCapacity)
      else Inr (w(ev_actor_id e \<mapsto> spawn_actor e)))"

definition world_move ::
  "('m, 'f) sim_lib \<Rightarrow> 'm \<Rightarrow> (int \<rightharpoonup> sim_actor) \<Rightarrow> replay_event \<Rightarrow> tool_exc + ('m \<times> (int \<rightharpoonup> sim_actor))" where
  "world_move lib m w e =
     (case w (ev_actor_id e) of
        None \<Rightarrow> Inl (RecordError (ActorNotSpawned (ev_actor_id e)))
      | Some actor \<Rightarrow>
          let (code, m', actor') = sl_apply_input lib m actor (move_input e) in
          rbind (check_rc code) (\<lambda>_. Inr (m', w(ev_actor_id e \<mapsto> actor'))))"

definition world_event ::
  "('m, 'f) sim_lib \<Rightarrow> 'm \<times> (int \<rightharpoonup> sim_actor) \<Rightarrow> replay_event \<Rightarrow> tool_exc + ('m \<times> (int \<rightharpoonup> sim_actor))" where
  "world_event lib mw e =
     (if is_SpawnEvent e then rbind (world_spawn (snd mw) e) (\<lambda>w. Inr (fst mw, w))
      else if is_MoveEvent e then world_move lib (fst mw) (snd mw) e
      else Inr (fst mw, (snd mw)(ev_actor_id e := None)))"

text \<open>The library writes positions, velocities and input ticks, never an actor's id.\<close>

definition keeps_ids :: "('m, 'f) sim_lib \<Rightarrow> bool" where
  "keeps_ids lib \<longleftrightarrow>
     (\<forall>m a i. sa_id (snd (snd (sl_apply_input lib m a i))) = sa_id a) \<and>
     (\<forall>m as dt. map sa_id (snd (snd (sl_step lib m as dt))) = map sa_id as)"

lemma store_write:
  assumes inv: "store_inv st" and m: "map_of (as_slot st) aid = Some i" and s: "sa_id a = sa_id (as_buf st i)"
  shows "store_inv (st\<lparr>as_buf := (as_buf st)(i := a)\<rparr>)"
    and "world_of (st\<lparr>as_buf := (as_buf st)(i := a)\<rparr>) = (world_of st)(aid \<mapsto> a)"
proof -
  show "store_inv (st\<lparr>as_buf := (as_buf st)(i := a)\<rparr>)"
    using inv s by (auto simp: store_inv_def)
  show "world_of (st\<lparr>as_buf := (as_buf st)(i := a)\<rparr>) = (world_of st)(aid \<mapsto> a)"
  proof
    fix c
    show "world_of (st\<lparr>as_buf := (as_buf st)(i := a)\<rparr>) c = ((world_of st)(aid \<mapsto> a)) c"
    proof (cases "map_of (as_slot st) c")
      case (Some j)
      then have "j = i \<longleftrightarrow> c = aid"
        using slot_inj [OF inv, of c i aid] map_of_SomeD [OF m] map_of_SomeD [OF Some] m by auto
      then show ?thesis using Some by (simp add: world_of_def)
    qed (use m in \<open>auto simp: world_of_def\<close>)
  qed
qed

abbreviation to_world :: "tool_exc + ('m \<times> actor_store) \<Rightarrow> tool_exc + ('m \<times> (int \<rightharpoonup> sim_actor))" where
  "to_world r \<equiv> map_sum id (map_prod id world_of) r"

lemma apply_event_world:
  assumes lib: "keeps_ids lib" and inv: "store_inv st" and id: "fmt_fits FQ (ev_actor_id e)"
  shows "to_world (apply_event lib (m, st) e) = world_event lib (m, world_of st) e"
    and "apply_event lib (m, st) e = Inr (m', st') \<Longrightarrow> store_inv st'"
proof -
  have "to_world (apply_event lib (m, st) e) = world_event lib (m, world_of st) e \<and>
    (\<forall>m' st'. apply_event lib (m, st) e = Inr (m', st') \<longrightarrow> store_inv st')"
  proof (cases "is_SpawnEvent e")
    case True
    have ap: "apply_event lib (m, st) e = rbind (store_spawn st e) (\<lambda>st'. Inr (m, st'))"
      using True by (cases e) simp_all
    show ?thesis
      using dense_store.spawn_view [OF inv id True] True
      unfolding ap world_event_def world_spawn_def
      by (cases "store_spawn st e") (auto simp: not_le)
  next
    case False
    show ?thesis
    proof (cases "is_MoveEvent e")
      case True
      have ap: "apply_event lib (m, st) e = store_apply_move lib m st e" using True by (cases e) simp_all
      show ?thesis
      proof (cases "map_of (as_slot st) (ev_actor_id e)")
        case None
        then show ?thesis using True False
          by (simp add: ap world_event_def store_apply_move_def world_move_def world_of_def)
      next
        case (Some i)
        obtain code m1 a where r: "sl_apply_input lib m (as_buf st i) (move_input e) = (code, m1, a)"
          by (cases "sl_apply_input lib m (as_buf st i) (move_input e)") auto
        have "sa_id a = sa_id (as_buf st i)"
          using lib r unfolding keeps_ids_def by (metis snd_conv)
        note w = store_write [OF inv Some this]
        have wi: "world_of st (ev_actor_id e) = Some (as_buf st i)" using Some by (simp add: world_of_def)
        show ?thesis
          using w False True Some r
          by (simp add: ap world_event_def store_apply_move_def world_move_def wi check_rc_def)
      qed
    next
      case nm: False
      have ap: "apply_event lib (m, st) e = Inr (m, store_despawn st e)"
        using False nm by (cases e) simp_all
      show ?thesis
        using dense_store.despawn_view [OF inv, of e] False nm by (simp add: ap world_event_def)
    qed
  qed
  then show "to_world (apply_event lib (m, st) e) = world_event lib (m, world_of st) e"
    and "apply_event lib (m, st) e = Inr (m', st') \<Longrightarrow> store_inv st'" by auto
qed

lemma apply_events_world:
  assumes "keeps_ids lib" "store_inv st" "\<forall>e \<in> set es. fmt_fits FQ (ev_actor_id e)"
  shows "to_world (rfold (apply_event lib) (m, st) es) = rfold (world_event lib) (m, world_of st) es \<and>
    (\<forall>m' st'. rfold (apply_event lib) (m, st) es = Inr (m', st') \<longrightarrow> store_inv st')"
  using assms(2,3)
proof (induction es arbitrary: m st)
  case (Cons e es)
  note ev = apply_event_world [OF assms(1) Cons.prems(1), of e m]
  have idok: "fmt_fits FQ (ev_actor_id e)" using Cons.prems(2) by simp
  show ?case
  proof (cases "apply_event lib (m, st) e")
    case (Inl x)
    then have "world_event lib (m, world_of st) e = Inl x" using ev(1) [OF idok] by simp
    then show ?thesis using Inl by simp
  next
    case (Inr ms)
    obtain m1 st1 where ms: "ms = (m1, st1)" by (cases ms)
    have w: "world_event lib (m, world_of st) e = Inr (m1, world_of st1)" using ev(1) [OF idok] Inr ms by simp
    have "store_inv st1" using ev(2) [OF idok] Inr ms by simp
    then show ?thesis using Cons.IH [of st1 m1] Cons.prems(2) Inr ms w by simp
  qed
qed simp

lemma store_step_inv:
  assumes "keeps_ids lib" "store_inv st" "store_step lib m st dt = Inr (m', st')"
  shows "store_inv st'" and "dom (world_of st') = dom (world_of st)"
proof -
  have "store_inv st' \<and> as_slot st' = as_slot st"
  proof (cases "as_live st = 0")
    case False
    obtain code m1 as where r: "sl_step lib m (live_actors st) (word_of_int dt) = (code, m1, as)"
      by (cases "sl_step lib m (live_actors st) (word_of_int dt)") auto
    have st': "st' = st\<lparr>as_buf := (\<lambda>i. if i < as_live st \<and> i < length as then as ! i else as_buf st i)\<rparr>"
      using assms(3) False r by (auto simp: store_step_def rbind_eq_Inr)
    have ids: "map sa_id as = map sa_id (live_actors st)"
      using assms(1) r unfolding keeps_ids_def by (metis snd_conv)
    have "sa_id (as_buf st' i) = sa_id (as_buf st i)" for i
      using ids by (auto simp: st' live_actors_def list_eq_iff_nth_eq)
    then show ?thesis using assms(2) by (simp add: store_inv_def st')
  qed (use assms in \<open>simp add: store_step_def\<close>)
  then show "store_inv st'" and "dom (world_of st') = dom (world_of st)" by (simp_all add: dom_world_of)
qed

subsection \<open>The hash is a function of the world\<close>

definition world_hash :: "(int \<rightharpoonup> sim_actor) \<Rightarrow> nat" where
  "world_hash w =
     and (fold (\<lambda>aid h. fnv1a_update h (concat (map2 (pack_field Big) ACTOR_FMT (actor_fields aid (the (w aid))))))
            (sorted_list_of_set (dom w))
            (fnv1a_update FNV_OFFSET (pack_field Big FQ (int (card (dom w)))))) U64_MASK"

lemma fits_actor: "fmt_fits FQ aid \<Longrightarrow> fits_all ACTOR_FMT (actor_fields aid node)"
proof -
  assume "fmt_fits FQ aid"
  moreover have "fmt_fits Fq (sint (x :: 64 word))" for x
    using sint_range_size [of x] by (simp add: fmt_fits_def word_size)
  moreover have "fmt_fits FI (uint (x :: 32 word))" for x
    using uint_lt2p [of x] by (simp add: fmt_fits_def)
  ultimately show ?thesis by (simp add: ACTOR_FMT_def actor_fields_def)
qed

lemma hash_actor_total:
  "fmt_fits FQ aid \<Longrightarrow> hash_actor h aid node =
     Inr (fnv1a_update h (concat (map2 (pack_field Big) ACTOR_FMT (actor_fields aid node))))"
  by (simp add: hash_actor_def struct_pack_fits [OF fits_actor] tool_replay_def)

lemma slot_ids_fit: "store_inv st \<Longrightarrow> aid \<in> fst ` set (as_slot st) \<Longrightarrow> fmt_fits FQ aid"
proof -
  assume "store_inv st" "aid \<in> fst ` set (as_slot st)"
  then obtain i where "uint (sa_id (as_buf st i)) = aid" by (auto simp: store_inv_def)
  then show ?thesis using uint_lt2p [of "sa_id (as_buf st i)"] by (auto simp: fmt_fits_def)
qed

lemma store_hash_world:
  assumes inv: "store_inv st"
  shows "store_hash st = Inr (world_hash (world_of st))"
proof -
  let ?ids = "sort (map fst (as_slot st))"
  let ?f = "\<lambda>h aid. fnv1a_update h (concat (map2 (pack_field Big) ACTOR_FMT (actor_fields aid (the (world_of st aid)))))"
  have d: "distinct (map fst (as_slot st))" using inv by (simp add: store_inv_def)
  have ids: "?ids = sorted_list_of_set (dom (world_of st))"
    using d by (simp add: dom_world_of sorted_list_of_set_sort_remdups distinct_remdups_id flip: set_map)
  have len: "length ?ids = card (dom (world_of st))" using card_world_of [OF inv] length_slot [OF inv] by simp
  have "as_live st \<le> 65536" using inv by (simp add: store_inv_def MAX_ACTORS_def)
  then have "fmt_fits FQ (int (length ?ids))" using length_slot [OF inv] by (simp add: fmt_fits_def)
  then have p: "struct_pack Big [FQ] [int (length ?ids)] = Inr (pack_field Big FQ (int (length ?ids)))"
    by (simp add: struct_pack_fits del: struct_pack.simps)
  have h: "hash_actor h aid (as_buf st (the (map_of (as_slot st) aid))) = Inr (?f h aid)"
    if "aid \<in> set ?ids" for h aid
  proof -
    have k: "aid \<in> fst ` set (as_slot st)" using that by simp
    then obtain i where "map_of (as_slot st) aid = Some i" by (metis domD dom_map_of_conv_image_fst)
    then show ?thesis
      using hash_actor_total [OF slot_ids_fit [OF inv k]] by (simp add: world_of_def)
  qed
  have "rfold (\<lambda>h aid. hash_actor h aid (as_buf st (the (map_of (as_slot st) aid)))) h0 xs
      = Inr (fold (\<lambda>aid h. ?f h aid) xs h0)" if "set xs \<subseteq> set ?ids" for h0 xs
    using that h by (induction xs arbitrary: h0) auto
  then show ?thesis
    unfolding store_hash_def Let_def p
    by (simp add: tool_replay_def world_hash_def len ids del: struct_pack.simps)
qed

lemma U64_MASK_mask: "U64_MASK = mask 64"
  by (simp add: U64_MASK_def mask_eq_exp_minus_1)

lemma world_hash_bound: "world_hash w < 2 ^ 64"
  unfolding world_hash_def U64_MASK_mask take_bit_eq_mask [symmetric] by (rule take_bit_nat_less_exp)

end
