(* ===== verification/ReplayToolLaws.thy ===== *)
theory ReplayToolLaws
  imports ActorWorld
begin

text \<open>
  The replay loop, expectations, text records, transcoding and the exit contract of the replay tool.
  The properties are at the end.
\<close>

subsection \<open>The replay loop applies every event at its tick\<close>

definition events_at :: "tick_record list \<Rightarrow> int \<Rightarrow> replay_event list" where
  "events_at groups t = concat (map tr_events (filter (\<lambda>g. tr_tick g = t) groups))"

fun replay_by_tick ::
  "('m, 'f) sim_lib \<Rightarrow> int \<Rightarrow> int \<Rightarrow> int list \<Rightarrow> 'm \<times> actor_store \<Rightarrow> tick_record list \<Rightarrow>
     tool_exc + (int \<times> nat) list" where
  "replay_by_tick lib dt_ms hash_every [] world groups = Inr []"
| "replay_by_tick lib dt_ms hash_every (tick # ticks) world groups =
     rbind (rfold (apply_event lib) world (events_at groups tick)) (\<lambda>(model, st).
     rbind (store_step lib model st dt_ms) (\<lambda>(model', st').
     rbind (emit_hash hash_every tick st') (\<lambda>out.
     rbind (replay_by_tick lib dt_ms hash_every ticks (model', st') groups) (\<lambda>outs.
     Inr (out @ outs)))))"

lemma replay_by_tick_cong:
  "(\<And>t. t \<in> set ticks \<Longrightarrow> events_at gs t = events_at gs' t) \<Longrightarrow>
   replay_by_tick lib dt he ticks world gs = replay_by_tick lib dt he ticks world gs'"
  by (induction ticks arbitrary: world) (auto intro!: rbind_cong split: prod.splits)

lemma events_at_none: "(\<forall>g \<in> set gs. tr_tick g \<noteq> t) \<Longrightarrow> events_at gs t = []"
  by (simp add: events_at_def filter_empty_conv)

lemma apply_due_skip: "(\<forall>g \<in> set gs. t < tr_tick g) \<Longrightarrow> apply_due lib t world gs = Inr (world, gs)"
  by (cases gs) auto

lemma apply_due_events:
  assumes "sorted_wrt (<) (map tr_tick gs)" "\<forall>g \<in> set gs. t \<le> tr_tick g"
  shows "apply_due lib t world gs =
    rbind (rfold (apply_event lib) world (events_at gs t)) (\<lambda>w. Inr (w, dropWhile (\<lambda>g. tr_tick g = t) gs))"
proof (cases gs)
  case (Cons g gs')
  show ?thesis
  proof (cases "tr_tick g = t")
    case True
    then have gt: "\<forall>x \<in> set gs'. t < tr_tick x" using assms(1) Cons by auto
    then have none: "\<forall>x \<in> set gs'. tr_tick x \<noteq> t" by auto
    have e: "events_at gs t = tr_events g" using events_at_none [OF none] True by (simp add: Cons events_at_def)
    have "dropWhile (\<lambda>g. tr_tick g = t) gs' = gs'" using none by (cases gs') auto
    then show ?thesis unfolding e using True by (simp add: Cons apply_due_skip [OF gt])
  next
    case False
    then have "t < tr_tick g" using assms(2) Cons by auto
    then have "\<forall>x \<in> set gs. tr_tick x \<noteq> t" using assms(1) Cons by auto
    then have "events_at gs t = []" by (rule events_at_none)
    then show ?thesis using False by (simp add: Cons)
  qed
qed (simp add: events_at_def)

lemma drop_tick:
  assumes "sorted_wrt (<) (map tr_tick gs)" "\<forall>g \<in> set gs. t \<le> tr_tick g"
  defines "gs' \<equiv> dropWhile (\<lambda>g. tr_tick g = t) gs"
  shows "sorted_wrt (<) (map tr_tick gs')" "\<forall>g \<in> set gs'. t < tr_tick g"
    "t < u \<Longrightarrow> events_at gs' u = events_at gs u"
proof -
  have "sorted_wrt (<) (map tr_tick gs') \<and> (\<forall>g \<in> set gs'. t < tr_tick g) \<and>
      (t < u \<longrightarrow> events_at gs' u = events_at gs u)"
  proof (cases gs)
    case (Cons g r)
    show ?thesis
    proof (cases "tr_tick g = t")
      case True
      then have gt: "\<forall>x \<in> set r. t < tr_tick x" using assms(1) Cons by auto
      then have "gs' = r" using True by (cases r) (auto simp: gs'_def Cons)
      then show ?thesis using assms(1) gt True by (auto simp: Cons events_at_def)
    next
      case False
      then have "gs' = gs" by (simp add: gs'_def Cons)
      moreover have "t < tr_tick g" using False assms(2) Cons by auto
      ultimately show ?thesis using assms(1) Cons by auto
    qed
  qed (simp add: gs'_def)
  then show "sorted_wrt (<) (map tr_tick gs')" "\<forall>g \<in> set gs'. t < tr_tick g"
    "t < u \<Longrightarrow> events_at gs' u = events_at gs u" by auto
qed

lemma replay_ticks_by_tick:
  assumes "sorted_wrt (<) (map tr_tick gs)" "\<forall>g \<in> set gs. int a \<le> tr_tick g"
  shows "replay_ticks lib dt he (map int [a..<n]) world gs = replay_by_tick lib dt he (map int [a..<n]) world gs"
  using assms
proof (induction "n - a" arbitrary: a gs world)
  case (Suc k)
  then have lt: "a < n" by simp
  let ?gs = "dropWhile (\<lambda>g. tr_tick g = int a) gs"
  note d = drop_tick [OF Suc.prems]
  have IH: "replay_ticks lib dt he (map int [Suc a..<n]) w ?gs = replay_by_tick lib dt he (map int [Suc a..<n]) w gs" for w
  proof -
    have "replay_ticks lib dt he (map int [Suc a..<n]) w ?gs = replay_by_tick lib dt he (map int [Suc a..<n]) w ?gs"
      by (rule Suc.hyps(1)) (use Suc.hyps(2) d in auto)
    also have "\<dots> = replay_by_tick lib dt he (map int [Suc a..<n]) w gs"
      by (rule replay_by_tick_cong) (use d(3) in auto)
    finally show ?thesis .
  qed
  have up: "map int [a..<n] = int a # map int [Suc a..<n]" using lt by (simp add: upt_conv_Cons)
  show ?case
    unfolding up replay_ticks.simps replay_by_tick.simps apply_due_events [OF Suc.prems]
    by (cases "rfold (apply_event lib) world (events_at gs (int a))") (auto simp: IH)
qed simp

lemma replay_by_tick_ticks:
  "replay_by_tick lib dt he ticks world gs = Inr hs \<Longrightarrow>
   map fst hs = filter (\<lambda>t. 0 < he \<and> t mod he = 0) ticks"
proof (induction ticks arbitrary: world hs)
  case (Cons t ticks)
  then obtain m st out outs where o: "emit_hash he t st = Inr out"
    "replay_by_tick lib dt he ticks (m, st) gs = Inr outs" "hs = out @ outs"
    by (auto simp: rbind_eq_Inr split: prod.splits)
  have "map fst out = (if 0 < he \<and> t mod he = 0 then [t] else [])"
    using o(1) by (auto simp: emit_hash_def rbind_eq_Inr split: if_splits)
  then show ?case using Cons.IH [OF o(2)] o(3) by simp
qed simp

subsection \<open>Expectations\<close>

lemma compare_emitted_None:
  "compare_emitted hashes expected True = None \<longleftrightarrow> (\<forall>(t, h) \<in> set hashes. map_of expected t = Some (int h))"
proof (induction hashes)
  case (Cons th hashes)
  obtain t h where th: "th = (t, h)" by (cases th)
  show ?case using Cons by (cases "map_of expected t") (auto simp: th)
qed simp

lemma compare_emitted_Some: "compare_emitted hashes expected c = Some s \<Longrightarrow> s = 1"
  by (induction hashes expected c rule: compare_emitted.induct) (auto split: option.splits if_splits)

lemma sort_Nil_iff: "sort xs = [] \<longleftrightarrow> xs = []"
  by (metis length_0_conv length_sort)

lemma compare_against_map_0:
  "compare_against_map hashes expected True = 0 \<longleftrightarrow>
     (\<forall>(t, h) \<in> set hashes. map_of expected t = Some (int h)) \<and> fst ` set expected \<subseteq> fst ` set hashes"
proof (cases "compare_emitted hashes expected True")
  case None
  then show ?thesis using compare_emitted_None [of hashes expected]
    by (auto simp: compare_against_map_def sort_Nil_iff filter_empty_conv)
next
  case (Some s)
  then show ?thesis using compare_emitted_None [of hashes expected] compare_emitted_Some [OF Some]
    by (auto simp: compare_against_map_def)
qed

text \<open>A played run's output, saved to a file, is read back as the map from its ticks to its hashes.\<close>

lemma splitlines_line:
  assumes "\<forall>c \<in> set l. \<not> py_islinebreak c"
  shows "py_splitlines_from cur (l @ 10 # rest) = (cur @ l) # py_splitlines_from [] rest"
  using assms
proof (induction l arbitrary: cur)
  case Nil
  then show ?case by (simp add: py_islinebreak_def)
next
  case (Cons c l)
  have c: "\<not> py_islinebreak c" using Cons.prems by simp
  moreover have "py_islinebreak 13" by (simp add: py_islinebreak_def)
  ultimately have "c \<noteq> 13" by auto
  have "py_splitlines_from (cur @ [c]) (l @ 10 # rest) = ((cur @ [c]) @ l) # py_splitlines_from [] rest"
    by (rule Cons.IH) (use Cons.prems in simp)
  then show ?case using c \<open>c \<noteq> 13\<close> by simp
qed

lemma splitlines_lines:
  "(\<forall>l \<in> set ls. \<forall>c \<in> set l. \<not> py_islinebreak c) \<Longrightarrow>
   py_splitlines (concat (map (\<lambda>l. l @ [10]) ls)) = ls"
  unfolding py_splitlines_def by (induction ls) (simp_all add: splitlines_line)

lemma py_split_word:
  assumes "w \<noteq> []" "\<forall>c \<in> set w. \<not> py_isspace c"
  shows "py_split (w @ 32 # rest) = w # py_split rest" and "py_split w = [w]"
proof -
  have sp: "py_isspace 32" by (simp add: py_isspace_def)
  have d: "dropWhile py_isspace (w @ r) = w @ r" for r using assms by (cases w) auto
  have t: "takeWhile (\<lambda>c. \<not> py_isspace c) (w @ 32 # rest) = w"
    "dropWhile (\<lambda>c. \<not> py_isspace c) (w @ 32 # rest) = 32 # rest" using assms(2) sp by auto
  have s32: "py_split (32 # rest) = py_split rest"
    using sp by (subst (1 2) py_split.simps) simp
  show "py_split (w @ 32 # rest) = w # py_split rest"
    using assms(1) by (subst py_split.simps) (simp add: d t s32)
  have t': "takeWhile (\<lambda>c. \<not> py_isspace c) w = w" "dropWhile (\<lambda>c. \<not> py_isspace c) w = []"
    using assms(2) by auto
  show "py_split w = [w]"
    using assms(1) d [of "[]"] by (subst py_split.simps) (simp add: t' py_split.simps [of "[]"])
qed

lemma pytext_append [simp]: "pytext (a @ b) = pytext a @ pytext b"
  by (simp add: pytext_def)

lemma visible_not_space: "33 \<le> c \<Longrightarrow> c < 127 \<Longrightarrow> \<not> py_isspace c \<and> \<not> py_islinebreak c"
  by (simp add: py_isspace_def py_islinebreak_def)

lemma int_str_chars: "c \<in> set (pytext (int_str i)) \<Longrightarrow> 33 \<le> c \<and> c < 61"
  using dec_digits_are_digits [of "nat \<bar>i\<bar>"]
  by (auto simp: int_str_def pytext_def list_all_iff is_dec_digit_def split: if_splits)

lemma hex_digit_code: "n < 16 \<Longrightarrow> of_char (hex_digit n) = (if n < 10 then 48 + n else 87 + n)"
  using less_16_cases [of n] by (auto simp: hex_digit_def)

lemma hex_digit_value_hex: "n < 16 \<Longrightarrow> hex_digit_value nd (of_char (hex_digit n)) = Some n"
  by (simp add: hex_digit_code hex_digit_value_def dec_digit_value_def)

lemma hex_fixed_chars:
  "c \<in> set (pytext (hex_fixed n v)) \<Longrightarrow> \<exists>d < 16. c = of_char (hex_digit d)"
proof (induction n arbitrary: v)
  case (Suc n)
  then consider "c \<in> set (pytext (hex_fixed n (v div 16)))" | "c = of_char (hex_digit (v mod 16))"
    by (auto simp: pytext_def)
  then show ?case
  proof cases
    case 1
    then show ?thesis by (rule Suc.IH)
  next
    case 2
    then show ?thesis by (intro exI [of _ "v mod 16"]) simp
  qed
qed (simp add: pytext_def)

lemma hex_char_range:
  assumes "d < 16"
  shows "33 \<le> (of_char (hex_digit d) :: nat)" "(of_char (hex_digit d) :: nat) < 127"
    "(of_char (hex_digit d) :: nat) \<notin> {45, 43, 61, 95, 120, 88}"
  using assms by (auto simp: hex_digit_code split: if_splits)

lemma digits_hex_fixed:
  "digits_nat 16 (map (\<lambda>c. the (hex_digit_value nd c)) (pytext (hex_fixed n v))) = v mod 16 ^ n"
proof (induction n arbitrary: v)
  case (Suc n)
  have "(v div 16) mod 16 ^ n * 16 + v mod 16 = v mod (16 * 16 ^ n)" by (simp add: mod_mult2_eq)
  then show ?case
    using Suc by (simp add: pytext_def digits_nat_snoc hex_digit_value_hex mult.commute)
qed (simp add: pytext_def digits_nat_def)

lemma py_int_hex_fixed:
  assumes "0 < n"
  shows "py_int_hex nd (pytext (hex_fixed n v)) = Some (int (v mod 16 ^ n))"
proof -
  let ?s = "pytext (hex_fixed n v)"
  have ch: "\<exists>d < 16. c = of_char (hex_digit d)" if "c \<in> set ?s" for c using hex_fixed_chars [OF that] .
  have ne: "?s \<noteq> []" using assms by (cases n) (simp_all add: pytext_def)
  have nsp: "\<not> py_isspace c" "c \<notin> {45, 43, 95, 120, 88}" if "c \<in> set ?s" for c
    using ch [OF that] hex_char_range visible_not_space by auto
  have strip: "py_strip ?s = ?s"
    using nsp(1) hd_in_set [OF ne] last_in_set [OF ne] ne by (intro py_strip_id) auto
  obtain c r where s: "?s = c # r" using ne by (cases ?s) auto
  have sign: "split_sign ?s = (False, ?s)" using nsp(2) [of c] by (simp add: s split_sign_def)
  have no_x: "take 2 ?s \<noteq> [48, 120]" "take 2 ?s \<noteq> [48, 88]"
  proof -
    have "x \<notin> {120, 88}" if "x \<in> set (take 2 ?s)" for x using nsp(2) in_set_takeD [OF that] by auto
    then show "take 2 ?s \<noteq> [48, 120]" "take 2 ?s \<noteq> [48, 88]" by fastforce+
  qed
  have all: "\<forall>c \<in> set ?s. c \<noteq> 95 \<and> hex_digit_value nd c \<noteq> None"
    using ch nsp(2) hex_digit_value_hex by fastforce
  have us: "us_digits (hex_digit_value nd) False ?s = Some (map (\<lambda>c. the (hex_digit_value nd c)) ?s)"
    by (rule us_digits_all [OF all]) (simp add: ne)
  show ?thesis
    unfolding py_int_hex_def strip sign Let_def
    by (simp add: no_x us digits_hex_fixed signed_int_def)
qed

lemma py_replace_append: "py_replace_char a b (s @ t) = py_replace_char a b s @ py_replace_char a b t"
  by (simp add: py_replace_char_def)

lemma py_replace_id: "a \<notin> set s \<Longrightarrow> py_replace_char a b s = s"
  unfolding py_replace_char_def by (rule map_idI) auto

abbreviation hash_word :: "nat \<Rightarrow> pystr" where
  "hash_word h \<equiv> pytext (hex_fixed 16 h)"

lemma hash_word_nonempty: "hash_word h \<noteq> []"
proof
  assume "hash_word h = []"
  then have "length (hex_fixed 16 h) = 0" by (simp add: pytext_def)
  then show False by (simp only: length_hex_fixed)
qed

lemma hash_word_chars: "c \<in> set (hash_word h) \<Longrightarrow> 33 \<le> c \<and> c < 127 \<and> c \<noteq> 61"
  using hex_fixed_chars hex_char_range by fastforce

lemma hash_line_tokens:
  "py_split (py_replace_char 61 32 (hash_line (t, h))) =
     [pytext ''tick'', pytext (int_str t), pytext ''hash'', hash_word h]"
proof -
  let ?t = "pytext (int_str t)" and ?h = "hash_word h"
  have "61 \<notin> set ?t" using int_str_chars [of 61 t] by auto
  moreover have "61 \<notin> set ?h" using hash_word_chars [of 61 h] by auto
  moreover have "py_replace_char 61 32 (pytext ''tick='') = pytext ''tick'' @ [32]"
    "py_replace_char 61 32 (pytext '' hash='') = 32 # pytext ''hash'' @ [32]"
    by (simp_all add: pytext_def py_replace_char_def)
  ultimately have eq: "py_replace_char 61 32 (hash_line (t, h)) =
      pytext ''tick'' @ 32 # ?t @ 32 # pytext ''hash'' @ 32 # ?h"
    unfolding hash_line_def prod.case pytext_append py_replace_append by (simp add: py_replace_id)
  have t1: "?t \<noteq> []" by (simp add: int_str_def pytext_def)
  have t2: "\<forall>c \<in> set ?t. \<not> py_isspace c"
  proof
    fix c assume "c \<in> set ?t"
    then have "33 \<le> c" "c < 127" using int_str_chars [of c t] by auto
    then show "\<not> py_isspace c" using visible_not_space by blast
  qed
  have h: "\<forall>c \<in> set ?h. \<not> py_isspace c" using hash_word_chars visible_not_space by blast
  have k: "pytext ''tick'' \<noteq> []" "\<forall>c \<in> set (pytext ''tick''). \<not> py_isspace c"
    "pytext ''hash'' \<noteq> []" "\<forall>c \<in> set (pytext ''hash''). \<not> py_isspace c"
    by (simp_all add: pytext_def py_isspace_def)
  show ?thesis
    unfolding eq py_split_word(1) [OF k(1,2)] py_split_word(1) [OF t1 t2] py_split_word(1) [OF k(3,4)]
      py_split_word(2) [OF hash_word_nonempty h] ..
qed

lemma hash_line_shape:
  shows "py_strip (hash_line (t, h)) = hash_line (t, h)" "\<not> skip_line (hash_line (t, h))"
    "\<forall>c \<in> set (hash_line (t, h)). \<not> py_islinebreak c" "\<forall>c \<in> set (hash_line (t, h)). c < 128"
proof -
  let ?l = "hash_line (t, h)"
  have ne: "hash_word h \<noteq> []" by (rule hash_word_nonempty)
  have hd: "hd ?l = 116" "?l \<noteq> []" by (simp_all add: hash_line_def pytext_def)
  have la: "last ?l \<in> set (hash_word h)" using ne unfolding hash_line_def prod.case pytext_append by simp
  show "py_strip ?l = ?l"
    by (rule py_strip_id) (use hd hash_word_chars [OF la] visible_not_space in \<open>auto simp: py_isspace_def\<close>)
  show "\<not> skip_line ?l" by (simp add: skip_line_def py_startswith_def hash_line_def pytext_def)
  have "c = 32 \<or> (33 \<le> c \<and> c < 127)" if "c \<in> set ?l" for c
  proof -
    have "set (pytext ''tick='') \<subseteq> {33..<127}" "set (pytext '' hash='') \<subseteq> insert 32 {33..<127}"
      by (simp_all add: pytext_def)
    moreover have "c \<in> set (pytext ''tick='') \<union> set (pytext (int_str t)) \<union> set (pytext '' hash='') \<union> set (hash_word h)"
      using that unfolding hash_line_def prod.case pytext_append by auto
    ultimately show ?thesis using int_str_chars [of c t] hash_word_chars [of c h] by auto
  qed
  then show "\<forall>c \<in> set ?l. \<not> py_islinebreak c" "\<forall>c \<in> set ?l. c < 128"
    using visible_not_space by (fastforce simp: py_islinebreak_def)+
qed

lemma parse_expect_hash_lines:
  assumes "\<forall>(t, h) \<in> set hashes. h < 2 ^ 64 \<and> int_digits_ok t"
  shows "parse_expect_lines nd n expected (map hash_line hashes) =
    Inr (fold (\<lambda>(t, h) d. AList.update t (int h) d) hashes expected)"
  using assms
proof (induction hashes arbitrary: n expected)
  case (Cons th hashes)
  obtain t h where th: "th = (t, h)" by (cases th)
  have h: "h < 2 ^ 64" and t: "length (dec_digits (nat \<bar>t\<bar>)) \<le> 4300"
    using Cons.prems by (auto simp: th int_digits_ok_def INT_MAX_STR_DIGITS_def)
  have hx: "py_int_hex nd (hash_word h) = Some (int h)"
    using h by (subst py_int_hex_fixed) simp_all
  have ti: "py_int nd (pytext (int_str t)) = Some t" by (rule py_int_int_str [OF t])
  have "parse_expect_lines nd (Suc n) (AList.update t (int h) expected) (map hash_line hashes) =
      Inr (fold (\<lambda>(t, h) d. AList.update t (int h) d) hashes (AList.update t (int h) expected))"
    by (rule Cons.IH) (use Cons.prems in simp)
  then show ?case
    by (simp add: th hash_line_shape hash_line_tokens hx ti Let_def)
qed simp

definition saved_output :: "pystr list \<Rightarrow> bytes" where
  "saved_output lines = map of_nat (concat (map (\<lambda>l. l @ [10]) lines))"

lemma utf8_decode_ascii: "\<forall>c \<in> set s. c < 128 \<Longrightarrow> utf8_decode (map of_nat s) = Inr s"
proof -
  assume a: "\<forall>c \<in> set s. c < 128"
  have "utf8_encode s = Inr (map of_nat s)"
  proof -
    have "concat (map utf8_char s) = s" using a by (induction s) (auto simp: utf8_char_def)
    then show ?thesis using a by (auto simp: utf8_encode_def scalar_value_def)
  qed
  then show ?thesis by (rule utf8_decode_encode)
qed

lemma load_saved_output:
  assumes "\<forall>(t, h) \<in> set hashes. h < 2 ^ 64 \<and> int_digits_ok t"
  shows "load_expect_file nd (saved_output (print_hashes hashes False)) =
    Inr (dict_of_pairs (map (\<lambda>(t, h). (t, int h)) hashes))"
proof -
  let ?ls = "map hash_line hashes"
  have shape: "(\<forall>c \<in> set l. \<not> py_islinebreak c) \<and> (\<forall>c \<in> set l. c < 128)" if "l \<in> set ?ls" for l
    using that hash_line_shape(3,4) by auto
  have "read_text (saved_output ?ls) = Inr (concat (map (\<lambda>l. l @ [10]) ?ls))"
    unfolding read_text_def saved_output_def
    by (subst utf8_decode_ascii) (use shape in auto)
  moreover have "py_splitlines (concat (map (\<lambda>l. l @ [10]) ?ls)) = ?ls"
    by (rule splitlines_lines) (use shape in blast)
  moreover have "fold (\<lambda>(t, h) d. AList.update t (int h) d) hashes d =
      fold (\<lambda>(k, v) d. AList.update k v d) (map (\<lambda>(t, h). (t, int h)) hashes) d" for d
    by (induction hashes arbitrary: d) auto
  ultimately show ?thesis
    using parse_expect_hash_lines [OF assms]
    by (simp add: load_expect_file_def print_hashes_def dict_of_pairs_def)
qed

subsection \<open>Text records\<close>

lemma parse_int_range: "parse_int nd tok lo hi = Inr v \<Longrightarrow> lo \<le> v \<and> v \<le> hi"
  by (auto simp: parse_int_def split: option.splits if_splits)

lemma parse_spawn_ok:
  assumes "fmt_fits FQ a" "- (2 ^ 63) \<le> x \<and> x \<le> 2 ^ 63 - 1" "- (2 ^ 63) \<le> y \<and> y \<le> 2 ^ 63 - 1"
    "- (2 ^ 63) \<le> z \<and> z \<le> 2 ^ 63 - 1" "- (2 ^ 63) \<le> vx \<and> vx \<le> 2 ^ 63 - 1"
    "- (2 ^ 63) \<le> vy \<and> vy \<le> 2 ^ 63 - 1" "- (2 ^ 63) \<le> vz \<and> vz \<le> 2 ^ 63 - 1"
    "0 \<le> f \<and> f \<le> 2 ^ 32 - 1"
  shows "event_ok (SpawnEvent a x y z vx vy vz f)"
  using assms by (simp add: event_ok_def SPAWN_FMT_def fmt_fits_def)

lemma parse_move_ok:
  assumes "fmt_fits FQ a" "0 \<le> t \<and> t \<le> 2 ^ 32 - 1" "- (2 ^ 15) \<le> x \<and> x \<le> 2 ^ 15 - 1"
    "- (2 ^ 15) \<le> y \<and> y \<le> 2 ^ 15 - 1" "- (2 ^ 15) \<le> z \<and> z \<le> 2 ^ 15 - 1" "0 \<le> f \<and> f \<le> 2 ^ 8 - 1"
  shows "event_ok (MoveEvent a t x y z f)"
  using assms by (simp add: event_ok_def MOVE_FMT_def fmt_fits_def)

lemma parse_event_ok:
  assumes "parse_event nd toks = Inr (t, e)"
  shows "0 \<le> t \<and> t \<le> 2 ^ 63 - 1 \<and> event_ok e"
proof -
  obtain t' a where t: "parse_int nd (toks ! 0) 0 (2 ^ 63 - 1) = Inr t'"
    and a: "parse_int nd (toks ! 2) 0 (2 ^ 64 - 1) = Inr a"
    using assms unfolding parse_event_def Let_def rbind_eq_Inr by blast
  have fa: "fmt_fits FQ a" using parse_int_range [OF a] by (simp add: fmt_fits_def)
  have r: "event_ok e \<and> t = t'"
  proof (cases "toks ! 1 = pytext ''SPAWN''")
    case True
    then show ?thesis
      using assms t a unfolding parse_event_def Let_def rbind_eq_Inr
      by (auto simp: rbind_eq_Inr dest!: parse_int_range intro!: parse_spawn_ok [OF fa])
  next
    case ns: False
    show ?thesis
    proof (cases "toks ! 1 = pytext ''MOVE''")
      case True
      then show ?thesis
        using assms t a ns unfolding parse_event_def Let_def rbind_eq_Inr
        by (auto simp: rbind_eq_Inr dest!: parse_int_range intro!: parse_move_ok [OF fa])
    next
      case nm: False
      have "e = DespawnEvent a \<and> t = t'"
        using assms t a ns nm unfolding parse_event_def Let_def by (auto simp: rbind_eq_Inr split: if_splits)
      then show ?thesis using fa by (simp add: event_ok_def DESPAWN_FMT_def)
    qed
  qed
  show ?thesis using r parse_int_range [OF t] by simp
qed

lemma at_line_eq_Inr [simp]: "at_line n r = Inr v \<longleftrightarrow> r = Inr v"
  by (auto simp: at_line_def split: sum.splits tool_exc.splits)

lemma parse_lines_ok:
  "parse_lines nd n raws = Inr pairs \<Longrightarrow> \<forall>(t, e) \<in> set pairs. 0 \<le> t \<and> t \<le> 2 ^ 63 - 1 \<and> event_ok e"
proof (induction raws arbitrary: n pairs)
  case (Cons raw raws)
  show ?case
  proof (cases "skip_line (py_strip raw)")
    case True
    then show ?thesis using Cons by simp
  next
    case False
    then obtain t e ps where p: "parse_event nd (py_split (py_strip raw)) = Inr (t, e)"
      "parse_lines nd (Suc n) raws = Inr ps" "pairs = (t, e) # ps"
      using Cons.prems by (auto simp: rbind_eq_Inr)
    then show ?thesis using Cons.IH [OF p(2)] parse_event_ok [OF p(1)] by simp
  qed
qed simp

lemma group_ticks_nonempty: "group_ticks ps = [] \<longleftrightarrow> ps = []"
  by (cases ps rule: group_ticks.cases) (auto split: list.splits)

lemma group_ticks_hd: "ps \<noteq> [] \<Longrightarrow> tr_tick (hd (group_ticks ps)) = fst (hd ps)"
  by (cases ps rule: group_ticks.cases) (auto simp: TickRecord_def split: list.splits)

lemma group_ticks_ticks: "tr_tick ` set (group_ticks ps) = fst ` set ps"
proof (induction ps rule: group_ticks.induct)
  case (2 t e ps)
  have "fst ` set ((t, e) # ps) = insert t (tr_tick ` set (group_ticks ps))" by (simp add: 2)
  then show ?case by (cases "group_ticks ps") (auto simp: TickRecord_def)
qed simp

lemma group_ticks_sorted: "sorted (map fst ps) \<Longrightarrow> sorted_wrt (<) (map tr_tick (group_ticks ps))"
proof (induction ps rule: group_ticks.induct)
  case (2 t e ps)
  show ?case
  proof (cases "group_ticks ps")
    case (Cons g gs)
    have "ps \<noteq> []" using Cons group_ticks_nonempty by fastforce
    have le: "\<forall>x \<in> set (g # gs). t \<le> tr_tick x"
      using "2.prems" group_ticks_ticks [of ps] Cons by force
    have s: "sorted_wrt (<) (map tr_tick (g # gs))" using "2.IH" "2.prems" Cons by simp
    show ?thesis
    proof (cases "tr_tick g = t")
      case True
      then show ?thesis using s Cons by (auto simp: TickRecord_def)
    next
      case False
      then have "t < tr_tick g" using le by auto
      then show ?thesis using s Cons False by (auto simp: TickRecord_def)
    qed
  qed (simp add: TickRecord_def)
qed simp

lemma group_ticks_events:
  "g \<in> set (group_ticks ps) \<Longrightarrow> set (tr_events g) \<subseteq> {e. (tr_tick g, e) \<in> set ps}"
proof (induction ps arbitrary: g rule: group_ticks.induct)
  case (2 t e ps)
  show ?case
  proof (cases "group_ticks ps")
    case Nil
    then show ?thesis using "2.prems" by (auto simp: TickRecord_def)
  next
    case (Cons h hs)
    then show ?thesis
      using "2.prems" "2.IH" [of h] "2.IH" [of g] by (auto simp: TickRecord_def split: if_splits)
  qed
qed simp

text \<open>Grouping neither drops nor duplicates nor reorders: the events of a tick are those of the file, in
  file order.\<close>

lemma events_at_group_ticks:
  "sorted (map fst ps) \<Longrightarrow> events_at (group_ticks ps) t = map snd (filter (\<lambda>p. fst p = t) ps)"
proof (induction ps rule: group_ticks.induct)
  case (2 u e ps)
  show ?case
  proof (cases "group_ticks ps")
    case Nil
    then have "ps = []" by (simp add: group_ticks_nonempty)
    then show ?thesis by (simp add: events_at_def TickRecord_def)
  next
    case (Cons g gs)
    then show ?thesis using 2 by (auto simp: events_at_def TickRecord_def)
  qed
qed (simp add: events_at_def)

lemma text_groups_sorted: "sorted_wrt (<) (map tr_tick (text_groups pairs))"
  unfolding text_groups_def by (rule group_ticks_sorted) simp

lemma text_groups_events: "events_at (text_groups pairs) t = map snd (filter (\<lambda>p. fst p = t) pairs)"
proof -
  have "filter (\<lambda>p. fst p = t) (sort_key fst pairs) = filter (\<lambda>p. fst p = t) pairs"
    by (rule sort_key_stable)
  then show ?thesis unfolding text_groups_def by (subst events_at_group_ticks) simp_all
qed

lemma text_groups_ok:
  assumes "\<forall>(t, e) \<in> set pairs. 0 \<le> t \<and> t \<le> 2 ^ 63 - 1 \<and> event_ok e" "g \<in> set (text_groups pairs)"
  shows "0 \<le> tr_tick g \<and> tr_tick g \<le> 2 ^ 63 - 1 \<and> list_all event_ok (tr_events g)"
proof -
  have "tr_tick g \<in> fst ` set pairs"
    using assms(2) group_ticks_ticks [of "sort_key fst pairs"] unfolding text_groups_def by (metis image_eqI set_sort)
  moreover have "set (tr_events g) \<subseteq> {e. (tr_tick g, e) \<in> set pairs}"
    using group_ticks_events [OF assms(2) [unfolded text_groups_def]] by simp
  ultimately show ?thesis using assms(1) by (fastforce simp: list_all_iff)
qed

subsection \<open>Transcoding\<close>

lemma event_ok_sort: "list_all event_ok (sort_events es) = list_all event_ok es"
  by (simp add: list_all_iff sort_events_def)

text \<open>Encoding sorts the events itself, so a document and its canonical form encode alike.\<close>

lemma write_tick_canonical:
  "write_tick w (tr_tick (canonical_tick tr)) (tr_events (canonical_tick tr)) = write_tick w (tr_tick tr) (tr_events tr)"
  by (simp add: canonical_tick_def TickRecord_def write_tick_sorted)

lemma encode_ticks_canonical:
  "rfold (encode_tick d) w (map canonical_tick trs) = rfold (encode_tick d) w trs"
proof (induction trs arbitrary: w)
  case (Cons tr trs)
  have "encode_tick d w (canonical_tick tr) = encode_tick d w tr"
    unfolding encode_tick_def write_tick_canonical by (simp add: canonical_tick_def TickRecord_def)
  then show ?case using Cons by simp
qed simp

lemma encode_document_canonical_ticks:
  "encode_document (d\<lparr>rd_ticks := map canonical_tick (rd_ticks d)\<rparr>) = encode_document d"
proof -
  have "tr_tick (canonical_tick tr) = tr_tick tr" for tr by (simp add: canonical_tick_def TickRecord_def)
  then show ?thesis by (simp add: encode_document_def encode_ticks_canonical comp_def)
qed

lemma model_meta_ok:
  assumes "model \<in> {pytext ''tile2d'', pytext ''free2d''}"
  shows "meta_ok (Some [(pytext ''model'', JStr model)])" "meta_fits (Some [(pytext ''model'', JStr model)])"
  using assms
  by (auto simp: meta_ok_def meta_fits_def pytext_def scalar_value_def json_string_def json_escape_def
      insort_key_def)

lemma transcode_total:
  assumes p: "parse_record nd data = Inr pairs" and hz: "1 \<le> hz" "hz < 2 ^ 32"
    and n: "\<forall>g \<in> set (text_groups pairs). length (tr_events g) \<le> U16_MAX"
    and m: "model \<in> {pytext ''tile2d'', pytext ''free2d''}"
  defines "d \<equiv> transcode_document model hz [] (text_groups pairs)"
  shows "\<exists>b. encode_document d = Inr b \<and> read_document b = Inr (canonical_document d)"
proof -
  let ?d = "d\<lparr>rd_ticks := map canonical_tick (rd_ticks d)\<rparr>"
  obtain s where "parse_lines nd 1 (py_splitlines s) = Inr pairs"
    using p by (auto simp: parse_record_def rbind_eq_Inr)
  note ok = text_groups_ok [OF parse_lines_ok [OF this]]
  have ticks: "list_all tick_ok (map canonical_tick (text_groups pairs))"
  proof -
    have "tick_ok (canonical_tick g)" if "g \<in> set (text_groups pairs)" for g
    proof -
      have "length (sort_events (tr_events g)) = length (tr_events g)" by (simp add: sort_events_def)
      then show ?thesis using ok [OF that] n that
        by (simp add: tick_ok_def canonical_tick_def TickRecord_def event_ok_sort fmt_fits_def)
    qed
    then show ?thesis by (simp add: list_all_iff)
  qed
  have "tr_tick \<circ> canonical_tick = tr_tick"
    by (simp add: fun_eq_iff canonical_tick_def TickRecord_def)
  then have "document_wf ?d"
    using ticks hz text_groups_sorted [of pairs]
    by (simp add: document_wf_def d_def transcode_document_def fmt_fits_def)
  then obtain b where "encode_document ?d = Inr b"
    using encode_document_total [of ?d] model_meta_ok [OF m] by (auto simp: d_def transcode_document_def)
  then have b: "encode_document d = Inr b" by (simp only: encode_document_canonical_ticks)
  have "distinct (map eh_tick (rd_expected d))" "meta_ok (rd_meta d)"
    using model_meta_ok(1) [OF m] by (simp_all add: d_def transcode_document_def)
  then show ?thesis using encode_read [OF b] b by auto
qed

subsection \<open>The tick length\<close>

lemma tick_dt_ms_rounds:
  assumes "1 \<le> hz"
  shows "2 * \<bar>tick_dt_ms hz * hz - 1000\<bar> \<le> hz" "0 \<le> tick_dt_ms hz" "tick_dt_ms hz \<le> 1000"
    "1 \<le> tick_dt_ms hz \<longleftrightarrow> hz \<le> 2000"
proof -
  let ?n = "1000 + hz div 2"
  have eq: "?n = tick_dt_ms hz * hz + ?n mod hz" by (simp add: tick_dt_ms_def)
  have m: "0 \<le> ?n mod hz" "?n mod hz < hz" using assms by simp_all
  define q r s where "q = hz div 2" and "r = ?n mod hz" and "s = hz mod 2"
  have qs: "hz = 2 * q + s" "0 \<le> s" "s < 2" "0 \<le> r" "r < hz" using m by (simp_all add: q_def s_def r_def)
  have "- hz \<le> 2 * (q - r)" using qs by presburger
  moreover have "2 * (q - r) \<le> hz" using qs by presburger
  moreover have "tick_dt_ms hz * hz - 1000 = q - r" using eq unfolding q_def r_def by linarith
  ultimately show "2 * \<bar>tick_dt_ms hz * hz - 1000\<bar> \<le> hz" by (simp add: abs_if)
  show nn: "0 \<le> tick_dt_ms hz" using assms by (simp add: tick_dt_ms_def pos_imp_zdiv_nonneg_iff)
  have "?n \<le> 1000 * hz" using assms by linarith
  then have "tick_dt_ms hz \<le> (1000 * hz) div hz" unfolding tick_dt_ms_def using assms by (intro zdiv_mono1) auto
  then show "tick_dt_ms hz \<le> 1000" using assms by simp
  show "1 \<le> tick_dt_ms hz \<longleftrightarrow> hz \<le> 2000"
  proof
    assume "1 \<le> tick_dt_ms hz"
    then have "hz \<le> tick_dt_ms hz * hz" using assms by (simp add: mult_le_cancel_right1)
    then have "hz \<le> ?n" using eq m by linarith
    then show "hz \<le> 2000" by linarith
  next
    assume h: "hz \<le> 2000"
    show "1 \<le> tick_dt_ms hz"
    proof (rule ccontr)
      assume "\<not> 1 \<le> tick_dt_ms hz"
      then have "tick_dt_ms hz = 0" using nn by linarith
      then have "?n < hz" using eq m by simp
      then show False using h by linarith
    qed
  qed
qed

subsection \<open>Properties\<close>

definition demo_lib :: "(unit, unit) sim_lib" where
  "demo_lib =
     \<lparr>sl_create = (0, True), sl_create_model = (\<lambda>_ _. (0, Some ())), sl_load_behavior = (\<lambda>m _. (0, m)),
      sl_step = (\<lambda>m as _. (0, m, as)), sl_apply_input = (\<lambda>m a i. (0, m, a\<lparr>sa_input_tick := si_input_tick i\<rparr>)),
      sl_config_size = 96, sl_zero_eps = ()\<rparr>"

lemma demo_lib_keeps_ids: "keeps_ids demo_lib"
  by (simp add: keeps_ids_def demo_lib_def)

definition demo_args :: "unit tool_args" where
  "demo_args =
     \<lparr>ta_command = Verify, ta_input = pytext ''a'', ta_input_b = [], ta_output = [], ta_model = pytext ''tile2d'',
      ta_tick_hz = None, ta_ticks = None, ta_hash_every = 1, ta_behavior = None, ta_base_speed = 0,
      ta_run_speed = 0, ta_accel = 0, ta_decel = 0, ta_move_eps = None, ta_collision_radius = None,
      ta_expect_hash = None, ta_expect_file = None, ta_expectations_from = None, ta_quiet = False\<rparr>"

text \<open>C17: the dense actor store implements a map from ids to actors. For every simulation library that
  never writes an actor's id and every sequence of events whose ids are 64-bit, applying the events to
  the store - slots, swap-removal and all - raises exactly when and what the map semantics raises, and
  otherwise ends in a store that represents the map's result; the rolling hash of that store is
  defined and is a function of the map alone, so neither slot order nor removal history shows in it.\<close>

theorem actor_store_implements_world:
  assumes "keeps_ids lib" and "\<forall>e \<in> set es. fmt_fits FQ (ev_actor_id e)"
  shows "map_sum id (map_prod id world_of) (rfold (apply_event lib) (m, actor_store_init) es)
           = rfold (world_event lib) (m, Map.empty) es \<and>
         (\<forall>m' st. rfold (apply_event lib) (m, actor_store_init) es = Inr (m', st) \<longrightarrow>
           store_hash st = Inr (world_hash (world_of st)) \<and> world_hash (world_of st) < 2 ^ 64)"
  using apply_events_world [OF assms(1) store_init_inv assms(2), of m] store_hash_world world_hash_bound
  by (simp add: world_of_init)

theorem actor_store_implements_world_witness:
  "rfold (world_event demo_lib) ((), Map.empty)
     [SpawnEvent 3 0 0 0 0 0 0 0, SpawnEvent 8 1 0 0 0 0 0 0, DespawnEvent 3]
   = map_sum id (map_prod id world_of) (rfold (apply_event demo_lib) ((), actor_store_init)
     [SpawnEvent 3 0 0 0 0 0 0 0, SpawnEvent 8 1 0 0 0 0 0 0, DespawnEvent 3])"
  using actor_store_implements_world [OF demo_lib_keeps_ids, of
      "[SpawnEvent 3 0 0 0 0 0 0 0, SpawnEvent 8 1 0 0 0 0 0 0, DespawnEvent 3]" "()"]
  by (simp add: fmt_fits_def del: rfold.simps)

text \<open>C26: the replay loop, which walks an index through the groups, applies at tick \<open>t\<close> exactly the events
  recorded for \<open>t\<close>, whatever the library does, steps the store once per tick, and emits hashes exactly
  at the multiples of \<open>hash_every\<close>.\<close>

theorem replay_applies_events_at_their_tick:
  assumes "sorted_wrt (<) (map tr_tick groups)" and "\<forall>g \<in> set groups. 0 \<le> tr_tick g"
  shows "replay_ticks lib dt he (map int [0..<n]) world groups
           = replay_by_tick lib dt he (map int [0..<n]) world groups \<and>
         (\<forall>hs. replay_ticks lib dt he (map int [0..<n]) world groups = Inr hs \<longrightarrow>
           map fst hs = filter (\<lambda>t. 0 < he \<and> t mod he = 0) (map int [0..<n]))"
proof -
  have "replay_ticks lib dt he (map int [0..<n]) world groups
      = replay_by_tick lib dt he (map int [0..<n]) world groups"
    by (rule replay_ticks_by_tick) (use assms in simp_all)
  then show ?thesis using replay_by_tick_ticks by metis
qed

theorem replay_applies_events_at_their_tick_witness:
  "replay_ticks demo_lib 50 2 (map int [0..<4]) ((), actor_store_init) [TickRecord 1 [DespawnEvent 5]]
   = replay_by_tick demo_lib 50 2 (map int [0..<4]) ((), actor_store_init) [TickRecord 1 [DespawnEvent 5]]"
  by (rule conjunct1 [OF replay_applies_events_at_their_tick]) (simp_all add: TickRecord_def)

text \<open>the verdict of \<open>verify\<close> is exact. With expectations resolved and no final hash pinned, the exit
  status is 2 when there is nothing to compare with, 0 when every emitted hash is expected with that
  value and every expected tick was emitted, and 1 otherwise.\<close>

theorem verify_verdict_exact:
  assumes "expectation_map nd fs args document = Inr expected" and "given (ta_expect_hash args) = None"
  shows "\<exists>out. run_verify nd fs args hashes document = Inr (out,
    if expected = [] then 2
    else if (\<forall>(t, h) \<in> set hashes. map_of expected t = Some (int h)) \<and> fst ` set expected \<subseteq> fst ` set hashes
         then 0 else 1)"
proof -
  have "compare_against_map hashes expected True \<in> {0, 1}"
    using compare_emitted_Some [of hashes expected True]
    by (auto simp: compare_against_map_def Let_def split: option.splits)
  then show ?thesis
    using assms compare_against_map_0 [of hashes expected] by (auto simp: run_verify_def Let_def)
qed

theorem verify_verdict_exact_witness:
  "\<exists>out. run_verify (\<lambda>_. None) Map.empty demo_args [(1, 98), (4, 99)] (Some demo_document) = Inr (out, 0)"
proof -
  have "expectation_map (\<lambda>_. None) Map.empty demo_args (Some demo_document) = Inr [(4, 99), (1, 98)]"
    by (simp add: expectation_map_def demo_args_def given_def demo_document_def expectations_def
        dict_of_pairs_def ExpectedHash_def)
  from verify_verdict_exact [OF this, of "[(1, 98), (4, 99)]"] show ?thesis
    by (simp add: demo_args_def given_def)
qed

text \<open>a run verifies against its own output. The lines \<open>play\<close> prints, saved to a file, are read back
  by \<open>load_expect_file\<close> as the map from the emitted ticks to the emitted hashes, and comparing the run
  with that map succeeds.\<close>

theorem saved_output_verifies:
  assumes "distinct (map fst hashes)" and "\<forall>(t, h) \<in> set hashes. h < 2 ^ 64 \<and> int_digits_ok t"
  shows "\<exists>expected. load_expect_file nd (saved_output (print_hashes hashes False)) = Inr expected \<and>
           expected = map (\<lambda>(t, h). (t, int h)) hashes \<and> compare_against_map hashes expected True = 0"
proof -
  let ?e = "map (\<lambda>(t, h). (t, int h)) hashes"
  have d: "distinct (map fst ?e)" using assms(1) by (simp add: comp_def case_prod_unfold)
  have e: "dict_of_pairs ?e = ?e" by (rule dict_of_pairs_distinct [OF d])
  have "\<forall>(t, h) \<in> set hashes. map_of ?e t = Some (int h)"
  proof clarify
    fix t h assume "(t, h) \<in> set hashes"
    then have "(t, int h) \<in> set ?e" by force
    then show "map_of ?e t = Some (int h)" using map_of_distinct_iff [OF d] by simp
  qed
  moreover have "fst ` set ?e \<subseteq> fst ` set hashes" by force
  ultimately have "compare_against_map hashes ?e True = 0" unfolding compare_against_map_0 by blast
  then show ?thesis using load_saved_output [OF assms(2)] e by simp
qed

theorem saved_output_verifies_witness:
  "load_expect_file (\<lambda>_. None) (saved_output (print_hashes [(0, 5), (10, 2 ^ 63)] False)) = Inr [(0, 5), (10, 2 ^ 63)]"
proof -
  have "int_digits_ok 0" "int_digits_ok 10"
    by (simp_all add: int_digits_ok_def INT_MAX_STR_DIGITS_def dec_digits.simps [of 10] dec_digits.simps [of "Suc 0"] dec_digits.simps [of 0])
  then show ?thesis using saved_output_verifies [of "[(0, 5), (10, 2 ^ 63)]" "\<lambda>_. None"] by simp
qed

text \<open>\<open>transcode\<close> never fails on a text record it could parse: for a header rate that fits, at most
  65535 events per tick and a model the command line offers, the document it builds is encoded, and the
  artifact reads back as that document in canonical form, one tick record per tick of the file.\<close>

theorem transcode_yields_readable_artifact:
  assumes "parse_record nd data = Inr pairs" and "1 \<le> hz" "hz < 2 ^ 32"
    and "\<forall>g \<in> set (text_groups pairs). length (tr_events g) \<le> U16_MAX"
    and "model \<in> {pytext ''tile2d'', pytext ''free2d''}"
  shows "(\<exists>b. encode_document (transcode_document model hz [] (text_groups pairs)) = Inr b \<and>
    read_document b = Inr (canonical_document (transcode_document model hz [] (text_groups pairs)))) \<and>
    (\<forall>t. events_at (text_groups pairs) t = map snd (filter (\<lambda>p. fst p = t) pairs))"
  using transcode_total [OF assms] text_groups_events by simp

theorem transcode_yields_readable_artifact_witness:
  "parse_record (\<lambda>_. None) (map of_nat (pytext ''3 DESPAWN 5'')) = Inr [(3, DespawnEvent 5)] \<and>
   (\<exists>b. encode_document (transcode_document (pytext ''tile2d'') 20 [] (text_groups [(3, DespawnEvent 5)])) = Inr b)"
proof -
  have d: "utf8_decode (map of_nat (pytext ''3 DESPAWN 5'')) = Inr (pytext ''3 DESPAWN 5'')"
    by (rule utf8_decode_ascii) (simp add: pytext_def)
  have strip: "py_strip (pytext ''3 DESPAWN 5'') = pytext ''3 DESPAWN 5''"
    by (rule py_strip_id) (simp_all add: pytext_def py_isspace_def)
  have lines: "py_splitlines (pytext ''3 DESPAWN 5'') = [pytext ''3 DESPAWN 5'']"
    by (simp add: py_splitlines_def pytext_def py_islinebreak_def)
  have nsp: "\<forall>c \<in> set (pytext ''3''). \<not> py_isspace c" "\<forall>c \<in> set (pytext ''DESPAWN''). \<not> py_isspace c"
    "\<forall>c \<in> set (pytext ''5''). \<not> py_isspace c" and ne: "pytext ''3'' \<noteq> []" "pytext ''DESPAWN'' \<noteq> []" "pytext ''5'' \<noteq> []"
    by (simp_all add: pytext_def py_isspace_def)
  have cat: "pytext ''3 DESPAWN 5'' = pytext ''3'' @ 32 # pytext ''DESPAWN'' @ 32 # pytext ''5''"
    by (simp add: pytext_def)
  have toks: "py_split (pytext ''3 DESPAWN 5'') = [pytext ''3'', pytext ''DESPAWN'', pytext ''5'']"
    unfolding cat py_split_word(1) [OF ne(1) nsp(1)] py_split_word(1) [OF ne(2) nsp(2)]
      py_split_word(2) [OF ne(3) nsp(3)] ..
  have ints: "py_int (\<lambda>_. None) (pytext ''3'') = Some 3" "py_int (\<lambda>_. None) (pytext ''5'') = Some 5"
    by (simp_all add: py_int_def pytext_def py_strip_def py_isspace_def split_sign_def dec_digit_value_def
        signed_int_def digits_nat_def)
  have k: "pytext ''DESPAWN'' \<noteq> pytext ''SPAWN''" "pytext ''DESPAWN'' \<noteq> pytext ''MOVE''"
    by (simp_all add: pytext_def)
  have ns: "\<not> skip_line (pytext ''3 DESPAWN 5'')"
    by (simp add: skip_line_def py_startswith_def pytext_def)
  have p: "parse_record (\<lambda>_. None) (map of_nat (pytext ''3 DESPAWN 5'')) = Inr [(3, DespawnEvent 5)]"
    unfolding parse_record_def read_text_def d sum.case rbind_Inr lines
    by (simp add: strip ns toks parse_event_def parse_int_def ints k at_line_def Let_def)
  have g: "\<forall>g \<in> set (text_groups [(3, DespawnEvent 5)]). length (tr_events g) \<le> U16_MAX"
    by (simp add: text_groups_def TickRecord_def U16_MAX_def)
  show ?thesis
    using transcode_yields_readable_artifact [OF p, of 20 "pytext ''tile2d''"] g p by auto
qed


text \<open>the step length handed to the library is the tick length in milliseconds rounded to the nearest
  integer: at most half a millisecond off per tick, between 0 and 1000, and positive exactly up to
  2000 ticks per second.\<close>

theorem tick_length_bounds:
  assumes "1 \<le> hz"
  shows "2 * \<bar>tick_dt_ms hz * hz - 1000\<bar> \<le> hz \<and> 0 \<le> tick_dt_ms hz \<and> tick_dt_ms hz \<le> 1000 \<and>
         (1 \<le> tick_dt_ms hz \<longleftrightarrow> hz \<le> 2000)"
  using tick_dt_ms_rounds [OF assms] by blast

theorem tick_length_bounds_witness: "tick_dt_ms 60 = 17 \<and> 2 * \<bar>tick_dt_ms 60 * 60 - 1000\<bar> \<le> 60"
  using tick_length_bounds [of 60] by (simp add: tick_dt_ms_def)


end
