(* ===== verification/SpatialCodec.thy ===== *)
theory SpatialCodec
  imports WireCodec Lobby
begin

text \<open>
  The wire surface of the spatial example: its message catalog (\<open>examples/spatial/messages.py\<close>), the
  payload codecs of the three client-to-server messages (\<open>examples/spatial/handlers.py\<close>, first part).
  Names the lobby example also uses carry the prefix \<open>sp_\<close>.
\<close>

subsection \<open>Message catalog\<close>

definition SP_LOGIN_TYPE :: int where "SP_LOGIN_TYPE = USER_BASE + 0"
definition LOGIN_REPLY_TYPE :: int where "LOGIN_REPLY_TYPE = USER_BASE + 1"
definition ACTOR_INPUT_TYPE :: int where "ACTOR_INPUT_TYPE = USER_BASE + 2"
definition CHAT_TYPE :: int where "CHAT_TYPE = USER_BASE + 3"
definition ACTOR_STATE_TYPE :: int where "ACTOR_STATE_TYPE = USER_BASE + 4"
definition ACTOR_STATE_BATCH_TYPE :: int where "ACTOR_STATE_BATCH_TYPE = USER_BASE + 5"
definition CHAT_EVENT_TYPE :: int where "CHAT_EVENT_TYPE = USER_BASE + 6"

lemmas spatial_type_ids =
  USER_BASE_def SP_LOGIN_TYPE_def LOGIN_REPLY_TYPE_def ACTOR_INPUT_TYPE_def CHAT_TYPE_def
  ACTOR_STATE_TYPE_def ACTOR_STATE_BATCH_TYPE_def CHAT_EVENT_TYPE_def

definition SP_TYPES :: "(pystr \<times> int) list" where
  "SP_TYPES =
     [(pytext ''login'', SP_LOGIN_TYPE),
      (pytext ''login_reply'', LOGIN_REPLY_TYPE),
      (pytext ''actor_input'', ACTOR_INPUT_TYPE),
      (pytext ''chat'', CHAT_TYPE),
      (pytext ''actor_state'', ACTOR_STATE_TYPE),
      (pytext ''actor_state_batch'', ACTOR_STATE_BATCH_TYPE),
      (pytext ''chat_event'', CHAT_EVENT_TYPE)]"

definition sp_messages_register :: "call_env \<Rightarrow> Proto \<Rightarrow> (proto_exc + unit) \<times> Proto" where
  "sp_messages_register env proto = register_types env proto SP_TYPES"

subsection \<open>Client-to-server payloads\<close>

definition SP_LOGIN_PAYLOAD_LEN :: nat where "SP_LOGIN_PAYLOAD_LEN = 8"
definition ACTOR_INPUT_PAYLOAD_LEN :: nat where "ACTOR_INPUT_PAYLOAD_LEN = 19"
definition CHAT_HEADER_LEN :: nat where "CHAT_HEADER_LEN = 10"
definition SP_CHAT_MAX_TEXT :: nat where "SP_CHAT_MAX_TEXT = 4096"

lemmas spatial_sizes =
  SP_LOGIN_PAYLOAD_LEN_def ACTOR_INPUT_PAYLOAD_LEN_def CHAT_HEADER_LEN_def SP_CHAT_MAX_TEXT_def

record SimInput =
  in_input_tick :: int
  in_move_x :: int
  in_move_y :: int
  in_move_z :: int
  in_flags :: int

definition sp_encode_login :: "int \<Rightarrow> codec_exc + bytes" where
  "sp_encode_login principal_id = pack_exc (struct_pack Little [FQ] [principal_id])"

definition sp_decode_login :: "bytes \<Rightarrow> codec_exc + int" where
  "sp_decode_login payload =
     rbind (rguard (SP_LOGIN_PAYLOAD_LEN \<le> length payload) (ValueErr TooShort)) (\<lambda>_.
     rbind (pack_exc (struct_unpack Little [FQ] (take SP_LOGIN_PAYLOAD_LEN payload))) (\<lambda>vs.
     Inr (vs ! 0)))"

definition ACTOR_INPUT_FMT :: "fmt list" where "ACTOR_INPUT_FMT = [FQ, FI, Fh, Fh, Fh, FB]"

definition encode_actor_input :: "int \<Rightarrow> SimInput \<Rightarrow> codec_exc + bytes" where
  "encode_actor_input actor_id inp =
     pack_exc (struct_pack Little ACTOR_INPUT_FMT
       [actor_id, in_input_tick inp, in_move_x inp, in_move_y inp, in_move_z inp, in_flags inp])"

definition input_of_fields :: "int list \<Rightarrow> int \<times> SimInput" where
  "input_of_fields vs =
     (vs ! 0,
      \<lparr>in_input_tick = vs ! 1, in_move_x = vs ! 2, in_move_y = vs ! 3, in_move_z = vs ! 4,
       in_flags = vs ! 5\<rparr>)"

definition decode_actor_input :: "bytes \<Rightarrow> codec_exc + (int \<times> SimInput)" where
  "decode_actor_input payload =
     rbind (rguard (ACTOR_INPUT_PAYLOAD_LEN \<le> length payload) (ValueErr TooShort)) (\<lambda>_.
     rbind (pack_exc (struct_unpack Little ACTOR_INPUT_FMT (take ACTOR_INPUT_PAYLOAD_LEN payload))) (\<lambda>vs.
     Inr (input_of_fields vs)))"

definition encode_chat :: "int \<Rightarrow> pystr \<Rightarrow> codec_exc + bytes" where
  "encode_chat actor_id text =
     rbind (text_exc (utf8_encode text)) (\<lambda>text_bytes.
     rbind (rguard (length text_bytes \<le> SP_CHAT_MAX_TEXT) (ValueErr TextTooLong)) (\<lambda>_.
     rbind (pack_exc (struct_pack Little [FQ, FH] [actor_id, int (length text_bytes)])) (\<lambda>h.
     Inr (h @ text_bytes))))"

definition decode_chat :: "bytes \<Rightarrow> codec_exc + (int \<times> pystr)" where
  "decode_chat payload =
     rbind (rguard (CHAT_HEADER_LEN \<le> length payload) (ValueErr TooShort)) (\<lambda>_.
     rbind (pack_exc (struct_unpack Little [FQ, FH] (take CHAT_HEADER_LEN payload))) (\<lambda>vs.
     let actor_id = vs ! 0; text_len = nat (vs ! 1) in
     rbind (rguard (text_len \<le> SP_CHAT_MAX_TEXT) (ValueErr TextOutOfRange)) (\<lambda>_.
     let end = CHAT_HEADER_LEN + text_len in
     rbind (rguard (end \<le> length payload) (ValueErr TextTruncated)) (\<lambda>_.
     rbind (text_exc (utf8_decode (py_slice CHAT_HEADER_LEN end payload))) (\<lambda>text.
     Inr (actor_id, text))))))"

subsection \<open>The codecs fulfil the contract\<close>

lemma sp_login_codec: "wire_codec sp_encode_login sp_decode_login"
  by (rule fixed_codec [where e = Little and fs = "[FQ]" and fields_of = "\<lambda>v. [v]"
        and of_fields = "\<lambda>vs. vs ! 0" and err = "ValueErr TooShort"])
    (auto simp: sp_encode_login_def sp_decode_login_def spatial_sizes struct_unpack_def rguard_def
      length_Suc_conv)

lemma length_6_nths: "length vs = 6 \<Longrightarrow> [vs ! 0, vs ! 1, vs ! 2, vs ! 3, vs ! 4, vs ! 5] = vs"
  by (auto simp: length_Suc_conv eval_nat_numeral)

lemma calcsize_actor_input: "calcsize ACTOR_INPUT_FMT = 19"
  by (simp add: ACTOR_INPUT_FMT_def)

lemma actor_input_codec: "wire_codec (\<lambda>(a, i). encode_actor_input a i) decode_actor_input"
proof (rule fixed_codec [where e = Little and fs = ACTOR_INPUT_FMT and err = "ValueErr TooShort"
      and fields_of = "\<lambda>(a, i). [a, in_input_tick i, in_move_x i, in_move_y i, in_move_z i, in_flags i]"
      and of_fields = input_of_fields])
  fix b
  have "unpack_fields Little ACTOR_INPUT_FMT (take 19 b) = unpack_fields Little ACTOR_INPUT_FMT b"
    if "19 \<le> length b"
    using that unpack_fields_take [of ACTOR_INPUT_FMT b Little] by (simp add: calcsize_actor_input)
  then show "decode_actor_input b =
      (if calcsize ACTOR_INPUT_FMT \<le> length b
       then Inr (input_of_fields (unpack_fields Little ACTOR_INPUT_FMT b)) else Inl (ValueErr TooShort))"
    by (simp add: decode_actor_input_def spatial_sizes struct_unpack_def calcsize_actor_input rguard_def)
next
  fix vs :: "int list"
  assume "length vs = length ACTOR_INPUT_FMT"
  then have "length vs = 6" by (simp add: ACTOR_INPUT_FMT_def)
  then show "(case input_of_fields vs of
      (a, i) \<Rightarrow> [a, in_input_tick i, in_move_x i, in_move_y i, in_move_z i, in_flags i]) = vs"
    using length_6_nths [of vs] by (simp add: input_of_fields_def)
qed (auto simp: encode_actor_input_def input_of_fields_def)

lemma encode_chat_Inr:
  "encode_chat a t = Inr b \<longleftrightarrow>
     (\<exists>tb. utf8_encode t = Inr tb \<and> length tb \<le> 4096 \<and> fmt_fits FQ a \<and>
        b = pack_field Little FQ a @ pack_field Little FH (int (length tb)) @ tb)"
  by (auto simp: encode_chat_def rbind_eq_Inr struct_pack_eq_Inr spatial_sizes)

lemma chat_line_codec: "wire_codec (\<lambda>(a, t). encode_chat a t) decode_chat"
proof
  fix v :: "int \<times> pystr" and b rest
  assume e: "(case v of (a, t) \<Rightarrow> encode_chat a t) = Inr b"
  obtain a t where v: "v = (a, t)" by (cases v)
  obtain tb where tb: "utf8_encode t = Inr tb" "length tb \<le> 4096" "fmt_fits FQ a"
    and b: "b = pack_field Little FQ a @ pack_field Little FH (int (length tb)) @ tb"
    using e by (auto simp: v encode_chat_Inr)
  show "decode_chat (b @ rest) = Inr v"
    using tb utf8_decode_encode [OF tb(1)]
    by (simp add: b v decode_chat_def spatial_sizes py_slice_def struct_unpack_def unpack_pack_field
        Let_def)
next
  fix b and v :: "int \<times> pystr"
  assume d: "decode_chat b = Inr v"
  define q where "q = py_slice 0 8 b"
  define h where "h = py_slice 8 10 b"
  define e where "e = 10 + nat (unpack_field Little FH h)"
  obtain a t where v: "v = (a, t)" by (cases v)
  have f: "take 8 b = q" "drop 8 (take 10 b) = h" "take 2 h = h"
    by (simp_all add: q_def h_def py_slice_def drop_take)
  from d have c: "10 \<le> length b" "nat (unpack_field Little FH h) \<le> 4096" "e \<le> length b"
    and a: "a = unpack_field Little FQ q" and t: "utf8_decode (py_slice 10 e b) = Inr t"
    by (auto simp: decode_chat_def spatial_sizes v rbind_eq_Inr struct_unpack_def f Let_def e_def)
  have "length q = fmt_size FQ" "length h = fmt_size FH" using c(1) by (simp_all add: q_def h_def)
  then have q: "pack_field Little FQ a = q" "fmt_fits FQ a"
    and h: "pack_field Little FH (unpack_field Little FH h) = h" "0 \<le> unpack_field Little FH h"
    using unpack_field_fits [of h FH Little] unpack_field_fits [of q FQ Little]
    by (simp_all add: a pack_unpack_field)
  have "length (py_slice 10 e b) = nat (unpack_field Little FH h)" using c(3) by (simp add: e_def)
  then have "encode_chat a t = Inr (q @ h @ py_slice 10 e b)"
    using c utf8_encode_decode [OF t] q h by (auto simp: encode_chat_Inr)
  also have "q @ h @ py_slice 10 e b = take e b"
    by (simp add: q_def h_def py_slice_join e_def del: py_slice_0) (simp add: py_slice_def)
  finally show "\<exists>p rest. (case v of (a, t) \<Rightarrow> encode_chat a t) = Inr p \<and> b = p @ rest"
    by (metis append_take_drop_id v case_prod_conv)
qed

interpretation login_payload: wire_codec sp_encode_login sp_decode_login
  by (rule sp_login_codec)

interpretation input_payload: wire_codec "\<lambda>(a, i). encode_actor_input a i" decode_actor_input
  by (rule actor_input_codec)

interpretation chat_payload: wire_codec "\<lambda>(a, t). encode_chat a t" decode_chat
  by (rule chat_line_codec)

end
