(* ===== verification/Replication.thy ===== *)
theory Replication
  imports SpatialCodec
begin

text \<open>
  The replication records of the spatial example, from both ends: the serialiser of the gateway
  (\<open>src/gateway/delivery/delivery.c\<close>, the batch payload of \<open>strategy_full.c\<close>) and the readers of the client
  (\<open>examples/spatial/client.py\<close>): the decoders of one record and of a batch, the two iterators that
  read only the fields they need, the event predicate, and the bootstrap step of the client.
\<close>

subsection \<open>Replication records\<close>

definition ACTOR_STATE_PAYLOAD_SIZE :: nat where "ACTOR_STATE_PAYLOAD_SIZE = 68"
definition ACTOR_STATE_FMT :: "fmt list" where
  "ACTOR_STATE_FMT = [FQ, Fq, Fq, Fq, Fq, Fq, Fq, FI, FI, FI]"
definition ACTOR_STATE_BATCH_HEADER_SIZE :: nat where "ACTOR_STATE_BATCH_HEADER_SIZE = 4"
definition BATCH_HEADER_FMT :: "fmt list" where "BATCH_HEADER_FMT = [FH, FH]"
definition BATCH_RECORD_SIZE :: nat where "BATCH_RECORD_SIZE = ACTOR_STATE_PAYLOAD_SIZE"
definition MEMBERSHIP_EVENT_MARKER :: int where "MEMBERSHIP_EVENT_MARKER = 0x80000000"
definition MEMBERSHIP_EVENT_ENTER :: int where "MEMBERSHIP_EVENT_ENTER = 0"
definition MEMBERSHIP_EVENT_EXIT :: int where "MEMBERSHIP_EVENT_EXIT = 1"
definition MEMBERSHIP_EVENT_CROWD_ENTER :: int where "MEMBERSHIP_EVENT_CROWD_ENTER = 2"
definition MEMBERSHIP_EVENT_CROWD_EXIT :: int where "MEMBERSHIP_EVENT_CROWD_EXIT = 3"
definition MEMBERSHIP_EVENT_VANISH :: int where "MEMBERSHIP_EVENT_VANISH = 4"

lemmas replication_sizes =
  ACTOR_STATE_PAYLOAD_SIZE_def ACTOR_STATE_BATCH_HEADER_SIZE_def BATCH_RECORD_SIZE_def

record ActorStateView =
  asv_actor_id :: int
  asv_pos_x :: int
  asv_pos_y :: int
  asv_pos_z :: int
  asv_vel_x :: int
  asv_vel_y :: int
  asv_vel_z :: int
  asv_input_tick :: int
  asv_update_seq :: int
  asv_product_level :: int

definition view_of_fields :: "int list \<Rightarrow> ActorStateView" where
  "view_of_fields vs =
     \<lparr>asv_actor_id = vs ! 0, asv_pos_x = vs ! 1, asv_pos_y = vs ! 2, asv_pos_z = vs ! 3,
      asv_vel_x = vs ! 4, asv_vel_y = vs ! 5, asv_vel_z = vs ! 6, asv_input_tick = vs ! 7,
      asv_update_seq = vs ! 8, asv_product_level = vs ! 9\<rparr>"

definition decode_actor_state_at :: "bytes \<Rightarrow> nat \<Rightarrow> codec_exc + ActorStateView" where
  "decode_actor_state_at payload offset =
     rbind (pack_exc (struct_unpack_from Big ACTOR_STATE_FMT (drop offset payload))) (\<lambda>vs.
     Inr (view_of_fields vs))"

definition decode_actor_state :: "bytes \<Rightarrow> codec_exc + ActorStateView" where
  "decode_actor_state payload =
     rbind (rguard (ACTOR_STATE_PAYLOAD_SIZE \<le> length payload) (ValueErr TooShort)) (\<lambda>_.
     decode_actor_state_at payload 0)"

definition encode_actor_state :: "ActorStateView \<Rightarrow> codec_exc + bytes" where
  "encode_actor_state view =
     pack_exc (struct_pack Big ACTOR_STATE_FMT
       [asv_actor_id view, asv_pos_x view, asv_pos_y view, asv_pos_z view, asv_vel_x view,
        asv_vel_y view, asv_vel_z view, asv_input_tick view, asv_update_seq view,
        asv_product_level view])"

text \<open>\<open>bool(level & MEMBERSHIP_EVENT_MARKER)\<close>: the marker is the single bit 31.\<close>

definition marked :: "int \<Rightarrow> bool" where
  "marked level \<longleftrightarrow> level AND MEMBERSHIP_EVENT_MARKER \<noteq> 0"

definition is_membership_record :: "ActorStateView \<Rightarrow> bool" where
  "is_membership_record view = marked (asv_product_level view)"

text \<open>The loop of the batch decoder: \<open>n\<close> records are still announced, \<open>base\<close> is the next offset.\<close>

fun batch_records :: "nat \<Rightarrow> bytes \<Rightarrow> nat \<Rightarrow> ActorStateView list \<Rightarrow> codec_exc + ActorStateView list" where
  "batch_records 0 payload base views = Inr views"
| "batch_records (Suc n) payload base views =
     (let rec = py_slice base (base + BATCH_RECORD_SIZE) payload in
      if length rec < ACTOR_STATE_PAYLOAD_SIZE then Inr views
      else rbind (decode_actor_state rec) (\<lambda>view.
           batch_records n payload (base + BATCH_RECORD_SIZE) (views @ [view])))"

definition decode_actor_state_batch :: "bytes \<Rightarrow> codec_exc + ActorStateView list" where
  "decode_actor_state_batch payload =
     rbind (rguard (ACTOR_STATE_BATCH_HEADER_SIZE \<le> length payload) (ValueErr TooShort)) (\<lambda>_.
     rbind (pack_exc (struct_unpack Big BATCH_HEADER_FMT (take ACTOR_STATE_BATCH_HEADER_SIZE payload)))
       (\<lambda>vs. batch_records (nat (vs ! 0)) payload ACTOR_STATE_BATCH_HEADER_SIZE []))"

text \<open>\<open>_STATE_ID_FIELD.unpack_from(payload, offset)[0]\<close> and the marker word of the same record.\<close>

definition field_at :: "fmt \<Rightarrow> bytes \<Rightarrow> nat \<Rightarrow> codec_exc + int" where
  "field_at f payload offset =
     rbind (pack_exc (struct_unpack_from Big [f] (drop offset payload))) (\<lambda>vs. Inr (vs ! 0))"

fun states_at :: "bytes \<Rightarrow> int \<Rightarrow> nat list \<Rightarrow> codec_exc + ActorStateView list" where
  "states_at payload actor_id [] = Inr []"
| "states_at payload actor_id (offset # offsets) =
     rbind (field_at FQ payload offset) (\<lambda>id.
     if id \<noteq> actor_id then states_at payload actor_id offsets
     else rbind (field_at FI payload (offset + 64)) (\<lambda>marker.
          if marked marker then states_at payload actor_id offsets
          else rbind (decode_actor_state_at payload offset) (\<lambda>view.
               rbind (states_at payload actor_id offsets) (\<lambda>views. Inr (view # views)))))"

text \<open>\<open>range(start, start + count * size, size)\<close>.\<close>

definition record_offsets :: "nat \<Rightarrow> nat \<Rightarrow> nat list" where
  "record_offsets start n = map (\<lambda>i. start + i * BATCH_RECORD_SIZE) [0..<n]"

definition iter_actor_states_for :: "int \<Rightarrow> bytes \<Rightarrow> int \<Rightarrow> codec_exc + ActorStateView list" where
  "iter_actor_states_for type_id payload actor_id =
     (if type_id = ACTOR_STATE_TYPE then
        states_at payload actor_id
          (record_offsets 0 (if ACTOR_STATE_PAYLOAD_SIZE \<le> length payload then 1 else 0))
      else if type_id = ACTOR_STATE_BATCH_TYPE then
        (if length payload < ACTOR_STATE_BATCH_HEADER_SIZE then Inr []
         else rbind (pack_exc (struct_unpack_from Big BATCH_HEADER_FMT payload)) (\<lambda>vs.
              states_at payload actor_id
                (record_offsets ACTOR_STATE_BATCH_HEADER_SIZE
                   (min (nat (vs ! 0))
                        ((length payload - ACTOR_STATE_BATCH_HEADER_SIZE) div BATCH_RECORD_SIZE)))))
      else Inr [])"

text \<open>\<open>_STATE_ID_RECORD.iter_unpack(records)\<close> with the format \<open>>Q56xI\<close>: a record's id and marker word;
  it raises when the buffer is not a whole number of records.\<close>

fun id_marker_records :: "nat \<Rightarrow> bytes \<Rightarrow> (int \<times> int) list" where
  "id_marker_records 0 records = []"
| "id_marker_records (Suc n) records =
     (unpack_field Big FQ (take 8 records), unpack_field Big FI (py_slice 64 68 records)) #
     id_marker_records n (drop BATCH_RECORD_SIZE records)"

definition iter_unpack_ids :: "bytes \<Rightarrow> codec_exc + (int \<times> int) list" where
  "iter_unpack_ids records =
     rbind (rguard (length records mod BATCH_RECORD_SIZE = 0) StructErr) (\<lambda>_.
     Inr (id_marker_records (length records div BATCH_RECORD_SIZE) records))"

definition iter_actor_state_ids :: "int \<Rightarrow> bytes \<Rightarrow> codec_exc + int list" where
  "iter_actor_state_ids type_id payload =
     (if type_id = ACTOR_STATE_TYPE then
        (if ACTOR_STATE_PAYLOAD_SIZE \<le> length payload then
           rbind (field_at FI payload 64) (\<lambda>marker.
           if marked marker then Inr [] else rbind (field_at FQ payload 0) (\<lambda>id. Inr [id]))
         else Inr [])
      else if type_id \<noteq> ACTOR_STATE_BATCH_TYPE then Inr []
      else if length payload < ACTOR_STATE_BATCH_HEADER_SIZE then Inr []
      else rbind (pack_exc (struct_unpack_from Big BATCH_HEADER_FMT payload)) (\<lambda>vs.
           let n = min (nat (vs ! 0))
                 ((length payload - ACTOR_STATE_BATCH_HEADER_SIZE) div BATCH_RECORD_SIZE);
               end = ACTOR_STATE_BATCH_HEADER_SIZE + n * BATCH_RECORD_SIZE
           in rbind (iter_unpack_ids (py_slice ACTOR_STATE_BATCH_HEADER_SIZE end payload)) (\<lambda>rs.
              Inr (map fst (filter (\<lambda>(_, marker). \<not> marked marker) rs)))))"

text \<open>The predicate \<open>actor_state_for(actor_id)\<close> on an event's type and payload; its decoders raise only
  \<open>ValueError\<close>, which it answers with \<open>False\<close>.\<close>

definition actor_state_for :: "int \<Rightarrow> int \<Rightarrow> bytes \<Rightarrow> codec_exc + bool" where
  "actor_state_for actor_id type_id payload =
     (case (if type_id = ACTOR_STATE_BATCH_TYPE then
              rbind (decode_actor_state_batch payload) (\<lambda>views.
              Inr (list_ex (\<lambda>v. asv_actor_id v = actor_id \<and> \<not> is_membership_record v) views))
            else
              rbind (decode_actor_state payload) (\<lambda>v. Inr (asv_actor_id v = actor_id))) of
        Inl (ValueErr r) \<Rightarrow> Inr False
      | res \<Rightarrow> res)"

subsection \<open>Client wiring\<close>

text \<open>\<open>login_bootstrap_step\<close>: the type awaited, the frame sent on entry, the answer to a reply.\<close>

record BootstrapStep =
  bs_await_type_id :: int
  bs_on_enter :: "codec_exc + (int \<times> bytes)"
  bs_on_reply :: int

definition login_bootstrap_step :: "int \<Rightarrow> int option \<Rightarrow> BootstrapStep" where
  "login_bootstrap_step principal_id await_type_id =
     \<lparr>bs_await_type_id = (case await_type_id of None \<Rightarrow> ACTOR_STATE_TYPE | Some t \<Rightarrow> t),
      bs_on_enter = rbind (sp_encode_login principal_id) (\<lambda>p. Inr (SP_LOGIN_TYPE, p)),
      bs_on_reply = 1\<rparr>"

definition replication_direct_types :: "int set" where
  "replication_direct_types = {ACTOR_STATE_TYPE, ACTOR_STATE_BATCH_TYPE}"

definition make_ahc_bootstrap :: "int \<Rightarrow> int \<Rightarrow> BootstrapStep list" where
  "make_ahc_bootstrap principal_id replication_batch_type_id =
     [login_bootstrap_step principal_id
        (Some (if replication_batch_type_id \<noteq> 0 then ACTOR_STATE_BATCH_TYPE else ACTOR_STATE_TYPE))]"

subsection \<open>The gateway's serialiser\<close>

definition put_be_u64 :: "64 word \<Rightarrow> bytes" where
  "put_be_u64 v = map (\<lambda>i. ucast (drop_bit (56 - 8 * i) v)) [0..<8]"

definition put_be_u32 :: "32 word \<Rightarrow> bytes" where
  "put_be_u32 v = map (\<lambda>i. ucast (drop_bit (24 - 8 * i) v)) [0..<4]"


text \<open>\<open>kith_gateway_view_subject_t\<close>: the signed fields are kept as their 64-bit words.\<close>

record view_subject =
  vs_actor_id :: "64 word"
  vs_pos_x :: "64 word"
  vs_pos_y :: "64 word"
  vs_pos_z :: "64 word"
  vs_vel_x :: "64 word"
  vs_vel_y :: "64 word"
  vs_vel_z :: "64 word"
  vs_input_tick :: "32 word"
  vs_update_seq :: "32 word"
  vs_level :: "32 word"

definition GATEWAY_DELIVERY_EVENT_MARKER :: "32 word" where
  "GATEWAY_DELIVERY_EVENT_MARKER = 0x80000000"

definition gateway_delivery_serialize :: "view_subject \<Rightarrow> bytes" where
  "gateway_delivery_serialize s =
     put_be_u64 (vs_actor_id s) @ put_be_u64 (vs_pos_x s) @ put_be_u64 (vs_pos_y s) @
     put_be_u64 (vs_pos_z s) @ put_be_u64 (vs_vel_x s) @ put_be_u64 (vs_vel_y s) @
     put_be_u64 (vs_vel_z s) @ put_be_u32 (vs_input_tick s) @ put_be_u32 (vs_update_seq s) @
     put_be_u32 (vs_level s)"

definition gateway_delivery_serialize_event :: "64 word \<Rightarrow> 32 word \<Rightarrow> bytes" where
  "gateway_delivery_serialize_event actor_id kind =
     put_be_u64 actor_id @ replicate 48 0 @ put_be_u32 0 @ put_be_u32 0 @
     put_be_u32 (GATEWAY_DELIVERY_EVENT_MARKER OR kind)"

definition put_be_u16 :: "16 word \<Rightarrow> bytes" where
  "put_be_u16 v = [ucast (drop_bit 8 v), ucast v]"

text \<open>The payload \<open>full_deliver_batch\<close> fills: pending membership events first, then the subjects. The
  announced count saturates at 65535.\<close>

definition batch_payload :: "(64 word \<times> 32 word) list \<Rightarrow> view_subject list \<Rightarrow> bytes" where
  "batch_payload pending subjects =
     (let total_records = length pending + length subjects;
          count16 = (if total_records > 0xffff then 0xffff else of_nat total_records) in
      put_be_u16 count16 @ put_be_u16 0 @
      concat (map (\<lambda>(actor_id, kind). gateway_delivery_serialize_event actor_id kind) pending) @
      concat (map gateway_delivery_serialize subjects))"

text \<open>What a client should see of a subject and of an event.\<close>

definition subject_view :: "view_subject \<Rightarrow> ActorStateView" where
  "subject_view s =
     \<lparr>asv_actor_id = uint (vs_actor_id s), asv_pos_x = sint (vs_pos_x s), asv_pos_y = sint (vs_pos_y s),
      asv_pos_z = sint (vs_pos_z s), asv_vel_x = sint (vs_vel_x s), asv_vel_y = sint (vs_vel_y s),
      asv_vel_z = sint (vs_vel_z s), asv_input_tick = uint (vs_input_tick s),
      asv_update_seq = uint (vs_update_seq s), asv_product_level = uint (vs_level s)\<rparr>"

definition event_view :: "64 word \<times> 32 word \<Rightarrow> ActorStateView" where
  "event_view e =
     subject_view \<lparr>vs_actor_id = fst e, vs_pos_x = 0, vs_pos_y = 0, vs_pos_z = 0, vs_vel_x = 0,
       vs_vel_y = 0, vs_vel_z = 0, vs_input_tick = 0, vs_update_seq = 0,
       vs_level = GATEWAY_DELIVERY_EVENT_MARKER OR snd e\<rparr>"

subsection \<open>Records by their offset\<close>

definition view_at :: "bytes \<Rightarrow> nat \<Rightarrow> ActorStateView" where
  "view_at payload offset = view_of_fields (unpack_fields Big ACTOR_STATE_FMT (drop offset payload))"

lemma calcsize_actor_state: "calcsize ACTOR_STATE_FMT = 68"
  by (simp add: ACTOR_STATE_FMT_def)

lemma decode_actor_state_at_fits:
  assumes "offset + 68 \<le> length payload"
  shows "decode_actor_state_at payload offset = Inr (view_at payload offset)"
proof -
  have "68 \<le> length payload - offset" using assms by simp
  then show ?thesis
    by (simp add: decode_actor_state_at_def struct_unpack_from_def calcsize_actor_state view_at_def)
qed

lemma decode_actor_state_fits:
  "68 \<le> length payload \<Longrightarrow> decode_actor_state payload = Inr (view_at payload 0)"
  by (simp add: decode_actor_state_def replication_sizes decode_actor_state_at_fits)

lemma view_at_slice:
  assumes "base + 68 \<le> length payload"
  shows "view_at (py_slice base (base + 68) payload) 0 = view_at payload base"
  using unpack_fields_take [of ACTOR_STATE_FMT "drop base payload" Big] assms
  by (simp add: view_at_def py_slice_def calcsize_actor_state)

lemma record_offsets_Suc: "record_offsets start (Suc n) = start # record_offsets (start + 68) n"
  by (simp add: record_offsets_def replication_sizes upt_conv_Cons map_Suc_upt [symmetric] add.assoc
      del: upt_Suc)

lemma batch_records_views:
  "batch_records n payload base views =
     Inr (views @ map (view_at payload) (record_offsets base (min n ((length payload - base) div 68))))"
proof (induction n payload base views rule: batch_records.induct)
  case (1 payload base views)
  then show ?case by (simp add: record_offsets_def)
next
  case (2 n payload base views)
  show ?case
  proof (cases "base + 68 \<le> length payload")
    case True
    have "(length payload - base) div 68 = Suc ((length payload - (base + 68)) div 68)"
      using True by (simp add: le_div_geq)
    moreover have "decode_actor_state (py_slice base (base + 68) payload) = Inr (view_at payload base)"
      using True view_at_slice [OF True] by (simp add: decode_actor_state_fits)
    ultimately show ?thesis
      using True 2 by (simp add: Let_def replication_sizes record_offsets_Suc)
  next
    case False
    then have "length payload - base < 68" by simp
    then show ?thesis by (simp add: Let_def replication_sizes record_offsets_def)
  qed
qed

lemma decode_batch_views:
  assumes "4 \<le> length payload"
  shows "decode_actor_state_batch payload =
    Inr (map (view_at payload) (record_offsets 4
      (min (nat (unpack_field Big FH (take 2 payload))) ((length payload - 4) div 68))))"
  using assms
  by (simp add: decode_actor_state_batch_def replication_sizes struct_unpack_def BATCH_HEADER_FMT_def
      batch_records_views)

text \<open>Reading the identity and the marker word of a record is reading those fields of its view.\<close>

lemma take_drop_drop: "take n (drop m (drop k xs)) = take n (drop (m + k) xs)"
  by simp

lemma field_at_view:
  assumes "offset + 68 \<le> length payload"
  shows "field_at FQ payload offset = Inr (asv_actor_id (view_at payload offset))"
    and "field_at FI payload (offset + 64) = Inr (asv_product_level (view_at payload offset))"
proof -
  have l: "8 \<le> length payload - offset" "4 \<le> length payload - (offset + 64)" using assms by simp_all
  then show "field_at FQ payload offset = Inr (asv_actor_id (view_at payload offset))"
    by (simp add: field_at_def struct_unpack_from_def view_at_def view_of_fields_def ACTOR_STATE_FMT_def)
  show "field_at FI payload (offset + 64) = Inr (asv_product_level (view_at payload offset))"
    using l by (simp add: field_at_def struct_unpack_from_def view_at_def view_of_fields_def
        ACTOR_STATE_FMT_def add.commute)
qed

abbreviation states_of :: "int \<Rightarrow> ActorStateView list \<Rightarrow> ActorStateView list" where
  "states_of actor_id views \<equiv> filter (\<lambda>v. asv_actor_id v = actor_id \<and> \<not> is_membership_record v) views"

lemma states_at_views:
  "\<forall>offset \<in> set offsets. offset + 68 \<le> length payload \<Longrightarrow>
     states_at payload actor_id offsets = Inr (states_of actor_id (map (view_at payload) offsets))"
proof (induction offsets)
  case (Cons offset offsets)
  then have o: "offset + 68 \<le> length payload" by simp
  from Cons show ?case
    using field_at_view [OF o] decode_actor_state_at_fits [OF o] by (simp add: is_membership_record_def)
qed simp

lemma record_offsets_fit:
  assumes "n \<le> (length payload - start) div 68" "start \<le> length payload"
  shows "\<forall>offset \<in> set (record_offsets start n). offset + 68 \<le> length payload"
proof
  fix offset assume "offset \<in> set (record_offsets start n)"
  then obtain i where i: "i < n" "offset = start + i * 68"
    by (auto simp: record_offsets_def replication_sizes)
  then have "Suc i * 68 \<le> (length payload - start) div 68 * 68" using assms(1) by (intro mult_le_mono1) simp
  also have "\<dots> \<le> length payload - start" by (rule div_times_less_eq_dividend)
  finally show "offset + 68 \<le> length payload" using i assms(2) by simp
qed

lemma id_marker_records_views:
  "n * 68 \<le> length payload - start \<Longrightarrow>
   id_marker_records n (drop start payload) =
     map (\<lambda>v. (asv_actor_id v, asv_product_level v)) (map (view_at payload) (record_offsets start n))"
proof (induction n arbitrary: start)
  case 0
  then show ?case by (simp add: record_offsets_def)
next
  case (Suc n)
  from Suc.IH [of "start + 68"] Suc.prems show ?case
    by (simp add: record_offsets_Suc view_at_def view_of_fields_def ACTOR_STATE_FMT_def py_slice_def replication_sizes
        add.commute)
qed

lemma id_marker_records_take:
  "n * 68 \<le> m \<Longrightarrow> id_marker_records n (take m xs) = id_marker_records n xs"
proof (induction n arbitrary: m xs)
  case (Suc n)
  from Suc.IH [of "m - 68" "drop 68 xs"] Suc.prems show ?case
    by (simp add: replication_sizes py_slice_def drop_take min_def)
qed simp

subsection \<open>The field readers agree with the decoders\<close>

lemma iter_batch_views:
  assumes "4 \<le> length payload"
  defines "vs \<equiv> map (view_at payload) (record_offsets 4
      (min (nat (unpack_field Big FH (take 2 payload))) ((length payload - 4) div 68)))"
  shows "iter_actor_states_for ACTOR_STATE_BATCH_TYPE payload actor_id = Inr (states_of actor_id vs)"
    and "iter_actor_state_ids ACTOR_STATE_BATCH_TYPE payload =
           Inr (map asv_actor_id (filter (\<lambda>v. \<not> is_membership_record v) vs))"
proof -
  let ?n = "min (nat (unpack_field Big FH (take 2 payload))) ((length payload - 4) div 68)"
  have h: "struct_unpack_from Big BATCH_HEADER_FMT payload =
      Inr [unpack_field Big FH (take 2 payload), unpack_field Big FH (take 2 (drop 2 payload))]"
    using assms(1) by (simp add: struct_unpack_from_def BATCH_HEADER_FMT_def)
  have fit: "\<forall>offset \<in> set (record_offsets 4 ?n). offset + 68 \<le> length payload"
    by (rule record_offsets_fit) (use assms(1) in simp_all)
  have ne: "ACTOR_STATE_BATCH_TYPE \<noteq> ACTOR_STATE_TYPE" by (simp add: spatial_type_ids)
  show "iter_actor_states_for ACTOR_STATE_BATCH_TYPE payload actor_id = Inr (states_of actor_id vs)"
    using assms(1) states_at_views [OF fit, of actor_id]
    by (simp add: iter_actor_states_for_def ne h replication_sizes vs_def)
  have n: "?n * 68 \<le> length payload - 4"
    using div_times_less_eq_dividend [of "length payload - 4" 68] by (auto simp: min_def)
  have l: "length (py_slice 4 (4 + ?n * 68) payload) = ?n * 68" using n by simp
  have "id_marker_records ?n (py_slice 4 (4 + ?n * 68) payload) =
      map (\<lambda>v. (asv_actor_id v, asv_product_level v)) vs"
    using id_marker_records_take [of ?n "?n * 68" "drop 4 payload"] id_marker_records_views [OF n]
    by (simp add: py_slice_def vs_def)
  then show "iter_actor_state_ids ACTOR_STATE_BATCH_TYPE payload =
      Inr (map asv_actor_id (filter (\<lambda>v. \<not> is_membership_record v) vs))"
    using assms(1) l
    by (simp add: iter_actor_state_ids_def ne h replication_sizes Let_def iter_unpack_ids_def
        filter_map comp_def is_membership_record_def)
qed

subsection \<open>The serialised bytes\<close>

lemma byte_of_word: "(ucast (drop_bit k w) :: byte) = of_nat (unat w div 2 ^ k)"
  by (metis of_nat_unat unat_drop_bit_eq drop_bit_eq_div)

lemma put_be_u64_bytes: "put_be_u64 v = be_bytes 8 (unat v)"
  by (simp add: put_be_u64_def upt_8 byte_of_word be_bytes_numeral div_mult2_eq [symmetric])

lemma put_be_u32_bytes: "put_be_u32 v = be_bytes 4 (unat v)"
proof -
  have "[0..<4] = [0, 1, 2, 3::nat]" by (simp add: upt_rec)
  then show ?thesis by (simp add: put_be_u32_def byte_of_word be_bytes_numeral
        div_mult2_eq [symmetric])
qed

lemma put_be_u16_bytes: "put_be_u16 v = be_bytes 2 (unat v)"
  using byte_of_word [of 8 v] byte_of_word [of 0 v] by (simp add: put_be_u16_def be_bytes_numeral)

lemma length_put_be [simp]:
  "length (put_be_u64 v) = 8" "length (put_be_u32 w) = 4" "length (put_be_u16 x) = 2"
  by (simp_all add: put_be_u64_bytes put_be_u32_bytes put_be_u16_bytes)

lemma unat_bounds:
  "unat (v :: 64 word) < 2 ^ 64" "unat (w :: 32 word) < 2 ^ 32" "unat (x :: 16 word) < 2 ^ 16"
  using unsigned_less [of v, where 'a = nat] unsigned_less [of w, where 'a = nat]
    unsigned_less [of x, where 'a = nat] by simp_all

lemma unpack_put_be:
  "unpack_field Big FQ (put_be_u64 v) = uint v"
  "unpack_field Big FI (put_be_u32 w) = uint w"
  "unpack_field Big FH (put_be_u16 x) = uint x"
  using unat_bounds(1) [of v] unat_bounds(2) [of w] unat_bounds(3) [of x]
  by (simp_all add: put_be_u64_bytes put_be_u32_bytes put_be_u16_bytes unpack_field_def byte_order_def
      be_val_be_bytes Let_def)

lemma sint_of_uint: "sint (v :: 64 word) = (if 2 ^ 63 \<le> uint v then uint v - 2 ^ 64 else uint v)"
proof -
  have u: "0 \<le> uint v" "uint v < 2 ^ 64" using uint_lt2p [of v] by simp_all
  have "bit (uint v) 63 \<longleftrightarrow> 2 ^ 63 \<le> uint v"
  proof (cases "2 ^ 63 \<le> uint v")
    case True
    then have "uint v div 2 ^ 63 = 1" using u by (simp add: div_pos_geq)
    with True show ?thesis by (simp add: bit_iff_odd)
  next
    case False
    with u show ?thesis by (simp add: bit_iff_odd)
  qed
  moreover have "sint v = uint v - 2 ^ 64 * of_bool (bit (uint v) 63)"
    using u by (simp add: sint_uint signed_take_bit_eq_take_bit_minus take_bit_int_eq_self_iff)
  ultimately show ?thesis by simp
qed

lemma unpack_put_be_signed: "unpack_field Big Fq (put_be_u64 v) = sint v"
  using unat_bounds(1) [of v]
  by (simp add: put_be_u64_bytes unpack_field_def byte_order_def be_val_be_bytes Let_def sint_of_uint)

lemma length_serialize [simp]:
  "length (gateway_delivery_serialize s) = 68" "length (gateway_delivery_serialize_event a k) = 68"
  by (simp_all add: gateway_delivery_serialize_def gateway_delivery_serialize_event_def)

lemma view_at_serialize: "view_at (gateway_delivery_serialize s @ rest) 0 = subject_view s"
  by (simp add: view_at_def view_of_fields_def ACTOR_STATE_FMT_def gateway_delivery_serialize_def
      subject_view_def unpack_put_be unpack_put_be_signed)

lemma serialize_event_as_subject:
  "gateway_delivery_serialize_event a k =
     gateway_delivery_serialize \<lparr>vs_actor_id = a, vs_pos_x = 0, vs_pos_y = 0, vs_pos_z = 0, vs_vel_x = 0,
       vs_vel_y = 0, vs_vel_z = 0, vs_input_tick = 0, vs_update_seq = 0,
       vs_level = GATEWAY_DELIVERY_EVENT_MARKER OR k\<rparr>"
proof -
  have "put_be_u64 0 = replicate 8 0" by (simp add: put_be_u64_def upt_8 eval_nat_numeral)
  then show ?thesis
    by (simp add: gateway_delivery_serialize_event_def gateway_delivery_serialize_def
        replicate_add [symmetric] append_assoc [symmetric] del: append_assoc)
qed

lemma view_at_serialize_event:
  "view_at (gateway_delivery_serialize_event a k @ rest) 0 = event_view (a, k)"
  by (simp add: serialize_event_as_subject view_at_serialize event_view_def)

lemma view_at_append: "view_at (xs @ ys) (length xs + k) = view_at ys k"
  by (simp add: view_at_def)

lemma views_of_concat:
  assumes "\<forall>r \<in> set recs. length r = 68" "n \<le> length recs"
  shows "map (view_at (pre @ concat recs)) (record_offsets (length pre) n) =
    map (\<lambda>r. view_at r 0) (take n recs)"
  using assms
proof (induction recs arbitrary: n pre)
  case Nil
  then show ?case by (simp add: record_offsets_def)
next
  case (Cons r recs)
  show ?case
  proof (cases n)
    case 0
    then show ?thesis by (simp add: record_offsets_def)
  next
    case (Suc m)
    have r: "length r = 68" using Cons.prems(1) by simp
    have "view_at (r @ concat recs) 0 = view_at r 0"
      using unpack_fields_take [of ACTOR_STATE_FMT "r @ concat recs" Big]
        unpack_fields_take [of ACTOR_STATE_FMT r Big] r
      by (simp add: view_at_def calcsize_actor_state)
    then have "view_at (pre @ r @ concat recs) (length pre) = view_at r 0"
      using view_at_append [of pre "r @ concat recs" 0] by simp
    moreover have "map (view_at ((pre @ r) @ concat recs)) (record_offsets (length (pre @ r)) m) =
        map (\<lambda>r. view_at r 0) (take m recs)"
      by (rule Cons.IH) (use Cons.prems Suc in simp_all)
    ultimately show ?thesis using r by (simp add: Suc record_offsets_Suc add.commute)
  qed
qed

lemma marked_bit: "marked n \<longleftrightarrow> bit n 31"
proof -
  have m: "MEMBERSHIP_EVENT_MARKER = 2 ^ 31" by (simp add: MEMBERSHIP_EVENT_MARKER_def)
  show ?thesis unfolding marked_def m and_exp_eq_0_iff_not_bit by (rule not_not)
qed

lemma event_view_is_membership: "is_membership_record (event_view e)"
proof -
  have "bit GATEWAY_DELIVERY_EVENT_MARKER 31" by (simp add: GATEWAY_DELIVERY_EVENT_MARKER_def)
  then show ?thesis
    by (simp add: is_membership_record_def marked_bit event_view_def subject_view_def bit_uint_iff
        bit_or_iff)
qed

lemma uint_count16: "n \<le> 0xffff \<Longrightarrow> uint (of_nat n :: 16 word) = int n"
  by (simp add: unsigned_of_nat take_bit_eq_mod)

lemma decode_batch_payload:
  assumes "length pending + length subjects \<le> 0xffff"
  shows "decode_actor_state_batch (batch_payload pending subjects) =
    Inr (map event_view pending @ map subject_view subjects)"
proof -
  let ?recs = "map (\<lambda>(a, k). gateway_delivery_serialize_event a k) pending @
    map gateway_delivery_serialize subjects"
  let ?n = "length pending + length subjects"
  let ?h = "put_be_u16 (of_nat ?n) @ put_be_u16 0"
  have b: "batch_payload pending subjects = ?h @ concat ?recs"
    using assms by (simp add: batch_payload_def Let_def)
  have l: "\<forall>r \<in> set ?recs. length r = 68" by auto
  have len: "length (concat rs) = length rs * 68" if "\<forall>r \<in> set rs. length r = 68" for rs :: "bytes list"
    using that by (induction rs) auto
  have "uint (of_nat ?n :: 16 word) = int ?n"
    by (rule uint_count16 [OF assms])
  then have c: "nat (unpack_field Big FH (take 2 (?h @ concat ?recs))) = ?n"
    by (simp add: unpack_put_be)
  have v: "map (\<lambda>r. view_at r 0) ?recs = map event_view pending @ map subject_view subjects"
    using view_at_serialize [of _ "[]"] view_at_serialize_event [of _ _ "[]"] by auto
  show ?thesis
    using decode_batch_views [of "?h @ concat ?recs"] views_of_concat [OF l, of ?n ?h] len [OF l] c v
    by (simp add: b)
qed

subsection \<open>Properties\<close>

text \<open>C12: A batch frame of the gateway read by the client gives, in the order of the frame, one membership
  record for every pending event and the exact state of every subject: identity, signed positions and
  velocities, tick, sequence and level. This holds up to the 65535 records the header can announce.\<close>

theorem gateway_batch_reads_back:
  assumes "length pending + length subjects \<le> 0xffff"
  shows "decode_actor_state_batch (batch_payload pending subjects) =
      Inr (map event_view pending @ map subject_view subjects) \<and>
    (\<forall>e \<in> set pending. is_membership_record (event_view e))"
  using decode_batch_payload [OF assms] event_view_is_membership by simp

definition demo_subject :: view_subject where
  "demo_subject =
     \<lparr>vs_actor_id = 7, vs_pos_x = - 65536, vs_pos_y = 131072, vs_pos_z = 0, vs_vel_x = 5, vs_vel_y = - 5,
      vs_vel_z = 0, vs_input_tick = 12, vs_update_seq = 3, vs_level = 1\<rparr>"

theorem gateway_batch_reads_back_witness:
  "decode_actor_state_batch (batch_payload [(9, 1)] [demo_subject]) =
     Inr [event_view (9, 1),
          \<lparr>asv_actor_id = 7, asv_pos_x = - 65536, asv_pos_y = 131072, asv_pos_z = 0, asv_vel_x = 5,
           asv_vel_y = - 5, asv_vel_z = 0, asv_input_tick = 12, asv_update_seq = 3,
           asv_product_level = 1\<rparr>]"
proof -
  have "subject_view demo_subject =
     \<lparr>asv_actor_id = 7, asv_pos_x = - 65536, asv_pos_y = 131072, asv_pos_z = 0, asv_vel_x = 5,
      asv_vel_y = - 5, asv_vel_z = 0, asv_input_tick = 12, asv_update_seq = 3, asv_product_level = 1\<rparr>"
    by (simp add: subject_view_def demo_subject_def)
  with gateway_batch_reads_back [of "[(9, 1)]" "[demo_subject]"] show ?thesis by simp
qed

definition decoded_views :: "int \<Rightarrow> bytes \<Rightarrow> ActorStateView list" where
  "decoded_views type_id payload =
     (if type_id = ACTOR_STATE_BATCH_TYPE then
        (case decode_actor_state_batch payload of Inl _ \<Rightarrow> [] | Inr vs \<Rightarrow> vs)
      else if type_id = ACTOR_STATE_TYPE then
        (case decode_actor_state payload of Inl _ \<Rightarrow> [] | Inr v \<Rightarrow> [v])
      else [])"

text \<open>C24: The two iterators that read only the fields they need agree with the full decoders on every
  payload, well-formed or not: the states of an actor are the decoded records that name it and are
  not membership events, the ids are those of all such records, and where the decoder raises they
  yield nothing. They never raise.\<close>

theorem iterators_agree_with_decoders:
  "iter_actor_states_for type_id payload actor_id =
     Inr (filter (\<lambda>v. asv_actor_id v = actor_id \<and> \<not> is_membership_record v) (decoded_views type_id payload)) \<and>
   iter_actor_state_ids type_id payload =
     Inr (map asv_actor_id (filter (\<lambda>v. \<not> is_membership_record v) (decoded_views type_id payload)))"
proof (cases "type_id = ACTOR_STATE_BATCH_TYPE")
  case True
  show ?thesis
  proof (cases "4 \<le> length payload")
    case l: True
    then show ?thesis
      unfolding True decoded_views_def iter_batch_views [OF l] by (simp add: decode_batch_views)
  next
    case False
    with True show ?thesis
      by (simp add: decoded_views_def decode_actor_state_batch_def iter_actor_states_for_def
          iter_actor_state_ids_def replication_sizes spatial_type_ids)
  qed
next
  case other: False
  show ?thesis
  proof (cases "type_id = ACTOR_STATE_TYPE \<and> 68 \<le> length payload")
    case True
    then have f: "field_at FQ payload 0 = Inr (asv_actor_id (view_at payload 0))"
      "field_at FI payload 64 = Inr (asv_product_level (view_at payload 0))"
      "decode_actor_state_at payload 0 = Inr (view_at payload 0)"
      using field_at_view [of 0 payload] decode_actor_state_at_fits [of 0 payload] by simp_all
    have "record_offsets 0 1 = [0]" by (simp add: record_offsets_def)
    with True other show ?thesis
      by (simp add: decoded_views_def decode_actor_state_fits iter_actor_states_for_def
          iter_actor_state_ids_def replication_sizes f is_membership_record_def)
  next
    case False
    with other show ?thesis
      by (cases "type_id = ACTOR_STATE_TYPE")
        (simp_all add: decoded_views_def decode_actor_state_def iter_actor_states_for_def
          iter_actor_state_ids_def replication_sizes record_offsets_def)
  qed
qed

text \<open>Outside batch frames the event predicate looks at nothing but the first eight bytes: it holds for
  every event of any type whose payload has at least 68 bytes and begins with the actor's id, so a
  membership event that tells a client that the actor left its view counts as a state of the actor. In
  a batch frame the same record does not count.\<close>

theorem actor_state_for_ignores_type_and_marker:
  "(\<forall>type_id. type_id \<noteq> ACTOR_STATE_BATCH_TYPE \<longrightarrow>
      actor_state_for (uint actor) type_id (gateway_delivery_serialize_event actor kind @ rest) = Inr True) \<and>
   actor_state_for (uint actor) ACTOR_STATE_BATCH_TYPE (batch_payload [(actor, kind)] []) = Inr False"
proof -
  have "decode_actor_state (gateway_delivery_serialize_event actor kind @ rest) =
      Inr (event_view (actor, kind))"
    by (simp add: decode_actor_state_fits view_at_serialize_event)
  moreover have "asv_actor_id (event_view (actor, kind)) = uint actor"
    by (simp add: event_view_def subject_view_def)
  ultimately show ?thesis
    using decode_batch_payload [of "[(actor, kind)]" "[]"] event_view_is_membership
    by (simp add: actor_state_for_def)
qed

theorem actor_state_for_ignores_type_and_marker_witness:
  "actor_state_for 9 CHAT_EVENT_TYPE (gateway_delivery_serialize_event 9 1) = Inr True \<and>
   actor_state_for 9 ACTOR_STATE_BATCH_TYPE (batch_payload [(9, 1)] []) = Inr False"
  using actor_state_for_ignores_type_and_marker [of 9 1 "[]"] by (simp add: spatial_type_ids)

end
