(* ===== verification/PyProc.thy ===== *)
theory PyProc
  imports Prelude
begin

text \<open>
  Methods that change an object and may raise part way. A \<open>proc\<close> maps the state to the returned value
  or the exception, together with the state it leaves behind; what was changed before a raise stays
  changed. \<open>keeps I p\<close> says that \<open>p\<close> preserves \<open>I\<close> whether it returns or raises; \<open>ensures\<close> is the
  Hoare triple with one postcondition for each way out. The collection \<open>proc_intros\<close> holds the rules
  that carry an invariant through a method body.
\<close>

type_synonym ('s, 'e, 'a) proc = "'s \<Rightarrow> ('e + 'a) \<times> 's"

named_theorems proc_intros "rules that carry an invariant through a method body"

definition preturn :: "'a \<Rightarrow> ('s, 'e, 'a) proc" where
  "preturn a = (\<lambda>s. (Inr a, s))"

definition praise :: "'e \<Rightarrow> ('s, 'e, 'a) proc" where
  "praise e = (\<lambda>s. (Inl e, s))"

definition pbind :: "('s, 'e, 'a) proc \<Rightarrow> ('a \<Rightarrow> ('s, 'e, 'b) proc) \<Rightarrow> ('s, 'e, 'b) proc" where
  "pbind p f = (\<lambda>s. case p s of (Inl e, s') \<Rightarrow> (Inl e, s') | (Inr a, s') \<Rightarrow> f a s')"

definition pget :: "('s, 'e, 's) proc" where
  "pget = (\<lambda>s. (Inr s, s))"

definition pmodify :: "('s \<Rightarrow> 's) \<Rightarrow> ('s, 'e, unit) proc" where
  "pmodify f = (\<lambda>s. (Inr (), f s))"

definition plift :: "'e + 'a \<Rightarrow> ('s, 'e, 'a) proc" where
  "plift r = (\<lambda>s. (r, s))"

text \<open>A call of foreign code that raises \<open>e\<close> or returns nothing of interest.\<close>

definition pcall :: "'e option \<Rightarrow> ('s, 'e, unit) proc" where
  "pcall r = (\<lambda>s. (case r of Some e \<Rightarrow> Inl e | None \<Rightarrow> Inr (), s))"

text \<open>\<open>with contextlib.suppress(...)\<close>: the exceptions \<open>c\<close> accepts end the block quietly.\<close>

definition psuppress :: "('e \<Rightarrow> bool) \<Rightarrow> ('s, 'e, unit) proc \<Rightarrow> ('s, 'e, unit) proc" where
  "psuppress c p = (\<lambda>s. case p s of
     (Inl e, s') \<Rightarrow> (if c e then (Inr (), s') else (Inl e, s'))
   | (Inr a, s') \<Rightarrow> (Inr (), s'))"

text \<open>\<open>for x in xs: f(x)\<close>.\<close>

fun pfor :: "'a list \<Rightarrow> ('a \<Rightarrow> ('s, 'e, unit) proc) \<Rightarrow> ('s, 'e, unit) proc" where
  "pfor [] f = preturn ()"
| "pfor (x # xs) f = pbind (f x) (\<lambda>_. pfor xs f)"

lemmas proc_defs = preturn_def praise_def pbind_def pget_def pmodify_def plift_def pcall_def psuppress_def

lemma pbind_apply_Inr: "p s = (Inr a, s') \<Longrightarrow> pbind p f s = f a s'"
  by (simp add: pbind_def)

lemma pbind_apply_Inl: "p s = (Inl e, s') \<Longrightarrow> pbind p f s = (Inl e, s')"
  by (simp add: pbind_def)

lemma pbind_assoc: "pbind (pbind p f) g = pbind p (\<lambda>a. pbind (f a) g)"
  by (rule ext) (simp add: pbind_def split: prod.splits sum.splits)

lemma pbind_return [simp]: "pbind (preturn a) f = f a"
  by (rule ext) (simp add: pbind_def preturn_def)

lemma pbind_get_apply [simp]: "pbind pget f s = f s s"
  by (simp add: pbind_def pget_def)

lemma pbind_modify_apply [simp]: "pbind (pmodify g) f s = f () (g s)"
  by (simp add: pbind_def pmodify_def)

lemma pbind_lift_Inr [simp]: "pbind (plift (Inr a)) f = f a"
  by (rule ext) (simp add: pbind_def plift_def)

lemma pbind_call_None [simp]: "pbind (pcall None) f = f ()"
  by (rule ext) (simp add: pbind_def pcall_def)

lemma preturn_apply: "preturn a s = (Inr a, s)"
  by (simp add: preturn_def)

lemma praise_apply: "praise e s = (Inl e, s)"
  by (simp add: praise_def)

lemma pmodify_apply: "pmodify f s = (Inr (), f s)"
  by (simp add: pmodify_def)

lemmas proc_run = preturn_apply praise_apply pmodify_apply

subsection \<open>Invariants and triples\<close>

definition keeps :: "('s \<Rightarrow> bool) \<Rightarrow> ('s, 'e, 'a) proc \<Rightarrow> bool" where
  "keeps I p \<longleftrightarrow> (\<forall>s. I s \<longrightarrow> I (snd (p s)))"

definition ensures ::
    "('s \<Rightarrow> bool) \<Rightarrow> ('s, 'e, 'a) proc \<Rightarrow> ('a \<Rightarrow> 's \<Rightarrow> bool) \<Rightarrow> ('e \<Rightarrow> 's \<Rightarrow> bool) \<Rightarrow> bool" where
  "ensures P p Q E \<longleftrightarrow>
     (\<forall>s. P s \<longrightarrow> (case p s of (Inr a, s') \<Rightarrow> Q a s' | (Inl e, s') \<Rightarrow> E e s'))"

lemma keepsD: "keeps I p \<Longrightarrow> I s \<Longrightarrow> I (snd (p s))"
  by (simp add: keeps_def)

lemma keeps_iff_ensures: "keeps I p \<longleftrightarrow> ensures I p (\<lambda>_. I) (\<lambda>_. I)"
proof -
  have "(case p s of (Inr a, s') \<Rightarrow> I s' | (Inl e, s') \<Rightarrow> I s') \<longleftrightarrow> I (snd (p s))" for s
    by (simp split: prod.split sum.split)
  then show ?thesis by (simp add: keeps_def ensures_def)
qed

lemma ensures_bind:
  assumes "ensures P p R E" "\<And>a. ensures (R a) (f a) Q E"
  shows "ensures P (pbind p f) Q E"
  unfolding ensures_def
proof (intro allI impI)
  fix s assume "P s"
  show "case pbind p f s of (Inr a, s') \<Rightarrow> Q a s' | (Inl e, s') \<Rightarrow> E e s'"
  proof (cases "p s")
    case (Pair r s')
    show ?thesis
    proof (cases r)
      case (Inl e)
      with assms(1) \<open>P s\<close> Pair show ?thesis by (auto simp: ensures_def pbind_def)
    next
      case (Inr a)
      with assms(1) \<open>P s\<close> Pair have "R a s'" by (auto simp: ensures_def)
      with assms(2) [of a] Pair Inr show ?thesis by (simp add: ensures_def pbind_def)
    qed
  qed
qed

lemma keeps_return [proc_intros]: "keeps I (preturn a)"
  by (simp add: keeps_def proc_run)

lemma keeps_raise [proc_intros]: "keeps I (praise e)"
  by (simp add: keeps_def proc_run)

lemma keeps_lift [proc_intros]: "keeps I (plift r)"
  by (simp add: keeps_def plift_def)

lemma keeps_call [proc_intros]: "keeps I (pcall r)"
  by (simp add: keeps_def pcall_def)

lemma keeps_get [proc_intros]: "keeps I pget"
  by (simp add: keeps_def pget_def)

lemma keeps_modify: "(\<And>s. I s \<Longrightarrow> I (f s)) \<Longrightarrow> keeps I (pmodify f)"
  by (simp add: keeps_def proc_run)

lemma keeps_bind [proc_intros]:
  "keeps I p \<Longrightarrow> (\<And>a. keeps I (f a)) \<Longrightarrow> keeps I (pbind p f)"
  unfolding keeps_iff_ensures by (rule ensures_bind) assumption+

lemma keeps_suppress [proc_intros]: "keeps I p \<Longrightarrow> keeps I (psuppress c p)"
  unfolding keeps_def psuppress_def by (fastforce split: prod.splits sum.splits)

lemma keeps_for [proc_intros]: "(\<And>x. x \<in> set xs \<Longrightarrow> keeps I (f x)) \<Longrightarrow> keeps I (pfor xs f)"
proof (induction xs)
  case Nil
  then show ?case by (simp add: keeps_return)
next
  case (Cons x xs)
  then show ?case by (simp add: keeps_bind)
qed

lemma keeps_if [proc_intros]: "(b \<Longrightarrow> keeps I p) \<Longrightarrow> (\<not> b \<Longrightarrow> keeps I q) \<Longrightarrow> keeps I (if b then p else q)"
  by simp

lemma keeps_option [proc_intros]:
  "(x = None \<Longrightarrow> keeps I p) \<Longrightarrow> (\<And>a. x = Some a \<Longrightarrow> keeps I (q a)) \<Longrightarrow>
   keeps I (case x of None \<Rightarrow> p | Some a \<Rightarrow> q a)"
  by (cases x) simp_all

lemma keeps_case_prod [proc_intros]: "(\<And>a b. keeps I (f a b)) \<Longrightarrow> keeps I (case x of (a, b) \<Rightarrow> f a b)"
  by (cases x) simp

lemma keeps_case_sum [proc_intros]:
  "(\<And>a. keeps I (f a)) \<Longrightarrow> (\<And>b. keeps I (g b)) \<Longrightarrow> keeps I (case x of Inl a \<Rightarrow> f a | Inr b \<Rightarrow> g b)"
  by (cases x) simp_all

lemma keeps_pget_bind: "(\<And>s. I s \<Longrightarrow> I (snd (f s s))) \<Longrightarrow> keeps I (pbind pget f)"
  by (simp add: keeps_def)

lemma pfor_append: "pfor (xs @ ys) f = pbind (pfor xs f) (\<lambda>_. pfor ys f)"
  by (induction xs) (simp_all add: pbind_assoc)

lemma pfor_cong [fundef_cong]:
  "xs = ys \<Longrightarrow> (\<And>x. x \<in> set ys \<Longrightarrow> f x = g x) \<Longrightarrow> pfor xs f = pfor ys g"
proof (induction ys arbitrary: xs)
  case (Cons y ys)
  then show ?case by simp
qed simp

end
