(* ===== verification/Spatial.thy ===== *)
theory Spatial
  imports SpatialCodec PyProc ReplayRecorder
begin

text \<open>
  The spatial example's handler set (\<open>examples/spatial/handlers.py\<close>, class \<open>SpatialHandlers\<close>) with the
  movement path in Python (\<open>native=None\<close>).

  \<open>SpatialHandlers\<close> has the fields of the class; \<open>SpatialWorld\<close> adds what the handlers act on: the
  sessions, the publishes, cell-product bumps and broadcasts they issued (those that raised included),
  and the lines printed to the error stream. A method is a \<open>proc\<close> on this world; a raise keeps what was
  changed before it. Every handler runs under locks that serialise the state it touches, so a run of
  the server is a sequence of calls.

  The calls into the framework and the movement model are the record \<open>spatial_env\<close>, one for each
  handler call: what each call raises, what the model answers, and in which order the interpreter
  walks a set. A session is the gateway's (\<open>src/gateway/session/session.c\<close>) with its window, its ring of
  adds retained for a later retry and the actor it is bound to; its cells are the keys the handlers pass
  (the facade narrows their coordinates to 32 bits, which is not modelled).
\<close>

subsection \<open>Data\<close>

definition CELL_SIZE_Q16 :: int where "CELL_SIZE_Q16 = 65536"
definition CELL_RADIUS :: int where "CELL_RADIUS = 1"
definition STRIPE_COUNT :: int where "STRIPE_COUNT = 64"

record Actor =
  ac_id :: int
  ac_pos_x :: int
  ac_pos_y :: int
  ac_pos_z :: int
  ac_vel_x :: int
  ac_vel_y :: int
  ac_vel_z :: int
  ac_input_tick :: int
  ac_flags :: int
  ac_update_seq :: int

record CellKey =
  key_zone :: int
  key_cell_x :: int
  key_cell_y :: int
  key_cell_z :: int
  key_lod :: int

record ArtifactKey =
  art_zone :: int
  art_cell_x :: int
  art_cell_y :: int
  art_cell_z :: int
  art_lod :: int
  art_authority_epoch :: int
  art_publish_seq :: int

type_synonym cell = "int \<times> int \<times> int"

record SpatialHandlers =
  sh_zone_id :: int
  sh_cell_size :: int
  sh_cell_radius :: int
  sh_recorder :: "replay_recorder option"
  sh_actors :: "(int, Actor) dict"
  sh_actor_cells :: "(int, cell) dict"
  sh_principals :: "(int, int) dict"
  sh_next_actor_id :: int
  sh_session_actors :: "(int, int) dict"
  sh_actor_binds :: "(int, int set) dict"
  sh_bind_conflicts :: int
  sh_gate_drops :: int
  sh_cell_epochs :: "(CellKey, int) dict"
  sh_dirty_cells :: "CellKey set"

record gw_session =
  gs_attached :: bool
  gs_actor_id :: int
  gs_window :: "CellKey set"
  gs_pending :: "CellKey list"

record SpatialWorld = SpatialHandlers +
  sw_sessions :: "int \<Rightarrow> gw_session"
  sw_artifacts :: "(ArtifactKey \<times> Actor) list"
  sw_products :: "(CellKey \<times> int) list"
  sw_broadcasts :: "(CellKey \<times> int \<times> bytes) list"
  sw_stderr :: "(int \<times> int \<times> nat) list"

datatype spatial_exc =
    SpatialKith kith_exc | SpatialKeyError | SpatialIndexError | SpatialZeroDivision
  | SpatialCodecError codec_exc

record spatial_env =
  env_publish :: "ArtifactKey \<Rightarrow> Actor \<Rightarrow> kith_exc option"
  env_product :: "CellKey \<Rightarrow> int \<Rightarrow> kith_exc option"
  env_broadcast :: "CellKey \<Rightarrow> int \<Rightarrow> bytes \<Rightarrow> kith_exc option"
  env_info :: "kith_exc option"
  env_subscribe :: "CellKey \<Rightarrow> kith_error option"
  env_unsubscribe :: "CellKey \<Rightarrow> kith_error option"
  env_apply_input :: "Actor \<Rightarrow> SimInput \<Rightarrow> kith_exc + Actor"
  env_step :: "Actor list \<Rightarrow> int \<Rightarrow> kith_exc + Actor list"
  env_order :: "CellKey set \<Rightarrow> CellKey list"

type_synonym 'a spatial_proc = "(SpatialWorld, spatial_exc, 'a) proc"

definition sp_kith :: "kith_exc + 'a \<Rightarrow> spatial_exc + 'a" where
  "sp_kith r = (case r of Inl e \<Rightarrow> Inl (SpatialKith e) | Inr a \<Rightarrow> Inr a)"

definition raises_network :: "spatial_exc \<Rightarrow> bool" where
  "raises_network e = (case e of SpatialKith (KithExc cls _) \<Rightarrow> cls = KithNetworkError | _ \<Rightarrow> False)"

definition raises_state :: "spatial_exc \<Rightarrow> bool" where
  "raises_state e = (case e of SpatialKith (KithExc cls _) \<Rightarrow> cls = KithStateError | _ \<Rightarrow> False)"

definition SpatialHandlers_init ::
    "int \<Rightarrow> int \<Rightarrow> int \<Rightarrow> replay_recorder option \<Rightarrow> SpatialHandlers" where
  "SpatialHandlers_init zone_id cell_size cell_radius recorder =
     \<lparr>sh_zone_id = zone_id, sh_cell_size = cell_size, sh_cell_radius = cell_radius,
      sh_recorder = recorder, sh_actors = [], sh_actor_cells = [], sh_principals = [],
      sh_next_actor_id = 1, sh_session_actors = [], sh_actor_binds = [], sh_bind_conflicts = 0,
      sh_gate_drops = 0, sh_cell_epochs = [], sh_dirty_cells = {}\<rparr>"

text \<open>A fresh world: new sessions are attached, bound to no actor (id 0) and without cells.\<close>

definition world_init :: "int \<Rightarrow> int \<Rightarrow> int \<Rightarrow> replay_recorder option \<Rightarrow> SpatialWorld" where
  "world_init zone_id cell_size cell_radius recorder =
     SpatialHandlers.extend (SpatialHandlers_init zone_id cell_size cell_radius recorder)
       \<lparr>sw_sessions = (\<lambda>_. \<lparr>gs_attached = True, gs_actor_id = 0, gs_window = {}, gs_pending = []\<rparr>), sw_artifacts = [],
        sw_products = [], sw_broadcasts = [], sw_stderr = []\<rparr>"

subsection \<open>Sessions and the server's publish surface\<close>

definition session_info :: "spatial_env \<Rightarrow> int \<Rightarrow> gw_session spatial_proc" where
  "session_info env session =
     pbind (pcall (map_option SpatialKith (env_info env))) (\<lambda>_.
     pbind pget (\<lambda>w. preturn (sw_sessions w session)))"

definition upd_session :: "int \<Rightarrow> (gw_session \<Rightarrow> gw_session) \<Rightarrow> unit spatial_proc" where
  "upd_session session f =
     pmodify (\<lambda>w. w\<lparr>sw_sessions := (sw_sessions w)(session := f (sw_sessions w session))\<rparr>)"

definition code_exc :: "kith_error option \<Rightarrow> spatial_exc option" where
  "code_exc c = map_option (\<lambda>code. SpatialKith (KithExc (exception_for code) code)) c"

definition GATEWAY_WINDOW_PENDING_MAX :: nat where "GATEWAY_WINDOW_PENDING_MAX = 64"

text \<open>\<open>gateway_window_retain_locked\<close>: a cell is retained once, and none beyond the bound of the ring.\<close>

definition retain :: "CellKey \<Rightarrow> gw_session \<Rightarrow> gw_session" where
  "retain key s =
     (if key \<in> set (gs_pending s) \<or> GATEWAY_WINDOW_PENDING_MAX \<le> length (gs_pending s) then s
      else s\<lparr>gs_pending := gs_pending s @ [key]\<rparr>)"

text \<open>What an add returns when the subscription answers \<open>c\<close>: nothing happens on a detached session or for
  a cell already in the window.\<close>

definition add_code :: "CellKey \<Rightarrow> kith_error option \<Rightarrow> gw_session \<Rightarrow> kith_error option" where
  "add_code key c s = (if \<not> gs_attached s \<or> key \<in> gs_window s then None else c)"

text \<open>The session after it; only a capacity failure is retained.\<close>

definition add_cell :: "CellKey \<Rightarrow> kith_error option \<Rightarrow> gw_session \<Rightarrow> gw_session" where
  "add_cell key c s =
     (if \<not> gs_attached s \<or> key \<in> gs_window s then s
      else case c of
        None \<Rightarrow> s\<lparr>gs_window := insert key (gs_window s)\<rparr>
      | Some code \<Rightarrow> if code = KITH_ENOMEM then retain key s else s)"

text \<open>A remove cancels a retained add of the cell.\<close>

definition remove_cell :: "CellKey \<Rightarrow> gw_session \<Rightarrow> gw_session" where
  "remove_cell key s =
     s\<lparr>gs_window := gs_window s - {key},
       gs_pending := (if gs_attached s then filter (\<lambda>k. k \<noteq> key) (gs_pending s) else gs_pending s)\<rparr>"

definition session_window_add :: "spatial_env \<Rightarrow> int \<Rightarrow> CellKey \<Rightarrow> unit spatial_proc" where
  "session_window_add env session key =
     pbind pget (\<lambda>w.
     let c = env_subscribe env key in
     pbind (upd_session session (add_cell key c)) (\<lambda>_.
     pcall (code_exc (add_code key c (sw_sessions w session)))))"

definition session_window_remove :: "spatial_env \<Rightarrow> int \<Rightarrow> CellKey \<Rightarrow> unit spatial_proc" where
  "session_window_remove env session key =
     pbind pget (\<lambda>w.
     let s = sw_sessions w session;
         c = (if gs_attached s \<and> key \<in> gs_window s then env_unsubscribe env key else None) in
     pbind (upd_session session (remove_cell key)) (\<lambda>_. pcall (code_exc c)))"

text \<open>\<open>populate\<close>: the identity, then every cell; the first failure is raised at the end.\<close>

fun populate_cells :: "spatial_env \<Rightarrow> CellKey list \<Rightarrow> gw_session \<Rightarrow> kith_error option \<times> gw_session" where
  "populate_cells env [] s = (None, s)"
| "populate_cells env (key # keys) s =
     (let c = env_subscribe env key;
          (rest, s') = populate_cells env keys (add_cell key c s)
      in (case add_code key c s of None \<Rightarrow> rest | Some code \<Rightarrow> Some code, s'))"

definition session_populate :: "spatial_env \<Rightarrow> int \<Rightarrow> int \<Rightarrow> CellKey list \<Rightarrow> unit spatial_proc" where
  "session_populate env session actor_id cells =
     pbind pget (\<lambda>w.
     let (c, s) = populate_cells env cells ((sw_sessions w session)\<lparr>gs_actor_id := actor_id mod 2 ^ 64\<rparr>) in
     pbind (upd_session session (\<lambda>_. s)) (\<lambda>_. pcall (code_exc c)))"

definition publish_artifact :: "spatial_env \<Rightarrow> ArtifactKey \<Rightarrow> Actor \<Rightarrow> unit spatial_proc" where
  "publish_artifact env key actor =
     pbind (pcall (map_option SpatialKith (env_publish env key actor))) (\<lambda>_.
     pmodify (\<lambda>w. w\<lparr>sw_artifacts := sw_artifacts w @ [(key, actor)]\<rparr>))"

definition publish_cell_product :: "spatial_env \<Rightarrow> CellKey \<Rightarrow> int \<Rightarrow> unit spatial_proc" where
  "publish_cell_product env key epoch =
     pbind (pmodify (\<lambda>w. w\<lparr>sw_products := sw_products w @ [(key, epoch)]\<rparr>)) (\<lambda>_.
     pcall (map_option SpatialKith (env_product env key epoch)))"

definition broadcast_cell :: "spatial_env \<Rightarrow> CellKey \<Rightarrow> int \<Rightarrow> bytes \<Rightarrow> unit spatial_proc" where
  "broadcast_cell env key msg_type payload =
     pbind (pcall (map_option SpatialKith (env_broadcast env key msg_type payload))) (\<lambda>_.
     pmodify (\<lambda>w. w\<lparr>sw_broadcasts := sw_broadcasts w @ [(key, msg_type, payload)]\<rparr>))"

definition record_event :: "replay_event \<Rightarrow> unit spatial_proc" where
  "record_event event =
     pmodify (\<lambda>w. w\<lparr>sh_recorder := map_option (\<lambda>rc. recorder_record rc event) (sh_recorder w)\<rparr>)"

subsection \<open>Cells\<close>

definition stripe_of :: "int \<Rightarrow> int" where
  "stripe_of actor_id = actor_id mod STRIPE_COUNT"

definition actor_of :: "int \<Rightarrow> Actor option spatial_proc" where
  "actor_of actor_id = pbind pget (\<lambda>w. preturn (map_of (sh_actors w) actor_id))"

text \<open>\<open>//\<close> on Python integers is floor division, as \<open>div\<close> on \<open>int\<close>; a cell size of zero raises.\<close>

definition cell_at :: "int \<Rightarrow> Actor \<Rightarrow> cell" where
  "cell_at sz actor = (ac_pos_x actor div sz, ac_pos_y actor div sz, ac_pos_z actor div sz)"

definition cell_of :: "Actor \<Rightarrow> cell spatial_proc" where
  "cell_of actor =
     pbind pget (\<lambda>w.
     if sh_cell_size w = 0 then praise SpatialZeroDivision
     else preturn (cell_at (sh_cell_size w) actor))"

definition key_of :: "int \<Rightarrow> cell \<Rightarrow> CellKey" where
  "key_of zone c =
     \<lparr>key_zone = zone, key_cell_x = fst c, key_cell_y = fst (snd c), key_cell_z = snd (snd c), key_lod = 0\<rparr>"

definition artifact_key_of :: "int \<Rightarrow> cell \<Rightarrow> ArtifactKey" where
  "artifact_key_of zone c =
     \<lparr>art_zone = zone, art_cell_x = fst c, art_cell_y = fst (snd c), art_cell_z = snd (snd c), art_lod = 0,
      art_authority_epoch = 0, art_publish_seq = 0\<rparr>"

definition neighborhood :: "int \<Rightarrow> int \<Rightarrow> cell \<Rightarrow> CellKey list" where
  "neighborhood zone r c =
     concat (map (\<lambda>dx. concat (map (\<lambda>dy. map (\<lambda>dz.
       key_of zone (fst c + dx, fst (snd c) + dy, snd (snd c) + dz)) [- r..r]) [- r..r])) [- r..r])"

definition mark_dirty :: "cell \<Rightarrow> unit spatial_proc" where
  "mark_dirty c = pmodify (\<lambda>w. w\<lparr>sh_dirty_cells := insert (key_of (sh_zone_id w) c) (sh_dirty_cells w)\<rparr>)"

definition publish_locked :: "spatial_env \<Rightarrow> Actor \<Rightarrow> unit spatial_proc" where
  "publish_locked env actor =
     pbind (cell_of actor) (\<lambda>new_cell.
     pbind pget (\<lambda>w.
     let old_cell = map_of (sh_actor_cells w) (ac_id actor) in
     pbind (publish_artifact env (artifact_key_of (sh_zone_id w) new_cell) actor) (\<lambda>_.
     pbind (pmodify (\<lambda>w. w\<lparr>sh_actor_cells := AList.update (ac_id actor) new_cell (sh_actor_cells w)\<rparr>)) (\<lambda>_.
     pbind (mark_dirty new_cell) (\<lambda>_.
     case old_cell of
       None \<Rightarrow> preturn ()
     | Some c \<Rightarrow> if c \<noteq> new_cell then mark_dirty c else preturn ())))))"

definition diff_window :: "spatial_env \<Rightarrow> int \<Rightarrow> Actor \<Rightarrow> cell \<Rightarrow> unit spatial_proc" where
  "diff_window env session actor old_cell =
     pbind (cell_of actor) (\<lambda>new_cell.
     pbind pget (\<lambda>w.
     let nb = \<lambda>c. set (neighborhood (sh_zone_id w) (sh_cell_radius w) c);
         old_set = nb old_cell; new_set = nb new_cell in
     pbind (pfor (env_order env (old_set - new_set)) (session_window_remove env session)) (\<lambda>_.
     pfor (env_order env (new_set - old_set)) (session_window_add env session))))"

subsection \<open>Spawning and moving\<close>

definition fresh_actor :: "int \<Rightarrow> Actor" where
  "fresh_actor actor_id =
     \<lparr>ac_id = actor_id, ac_pos_x = 0, ac_pos_y = 0, ac_pos_z = 0, ac_vel_x = 0, ac_vel_y = 0, ac_vel_z = 0,
      ac_input_tick = 0, ac_flags = 0, ac_update_seq = 0\<rparr>"

definition spawn_event :: "Actor \<Rightarrow> replay_event" where
  "spawn_event a =
     SpawnEvent (ac_id a) (ac_pos_x a) (ac_pos_y a) (ac_pos_z a) (ac_vel_x a) (ac_vel_y a) (ac_vel_z a)
       (ac_flags a)"

definition move_event :: "int \<Rightarrow> SimInput \<Rightarrow> replay_event" where
  "move_event actor_id inp =
     MoveEvent actor_id (in_input_tick inp) (in_move_x inp) (in_move_y inp) (in_move_z inp) (in_flags inp)"

definition put_actor :: "int \<Rightarrow> Actor \<Rightarrow> unit spatial_proc" where
  "put_actor actor_id actor = pmodify (\<lambda>w. w\<lparr>sh_actors := AList.update actor_id actor (sh_actors w)\<rparr>)"

definition spawn_actor :: "spatial_env \<Rightarrow> int \<Rightarrow> Actor spatial_proc" where
  "spawn_actor env principal_id =
     pbind pget (\<lambda>w.
     case map_of (sh_principals w) principal_id of
       None \<Rightarrow>
         let actor_id = sh_next_actor_id w; fresh = fresh_actor actor_id in
         pbind (pmodify (\<lambda>w. w\<lparr>sh_next_actor_id := sh_next_actor_id w + 1,
                              sh_principals := AList.update principal_id actor_id (sh_principals w)\<rparr>)) (\<lambda>_.
         pbind (put_actor actor_id fresh) (\<lambda>_.
         pbind (publish_locked env fresh) (\<lambda>_.
         pbind (record_event (spawn_event fresh)) (\<lambda>_.
         preturn fresh))))
     | Some actor_id \<Rightarrow>
         (case map_of (sh_actors w) actor_id of
            None \<Rightarrow> praise SpatialKeyError
          | Some actor \<Rightarrow> preturn actor))"

definition apply_movement_locked :: "spatial_env \<Rightarrow> int \<Rightarrow> SimInput \<Rightarrow> int \<Rightarrow> Actor option spatial_proc" where
  "apply_movement_locked env actor_id inp dt_ms =
     pbind (actor_of actor_id) (\<lambda>stored.
     case stored of
       None \<Rightarrow> preturn None
     | Some actor \<Rightarrow>
         pbind (plift (sp_kith (env_apply_input env actor inp))) (\<lambda>applied.
         pbind (plift (sp_kith (env_step env [applied] dt_ms))) (\<lambda>actors.
         case actors of
           [] \<Rightarrow> praise SpatialIndexError
         | stepped # _ \<Rightarrow>
             pbind (put_actor actor_id stepped) (\<lambda>_.
             pbind (publish_locked env stepped) (\<lambda>_.
             preturn (Some stepped))))))"

definition apply_movement :: "spatial_env \<Rightarrow> int \<Rightarrow> SimInput \<Rightarrow> int \<Rightarrow> Actor option spatial_proc" where
  "apply_movement env actor_id inp dt_ms =
     pbind (apply_movement_locked env actor_id inp dt_ms) (\<lambda>stepped.
     case stepped of
       None \<Rightarrow> preturn None
     | Some a \<Rightarrow> pbind (record_event (move_event actor_id inp)) (\<lambda>_. preturn (Some a)))"

definition teleport_actor :: "spatial_env \<Rightarrow> int \<Rightarrow> int \<Rightarrow> int \<Rightarrow> Actor option spatial_proc" where
  "teleport_actor env actor_id pos_x pos_y =
     pbind (actor_of actor_id) (\<lambda>stored.
     case stored of
       None \<Rightarrow> preturn None
     | Some actor \<Rightarrow>
         let updated = \<lparr>ac_id = ac_id actor, ac_pos_x = pos_x, ac_pos_y = pos_y, ac_pos_z = ac_pos_z actor,
                        ac_vel_x = 0, ac_vel_y = 0, ac_vel_z = 0, ac_input_tick = ac_input_tick actor,
                        ac_flags = ac_flags actor, ac_update_seq = ac_update_seq actor\<rparr> in
         pbind (put_actor actor_id updated) (\<lambda>_.
         pbind (publish_locked env updated) (\<lambda>_.
         preturn (Some updated))))"

subsection \<open>Queries\<close>

definition actor_state :: "'z SpatialHandlers_scheme \<Rightarrow> int \<Rightarrow> Actor option" where
  "actor_state w actor_id = map_of (sh_actors w) actor_id"

definition actor_states :: "'z SpatialHandlers_scheme \<Rightarrow> Actor list" where
  "actor_states w = map snd (sh_actors w)"

definition binding_stats :: "'z SpatialHandlers_scheme \<Rightarrow> (int \<times> int) list \<times> int \<times> int" where
  "binding_stats w = (sh_principals w, sh_bind_conflicts w, sh_gate_drops w)"

subsection \<open>Wire handlers\<close>

text \<open>\<open>held.discard(session_id)\<close> in the set of \<open>actor_id\<close>, and the key itself when the set is empty.\<close>

definition drop_bind :: "int \<Rightarrow> int \<Rightarrow> (int, int set) dict \<Rightarrow> (int, int set) dict" where
  "drop_bind session_id actor_id binds =
     (case map_of binds actor_id of
        None \<Rightarrow> binds
      | Some held \<Rightarrow>
          let held' = held - {session_id} in
          if held' = {} then AList.delete actor_id binds else AList.update actor_id held' binds)"

definition binds_of :: "int \<Rightarrow> (int, int set) dict \<Rightarrow> int set" where
  "binds_of actor_id binds = (case map_of binds actor_id of None \<Rightarrow> {} | Some s \<Rightarrow> s)"

definition record_bind :: "spatial_env \<Rightarrow> int \<Rightarrow> int \<Rightarrow> unit spatial_proc" where
  "record_bind env session actor_id =
     pbind (session_info env session) (\<lambda>_.
     pbind pget (\<lambda>w.
     let session_id = session; previous = map_of (sh_session_actors w) session_id in
     if previous = Some actor_id then preturn ()
     else
       let holders = binds_of actor_id (sh_actor_binds w) - {session_id} in
       pbind (if holders \<noteq> {} then
                pmodify (\<lambda>w. w\<lparr>sh_bind_conflicts := sh_bind_conflicts w + 1,
                               sw_stderr := sw_stderr w @ [(session_id, actor_id, card holders)]\<rparr>)
              else preturn ()) (\<lambda>_.
       pbind (case previous of
                None \<Rightarrow> preturn ()
              | Some p \<Rightarrow> pmodify (\<lambda>w. w\<lparr>sh_actor_binds := drop_bind session_id p (sh_actor_binds w)\<rparr>)) (\<lambda>_.
       pmodify (\<lambda>w. w\<lparr>sh_session_actors := AList.update session_id actor_id (sh_session_actors w),
                      sh_actor_binds := AList.update actor_id
                        (insert session_id (binds_of actor_id (sh_actor_binds w))) (sh_actor_binds w)\<rparr>)))))"

definition on_login :: "spatial_env \<Rightarrow> bytes \<Rightarrow> int \<Rightarrow> unit spatial_proc" where
  "on_login env payload session =
     (if length payload < SP_LOGIN_PAYLOAD_LEN then preturn ()
      else
        pbind (plift (case sp_decode_login payload of Inl e \<Rightarrow> Inl (SpatialCodecError e) | Inr p \<Rightarrow> Inr p))
          (\<lambda>principal_id.
        pbind (spawn_actor env principal_id) (\<lambda>actor.
        pbind (record_bind env session (ac_id actor)) (\<lambda>_.
        pbind (cell_of actor) (\<lambda>c.
        pbind pget (\<lambda>w.
        session_populate env session (ac_id actor)
          (neighborhood (sh_zone_id w) (sh_cell_radius w) c)))))))"

definition on_session_destroyed :: "int \<Rightarrow> unit spatial_proc" where
  "on_session_destroyed session_id =
     pbind pget (\<lambda>w.
     case map_of (sh_session_actors w) session_id of
       None \<Rightarrow> preturn ()
     | Some actor_id \<Rightarrow>
         pmodify (\<lambda>w. w\<lparr>sh_session_actors := AList.delete session_id (sh_session_actors w),
                        sh_actor_binds := drop_bind session_id actor_id (sh_actor_binds w)\<rparr>))"

text \<open>\<open>try: session.info() except Exception: return\<close>: the handler ends there, without the record.\<close>

definition on_actor_input :: "spatial_env \<Rightarrow> bytes \<Rightarrow> int \<Rightarrow> unit spatial_proc" where
  "on_actor_input env payload session =
     (if length payload < ACTOR_INPUT_PAYLOAD_LEN then preturn ()
      else
        pbind (plift (case decode_actor_input payload of Inl e \<Rightarrow> Inl (SpatialCodecError e) | Inr p \<Rightarrow> Inr p))
          (\<lambda>(actor_id, inp).
        pbind (actor_of actor_id) (\<lambda>stored.
        case stored of
          None \<Rightarrow> preturn ()
        | Some before \<Rightarrow>
            pbind (apply_movement_locked env actor_id inp 50) (\<lambda>moved.
            case moved of
              None \<Rightarrow> preturn ()
            | Some stepped \<Rightarrow>
                if env_info env \<noteq> None then preturn ()
                else
                  pbind (session_info env session) (\<lambda>info.
                  pbind (if gs_actor_id info \<noteq> actor_id then
                           pmodify (\<lambda>w. w\<lparr>sh_gate_drops := sh_gate_drops w + 1\<rparr>)
                         else
                           pbind (cell_of before) (\<lambda>old_cell.
                           pbind (cell_of stepped) (\<lambda>new_cell.
                           if old_cell \<noteq> new_cell then diff_window env session stepped old_cell
                           else preturn ()))) (\<lambda>_.
                  record_event (move_event actor_id inp)))))))"

definition on_chat :: "spatial_env \<Rightarrow> bytes \<Rightarrow> int \<Rightarrow> unit spatial_proc" where
  "on_chat env payload session =
     (case decode_chat payload of
        Inl (ValueErr _) \<Rightarrow> preturn ()
      | Inl e \<Rightarrow> praise (SpatialCodecError e)
      | Inr (actor_id, _) \<Rightarrow>
          pbind (actor_of actor_id) (\<lambda>stored.
          case stored of
            None \<Rightarrow> preturn ()
          | Some actor \<Rightarrow>
              pbind (cell_of actor) (\<lambda>c.
              pbind pget (\<lambda>w.
              pbind (psuppress raises_network
                       (broadcast_cell env (key_of (sh_zone_id w) c) CHAT_EVENT_TYPE payload)) (\<lambda>_.
              mark_dirty c)))))"

subsection \<open>The per-tick flush\<close>

definition epoch_of :: "'z SpatialHandlers_scheme \<Rightarrow> CellKey \<Rightarrow> int" where
  "epoch_of w key = (case map_of (sh_cell_epochs w) key of None \<Rightarrow> 0 | Some e \<Rightarrow> e)"

definition bump_cell :: "spatial_env \<Rightarrow> CellKey \<Rightarrow> unit spatial_proc" where
  "bump_cell env key =
     pbind pget (\<lambda>w.
     let epoch = (case map_of (sh_cell_epochs w) key of None \<Rightarrow> 0 | Some e \<Rightarrow> e) + 1 in
     pbind (pmodify (\<lambda>w. w\<lparr>sh_cell_epochs := AList.update key epoch (sh_cell_epochs w)\<rparr>)) (\<lambda>_.
     psuppress raises_state (publish_cell_product env key epoch)))"

definition flush_dirty_cells :: "spatial_env \<Rightarrow> unit spatial_proc" where
  "flush_dirty_cells env =
     pbind pget (\<lambda>w.
     let cells = env_order env (sh_dirty_cells w) in
     pbind (pmodify (\<lambda>w. w\<lparr>sh_dirty_cells := {}\<rparr>)) (\<lambda>_.
     pfor cells (bump_cell env)))"

subsection \<open>Registration\<close>

text \<open>\<open>register\<close> without the native core: the handlers it installs, by message type.\<close>

datatype spatial_handler = OnLogin | OnActorInput | OnChat

definition register_handlers :: "(int \<times> spatial_handler) list" where
  "register_handlers = [(SP_LOGIN_TYPE, OnLogin), (ACTOR_INPUT_TYPE, OnActorInput), (CHAT_TYPE, OnChat)]"

definition dispatch :: "spatial_env \<Rightarrow> int \<Rightarrow> bytes \<Rightarrow> int \<Rightarrow> unit spatial_proc" where
  "dispatch env msg_type payload session =
     (case map_of register_handlers msg_type of
        None \<Rightarrow> preturn ()
      | Some OnLogin \<Rightarrow> on_login env payload session
      | Some OnActorInput \<Rightarrow> on_actor_input env payload session
      | Some OnChat \<Rightarrow> on_chat env payload session)"

end
