(* ===== verification/SpatialRuns.thy ===== *)
theory SpatialRuns
  imports Spatial
begin

text \<open>
  Runs of the spatial handler set: the calls a server makes as a sequence of operations, the invariants
  of every run, what one flush does, how a session's window follows its actor, and what the recorded
  events determine.
\<close>

subsection \<open>Runs\<close>

datatype spatial_op =
    DoMessage spatial_env int bytes int
  | DoMove spatial_env int SimInput int
  | DoTeleport spatial_env int int int
  | DoSpawn spatial_env int
  | DoDestroyed int
  | DoFlush spatial_env

fun spatial_step :: "SpatialWorld \<Rightarrow> spatial_op \<Rightarrow> SpatialWorld" where
  "spatial_step w (DoMessage env msg_type payload session) = snd (dispatch env msg_type payload session w)"
| "spatial_step w (DoMove env actor_id inp dt_ms) = snd (apply_movement env actor_id inp dt_ms w)"
| "spatial_step w (DoTeleport env actor_id x y) = snd (teleport_actor env actor_id x y w)"
| "spatial_step w (DoSpawn env principal_id) = snd (spawn_actor env principal_id w)"
| "spatial_step w (DoDestroyed session_id) = snd (on_session_destroyed session_id w)"
| "spatial_step w (DoFlush env) = snd (flush_dirty_cells env w)"

definition spatial_run :: "SpatialWorld \<Rightarrow> spatial_op list \<Rightarrow> SpatialWorld" where
  "spatial_run w ops = foldl spatial_step w ops"

text \<open>What the handlers rely on: a model steps the actors it is given and keeps their ids, and walking a
  finite set visits each element once.\<close>

definition model_keeps_ids :: "spatial_env \<Rightarrow> bool" where
  "model_keeps_ids env \<longleftrightarrow>
     (\<forall>a i b. env_apply_input env a i = Inr b \<longrightarrow> ac_id b = ac_id a) \<and>
     (\<forall>as dt bs. env_step env as dt = Inr bs \<longrightarrow> map ac_id bs = map ac_id as)"

definition walks_sets :: "spatial_env \<Rightarrow> bool" where
  "walks_sets env \<longleftrightarrow> (\<forall>S. finite S \<longrightarrow> set (env_order env S) = S \<and> distinct (env_order env S))"

fun env_of :: "spatial_op \<Rightarrow> spatial_env option" where
  "env_of (DoMessage env _ _ _) = Some env"
| "env_of (DoMove env _ _ _) = Some env"
| "env_of (DoTeleport env _ _ _) = Some env"
| "env_of (DoSpawn env _) = Some env"
| "env_of (DoDestroyed _) = None"
| "env_of (DoFlush env) = Some env"

definition op_ok :: "spatial_op \<Rightarrow> bool" where
  "op_ok p \<longleftrightarrow> (\<forall>env. env_of p = Some env \<longrightarrow> model_keeps_ids env \<and> walks_sets env)"

lemma spatial_run_Nil [simp]: "spatial_run w [] = w"
  by (simp add: spatial_run_def)

lemma spatial_run_Cons [simp]: "spatial_run w (p # ps) = spatial_run (spatial_step w p) ps"
  by (simp add: spatial_run_def)

lemma spatial_run_invariant:
  assumes "I w" "\<forall>p \<in> set ops. P p" "\<And>w p. I w \<Longrightarrow> P p \<Longrightarrow> I (spatial_step w p)"
  shows "I (spatial_run w ops)"
  using assms(1,2) by (induction ops arbitrary: w) (auto intro: assms(3))

subsection \<open>Closed forms\<close>

definition publish_effect :: "Actor \<Rightarrow> SpatialWorld \<Rightarrow> SpatialWorld" where
  "publish_effect actor w =
     (let c = cell_at (sh_cell_size w) actor; z = sh_zone_id w in
      w\<lparr>sw_artifacts := sw_artifacts w @ [(artifact_key_of z c, actor)],
        sh_actor_cells := AList.update (ac_id actor) c (sh_actor_cells w),
        sh_dirty_cells := key_of z ` set_option (map_of (sh_actor_cells w) (ac_id actor)) \<union>
                          insert (key_of z c) (sh_dirty_cells w)\<rparr>)"

definition publish_answer :: "spatial_env \<Rightarrow> Actor \<Rightarrow> SpatialWorld \<Rightarrow> spatial_exc option" where
  "publish_answer env actor w =
     (if sh_cell_size w = 0 then Some SpatialZeroDivision
      else map_option SpatialKith
             (env_publish env (artifact_key_of (sh_zone_id w) (cell_at (sh_cell_size w) actor)) actor))"

lemma cell_of_run:
  "cell_of a w = (if sh_cell_size w = 0 then (Inl SpatialZeroDivision, w)
                  else (Inr (cell_at (sh_cell_size w) a), w))"
  by (simp add: cell_of_def proc_run)

lemma publish_locked_run:
  "publish_locked env a w =
     (case publish_answer env a w of Some e \<Rightarrow> (Inl e, w) | None \<Rightarrow> (Inr (), publish_effect a w))"
proof (cases "publish_answer env a w")
  case None
  then have c: "sh_cell_size w \<noteq> 0"
    "env_publish env (artifact_key_of (sh_zone_id w) (cell_at (sh_cell_size w) a)) a = None"
    by (simp_all add: publish_answer_def split: if_splits)
  show ?thesis
    by (cases "map_of (sh_actor_cells w) (ac_id a)")
      (simp_all add: None c publish_locked_def cell_of_def publish_artifact_def mark_dirty_def proc_run
        publish_effect_def Let_def pbind_assoc insert_commute insert_absorb)
next
  case (Some e)
  then show ?thesis
    by (auto simp: publish_answer_def publish_locked_def cell_of_def publish_artifact_def pbind_def pget_def
        pcall_def preturn_def praise_def Let_def split: if_splits)
qed

lemma mark_dirty_run: "mark_dirty c w = (Inr (), w\<lparr>sh_dirty_cells := insert (key_of (sh_zone_id w) c) (sh_dirty_cells w)\<rparr>)"
  by (simp add: mark_dirty_def proc_run)

definition step_actor :: "spatial_env \<Rightarrow> Actor \<Rightarrow> SimInput \<Rightarrow> int \<Rightarrow> spatial_exc + Actor" where
  "step_actor env a inp dt_ms =
     rbind (sp_kith (env_apply_input env a inp)) (\<lambda>applied.
     rbind (sp_kith (env_step env [applied] dt_ms)) (\<lambda>actors.
     case actors of [] \<Rightarrow> Inl SpatialIndexError | stepped # _ \<Rightarrow> Inr stepped))"

definition store_actor :: "int \<Rightarrow> Actor \<Rightarrow> SpatialWorld \<Rightarrow> SpatialWorld" where
  "store_actor actor_id a w = w\<lparr>sh_actors := AList.update actor_id a (sh_actors w)\<rparr>"

lemma apply_movement_locked_run:
  "apply_movement_locked env actor_id inp dt_ms w =
     (case map_of (sh_actors w) actor_id of
        None \<Rightarrow> (Inr None, w)
      | Some a \<Rightarrow>
          (case step_actor env a inp dt_ms of
             Inl e \<Rightarrow> (Inl e, w)
           | Inr s \<Rightarrow>
               (case publish_answer env s w of
                  Some e \<Rightarrow> (Inl e, store_actor actor_id s w)
                | None \<Rightarrow> (Inr (Some s), publish_effect s (store_actor actor_id s w)))))"
proof (cases "map_of (sh_actors w) actor_id")
  case None
  then show ?thesis by (simp add: apply_movement_locked_def actor_of_def pbind_assoc proc_run)
next
  case a: (Some a)
  have p: "publish_answer env s (store_actor actor_id s w) = publish_answer env s w" for s
    by (simp add: publish_answer_def store_actor_def)
  show ?thesis
  proof (cases "step_actor env a inp dt_ms")
    case (Inl e)
    then show ?thesis
      by (auto simp: a apply_movement_locked_def actor_of_def pbind_assoc step_actor_def plift_def pbind_def
          proc_run pget_def rbind_def split: sum.splits list.splits)
  next
    case (Inr s)
    then obtain b xs where x: "sp_kith (env_apply_input env a inp) = Inr b"
      "sp_kith (env_step env [b] dt_ms) = Inr xs"
      "(case xs of [] \<Rightarrow> Inl SpatialIndexError | stepped # _ \<Rightarrow> Inr stepped) = Inr s"
      by (auto simp: step_actor_def rbind_eq_Inr)
    then obtain bs where b: "sp_kith (env_apply_input env a inp) = Inr b"
      "sp_kith (env_step env [b] dt_ms) = Inr (s # bs)"
      by (cases xs) auto
    show ?thesis
      by (simp add: a Inr apply_movement_locked_def actor_of_def pbind_assoc b put_actor_def
          store_actor_def [symmetric])
        (simp add: pbind_def publish_locked_run p proc_run split: option.split)
  qed
qed

definition recorded :: "replay_event \<Rightarrow> SpatialWorld \<Rightarrow> SpatialWorld" where
  "recorded event w = w\<lparr>sh_recorder := map_option (\<lambda>rc. recorder_record rc event) (sh_recorder w)\<rparr>"

lemma record_event_run: "record_event event w = (Inr (), recorded event w)"
  by (simp add: record_event_def recorded_def proc_run)

definition spawned :: "int \<Rightarrow> SpatialWorld \<Rightarrow> SpatialWorld" where
  "spawned principal_id w =
     (let actor_id = sh_next_actor_id w in
      store_actor actor_id (fresh_actor actor_id)
        (w\<lparr>sh_next_actor_id := actor_id + 1,
           sh_principals := AList.update principal_id actor_id (sh_principals w)\<rparr>))"

lemma spawn_actor_run:
  "spawn_actor env principal_id w =
     (case map_of (sh_principals w) principal_id of
        Some actor_id \<Rightarrow>
          (case map_of (sh_actors w) actor_id of
             None \<Rightarrow> (Inl SpatialKeyError, w) | Some actor \<Rightarrow> (Inr actor, w))
      | None \<Rightarrow>
          let fresh = fresh_actor (sh_next_actor_id w) in
          (case publish_answer env fresh w of
             Some e \<Rightarrow> (Inl e, spawned principal_id w)
           | None \<Rightarrow> (Inr fresh, recorded (spawn_event fresh)
                              (publish_effect fresh (spawned principal_id w)))))"
proof (cases "map_of (sh_principals w) principal_id")
  case None
  have p: "publish_answer env a (spawned principal_id w) = publish_answer env a w" for a
    by (simp add: publish_answer_def spawned_def store_actor_def Let_def)
  have "spawn_actor env principal_id w =
      pbind (publish_locked env (fresh_actor (sh_next_actor_id w))) (\<lambda>_.
      pbind (record_event (spawn_event (fresh_actor (sh_next_actor_id w)))) (\<lambda>_.
      preturn (fresh_actor (sh_next_actor_id w)))) (spawned principal_id w)"
    by (simp add: spawn_actor_def None Let_def put_actor_def spawned_def store_actor_def)
  then show ?thesis
    by (simp add: None Let_def pbind_def publish_locked_run p record_event_run proc_run split: option.split)
next
  case (Some actor_id)
  then show ?thesis by (simp add: spawn_actor_def proc_run split: option.split)
qed

definition teleported :: "Actor \<Rightarrow> int \<Rightarrow> int \<Rightarrow> Actor" where
  "teleported actor pos_x pos_y =
     actor\<lparr>ac_pos_x := pos_x, ac_pos_y := pos_y, ac_vel_x := 0, ac_vel_y := 0, ac_vel_z := 0\<rparr>"

lemma teleport_actor_run:
  "teleport_actor env actor_id x y w =
     (case map_of (sh_actors w) actor_id of
        None \<Rightarrow> (Inr None, w)
      | Some a \<Rightarrow>
          (case publish_answer env (teleported a x y) w of
             Some e \<Rightarrow> (Inl e, store_actor actor_id (teleported a x y) w)
           | None \<Rightarrow> (Inr (Some (teleported a x y)),
                      publish_effect (teleported a x y) (store_actor actor_id (teleported a x y) w))))"
proof (cases "map_of (sh_actors w) actor_id")
  case None
  then show ?thesis by (simp add: teleport_actor_def actor_of_def pbind_assoc proc_run)
next
  case (Some a)
  have t: "\<lparr>ac_id = ac_id a, ac_pos_x = x, ac_pos_y = y, ac_pos_z = ac_pos_z a, ac_vel_x = 0, ac_vel_y = 0,
      ac_vel_z = 0, ac_input_tick = ac_input_tick a, ac_flags = ac_flags a, ac_update_seq = ac_update_seq a\<rparr>
      = teleported a x y"
    by (simp add: teleported_def)
  have p: "publish_answer env s (store_actor actor_id s w) = publish_answer env s w" for s
    by (simp add: publish_answer_def store_actor_def)
  have "teleport_actor env actor_id x y w =
      pbind (publish_locked env (teleported a x y)) (\<lambda>_. preturn (Some (teleported a x y)))
        (store_actor actor_id (teleported a x y) w)"
    by (simp add: teleport_actor_def actor_of_def pbind_assoc Some t Let_def put_actor_def store_actor_def)
  then show ?thesis
    by (simp add: Some pbind_def publish_locked_run p proc_run split: option.split)
qed

lemma apply_movement_run:
  "apply_movement env actor_id inp dt_ms w =
     (case apply_movement_locked env actor_id inp dt_ms w of
        (Inr (Some a), w') \<Rightarrow> (Inr (Some a), recorded (move_event actor_id inp) w')
      | r \<Rightarrow> r)"
  by (simp add: apply_movement_def pbind_def record_event_run proc_run split: prod.split sum.split option.split)

definition bind_effect :: "int \<Rightarrow> int \<Rightarrow> SpatialWorld \<Rightarrow> SpatialWorld" where
  "bind_effect session_id actor_id w =
     (let holders = binds_of actor_id (sh_actor_binds w) - {session_id};
          dropped = (case map_of (sh_session_actors w) session_id of
                       None \<Rightarrow> sh_actor_binds w
                     | Some p \<Rightarrow> drop_bind session_id p (sh_actor_binds w)) in
      w\<lparr>sh_bind_conflicts := sh_bind_conflicts w + (if holders \<noteq> {} then 1 else 0),
        sw_stderr := sw_stderr w @ (if holders \<noteq> {} then [(session_id, actor_id, card holders)] else []),
        sh_session_actors := AList.update session_id actor_id (sh_session_actors w),
        sh_actor_binds := AList.update actor_id (insert session_id (binds_of actor_id dropped)) dropped\<rparr>)"

lemma session_info_bind:
  "pbind (session_info env session) f w =
     (case env_info env of
        Some e \<Rightarrow> (Inl (SpatialKith e), w) | None \<Rightarrow> f (sw_sessions w session) w)"
  by (simp add: session_info_def pbind_def pcall_def pget_def preturn_def split: option.split)

lemma record_bind_run:
  "record_bind env session actor_id w =
     (case env_info env of
        Some e \<Rightarrow> (Inl (SpatialKith e), w)
      | None \<Rightarrow>
          (Inr (), if map_of (sh_session_actors w) session = Some actor_id then w
                   else bind_effect session actor_id w))"
proof (cases "env_info env")
  case None
  show ?thesis
  proof (cases "map_of (sh_session_actors w) session = Some actor_id")
    case True
    then show ?thesis by (simp add: record_bind_def None session_info_bind Let_def proc_run)
  next
    case False
    then show ?thesis
      by (cases "map_of (sh_session_actors w) session")
        (simp_all add: record_bind_def None session_info_bind Let_def proc_run bind_effect_def)
  qed
next
  case (Some e)
  then show ?thesis by (simp add: record_bind_def session_info_bind)
qed

definition unbind_effect :: "int \<Rightarrow> int \<Rightarrow> SpatialWorld \<Rightarrow> SpatialWorld" where
  "unbind_effect session_id actor_id w =
     w\<lparr>sh_session_actors := AList.delete session_id (sh_session_actors w),
       sh_actor_binds := drop_bind session_id actor_id (sh_actor_binds w)\<rparr>"

lemma on_session_destroyed_run:
  "on_session_destroyed session_id w =
     (Inr (), case map_of (sh_session_actors w) session_id of
                None \<Rightarrow> w | Some actor_id \<Rightarrow> unbind_effect session_id actor_id w)"
  by (simp add: on_session_destroyed_def unbind_effect_def proc_run split: option.split)

definition bumped :: "CellKey \<Rightarrow> SpatialWorld \<Rightarrow> SpatialWorld" where
  "bumped key w =
     w\<lparr>sh_cell_epochs := AList.update key (epoch_of w key + 1) (sh_cell_epochs w),
       sw_products := sw_products w @ [(key, epoch_of w key + 1)]\<rparr>"

definition refusal :: "spatial_env \<Rightarrow> CellKey \<Rightarrow> int \<Rightarrow> spatial_exc option" where
  "refusal env key epoch =
     (case env_product env key epoch of
        Some e \<Rightarrow> if raises_state (SpatialKith e) then None else Some (SpatialKith e)
      | None \<Rightarrow> None)"

lemma bump_cell_run:
  "bump_cell env key w =
     (case refusal env key (epoch_of w key + 1) of
        Some e \<Rightarrow> (Inl e, bumped key w) | None \<Rightarrow> (Inr (), bumped key w))"
  by (simp add: bump_cell_def Let_def epoch_of_def [symmetric] psuppress_def publish_cell_product_def
      pcall_def refusal_def bumped_def split: option.split)

subsection \<open>Session calls touch nothing but the sessions\<close>

definition sessions_only :: "'a spatial_proc \<Rightarrow> bool" where
  "sessions_only p \<longleftrightarrow> (\<forall>w. \<exists>f. snd (p w) = w\<lparr>sw_sessions := f\<rparr>)"

lemma sessions_only_bind:
  assumes "sessions_only p" "\<And>a. sessions_only (q a)"
  shows "sessions_only (pbind p q)"
  unfolding sessions_only_def
proof
  fix w
  obtain r v where pw: "p w = (r, v)" by (cases "p w")
  obtain f where f: "v = w\<lparr>sw_sessions := f\<rparr>" using assms(1) pw by (auto simp: sessions_only_def dest: spec [of _ w])
  show "\<exists>f. snd (pbind p q w) = w\<lparr>sw_sessions := f\<rparr>"
  proof (cases r)
    case (Inl e)
    with pw f show ?thesis by (auto simp: pbind_def)
  next
    case (Inr a)
    obtain g where "snd (q a v) = v\<lparr>sw_sessions := g\<rparr>" using assms(2) [of a] by (auto simp: sessions_only_def)
    with pw f Inr show ?thesis by (auto simp: pbind_def)
  qed
qed

lemma sessions_only_snd: "(\<And>w. snd (p w) = w) \<Longrightarrow> sessions_only p"
  unfolding sessions_only_def
proof
  fix w
  assume "\<And>w. snd (p w) = w"
  then have "snd (p w) = w\<lparr>sw_sessions := sw_sessions w\<rparr>" by simp
  then show "\<exists>f. snd (p w) = w\<lparr>sw_sessions := f\<rparr>" by (rule exI [where x = "sw_sessions w"])
qed

lemma sessions_only_return: "sessions_only (preturn a)"
  by (rule sessions_only_snd) (simp add: proc_run)

lemma sessions_only_upd: "sessions_only (upd_session session f)"
  by (auto simp: sessions_only_def upd_session_def proc_run)

lemma sessions_only_pget: "(\<And>w. sessions_only (f w)) \<Longrightarrow> sessions_only (pbind pget f)"
  by (rule sessions_only_bind) (simp_all add: sessions_only_snd pget_def)

lemma sessions_only_call: "sessions_only (pcall r)"
  by (rule sessions_only_snd) (simp add: pcall_def)

lemma sessions_only_for: "(\<And>x. sessions_only (f x)) \<Longrightarrow> sessions_only (pfor xs f)"
  by (induction xs) (simp_all add: sessions_only_return sessions_only_bind)

lemma sessions_only_window:
  "sessions_only (session_window_add env session key)"
  "sessions_only (session_window_remove env session key)"
  "sessions_only (session_populate env session actor_id cells)"
  "sessions_only (cell_of actor)"
  "sessions_only (session_info env session)"
  unfolding session_window_add_def session_window_remove_def session_populate_def Let_def session_info_def
  by (auto intro!: sessions_only_pget sessions_only_bind sessions_only_upd sessions_only_call
      sessions_only_return sessions_only_snd [of "cell_of actor"] simp: cell_of_run split: prod.split)

lemma sessions_only_diff: "sessions_only (diff_window env session actor old_cell)"
  unfolding diff_window_def Let_def
  by (intro sessions_only_bind sessions_only_pget sessions_only_for sessions_only_window)

subsection \<open>Invariants of every run\<close>

text \<open>The contract of a condition that survives every change a handler makes between two flushes.
  Whatever the framework answers, it then holds in every run without a flush.\<close>

locale spatial_change =
  fixes I :: "SpatialWorld \<Rightarrow> bool"
  assumes sessions: "I w \<Longrightarrow> I (w\<lparr>sw_sessions := f\<rparr>)"
    and recording: "I w \<Longrightarrow> I (recorded event w)"
    and dropping: "I w \<Longrightarrow> I (w\<lparr>sh_gate_drops := drops\<rparr>)"
    and broadcasting: "I w \<Longrightarrow> I (w\<lparr>sw_broadcasts := bs\<rparr>)"
    and marking: "I w \<Longrightarrow> I (w\<lparr>sh_dirty_cells := insert k (sh_dirty_cells w)\<rparr>)"
    and publishing: "I w \<Longrightarrow> I (publish_effect a w)"
    and storing: "I w \<Longrightarrow> map_of (sh_actors w) i = Some a \<Longrightarrow> ac_id b = ac_id a \<Longrightarrow> I (store_actor i b w)"
    and spawning: "I w \<Longrightarrow> map_of (sh_principals w) p = None \<Longrightarrow> I (spawned p w)"
    and binding: "I w \<Longrightarrow> map_of (sh_session_actors w) s \<noteq> Some i \<Longrightarrow> I (bind_effect s i w)"
    and unbinding: "I w \<Longrightarrow> map_of (sh_session_actors w) s = Some i \<Longrightarrow> I (unbind_effect s i w)"
begin

lemma sessions_keep: "sessions_only p \<Longrightarrow> keeps I p"
  unfolding keeps_def sessions_only_def by (metis sessions)

lemmas session_keeps = sessions_only_window [THEN sessions_keep] sessions_only_diff [THEN sessions_keep]

lemma publish_keeps: "keeps I (publish_locked env a)"
  by (simp add: keeps_def publish_locked_run publishing split: option.split)

lemma spawn_keeps: "keeps I (spawn_actor env principal_id)"
  unfolding keeps_def spawn_actor_run Let_def
  by (auto simp: publishing recording spawning split: option.split)

lemma step_actor_keeps_id:
  assumes "model_keeps_ids env" "step_actor env a inp dt = Inr b"
  shows "ac_id b = ac_id a"
proof -
  obtain c xs where c: "sp_kith (env_apply_input env a inp) = Inr c" "sp_kith (env_step env [c] dt) = Inr xs"
    "(case xs of [] \<Rightarrow> Inl SpatialIndexError | s # _ \<Rightarrow> Inr s) = Inr b"
    using assms(2) by (auto simp: step_actor_def rbind_eq_Inr)
  then have "env_apply_input env a inp = Inr c" "env_step env [c] dt = Inr xs"
    by (simp_all add: sp_kith_def split: sum.splits)
  with assms(1) have "ac_id c = ac_id a" "map ac_id xs = [ac_id c]"
    unfolding model_keeps_ids_def by fastforce+
  with c(3) show ?thesis by (cases xs) auto
qed

lemma move_keeps: "model_keeps_ids env \<Longrightarrow> keeps I (apply_movement_locked env actor_id inp dt)"
  unfolding keeps_def apply_movement_locked_run
  by (auto simp: publishing storing step_actor_keeps_id split: option.split sum.split)

lemma teleport_keeps: "keeps I (teleport_actor env actor_id x y)"
  unfolding keeps_def teleport_actor_run
  by (auto simp: publishing storing teleported_def split: option.split)

lemma record_keeps: "keeps I (record_event event)"
  by (simp add: keeps_def record_event_run recording)

lemma login_keeps: "keeps I (on_login env payload session)"
proof -
  have "keeps I (record_bind env session i)" for i
    unfolding keeps_def record_bind_run by (auto simp: binding split: option.split)
  then show ?thesis
    unfolding on_login_def by (intro proc_intros spawn_keeps session_keeps)
qed

lemma input_keeps: "model_keeps_ids env \<Longrightarrow> keeps I (on_actor_input env payload session)"
  unfolding on_actor_input_def actor_of_def
  by (intro proc_intros move_keeps session_keeps record_keeps keeps_modify dropping)

lemma chat_keeps: "keeps I (on_chat env payload session)"
proof -
  have "keeps I (mark_dirty c)" for c by (simp add: keeps_def mark_dirty_run marking)
  moreover have "keeps I (broadcast_cell env k t b)" for k t b
    unfolding broadcast_cell_def by (intro proc_intros keeps_modify broadcasting)
  moreover have "keeps I (case e of ValueErr _ \<Rightarrow> preturn () | StructErr \<Rightarrow> praise (SpatialCodecError StructErr))" for e
    by (cases e) (simp_all add: proc_intros)
  ultimately show ?thesis
    unfolding on_chat_def actor_of_def by (intro proc_intros session_keeps)
qed

lemma dispatch_keeps: "model_keeps_ids env \<Longrightarrow> keeps I (dispatch env msg_type payload session)"
  unfolding dispatch_def
  by (auto intro: proc_intros login_keeps input_keeps chat_keeps split: option.split spatial_handler.split)

lemma change_keeps:
  assumes "I w" "op_ok p" "\<And>env. p \<noteq> DoFlush env"
  shows "I (spatial_step w p)"
proof (cases p)
  case (DoMove env actor_id inp dt)
  have "I (snd (apply_movement_locked env actor_id inp dt w))"
    using assms DoMove move_keeps [of env actor_id inp dt] by (simp add: op_ok_def keeps_def)
  then show ?thesis
    by (auto simp: DoMove apply_movement_run recording split: prod.split sum.split option.split)
next
  case (DoDestroyed s)
  then show ?thesis using assms(1) by (auto simp: on_session_destroyed_run unbinding split: option.split)
qed (use assms dispatch_keeps teleport_keeps spawn_keeps in \<open>auto simp: op_ok_def keeps_def\<close>)

lemma changes_keep:
  "I w \<Longrightarrow> \<forall>p \<in> set ops. op_ok p \<and> (\<forall>env. p \<noteq> DoFlush env) \<Longrightarrow> I (spatial_run w ops)"
  by (rule spatial_run_invariant [where P = "\<lambda>p. op_ok p \<and> (\<forall>env. p \<noteq> DoFlush env)"])
    (auto intro: change_keeps)

end

text \<open>An invariant also survives what a flush does; it then holds in every run.\<close>

locale spatial_invariant = spatial_change +
  assumes clearing: "I w \<Longrightarrow> I (w\<lparr>sh_dirty_cells := {}\<rparr>)"
    and bumping: "I w \<Longrightarrow> I (bumped k w)"
begin

lemma flush_keeps: "keeps I (flush_dirty_cells env)"
proof -
  have "keeps I (bump_cell env k)" for k
    unfolding keeps_def bump_cell_run by (auto simp: bumping split: option.split)
  then show ?thesis
    unfolding flush_dirty_cells_def Let_def by (intro proc_intros keeps_modify clearing)
qed

lemma step_keeps: "I w \<Longrightarrow> op_ok p \<Longrightarrow> I (spatial_step w p)"
  using change_keeps [of w p] flush_keeps by (cases p) (auto simp: keeps_def)

lemma run_keeps: "I w \<Longrightarrow> \<forall>p \<in> set ops. op_ok p \<Longrightarrow> I (spatial_run w ops)"
  by (rule spatial_run_invariant [where P = op_ok]) (auto intro: step_keeps)

end

end
