(* ===== verification/SpatialLaws.thy ===== *)
theory SpatialLaws
  imports SpatialRuns
begin

text \<open>
  The invariants of the spatial handler set, each an interpretation of \<open>spatial_invariant\<close>: identities
  (one actor per principal), the two bind maps, the published cells and the epochs of the cell
  products.
\<close>

lemmas world_effects =
  recorded_def publish_effect_def store_actor_def spawned_def bind_effect_def unbind_effect_def
  bumped_def Let_def

subsection \<open>Identities\<close>

definition identity_inv :: "SpatialWorld \<Rightarrow> bool" where
  "identity_inv w \<longleftrightarrow>
     inj_on (map_of (sh_principals w)) (dom (map_of (sh_principals w))) \<and>
     ran (map_of (sh_principals w)) = dom (map_of (sh_actors w)) \<and>
     (\<forall>i \<in> dom (map_of (sh_actors w)). 1 \<le> i \<and> i < sh_next_actor_id w) \<and>
     (\<forall>i a. map_of (sh_actors w) i = Some a \<longrightarrow> ac_id a = i) \<and>
     1 \<le> sh_next_actor_id w"

lemma identity_inv_cong:
  assumes "identity_inv w" "sh_principals v = sh_principals w" "sh_actors v = sh_actors w"
    "sh_next_actor_id v = sh_next_actor_id w"
  shows "identity_inv v"
  using assms by (simp add: identity_inv_def)

lemma identity_inv_store:
  assumes "identity_inv w" "map_of (sh_actors w) i = Some a" "ac_id b = ac_id a"
  shows "identity_inv (store_actor i b w)"
proof -
  have "dom ((map_of (sh_actors w))(i \<mapsto> b)) = dom (map_of (sh_actors w))" using assms(2) by auto
  with assms show ?thesis by (auto simp: identity_inv_def store_actor_def update_conv')
qed

lemma identity_inv_spawned:
  assumes "identity_inv w" "map_of (sh_principals w) p = None"
  shows "identity_inv (spawned p w)"
proof -
  let ?n = "sh_next_actor_id w" and ?P = "map_of (sh_principals w)" and ?A = "map_of (sh_actors w)"
  have n: "?n \<notin> dom ?A" "?n \<notin> ran ?P" using assms(1) unfolding identity_inv_def by auto
  have f: "?P x \<noteq> Some ?n" for x using n(2) by (auto intro: ranI)
  have "inj_on ?P (dom ?P)" using assms(1) by (simp add: identity_inv_def)
  then have "inj_on (?P(p \<mapsto> ?n)) (insert p (dom ?P))"
    using f f [symmetric] assms(2) by (simp add: inj_on_def)
  moreover have "ran (?P(p \<mapsto> ?n)) = insert ?n (ran ?P)" using assms(2) by simp
  moreover have "\<forall>i \<in> dom ?A. 1 \<le> i \<and> i \<le> ?n"
  proof
    fix i assume "i \<in> dom ?A"
    then have "1 \<le> i \<and> i < ?n" using assms(1) unfolding identity_inv_def by blast
    then show "1 \<le> i \<and> i \<le> ?n" by simp
  qed
  ultimately show ?thesis
    using assms(1) unfolding identity_inv_def
    by (auto simp: spawned_def store_actor_def Let_def update_conv' fresh_actor_def)
qed

interpretation identities: spatial_invariant identity_inv
proof
  fix w i and a b :: Actor assume "identity_inv w" "map_of (sh_actors w) i = Some a" "ac_id b = ac_id a"
  then show "identity_inv (store_actor i b w)" by (rule identity_inv_store)
next
  fix w p assume "identity_inv w" "map_of (sh_principals w) p = None"
  then show "identity_inv (spawned p w)" by (rule identity_inv_spawned)
qed (auto intro: identity_inv_cong simp: world_effects)

subsection \<open>Bind records\<close>

definition binds_inv :: "SpatialWorld \<Rightarrow> bool" where
  "binds_inv w \<longleftrightarrow>
     (\<forall>i. binds_of i (sh_actor_binds w) = {s. map_of (sh_session_actors w) s = Some i}) \<and>
     (\<forall>i. map_of (sh_actor_binds w) i \<noteq> Some {})"

lemma binds_of_drop: "binds_of j (drop_bind s i bs) = (if j = i then binds_of i bs - {s} else binds_of j bs)"
  by (auto simp: binds_of_def drop_bind_def Let_def delete_conv' update_conv' split: option.split)

lemma drop_bind_nonempty:
  "\<forall>j. map_of bs j \<noteq> Some {} \<Longrightarrow> map_of (drop_bind s i bs) j \<noteq> Some {}"
  by (auto simp: drop_bind_def Let_def delete_conv' update_conv' split: option.split if_splits)

lemma binds_of_update: "binds_of j (AList.update i S bs) = (if j = i then S else binds_of j bs)"
  by (simp add: binds_of_def update_conv')

lemma binds_inv_bind:
  assumes "binds_inv w"
  shows "binds_inv (bind_effect s i w)"
proof -
  let ?S = "map_of (sh_session_actors w)" and ?B = "sh_actor_binds w"
  define D where "D = (case ?S s of None \<Rightarrow> ?B | Some p \<Rightarrow> drop_bind s p ?B)"
  have B: "binds_of j ?B = {t. ?S t = Some j}" for j using assms by (simp add: binds_inv_def)
  have D: "binds_of j D = {t. ?S t = Some j} - {s}" for j
    by (cases "?S s") (auto simp: D_def binds_of_drop B)
  have ne: "\<forall>j. map_of D j \<noteq> Some {}"
    using assms by (auto simp: D_def binds_inv_def drop_bind_nonempty split: option.split)
  have "binds_of j (AList.update i (insert s (binds_of i D)) D) = {t. (?S(s \<mapsto> i)) t = Some j}" for j
    by (auto simp: binds_of_update D)
  with ne show ?thesis
    by (simp add: binds_inv_def bind_effect_def Let_def D_def [symmetric] update_conv')
qed

lemma binds_inv_unbind:
  assumes "binds_inv w" "map_of (sh_session_actors w) s = Some i"
  shows "binds_inv (unbind_effect s i w)"
proof -
  let ?S = "map_of (sh_session_actors w)"
  have "binds_of j (drop_bind s i (sh_actor_binds w)) = {t. (?S(s := None)) t = Some j}" for j
    using assms by (auto simp: binds_of_drop binds_inv_def)
  with assms(1) show ?thesis
    by (simp add: binds_inv_def unbind_effect_def drop_bind_nonempty delete_conv')
qed

interpretation binds: spatial_invariant binds_inv
proof
  fix w s i assume "binds_inv w"
  then show "binds_inv (bind_effect s i w)" by (rule binds_inv_bind)
next
  fix w s i assume "binds_inv w" "map_of (sh_session_actors w) s = Some i"
  then show "binds_inv (unbind_effect s i w)" by (rule binds_inv_unbind)
qed (auto simp: binds_inv_def world_effects)

subsection \<open>Epochs\<close>

definition epochs_inv :: "SpatialWorld \<Rightarrow> bool" where
  "epochs_inv w \<longleftrightarrow>
     (\<forall>k. 0 \<le> epoch_of w k \<and> map snd (filter (\<lambda>p. fst p = k) (sw_products w)) = [1..epoch_of w k])"

lemma epoch_of_bumped: "epoch_of (bumped k w) j = (if j = k then epoch_of w k + 1 else epoch_of w j)"
  by (simp add: epoch_of_def bumped_def update_conv')

lemma bumped_simps:
  "sw_products (bumped k w) = sw_products w @ [(k, epoch_of w k + 1)]"
  "sh_dirty_cells (bumped k w) = sh_dirty_cells w"
  by (simp_all add: bumped_def)

lemma epochs_inv_bumped: "epochs_inv w \<Longrightarrow> epochs_inv (bumped k w)"
  unfolding epochs_inv_def epoch_of_bumped
  by (auto simp: bumped_def upto_rec2)

interpretation epochs: spatial_invariant epochs_inv
proof
  fix w k assume "epochs_inv w"
  then show "epochs_inv (bumped k w)" by (rule epochs_inv_bumped)
qed (auto simp: epochs_inv_def epoch_of_def world_effects)

subsection \<open>Published cells\<close>

definition latest_artifact :: "SpatialWorld \<Rightarrow> int \<Rightarrow> (ArtifactKey \<times> Actor) option" where
  "latest_artifact w i = find (\<lambda>p. ac_id (snd p) = i) (rev (sw_artifacts w))"

definition cells_inv :: "SpatialWorld \<Rightarrow> bool" where
  "cells_inv w \<longleftrightarrow>
     (\<forall>p \<in> set (sw_artifacts w). fst p = artifact_key_of (sh_zone_id w) (cell_at (sh_cell_size w) (snd p))) \<and>
     (\<forall>i. map_of (sh_actor_cells w) i =
            map_option (\<lambda>p. cell_at (sh_cell_size w) (snd p)) (latest_artifact w i))"

lemma cells_inv_publish: "cells_inv w \<Longrightarrow> cells_inv (publish_effect a w)"
  by (auto simp: cells_inv_def latest_artifact_def publish_effect_def Let_def update_conv')

interpretation cells: spatial_invariant cells_inv
proof
  fix w a assume "cells_inv w"
  then show "cells_inv (publish_effect a w)" by (rule cells_inv_publish)
qed (auto simp: cells_inv_def latest_artifact_def world_effects)

lemma world_init_invariants:
  "identity_inv (world_init z cs r rc)" "binds_inv (world_init z cs r rc)"
  "epochs_inv (world_init z cs r rc)" "cells_inv (world_init z cs r rc)"
  by (simp_all add: identity_inv_def binds_inv_def epochs_inv_def cells_inv_def latest_artifact_def
      epoch_of_def binds_of_def world_init_def SpatialHandlers_init_def SpatialHandlers.defs)

subsection \<open>One flush\<close>

text \<open>A walk over cells in which \<open>g\<close> says what the bump of a cell raises: the cells that get a bump are all
  of them, or those up to the first whose bump raises.\<close>

fun issued :: "('k \<Rightarrow> 'e option) \<Rightarrow> 'k list \<Rightarrow> 'k list" where
  "issued g [] = []"
| "issued g (k # keys) = (case g k of None \<Rightarrow> k # issued g keys | Some e \<Rightarrow> [k])"

fun walk_answer :: "('k \<Rightarrow> 'e option) \<Rightarrow> 'k list \<Rightarrow> 'e + unit" where
  "walk_answer g [] = Inr ()"
| "walk_answer g (k # keys) = (case g k of None \<Rightarrow> walk_answer g keys | Some e \<Rightarrow> Inl e)"

lemma set_issued: "set (issued g keys) \<subseteq> set keys"
  by (induction keys) (auto split: option.splits)

lemma distinct_issued: "distinct keys \<Longrightarrow> distinct (issued g keys)"
proof (induction keys)
  case (Cons k keys)
  then show ?case using set_issued [of g keys] by (auto split: option.split)
qed simp

lemma issued_all: "\<forall>k \<in> set keys. g k = None \<Longrightarrow> issued g keys = keys \<and> walk_answer g keys = Inr ()"
  by (induction keys) auto

lemma walk_cong:
  "\<forall>k \<in> set keys. g k = h k \<Longrightarrow> issued g keys = issued h keys \<and> walk_answer g keys = walk_answer h keys"
  by (induction keys) (auto split: option.split)

definition bump_answer :: "spatial_env \<Rightarrow> SpatialWorld \<Rightarrow> CellKey \<Rightarrow> spatial_exc option" where
  "bump_answer env w k = refusal env k (epoch_of w k + 1)"

lemma pfor_bump:
  "distinct keys \<Longrightarrow>
     pfor keys (bump_cell env) w =
       (walk_answer (bump_answer env w) keys, fold bumped (issued (bump_answer env w) keys) w)"
proof (induction keys arbitrary: w)
  case Nil
  then show ?case by (simp add: proc_run)
next
  case (Cons k keys)
  then have "\<forall>j \<in> set keys. bump_answer env (bumped k w) j = bump_answer env w j"
    by (auto simp: epoch_of_bumped bump_answer_def)
  from walk_cong [OF this] Cons show ?case
    by (simp add: pbind_def bump_cell_run bump_answer_def [symmetric] split: option.split)
qed

lemma fold_bumped_products:
  "distinct keys \<Longrightarrow>
     sw_products (fold bumped keys w) = sw_products w @ map (\<lambda>k. (k, epoch_of w k + 1)) keys"
proof (induction keys arbitrary: w)
  case (Cons k keys)
  then have "map (\<lambda>i. (i, epoch_of (bumped k w) i + 1)) keys = map (\<lambda>i. (i, epoch_of w i + 1)) keys"
    by (auto simp: epoch_of_bumped)
  with Cons show ?case by (simp add: bumped_simps)
qed simp

lemma fold_bumped_epochs:
  "distinct keys \<Longrightarrow>
     epoch_of (fold bumped keys w) j = epoch_of w j + (if j \<in> set keys then 1 else 0)"
  by (induction keys arbitrary: w) (auto simp: epoch_of_bumped)

lemma fold_bumped_dirty: "sh_dirty_cells (fold bumped keys w) = sh_dirty_cells w"
  by (induction keys arbitrary: w) (simp_all add: bumped_simps)

lemma flush_run:
  fixes env w
  defines "keys \<equiv> env_order env (sh_dirty_cells w)" and "g \<equiv> bump_answer env w"
  assumes "distinct keys"
  shows "flush_dirty_cells env w =
    (walk_answer g keys, fold bumped (issued g keys) (w\<lparr>sh_dirty_cells := {}\<rparr>))"
proof -
  have "bump_answer env (w\<lparr>sh_dirty_cells := {}\<rparr>) = g"
    by (rule ext) (simp add: g_def bump_answer_def epoch_of_def)
  with pfor_bump [OF assms(3), of env "w\<lparr>sh_dirty_cells := {}\<rparr>"] show ?thesis
    by (simp add: flush_dirty_cells_def Let_def keys_def)
qed

lemma flush_effect:
  fixes env w
  defines "keys \<equiv> env_order env (sh_dirty_cells w)" and "g \<equiv> bump_answer env w"
  assumes "distinct keys"
  shows "sh_dirty_cells (snd (flush_dirty_cells env w)) = {}"
    and "sw_products (snd (flush_dirty_cells env w)) =
           sw_products w @ map (\<lambda>k. (k, epoch_of w k + 1)) (issued g keys)"
    and "epoch_of (snd (flush_dirty_cells env w)) k =
           epoch_of w k + (if k \<in> set (issued g keys) then 1 else 0)"
proof -
  have e: "epoch_of (w\<lparr>sh_dirty_cells := {}\<rparr>) k = epoch_of w k" for k by (simp add: epoch_of_def)
  have r: "snd (flush_dirty_cells env w) = fold bumped (issued g keys) (w\<lparr>sh_dirty_cells := {}\<rparr>)"
    using flush_run [of env w] assms(3) by (simp add: keys_def g_def)
  have d: "distinct (issued g keys)" by (rule distinct_issued [OF assms(3)])
  show "sh_dirty_cells (snd (flush_dirty_cells env w)) = {}" by (simp add: r fold_bumped_dirty)
  show "sw_products (snd (flush_dirty_cells env w)) =
      sw_products w @ map (\<lambda>k. (k, epoch_of w k + 1)) (issued g keys)"
    by (simp add: r fold_bumped_products [OF d] e)
  show "epoch_of (snd (flush_dirty_cells env w)) k =
      epoch_of w k + (if k \<in> set (issued g keys) then 1 else 0)"
    by (simp add: r fold_bumped_epochs [OF d] e)
qed

subsection \<open>What changes between two flushes\<close>

definition cell_key_of :: "SpatialWorld \<Rightarrow> Actor \<Rightarrow> CellKey" where
  "cell_key_of w a = key_of (sh_zone_id w) (cell_at (sh_cell_size w) a)"

text \<open>The cells a publish touches, as seen from \<open>w0\<close>: the actor's new cell and the one it had in \<open>w0\<close>.\<close>

definition touched :: "SpatialWorld \<Rightarrow> ArtifactKey \<times> Actor \<Rightarrow> CellKey set" where
  "touched w0 p =
     insert (cell_key_of w0 (snd p))
       (key_of (sh_zone_id w0) ` set_option (map_of (sh_actor_cells w0) (ac_id (snd p))))"

definition cell_after :: "SpatialWorld \<Rightarrow> (ArtifactKey \<times> Actor) list \<Rightarrow> int \<Rightarrow> cell option" where
  "cell_after w0 new i =
     (case find (\<lambda>p. ac_id (snd p) = i) (rev new) of
        None \<Rightarrow> map_of (sh_actor_cells w0) i
      | Some p \<Rightarrow> Some (cell_at (sh_cell_size w0) (snd p)))"

text \<open>Since \<open>w0\<close> the publishes \<open>new\<close> happened; \<open>w\<close> knows the cells they touched.\<close>

definition announces :: "SpatialWorld \<Rightarrow> SpatialWorld \<Rightarrow> bool" where
  "announces w0 w \<longleftrightarrow>
     sh_zone_id w = sh_zone_id w0 \<and> sh_cell_size w = sh_cell_size w0 \<and>
     sh_cell_epochs w = sh_cell_epochs w0 \<and>
     (finite (sh_dirty_cells w0) \<longrightarrow> finite (sh_dirty_cells w)) \<and>
     (\<exists>new. sw_artifacts w = sw_artifacts w0 @ new \<and>
        sh_dirty_cells w0 \<union> (\<Union>p \<in> set new. touched w0 p) \<subseteq> sh_dirty_cells w \<and>
        map_of (sh_actor_cells w) = cell_after w0 new)"

lemma announces_refl: "announces w w"
  by (simp add: announces_def cell_after_def fun_eq_iff)

lemma announces_cong:
  assumes "announces w0 w" "sh_zone_id v = sh_zone_id w" "sh_cell_size v = sh_cell_size w"
    "sh_cell_epochs v = sh_cell_epochs w" "sh_dirty_cells w \<subseteq> sh_dirty_cells v"
    "finite (sh_dirty_cells w) \<Longrightarrow> finite (sh_dirty_cells v)"
    "sw_artifacts v = sw_artifacts w" "sh_actor_cells v = sh_actor_cells w"
  shows "announces w0 v"
proof -
  from assms(1) obtain new where "sw_artifacts w = sw_artifacts w0 @ new"
    "sh_dirty_cells w0 \<union> (\<Union>p \<in> set new. touched w0 p) \<subseteq> sh_dirty_cells w"
    "map_of (sh_actor_cells w) = cell_after w0 new"
    unfolding announces_def by blast
  then have "sw_artifacts v = sw_artifacts w0 @ new \<and>
      sh_dirty_cells w0 \<union> (\<Union>p \<in> set new. touched w0 p) \<subseteq> sh_dirty_cells v \<and>
      map_of (sh_actor_cells v) = cell_after w0 new"
    using assms(5,7,8) by (simp only:) (meson subset_trans)
  with assms show ?thesis unfolding announces_def by metis
qed

lemma find_rev_in: "find P (rev xs) = Some p \<Longrightarrow> p \<in> set xs \<and> P p"
  by (metis find_Some_iff nth_mem set_rev)

lemma announces_publish:
  assumes "announces w0 w"
  shows "announces w0 (publish_effect a w)"
proof -
  from assms obtain new where n: "sw_artifacts w = sw_artifacts w0 @ new"
    "sh_dirty_cells w0 \<union> (\<Union>p \<in> set new. touched w0 p) \<subseteq> sh_dirty_cells w"
    "map_of (sh_actor_cells w) = cell_after w0 new"
    and z: "sh_zone_id w = sh_zone_id w0" "sh_cell_size w = sh_cell_size w0"
      "sh_cell_epochs w = sh_cell_epochs w0"
      "finite (sh_dirty_cells w0) \<longrightarrow> finite (sh_dirty_cells w)"
    unfolding announces_def by blast
  let ?v = "publish_effect a w" and ?k = "artifact_key_of (sh_zone_id w) (cell_at (sh_cell_size w) a)"
  have v: "sh_dirty_cells ?v = key_of (sh_zone_id w0) ` set_option (cell_after w0 new (ac_id a)) \<union>
      insert (cell_key_of w0 a) (sh_dirty_cells w)"
    by (simp add: publish_effect_def Let_def cell_key_of_def z n(3))
  have "touched w0 (?k, a) \<subseteq> sh_dirty_cells ?v"
  proof (cases "find (\<lambda>p. ac_id (snd p) = ac_id a) (rev new)")
    case None
    then show ?thesis by (auto simp: v touched_def cell_after_def)
  next
    case (Some p)
    from find_rev_in [OF Some] have "touched w0 (?k, a) \<subseteq> insert (cell_key_of w0 a) (touched w0 p)" "p \<in> set new"
      by (auto simp: touched_def)
    with n(2) show ?thesis unfolding v by blast
  qed
  with n(2) have "sh_dirty_cells w0 \<union> (\<Union>p \<in> set (new @ [(?k, a)]). touched w0 p) \<subseteq> sh_dirty_cells ?v"
    by (auto simp: v)
  moreover have "map_of (sh_actor_cells ?v) = cell_after w0 (new @ [(?k, a)])"
    by (auto simp: publish_effect_def Let_def update_conv' n(3) cell_after_def fun_eq_iff z)
  moreover have "sw_artifacts ?v = sw_artifacts w0 @ new @ [(?k, a)]"
    by (simp add: publish_effect_def Let_def n(1))
  moreover have "finite (sh_dirty_cells w) \<Longrightarrow> finite (sh_dirty_cells ?v)" by (simp add: v)
  moreover have "sh_zone_id ?v = sh_zone_id w" "sh_cell_size ?v = sh_cell_size w"
    "sh_cell_epochs ?v = sh_cell_epochs w"
    by (simp_all add: publish_effect_def Let_def)
  ultimately show ?thesis using z unfolding announces_def by metis
qed

interpretation announced: spatial_change "announces w0" for w0
proof
  fix w a assume "announces w0 w"
  then show "announces w0 (publish_effect a w)" by (rule announces_publish)
qed (erule announces_cong; simp add: recorded_def store_actor_def spawned_def bind_effect_def
    unbind_effect_def Let_def subset_insertI)+

text \<open>Every cell that gained, lost or refreshed an actor between two flushes is dirty at the second.\<close>

lemma changed_cells_dirty:
  assumes "announces w0 w"
  shows "set_option (map_of (sh_actor_cells w0) i) \<union> set_option (map_of (sh_actor_cells w) i) =
      set_option (map_of (sh_actor_cells w0) i) \<inter> set_option (map_of (sh_actor_cells w) i) \<or>
    key_of (sh_zone_id w0) ` (set_option (map_of (sh_actor_cells w0) i) \<union> set_option (map_of (sh_actor_cells w) i))
      \<subseteq> sh_dirty_cells w"
proof -
  from assms obtain new where n: "sh_dirty_cells w0 \<union> (\<Union>p \<in> set new. touched w0 p) \<subseteq> sh_dirty_cells w"
    "map_of (sh_actor_cells w) = cell_after w0 new"
    unfolding announces_def by blast
  show ?thesis
  proof (cases "find (\<lambda>p. ac_id (snd p) = i) (rev new)")
    case None
    then show ?thesis by (simp add: n(2) cell_after_def)
  next
    case (Some p)
    from find_rev_in [OF Some] have p: "p \<in> set new" "ac_id (snd p) = i" by simp_all
    then have "touched w0 p \<subseteq> sh_dirty_cells w" using n(1) by auto
    then show ?thesis using p Some by (auto simp: n(2) cell_after_def touched_def cell_key_of_def)
  qed
qed

subsection \<open>A model for the witnesses\<close>

definition key_tuple :: "CellKey \<Rightarrow> int \<times> int \<times> int \<times> int \<times> int" where
  "key_tuple k = (key_zone k, key_cell_x k, key_cell_y k, key_cell_z k, key_lod k)"

definition tuple_key :: "int \<times> int \<times> int \<times> int \<times> int \<Rightarrow> CellKey" where
  "tuple_key t = (case t of (z, x, y, u, l) \<Rightarrow>
     \<lparr>key_zone = z, key_cell_x = x, key_cell_y = y, key_cell_z = u, key_lod = l\<rparr>)"

text \<open>A framework that accepts every call, a model that moves one cell per unit of input, and sets walked in
  ascending order.\<close>

definition demo_env :: spatial_env where
  "demo_env =
     \<lparr>env_publish = (\<lambda>_ _. None), env_product = (\<lambda>_ _. None), env_broadcast = (\<lambda>_ _ _. None),
      env_info = None, env_subscribe = (\<lambda>_. None), env_unsubscribe = (\<lambda>_. None),
      env_apply_input = (\<lambda>a i. Inr (a\<lparr>ac_pos_x := ac_pos_x a + in_move_x i * 65536,
                                       ac_input_tick := in_input_tick i\<rparr>)),
      env_step = (\<lambda>actors _. Inr actors),
      env_order = (\<lambda>S. map tuple_key (sorted_list_of_set (key_tuple ` S)))\<rparr>"

lemma demo_env_ok: "model_keeps_ids demo_env" "walks_sets demo_env"
proof -
  have t: "tuple_key (key_tuple k) = k" for k by (simp add: tuple_key_def key_tuple_def)
  have u: "key_tuple (tuple_key x) = x" for x by (simp add: tuple_key_def key_tuple_def split: prod.split)
  have "inj tuple_key" using u by (rule inj_on_inverseI)
  then have "distinct (map tuple_key xs) = distinct xs" for xs
    by (metis distinct_map inj_on_subset subset_UNIV)
  then show "walks_sets demo_env" by (simp add: walks_sets_def demo_env_def image_image t)
  show "model_keeps_ids demo_env" by (auto simp: model_keeps_ids_def demo_env_def)
qed

definition demo_input :: "int \<Rightarrow> SimInput" where
  "demo_input dx = \<lparr>in_input_tick = 3, in_move_x = dx, in_move_y = 0, in_move_z = 0, in_flags = 0\<rparr>"

definition demo_world :: SpatialWorld where
  "demo_world = spatial_run (world_init 5 65536 1 None) [DoSpawn demo_env 42]"

lemmas demo_run_simps =
  spawn_actor_run publish_answer_def publish_effect_def spawned_def store_actor_def recorded_def
  world_init_def SpatialHandlers_init_def SpatialHandlers.defs fresh_actor_def cell_at_def Let_def

subsection \<open>Properties\<close>

text \<open>C8: In every run of the spatial handlers, whatever the framework answers or raises: every principal has
  its own actor, the actor table holds exactly the principals' actors under their ids, all below the
  allocator; the session and actor bind records are inverse to each other and hold no empty set; every
  artifact is published into the cell of its position and the recorded cell of an actor is that of its
  latest artifact; and the epochs issued for a cell are 1, 2, 3, ... without gap or repetition.\<close>

theorem spatial_invariants_hold:
  assumes "\<forall>p \<in> set ops. op_ok p"
  shows "identity_inv (spatial_run (world_init z cs r rc) ops) \<and>
    binds_inv (spatial_run (world_init z cs r rc) ops) \<and>
    cells_inv (spatial_run (world_init z cs r rc) ops) \<and>
    epochs_inv (spatial_run (world_init z cs r rc) ops)"
  using identities.run_keeps [OF world_init_invariants(1) assms] binds.run_keeps [OF world_init_invariants(2) assms]
    epochs.run_keeps [OF world_init_invariants(3) assms] cells.run_keeps [OF world_init_invariants(4) assms]
  by blast

theorem spatial_invariants_hold_witness:
  "identity_inv demo_world \<and> binds_inv demo_world \<and> cells_inv demo_world \<and> epochs_inv demo_world \<and>
   map_of (sh_principals demo_world) 42 = Some 1"
proof -
  have "map_of (sh_principals demo_world) 42 = Some 1"
    by (simp add: demo_world_def demo_run_simps demo_env_def)
  with spatial_invariants_hold [of "[DoSpawn demo_env 42]" 5 65536 1 None] show ?thesis
    by (simp add: demo_world_def op_ok_def demo_env_ok)
qed

text \<open>C25: A flush empties the dirty set and issues one bump, at the next epoch, for each dirty cell; a stale
  epoch answer does not stop it. Any other error does: the cell that raised is the last one bumped, and
  the cells behind it in the walk are neither bumped nor dirty any more.\<close>

theorem flush_bumps_dirty_cells:
  assumes "walks_sets env" "finite (sh_dirty_cells w)"
  shows "(let keys = env_order env (sh_dirty_cells w); g = bump_answer env w;
              (answer, w') = flush_dirty_cells env w in
      sh_dirty_cells w' = {} \<and> answer = walk_answer g keys \<and>
      sw_products w' = sw_products w @ map (\<lambda>k. (k, epoch_of w k + 1)) (issued g keys) \<and>
      (\<forall>k. epoch_of w' k = epoch_of w k + (if k \<in> set (issued g keys) then 1 else 0)) \<and>
      ((\<forall>k \<in> sh_dirty_cells w. g k = None) \<longrightarrow>
         answer = Inr () \<and> set (issued g keys) = sh_dirty_cells w \<and> distinct (issued g keys)))"
proof -
  have d: "distinct (env_order env (sh_dirty_cells w))" "set (env_order env (sh_dirty_cells w)) = sh_dirty_cells w"
    using assms by (simp_all add: walks_sets_def)
  show ?thesis
    using flush_effect [OF d(1)] flush_run [OF d(1)] d
      issued_all [of "env_order env (sh_dirty_cells w)" "bump_answer env w"]
    by (simp add: Let_def split: prod.split)
qed

theorem flush_bumps_dirty_cells_witness:
  "sh_dirty_cells (snd (flush_dirty_cells demo_env demo_world)) = {} \<and>
   epoch_of (snd (flush_dirty_cells demo_env demo_world)) (key_of 5 (0, 0, 0)) = 1"
proof -
  have d: "sh_dirty_cells demo_world = {key_of 5 (0, 0, 0)}" "epoch_of demo_world k = 0" for k
    by (simp_all add: demo_world_def demo_run_simps demo_env_def epoch_of_def)
  have "bump_answer demo_env demo_world k = None" for k
    by (simp add: bump_answer_def refusal_def demo_env_def)
  with flush_bumps_dirty_cells [OF demo_env_ok(2), of demo_world] d show ?thesis
    by (simp add: Let_def split: prod.splits)
qed

text \<open>C18: Every change is announced at the next flush. Take any run without a flush, whatever the calls in it
  raise, and then a flush in which no bump is refused: if the published cell of an actor changed, both
  the cell it left and the cell it entered are bumped; nothing else the run did can keep them from it.\<close>

theorem changes_are_announced:
  assumes "\<forall>p \<in> set ops. op_ok p \<and> (\<forall>e. p \<noteq> DoFlush e)" "finite (sh_dirty_cells w)"
    "walks_sets env" "\<forall>k. bump_answer env (spatial_run w ops) k = None"
    "map_of (sh_actor_cells (spatial_run w ops)) i \<noteq> map_of (sh_actor_cells w) i"
    "map_of (sh_actor_cells (spatial_run w ops)) i = Some c \<or> map_of (sh_actor_cells w) i = Some c"
  shows "epoch_of (spatial_step (spatial_run w ops) (DoFlush env)) (key_of (sh_zone_id w) c) =
    epoch_of w (key_of (sh_zone_id w) c) + 1"
proof -
  let ?v = "spatial_run w ops" and ?k = "key_of (sh_zone_id w) c"
  have v: "announces w ?v" by (rule announced.changes_keep [OF announces_refl assms(1)])
  have f: "finite (sh_dirty_cells ?v)" "epoch_of ?v ?k = epoch_of w ?k"
    using v assms(2) by (simp_all add: announces_def epoch_of_def)
  have "?k \<in> sh_dirty_cells ?v" using changed_cells_dirty [OF v, of i] assms(5,6) by fastforce
  moreover have d: "distinct (env_order env (sh_dirty_cells ?v))"
    "set (env_order env (sh_dirty_cells ?v)) = sh_dirty_cells ?v"
    using assms(3) f(1) by (simp_all add: walks_sets_def)
  moreover have "issued (bump_answer env ?v) (env_order env (sh_dirty_cells ?v)) = env_order env (sh_dirty_cells ?v)"
    using assms(4) by (simp add: issued_all)
  ultimately show ?thesis using flush_effect(3) [OF d(1), of ?k] f(2) by simp
qed

theorem changes_are_announced_witness:
  "epoch_of (spatial_step (spatial_run demo_world [DoMove demo_env 1 (demo_input 2) 50]) (DoFlush demo_env))
     (key_of 5 (2, 0, 0)) = 1 \<and>
   epoch_of (spatial_step (spatial_run demo_world [DoMove demo_env 1 (demo_input 2) 50]) (DoFlush demo_env))
     (key_of 5 (0, 0, 0)) = 1"
proof -
  let ?ops = "[DoMove demo_env 1 (demo_input 2) 50]"
  have w: "sh_zone_id demo_world = 5" "map_of (sh_actor_cells demo_world) 1 = Some (0, 0, 0)"
    "finite (sh_dirty_cells demo_world)" "epoch_of demo_world k = 0" for k
    by (simp_all add: demo_world_def demo_run_simps demo_env_def epoch_of_def)
  have v: "map_of (sh_actor_cells (spatial_run demo_world ?ops)) 1 = Some (2, 0, 0)"
    by (simp add: demo_world_def demo_run_simps apply_movement_run apply_movement_locked_run step_actor_def
        sp_kith_def demo_env_def demo_input_def)
  have b: "bump_answer demo_env u k = None" for u k by (simp add: bump_answer_def refusal_def demo_env_def)
  show ?thesis
    using changes_are_announced [of ?ops demo_world demo_env 1 "(2, 0, 0)"]
      changes_are_announced [of ?ops demo_world demo_env 1 "(0, 0, 0)"] w v b
    by (simp add: op_ok_def demo_env_ok)
qed

end
