(* ===== verification/SpatialWindows.thy ===== *)
theory SpatialWindows
  imports SpatialLaws
begin

text \<open>
  How the subscription window of a session follows the actor it is bound to, what each branch of the
  movement handler does, and what the recorded events of a run determine.
\<close>

subsection \<open>Calls the framework accepts\<close>

definition framework_accepts :: "spatial_env \<Rightarrow> bool" where
  "framework_accepts env \<longleftrightarrow>
     (\<forall>k a. env_publish env k a = None) \<and> env_info env = None \<and>
     (\<forall>k. env_subscribe env k = None) \<and> (\<forall>k. env_unsubscribe env k = None)"

lemma publish_answer_accepts:
  "framework_accepts env \<Longrightarrow> sh_cell_size w \<noteq> 0 \<Longrightarrow> publish_answer env a w = None"
  by (simp add: publish_answer_def framework_accepts_def)

definition set_window :: "int \<Rightarrow> CellKey set \<Rightarrow> CellKey list \<Rightarrow> SpatialWorld \<Rightarrow> SpatialWorld" where
  "set_window s X P w =
     w\<lparr>sw_sessions := (sw_sessions w)(s := (sw_sessions w s)\<lparr>gs_window := X, gs_pending := P\<rparr>)\<rparr>"

lemma set_window_simps [simp]:
  "gs_window (sw_sessions (set_window s X P w) s) = X"
  "gs_pending (sw_sessions (set_window s X P w) s) = P"
  "gs_attached (sw_sessions (set_window s X P w) t) = gs_attached (sw_sessions w t)"
  "gs_actor_id (sw_sessions (set_window s X P w) t) = gs_actor_id (sw_sessions w t)"
  "set_window s Y Q (set_window s X P w) = set_window s Y Q w"
  "set_window s (gs_window (sw_sessions w s)) (gs_pending (sw_sessions w s)) w = w"
  by (simp_all add: set_window_def)

lemma window_call_run:
  fixes w s defines "W \<equiv> gs_window (sw_sessions w s)" and "P \<equiv> gs_pending (sw_sessions w s)"
  assumes "framework_accepts env" "gs_attached (sw_sessions w s)"
  shows "session_window_add env s k w = (Inr (), set_window s (insert k W) P w)"
    and "session_window_remove env s k w = (Inr (), set_window s (W - {k}) (filter (\<lambda>j. j \<noteq> k) P) w)"
  using assms
  by (simp_all add: session_window_add_def session_window_remove_def framework_accepts_def Let_def upd_session_def
      add_code_def add_cell_def remove_cell_def pcall_def code_exc_def set_window_def insert_absorb)

lemma pfor_window_run:
  assumes "framework_accepts env" "gs_attached (sw_sessions w s)"
  shows "pfor keys (session_window_add env s) w =
      (Inr (), set_window s (gs_window (sw_sessions w s) \<union> set keys) (gs_pending (sw_sessions w s)) w)"
    and "pfor keys (session_window_remove env s) w =
      (Inr (), set_window s (gs_window (sw_sessions w s) - set keys)
         (filter (\<lambda>j. j \<notin> set keys) (gs_pending (sw_sessions w s))) w)"
  using assms(2)
proof (induction keys arbitrary: w)
  case (Cons k keys)
  {
    case 1
    let ?W = "gs_window (sw_sessions w s)" and ?P = "gs_pending (sw_sessions w s)"
    have "insert k ?W \<union> set keys = ?W \<union> set (k # keys)" by auto
    then show ?case
      using Cons.IH(1) [of "set_window s (insert k ?W) ?P w"] 1
        pbind_apply_Inr [of "session_window_add env s k" w, OF window_call_run(1) [OF assms(1) 1],
          of "\<lambda>_. pfor keys (session_window_add env s)"] by simp
  next
    case 2
    let ?W = "gs_window (sw_sessions w s)" and ?P = "gs_pending (sw_sessions w s)"
    have "?W - {k} - set keys = ?W - set (k # keys)" by auto
    then show ?case
      using Cons.IH(2) [of "set_window s (?W - {k}) (filter (\<lambda>j. j \<noteq> k) ?P) w"] 2
        pbind_apply_Inr [of "session_window_remove env s k" w, OF window_call_run(2) [OF assms(1) 2],
          of "\<lambda>_. pfor keys (session_window_remove env s)"] by (simp add: conj_commute)
  }
qed (simp_all add: proc_run)

definition cells_around :: "SpatialWorld \<Rightarrow> cell \<Rightarrow> CellKey set" where
  "cells_around w c = set (neighborhood (sh_zone_id w) (sh_cell_radius w) c)"

lemma diff_window_run:
  assumes "framework_accepts env" "walks_sets env" "gs_attached (sw_sessions w s)" "sh_cell_size w \<noteq> 0"
    "gs_window (sw_sessions w s) = cells_around w old"
  shows "\<exists>P. diff_window env s a old w =
    (Inr (), set_window s (cells_around w (cell_at (sh_cell_size w) a)) P w)"
proof -
  let ?N = "cells_around w (cell_at (sh_cell_size w) a)" and ?O = "cells_around w old"
  have o: "set (env_order env (?O - ?N)) = ?O - ?N" "set (env_order env (?N - ?O)) = ?N - ?O"
    using assms(2) by (simp_all add: walks_sets_def cells_around_def)
  have "diff_window env s a old w =
      pbind (pfor (env_order env (?O - ?N)) (session_window_remove env s)) (\<lambda>_.
        pfor (env_order env (?N - ?O)) (session_window_add env s)) w"
    using assms(4) by (simp add: diff_window_def pbind_apply_Inr [OF cell_of_run [THEN trans]] Let_def
        cells_around_def)
  also have "\<dots> = (Inr (), set_window s ((?O - (?O - ?N)) \<union> (?N - ?O))
      (filter (\<lambda>j. j \<notin> ?O - ?N) (gs_pending (sw_sessions w s))) w)"
    using assms(1,3,5) o by (simp add: pbind_def pfor_window_run)
  also have "(?O - (?O - ?N)) \<union> (?N - ?O) = ?N" by blast
  finally show ?thesis by (rule exI)
qed

lemma populate_cells_accepts:
  "framework_accepts env \<Longrightarrow> gs_attached s \<Longrightarrow>
     populate_cells env keys s = (None, s\<lparr>gs_window := gs_window s \<union> set keys\<rparr>)"
proof (induction keys arbitrary: s)
  case (Cons k keys)
  then have "add_code k (env_subscribe env k) s = None"
    "add_cell k (env_subscribe env k) s = s\<lparr>gs_window := insert k (gs_window s)\<rparr>"
    by (simp_all add: add_code_def add_cell_def framework_accepts_def insert_absorb)
  with Cons show ?case by simp
qed simp

subsection \<open>What one session sees of one actor\<close>

definition seen :: "int \<Rightarrow> int \<Rightarrow> SpatialWorld \<Rightarrow> gw_session \<times> Actor option \<times> int \<times> int \<times> int" where
  "seen s a w =
     (sw_sessions w s, map_of (sh_actors w) a, sh_zone_id w, sh_cell_size w, sh_cell_radius w)"

definition holds_view ::
    "int \<Rightarrow> int \<Rightarrow> gw_session \<times> Actor option \<times> int \<times> int \<times> int \<Rightarrow> SpatialWorld \<Rightarrow> bool" where
  "holds_view s a x w \<longleftrightarrow> seen s a w = x \<and> a < sh_next_actor_id w"

lemma holds_view_cong:
  "holds_view s a x w \<Longrightarrow> sw_sessions v s = sw_sessions w s \<Longrightarrow> map_of (sh_actors v) a = map_of (sh_actors w) a \<Longrightarrow>
   sh_zone_id v = sh_zone_id w \<Longrightarrow> sh_cell_size v = sh_cell_size w \<Longrightarrow> sh_cell_radius v = sh_cell_radius w \<Longrightarrow>
   sh_next_actor_id w \<le> sh_next_actor_id v \<Longrightarrow> holds_view s a x v"
  by (auto simp: holds_view_def seen_def)

lemma holds_view_effects:
  assumes "holds_view s a x w"
  shows "holds_view s a x (publish_effect b w)" "holds_view s a x (recorded ev w)"
    "holds_view s a x (bind_effect t i w)" "holds_view s a x (unbind_effect t i w)"
    "holds_view s a x (bumped k w)" "holds_view s a x (spawned p w)"
    "i \<noteq> a \<Longrightarrow> holds_view s a x (store_actor i b w)"
    "holds_view s a x (w\<lparr>sh_dirty_cells := D\<rparr>)" "holds_view s a x (w\<lparr>sw_broadcasts := bs\<rparr>)"
    "holds_view s a x (w\<lparr>sh_gate_drops := n\<rparr>)"
    "t \<noteq> s \<Longrightarrow> holds_view s a x (w\<lparr>sw_sessions := (sw_sessions w)(t := S)\<rparr>)"
  using assms by (auto simp: world_effects update_conv' holds_view_def seen_def)

lemma holds_view_procs:
  shows "keeps (holds_view s a x) (publish_locked env b)"
    "keeps (holds_view s a x) (spawn_actor env p)"
    "i \<noteq> a \<Longrightarrow> keeps (holds_view s a x) (apply_movement_locked env i inp dt)"
    "i \<noteq> a \<Longrightarrow> keeps (holds_view s a x) (teleport_actor env i px py)"
    "keeps (holds_view s a x) (record_bind env t i)"
    "keeps (holds_view s a x) (record_event ev)"
    "keeps (holds_view s a x) (mark_dirty c)"
    "keeps (holds_view s a x) (bump_cell env k)"
    "keeps (holds_view s a x) (cell_of b)"
    "t \<noteq> s \<Longrightarrow> keeps (holds_view s a x) (upd_session t f)"
  unfolding keeps_def
  by (auto simp: publish_locked_run spawn_actor_run apply_movement_locked_run teleport_actor_run record_bind_run
      record_event_run mark_dirty_run bump_cell_run cell_of_run upd_session_def proc_run Let_def
      holds_view_effects split: option.split sum.split)

lemma holds_view_sessions:
  assumes "t \<noteq> s"
  shows "keeps (holds_view s a x) (session_window_add env t k)"
    "keeps (holds_view s a x) (session_window_remove env t k)"
    "keeps (holds_view s a x) (session_populate env t i keys)"
    "keeps (holds_view s a x) (diff_window env t b c)"
proof -
  show add: "keeps (holds_view s a x) (session_window_add env t k)" for k
    unfolding session_window_add_def Let_def by (intro proc_intros holds_view_procs assms)
  show rem: "keeps (holds_view s a x) (session_window_remove env t k)" for k
    unfolding session_window_remove_def Let_def by (intro proc_intros holds_view_procs assms)
  show "keeps (holds_view s a x) (session_populate env t i keys)"
    unfolding session_populate_def Let_def by (intro proc_intros holds_view_procs assms)
  show "keeps (holds_view s a x) (diff_window env t b c)"
    unfolding diff_window_def Let_def by (intro proc_intros holds_view_procs add rem)
qed

lemma holds_view_login: "t \<noteq> s \<Longrightarrow> keeps (holds_view s a x) (on_login env payload t)"
  unfolding on_login_def by (intro proc_intros holds_view_procs holds_view_sessions)

lemma holds_view_chat: "keeps (holds_view s a x) (on_chat env payload t)"
proof -
  have "keeps (holds_view s a x) (broadcast_cell env k m b)" for k m b
    unfolding broadcast_cell_def by (intro proc_intros keeps_modify holds_view_effects)
  moreover have "keeps (holds_view s a x)
      (case e of ValueErr _ \<Rightarrow> preturn () | StructErr \<Rightarrow> praise (SpatialCodecError StructErr))" for e
    by (cases e) (simp_all add: proc_intros)
  ultimately show ?thesis
    unfolding on_chat_def actor_of_def by (intro proc_intros holds_view_procs)
qed

lemma holds_view_flush: "keeps (holds_view s a x) (flush_dirty_cells env)"
  unfolding flush_dirty_cells_def Let_def
  by (intro proc_intros keeps_modify holds_view_effects holds_view_procs)

subsection \<open>The movement handler\<close>

lemma on_actor_input_run:
  assumes "decode_actor_input payload = Inr (i, inp)"
  shows "on_actor_input env payload s w =
    (case map_of (sh_actors w) i of
       None \<Rightarrow> (Inr (), w)
     | Some before \<Rightarrow>
         (case apply_movement_locked env i inp 50 w of
            (Inl e, w') \<Rightarrow> (Inl e, w')
          | (Inr None, w') \<Rightarrow> (Inr (), w')
          | (Inr (Some stepped), w') \<Rightarrow>
              if env_info env \<noteq> None then (Inr (), w')
              else if gs_actor_id (sw_sessions w' s) \<noteq> i
              then (Inr (), recorded (move_event i inp) (w'\<lparr>sh_gate_drops := sh_gate_drops w' + 1\<rparr>))
              else pbind (pbind (cell_of before) (\<lambda>old_cell.
                     pbind (cell_of stepped) (\<lambda>new_cell.
                     if old_cell \<noteq> new_cell then diff_window env s stepped old_cell else preturn ())))
                   (\<lambda>_. record_event (move_event i inp)) w'))"
proof -
  have "ACTOR_INPUT_PAYLOAD_LEN \<le> length payload"
    using assms by (auto simp: decode_actor_input_def rbind_eq_Inr)
  then show ?thesis
    by (auto simp: on_actor_input_def assms actor_of_def pbind_assoc pbind_def [of "apply_movement_locked env i inp 50"]
        session_info_bind proc_run record_event_run split: option.split prod.split sum.split)
qed

subsection \<open>The window follows the actor\<close>

definition tracks :: "int \<Rightarrow> int \<Rightarrow> SpatialWorld \<Rightarrow> bool" where
  "tracks s a w \<longleftrightarrow>
     gs_attached (sw_sessions w s) \<and> gs_actor_id (sw_sessions w s) = a \<and>
     (case map_of (sh_actors w) a of
        None \<Rightarrow> False
      | Some actor \<Rightarrow> gs_window (sw_sessions w s) = cells_around w (cell_at (sh_cell_size w) actor))"

text \<open>The operations that leave the bond between session \<open>s\<close> and actor \<open>a\<close> alone: no new login on \<open>s\<close>, and
  \<open>a\<close> is moved only by inputs of \<open>s\<close>, with a framework that accepts the calls of that input.\<close>

fun undisturbed :: "int \<Rightarrow> int \<Rightarrow> spatial_op \<Rightarrow> bool" where
  "undisturbed s a (DoMessage env msg_type payload session) \<longleftrightarrow>
     (msg_type = SP_LOGIN_TYPE \<longrightarrow> session \<noteq> s) \<and>
     (msg_type = ACTOR_INPUT_TYPE \<longrightarrow>
        (case decode_actor_input payload of
           Inl _ \<Rightarrow> True
         | Inr (i, _) \<Rightarrow> i = a \<longrightarrow> session = s \<and> framework_accepts env))"
| "undisturbed s a (DoMove env i inp dt) \<longleftrightarrow> i \<noteq> a"
| "undisturbed s a (DoTeleport env i x y) \<longleftrightarrow> i \<noteq> a"
| "undisturbed s a (DoSpawn env p) \<longleftrightarrow> True"
| "undisturbed s a (DoDestroyed t) \<longleftrightarrow> True"
| "undisturbed s a (DoFlush env) \<longleftrightarrow> True"

lemma tracks_seen: "seen s a v = seen s a w \<Longrightarrow> tracks s a v = tracks s a w"
  by (simp add: seen_def tracks_def cells_around_def split: option.split)

lemma keeps_seen:
  assumes "\<And>x. keeps (holds_view s a x) p" "a < sh_next_actor_id w"
  shows "seen s a (snd (p w)) = seen s a w"
  using keepsD [OF assms(1) [of "seen s a w"], of w] assms(2) by (simp add: holds_view_def)

lemma own_input_tracks:
  assumes "tracks s a w" "sh_cell_size w \<noteq> 0" "framework_accepts env" "walks_sets env"
    "decode_actor_input payload = Inr (a, inp)"
  shows "tracks s a (snd (on_actor_input env payload s w))"
proof -
  from assms(1) obtain b where b: "map_of (sh_actors w) a = Some b"
    and w: "gs_attached (sw_sessions w s)" "gs_actor_id (sw_sessions w s) = a"
      "gs_window (sw_sessions w s) = cells_around w (cell_at (sh_cell_size w) b)"
    by (auto simp: tracks_def split: option.splits)
  show ?thesis
  proof (cases "step_actor env b inp 50")
    case (Inl e)
    then show ?thesis using assms(1) by (simp add: on_actor_input_run [OF assms(5)] b apply_movement_locked_run)
  next
    case (Inr c)
    define v where "v = publish_effect c (store_actor a c w)"
    have v: "sw_sessions v = sw_sessions w" "sh_zone_id v = sh_zone_id w" "sh_cell_size v = sh_cell_size w"
      "sh_cell_radius v = sh_cell_radius w" "map_of (sh_actors v) a = Some c"
      by (simp_all add: v_def publish_effect_def store_actor_def Let_def update_conv')
    have i: "env_info env = None" using assms(3) by (simp add: framework_accepts_def)
    have m: "apply_movement_locked env a inp 50 w = (Inr (Some c), v)"
      by (simp add: apply_movement_locked_run b Inr publish_answer_accepts [OF assms(3,2)] v_def)
    obtain P where r: "snd (on_actor_input env payload s w) =
        recorded (move_event a inp) (set_window s (cells_around v (cell_at (sh_cell_size v) c)) P v)"
    proof (cases "cell_at (sh_cell_size w) b = cell_at (sh_cell_size w) c")
      case True
      then have "set_window s (cells_around v (cell_at (sh_cell_size v) c)) (gs_pending (sw_sessions v s)) v = v"
        using w(3) set_window_simps(6) [of s v] by (simp add: v cells_around_def)
      moreover from True have "snd (on_actor_input env payload s w) = recorded (move_event a inp) v"
        using assms(2) w(2) by (simp add: on_actor_input_run [OF assms(5)] b m i v pbind_def cell_of_run proc_run
            record_event_run)
      ultimately show thesis using that by metis
    next
      case False
      have "\<exists>P. diff_window env s c (cell_at (sh_cell_size w) b) v =
          (Inr (), set_window s (cells_around v (cell_at (sh_cell_size v) c)) P v)"
        by (rule diff_window_run) (use assms w in \<open>simp_all add: v cells_around_def\<close>)
      then obtain P where "diff_window env s c (cell_at (sh_cell_size w) b) v =
          (Inr (), set_window s (cells_around v (cell_at (sh_cell_size v) c)) P v)" ..
      with False show thesis
        using assms(2) w(2) that [of P] by (simp add: on_actor_input_run [OF assms(5)] b m i v pbind_def cell_of_run
            proc_run record_event_run)
    qed
    show ?thesis
      using w by (simp add: r tracks_def recorded_def set_window_def v cells_around_def)
  qed
qed

lemma foreign_input_seen:
  assumes "decode_actor_input payload = Inr (i, inp)" "i \<noteq> a" "a < sh_next_actor_id w"
    "gs_actor_id (sw_sessions w s) = a"
  shows "seen s a (snd (on_actor_input env payload t w)) = seen s a w"
proof (cases "t = s")
  case False
  have "keeps (holds_view s a x) (on_actor_input env payload t)" for x
  proof -
    have "keeps (holds_view s a x) (session_info env t)" unfolding session_info_def by (intro proc_intros)
    then have "keeps (holds_view s a x) (\<lambda>w. on_actor_input env payload t w)"
      unfolding on_actor_input_def assms(1) sum.case plift_def pbind_def [of "\<lambda>s. (Inr _, s)"] prod.case
        actor_of_def
      by (intro proc_intros keeps_modify holds_view_effects holds_view_procs holds_view_sessions assms False)
    then show ?thesis by simp
  qed
  then show ?thesis by (rule keeps_seen) (rule assms)
next
  case True
  obtain r w' where m: "apply_movement_locked env i inp 50 w = (r, w')" by fastforce
  have h: "holds_view s a (seen s a w) w'"
    using keepsD [OF holds_view_procs(3) [OF assms(2), of s "seen s a w" env inp 50], of w] m assms(3)
    by (simp add: holds_view_def)
  then have "gs_actor_id (sw_sessions w' s) = a" using assms(4) by (simp add: holds_view_def seen_def)
  with h assms(2) holds_view_effects(2) [OF holds_view_effects(10) [OF h]] show ?thesis
    by (auto simp: on_actor_input_run [OF assms(1)] m True holds_view_def split: option.split sum.split)
qed

lemma undisturbed_step:
  assumes "tracks s a w" "a < sh_next_actor_id w" "sh_cell_size w \<noteq> 0" "op_ok p" "undisturbed s a p"
  shows "tracks s a (spatial_step w p)"
proof -
  have id: "gs_actor_id (sw_sessions w s) = a" using assms(1) by (simp add: tracks_def)
  have seen: "tracks s a (snd (q w))" if "\<And>x. keeps (holds_view s a x) q" for q :: "'q spatial_proc"
    using tracks_seen [OF keeps_seen [OF that assms(2)]] assms(1) by simp
  show ?thesis
  proof (cases p)
    case (DoMessage env t payload session)
    then have e: "walks_sets env" using assms(4) by (simp add: op_ok_def)
    consider "t = SP_LOGIN_TYPE" | "t = ACTOR_INPUT_TYPE" | "t = CHAT_TYPE" | "map_of register_handlers t = None"
      by (cases "map_of register_handlers t") (auto simp: register_handlers_def split: if_splits)
    then show ?thesis
    proof cases
      case 1
      then have "session \<noteq> s" using assms(5) DoMessage by simp
      from seen [OF holds_view_login [OF this]] show ?thesis
        by (simp add: DoMessage 1 dispatch_def register_handlers_def)
    next
      case 2
      have d: "spatial_step w p = snd (on_actor_input env payload session w)"
        by (simp add: DoMessage 2 dispatch_def register_handlers_def spatial_type_ids)
      show ?thesis
      proof (cases "decode_actor_input payload")
        case (Inl e)
        then have "snd (on_actor_input env payload session w) = w"
          by (simp add: on_actor_input_def pbind_def plift_def preturn_def)
        with assms(1) d show ?thesis by simp
      next
        case (Inr r)
        then obtain i inp where r: "decode_actor_input payload = Inr (i, inp)" by (cases r) simp
        show ?thesis
        proof (cases "i = a")
          case True
          then have "session = s" "framework_accepts env" using assms(5) r 2 by (simp_all add: DoMessage)
          with own_input_tracks [OF assms(1,3) _ e] r True d show ?thesis by simp
        next
          case False
          from foreign_input_seen [OF r this assms(2) id] tracks_seen assms(1) d show ?thesis by metis
        qed
      qed
    next
      case 3
      from seen [OF holds_view_chat] show ?thesis
        by (simp add: DoMessage 3 dispatch_def register_handlers_def spatial_type_ids)
    next
      case 4
      with assms(1) show ?thesis by (simp add: DoMessage dispatch_def preturn_def)
    qed
  next
    case (DoMove env i inp dt)
    have "keeps (holds_view s a x) (apply_movement env i inp dt)" for x
      unfolding apply_movement_def using assms(5) DoMove by (intro proc_intros holds_view_procs) simp
    from seen [OF this] show ?thesis by (simp add: DoMove)
  next
    case (DoTeleport env i x y)
    from seen [OF holds_view_procs(4)] assms(5) show ?thesis by (simp add: DoTeleport)
  next
    case (DoSpawn env q)
    from seen [OF holds_view_procs(2)] show ?thesis by (simp add: DoSpawn)
  next
    case (DoDestroyed t)
    have "keeps (holds_view s a x) (on_session_destroyed t)" for x
      unfolding keeps_def on_session_destroyed_run by (auto simp: holds_view_effects split: option.split)
    from seen [OF this] show ?thesis by (simp add: DoDestroyed)
  next
    case (DoFlush env)
    from seen [OF holds_view_flush] show ?thesis by (simp add: DoFlush)
  qed
qed

interpretation sizes: spatial_invariant "\<lambda>w. sh_cell_size w = cs" for cs
  by unfold_locales (simp_all add: world_effects)

lemma undisturbed_run:
  assumes "tracks s a w" "identity_inv w" "sh_cell_size w \<noteq> 0" "a < sh_next_actor_id w"
    "\<forall>p \<in> set ops. op_ok p \<and> undisturbed s a p"
  shows "tracks s a (spatial_run w ops)"
proof -
  let ?I = "\<lambda>v. tracks s a v \<and> identity_inv v \<and> sh_cell_size v \<noteq> 0"
  have "?I (spatial_run w ops)"
  proof (rule spatial_run_invariant [where I = ?I and P = "\<lambda>p. op_ok p \<and> undisturbed s a p"])
    fix v p
    assume v: "?I v" and p: "op_ok p \<and> undisturbed s a p"
    then have "a \<in> dom (map_of (sh_actors v))" by (auto simp: tracks_def split: option.splits)
    then have a: "a < sh_next_actor_id v" using v by (auto simp: identity_inv_def)
    have t: "tracks s a (spatial_step v p)" using undisturbed_step v a p by blast
    have "sh_cell_size (spatial_step v p) = sh_cell_size v"
      by (rule sizes.step_keeps [OF refl]) (use p in simp)
    with t identities.step_keeps v p show "?I (spatial_step v p)" by simp
  qed (use assms in auto)
  then show ?thesis by simp
qed

lemma spawn_actor_identity:
  assumes "identity_inv w" "sh_cell_size w \<noteq> 0" "framework_accepts env" "sh_next_actor_id w < 2 ^ 64"
  shows "\<exists>b v. spawn_actor env p w = (Inr b, v) \<and> map_of (sh_principals v) p = Some (ac_id b) \<and>
    map_of (sh_actors v) (ac_id b) = Some b \<and> sw_sessions v = sw_sessions w \<and> sh_zone_id v = sh_zone_id w \<and>
    sh_cell_size v = sh_cell_size w \<and> sh_cell_radius v = sh_cell_radius w \<and> 1 \<le> ac_id b \<and> ac_id b < 2 ^ 64"
proof (cases "map_of (sh_principals w) p")
  case None
  then show ?thesis
    using assms by (auto simp: spawn_actor_run Let_def publish_answer_accepts identity_inv_def world_effects
        update_conv' fresh_actor_def)
next
  case (Some i)
  then have "i \<in> dom (map_of (sh_actors w))" using assms(1) by (auto simp: identity_inv_def intro: ranI)
  then obtain b where b: "map_of (sh_actors w) i = Some b" "1 \<le> i" "i < sh_next_actor_id w"
    using assms(1) unfolding identity_inv_def by blast
  moreover have "ac_id b = i" using assms(1) b(1) unfolding identity_inv_def by blast
  ultimately show ?thesis using Some assms(4) by (simp add: spawn_actor_run)
qed

text \<open>A first login seeds the window of a session without cells with the surroundings of its actor.\<close>

lemma on_login_tracks:
  assumes "identity_inv w" "sh_cell_size w \<noteq> 0" "framework_accepts env"
    "gs_attached (sw_sessions w s)" "gs_window (sw_sessions w s) = {}"
    "sp_decode_login payload = Inr p" "sh_next_actor_id w < 2 ^ 64"
  shows "\<exists>a. map_of (sh_principals (snd (on_login env payload s w))) p = Some a \<and>
    tracks s a (snd (on_login env payload s w)) \<and>
    sh_principals (snd (on_login env payload s w)) = sh_principals (snd (spawn_actor env p w))"
proof -
  have i: "env_info env = None" using assms(3) by (simp add: framework_accepts_def)
  have l: "\<not> length payload < SP_LOGIN_PAYLOAD_LEN"
    using assms(6) by (auto simp: sp_decode_login_def rbind_eq_Inr)
  obtain b v where b: "spawn_actor env p w = (Inr b, v)" "map_of (sh_principals v) p = Some (ac_id b)"
    "map_of (sh_actors v) (ac_id b) = Some b" "sw_sessions v = sw_sessions w" "sh_zone_id v = sh_zone_id w"
    "sh_cell_size v = sh_cell_size w" "sh_cell_radius v = sh_cell_radius w" "1 \<le> ac_id b"
    "ac_id b < 2 ^ 64"
    using spawn_actor_identity [OF assms(1-3,7)] by blast
  define u where "u = (if map_of (sh_session_actors v) s = Some (ac_id b) then v else bind_effect s (ac_id b) v)"
  have u: "sw_sessions u = sw_sessions w" "sh_principals u = sh_principals v" "sh_actors u = sh_actors v"
    "sh_zone_id u = sh_zone_id w" "sh_cell_size u = sh_cell_size w" "sh_cell_radius u = sh_cell_radius w"
    by (simp_all add: u_def bind_effect_def Let_def b)
  have "snd (on_login env payload s w) =
      u\<lparr>sw_sessions := (sw_sessions u)(s := (sw_sessions w s)\<lparr>gs_actor_id := ac_id b,
         gs_window := cells_around w (cell_at (sh_cell_size w) b)\<rparr>)\<rparr>"
    using assms(2,4,5) b(8,9) l
    by (simp add: on_login_def assms(6) pbind_def [of "spawn_actor env p"] b(1) pbind_def [of "record_bind env s (ac_id b)"]
        record_bind_run i u_def [symmetric] pbind_def [of "cell_of b"] cell_of_run u session_populate_def Let_def
        populate_cells_accepts [OF assms(3)] upd_session_def cells_around_def pcall_def code_exc_def)
  then show ?thesis using b u assms(4) by (auto simp: tracks_def cells_around_def)
qed

subsection \<open>What the recorded events determine\<close>

text \<open>The reading of a recorded event: a spawn puts an actor into the table, a move applies one input and
  steps the model by one tick of 50 ms.\<close>

definition replay_one ::
    "(Actor \<Rightarrow> SimInput \<Rightarrow> kith_exc + Actor) \<Rightarrow> (Actor list \<Rightarrow> int \<Rightarrow> kith_exc + Actor list) \<Rightarrow>
     (int, Actor) dict \<Rightarrow> replay_event \<Rightarrow> (int, Actor) dict" where
  "replay_one am st table ev =
     (case ev of
        SpawnEvent i x y z vx vy vz f \<Rightarrow>
          AList.update i \<lparr>ac_id = i, ac_pos_x = x, ac_pos_y = y, ac_pos_z = z, ac_vel_x = vx, ac_vel_y = vy,
            ac_vel_z = vz, ac_input_tick = 0, ac_flags = f, ac_update_seq = 0\<rparr> table
      | MoveEvent i t x y z f \<Rightarrow>
          (case map_of table i of
             None \<Rightarrow> table
           | Some a \<Rightarrow>
               (case rbind (am a \<lparr>in_input_tick = t, in_move_x = x, in_move_y = y, in_move_z = z, in_flags = f\<rparr>)
                       (\<lambda>b. st [b] 50) of
                  Inr (b # _) \<Rightarrow> AList.update i b table
                | _ \<Rightarrow> table))
      | DespawnEvent i \<Rightarrow> AList.delete i table)"

definition events_of :: "SpatialWorld \<Rightarrow> replay_event list" where
  "events_of w = (case sh_recorder w of None \<Rightarrow> [] | Some rc \<Rightarrow> rc_pending rc)"

definition recording_on :: "SpatialWorld \<Rightarrow> bool" where
  "recording_on w = (case sh_recorder w of None \<Rightarrow> False | Some rc \<Rightarrow> \<not> rc_closed rc)"

text \<open>The table of \<open>w\<close> is what reading the events recorded since \<open>w0\<close> makes of the table of \<open>w0\<close>.\<close>

definition determined ::
    "(Actor \<Rightarrow> SimInput \<Rightarrow> kith_exc + Actor) \<Rightarrow> (Actor list \<Rightarrow> int \<Rightarrow> kith_exc + Actor list) \<Rightarrow>
     SpatialWorld \<Rightarrow> SpatialWorld \<Rightarrow> bool" where
  "determined am st w0 w \<longleftrightarrow>
     recording_on w \<and> sh_cell_size w \<noteq> 0 \<and>
     (\<exists>new. events_of w = events_of w0 @ new \<and> sh_actors w = foldl (replay_one am st) (sh_actors w0) new)"

text \<open>Operations that are recorded: no teleport, movements at the default step, calls the framework accepts,
  and one model for all.\<close>

fun faithful :: "(Actor \<Rightarrow> SimInput \<Rightarrow> kith_exc + Actor) \<Rightarrow> (Actor list \<Rightarrow> int \<Rightarrow> kith_exc + Actor list) \<Rightarrow>
    spatial_op \<Rightarrow> bool" where
  "faithful am st (DoTeleport _ _ _ _) \<longleftrightarrow> False"
| "faithful am st (DoDestroyed _) \<longleftrightarrow> True"
| "faithful am st (DoMessage env _ _ _) \<longleftrightarrow>
     framework_accepts env \<and> env_apply_input env = am \<and> env_step env = st"
| "faithful am st (DoMove env _ _ dt) \<longleftrightarrow>
     framework_accepts env \<and> env_apply_input env = am \<and> env_step env = st \<and> dt = 50"
| "faithful am st (DoSpawn env _) \<longleftrightarrow>
     framework_accepts env \<and> env_apply_input env = am \<and> env_step env = st"
| "faithful am st (DoFlush env) \<longleftrightarrow> True"

lemma determined_refl: "recording_on w \<Longrightarrow> sh_cell_size w \<noteq> 0 \<Longrightarrow> determined am st w w"
  by (simp add: determined_def)

lemma determined_cong:
  "determined am st w0 w \<Longrightarrow> sh_actors v = sh_actors w \<Longrightarrow> sh_recorder v = sh_recorder w \<Longrightarrow>
   sh_cell_size v = sh_cell_size w \<Longrightarrow> determined am st w0 v"
  by (simp add: determined_def recording_on_def events_of_def)

lemma determined_record:
  assumes "determined am st w0 w" "sh_actors v = replay_one am st (sh_actors w) ev"
    "sh_recorder v = sh_recorder w" "sh_cell_size v = sh_cell_size w"
  shows "determined am st w0 (recorded ev v)"
proof -
  from assms(1) obtain new where n: "events_of w = events_of w0 @ new"
    "sh_actors w = foldl (replay_one am st) (sh_actors w0) new"
    and r: "recording_on w" "sh_cell_size w \<noteq> 0"
    by (auto simp: determined_def)
  have "events_of (recorded ev v) = events_of w0 @ (new @ [ev])" "recording_on (recorded ev v)"
    using r n(1) assms(3)
    by (auto simp: recording_on_def events_of_def recorded_def recorder_record_def split: option.splits)
  moreover have "sh_actors (recorded ev v) = foldl (replay_one am st) (sh_actors w0) (new @ [ev])"
    by (simp add: recorded_def assms(2) n(2))
  ultimately show ?thesis
    using r(2) assms(4) unfolding determined_def by (intro conjI exI) (auto simp: recorded_def)
qed

lemma determined_effects:
  assumes "determined am st w0 w"
  shows "determined am st w0 (publish_effect b w)" "determined am st w0 (bind_effect t i w)"
    "determined am st w0 (unbind_effect t i w)" "determined am st w0 (bumped k w)"
    "determined am st w0 (w\<lparr>sh_dirty_cells := D\<rparr>)" "determined am st w0 (w\<lparr>sw_broadcasts := bs\<rparr>)"
    "determined am st w0 (w\<lparr>sh_gate_drops := n\<rparr>)" "determined am st w0 (w\<lparr>sw_sessions := f\<rparr>)"
  by (rule determined_cong [OF assms]; simp add: world_effects)+

lemma replay_move:
  assumes "map_of table i = Some a" "step_actor env a inp 50 = Inr c"
  shows "replay_one (env_apply_input env) (env_step env) table (move_event i inp) = AList.update i c table"
proof -
  obtain b xs where x: "sp_kith (env_apply_input env a inp) = Inr b" "sp_kith (env_step env [b] 50) = Inr xs"
    "(case xs of [] \<Rightarrow> Inl SpatialIndexError | s # _ \<Rightarrow> Inr s) = Inr c"
    using assms(2) by (auto simp: step_actor_def rbind_eq_Inr)
  then have "env_apply_input env a inp = Inr b" "env_step env [b] 50 = Inr xs"
    by (simp_all add: sp_kith_def split: sum.splits)
  moreover obtain ys where "xs = c # ys" using x(3) by (cases xs) auto
  moreover have r: "\<lparr>in_input_tick = in_input_tick inp, in_move_x = in_move_x inp, in_move_y = in_move_y inp,
      in_move_z = in_move_z inp, in_flags = in_flags inp\<rparr> = inp" by simp
  ultimately show ?thesis using assms(1) by (simp add: replay_one_def move_event_def r)
qed

lemma pfor_returns: "(\<And>x w. fst (f x w) = Inr ()) \<Longrightarrow> fst (pfor xs f w) = Inr ()"
proof (induction xs arbitrary: w)
  case (Cons x xs)
  from Cons.prems [of x w] obtain v where "f x w = (Inr (), v)" by (cases "f x w") simp
  with Cons show ?case by (simp add: pbind_def)
qed (simp add: proc_run)

lemma diff_window_returns:
  assumes "framework_accepts env" "sh_cell_size w \<noteq> 0"
  shows "fst (diff_window env s a c w) = Inr ()"
proof -
  have "fst (session_window_add env s k v) = Inr ()" "fst (session_window_remove env s k v) = Inr ()" for k v
    using assms(1) by (simp_all add: session_window_add_def session_window_remove_def Let_def upd_session_def
        add_code_def framework_accepts_def pcall_def code_exc_def)
  then have p: "fst (pfor xs (session_window_add env s) v) = Inr ()"
    "fst (pfor xs (session_window_remove env s) v) = Inr ()" for xs v
    by (simp_all add: pfor_returns)
  have "fst (pbind (pfor xs (session_window_remove env s)) (\<lambda>_. pfor ys (session_window_add env s)) v) = Inr ()"
    for xs ys v
  proof -
    obtain u where "pfor xs (session_window_remove env s) v = (Inr (), u)"
      using p(2) [of xs v] by (metis prod.collapse)
    then show ?thesis by (simp add: pbind_def p(1))
  qed
  then show ?thesis
    using assms(2) by (simp add: diff_window_def pbind_def [of "cell_of a"] cell_of_run Let_def)
qed

text \<open>A handled input: unchanged when the actor is unknown or the model raises, else the moved actor is
  stored and published, the event recorded, and beyond that only the session or the gate counter change.\<close>

lemma on_actor_input_accepted:
  assumes "framework_accepts env" "sh_cell_size w \<noteq> 0" "decode_actor_input payload = Inr (i, inp)"
  shows "snd (on_actor_input env payload s w) = w \<or>
    (\<exists>a c f d. map_of (sh_actors w) i = Some a \<and> step_actor env a inp 50 = Inr c \<and>
       snd (on_actor_input env payload s w) =
         recorded (move_event i inp)
           ((publish_effect c (store_actor i c w))\<lparr>sw_sessions := f, sh_gate_drops := d\<rparr>))"
proof (cases "map_of (sh_actors w) i")
  case None
  then show ?thesis by (simp add: on_actor_input_run [OF assms(3)])
next
  case a: (Some a)
  show ?thesis
  proof (cases "step_actor env a inp 50")
    case (Inl e)
    then show ?thesis by (simp add: on_actor_input_run [OF assms(3)] a apply_movement_locked_run)
  next
    case (Inr c)
    define v where "v = publish_effect c (store_actor i c w)"
    have sz: "sh_cell_size v \<noteq> 0" using assms(2) by (simp add: v_def world_effects)
    have info: "env_info env = None" using assms(1) by (simp add: framework_accepts_def)
    have m: "apply_movement_locked env i inp 50 w = (Inr (Some c), v)"
      by (simp add: apply_movement_locked_run a Inr publish_answer_accepts [OF assms(1,2)] v_def)
    obtain f where f: "snd (diff_window env s c (cell_at (sh_cell_size v) a) v) = v\<lparr>sw_sessions := f\<rparr>"
      using sessions_only_diff unfolding sessions_only_def by blast
    then have d: "diff_window env s c (cell_at (sh_cell_size v) a) v = (Inr (), v\<lparr>sw_sessions := f\<rparr>)"
      using diff_window_returns [OF assms(1) sz] by (metis prod.collapse)
    have id: "v = v\<lparr>sw_sessions := sw_sessions v, sh_gate_drops := sh_gate_drops v\<rparr>" by simp
    have g: "v\<lparr>sw_sessions := f\<rparr> = v\<lparr>sw_sessions := f, sh_gate_drops := sh_gate_drops v\<rparr>" by simp
    have h: "v\<lparr>sh_gate_drops := n\<rparr> = v\<lparr>sw_sessions := sw_sessions v, sh_gate_drops := n\<rparr>" for n by simp
    have "\<exists>f d. snd (on_actor_input env payload s w) =
        recorded (move_event i inp) (v\<lparr>sw_sessions := f, sh_gate_drops := d\<rparr>)"
    proof (cases "gs_actor_id (sw_sessions v s) = i")
      case False
      then have "snd (on_actor_input env payload s w) =
          recorded (move_event i inp) (v\<lparr>sh_gate_drops := sh_gate_drops v + 1\<rparr>)"
        by (simp add: on_actor_input_run [OF assms(3)] a m info)
      then show ?thesis using h by metis
    next
      case True
      show ?thesis
      proof (cases "cell_at (sh_cell_size v) a = cell_at (sh_cell_size v) c")
        case same: True
        then have "snd (on_actor_input env payload s w) = recorded (move_event i inp) v"
          using True sz by (simp add: on_actor_input_run [OF assms(3)] a m info pbind_def cell_of_run proc_run
              record_event_run)
        then show ?thesis using id by metis
      next
        case False
        then have "snd (on_actor_input env payload s w) = recorded (move_event i inp) (v\<lparr>sw_sessions := f\<rparr>)"
          using True sz d by (simp add: on_actor_input_run [OF assms(3)] a m info pbind_def cell_of_run proc_run
              record_event_run)
        then show ?thesis using g by metis
      qed
    qed
    then show ?thesis using a Inr by (auto simp: v_def)
  qed
qed

lemma determined_input:
  assumes "determined (env_apply_input env) (env_step env) w0 w" "framework_accepts env"
    "decode_actor_input payload = Inr (i, inp)"
  shows "determined (env_apply_input env) (env_step env) w0 (snd (on_actor_input env payload s w))"
proof -
  have "sh_cell_size w \<noteq> 0" using assms(1) by (simp add: determined_def)
  from on_actor_input_accepted [OF assms(2) this assms(3), of s]
  consider "snd (on_actor_input env payload s w) = w"
    | a c f d where "map_of (sh_actors w) i = Some a" "step_actor env a inp 50 = Inr c"
      "snd (on_actor_input env payload s w) =
         recorded (move_event i inp)
           ((publish_effect c (store_actor i c w))\<lparr>sw_sessions := f, sh_gate_drops := d\<rparr>)"
    by blast
  then show ?thesis
  proof cases
    case 2
    show ?thesis
      unfolding 2(3)
      by (rule determined_record [OF assms(1)])
        (simp_all add: replay_move [OF 2(1,2)] publish_effect_def store_actor_def Let_def)
  qed (simp add: assms(1))
qed

lemma replay_spawn: "replay_one am st table (spawn_event (fresh_actor i)) = AList.update i (fresh_actor i) table"
  by (simp add: replay_one_def spawn_event_def fresh_actor_def)

lemma determined_spawn:
  assumes "determined am st w0 w" "framework_accepts env"
  shows "determined am st w0 (snd (spawn_actor env p w))"
proof (cases "map_of (sh_principals w) p")
  case None
  have "sh_cell_size w \<noteq> 0" using assms(1) by (simp add: determined_def)
  then have "snd (spawn_actor env p w) =
      recorded (spawn_event (fresh_actor (sh_next_actor_id w)))
        (publish_effect (fresh_actor (sh_next_actor_id w)) (spawned p w))"
    by (simp add: spawn_actor_run None Let_def publish_answer_accepts [OF assms(2)])
  then show ?thesis
    by (simp only:) (rule determined_record [OF assms(1)];
        simp add: replay_spawn publish_effect_def spawned_def store_actor_def Let_def)
next
  case (Some i)
  then show ?thesis using assms(1) by (simp add: spawn_actor_run split: option.split)
qed

lemma determined_keeps:
  "framework_accepts env \<Longrightarrow> keeps (determined am st w0) (spawn_actor env p)"
  "keeps (determined am st w0) (record_bind env t i)"
  "keeps (determined am st w0) (mark_dirty c)"
  "keeps (determined am st w0) (bump_cell env k)"
  "sessions_only q \<Longrightarrow> keeps (determined am st w0) q"
  unfolding keeps_def
  by (auto simp: determined_spawn record_bind_run mark_dirty_run bump_cell_run determined_effects
      split: option.split) (metis sessions_only_def determined_effects(8))

lemma determined_login: "framework_accepts env \<Longrightarrow> keeps (determined am st w0) (on_login env payload s)"
  unfolding on_login_def
  by (intro proc_intros determined_keeps(1,2) sessions_only_window [THEN determined_keeps(5)])

lemma determined_chat: "keeps (determined am st w0) (on_chat env payload t)"
proof -
  have "keeps (determined am st w0) (broadcast_cell env k m b)" for k m b
    unfolding broadcast_cell_def by (intro proc_intros keeps_modify determined_effects)
  moreover have "keeps (determined am st w0)
      (case e of ValueErr _ \<Rightarrow> preturn () | StructErr \<Rightarrow> praise (SpatialCodecError StructErr))" for e
    by (cases e) (simp_all add: proc_intros)
  ultimately show ?thesis
    unfolding on_chat_def actor_of_def
    by (intro proc_intros determined_keeps(3) sessions_only_window [THEN determined_keeps(5)])
qed

lemma determined_flush: "keeps (determined am st w0) (flush_dirty_cells env)"
  unfolding flush_dirty_cells_def Let_def
  by (intro proc_intros keeps_modify determined_effects determined_keeps(4))

lemma determined_move:
  assumes "determined (env_apply_input env) (env_step env) w0 w" "framework_accepts env"
  shows "determined (env_apply_input env) (env_step env) w0 (snd (apply_movement env i inp 50 w))"
proof -
  have sz: "sh_cell_size w \<noteq> 0" using assms(1) by (simp add: determined_def)
  show ?thesis
  proof (cases "map_of (sh_actors w) i")
    case None
    then show ?thesis using assms(1) by (simp add: apply_movement_run apply_movement_locked_run)
  next
    case a: (Some a)
    show ?thesis
    proof (cases "step_actor env a inp 50")
      case (Inl e)
      then show ?thesis using assms(1) a by (simp add: apply_movement_run apply_movement_locked_run)
    next
      case (Inr c)
      have "snd (apply_movement env i inp 50 w) =
          recorded (move_event i inp) (publish_effect c (store_actor i c w))"
        by (simp add: apply_movement_run apply_movement_locked_run a Inr publish_answer_accepts [OF assms(2) sz])
      then show ?thesis
        by (simp only:) (rule determined_record [OF assms(1)];
            simp add: replay_move [OF a Inr] publish_effect_def store_actor_def Let_def)
    qed
  qed
qed

lemma determined_step:
  assumes "determined am st w0 w" "faithful am st p"
  shows "determined am st w0 (spatial_step w p)"
proof (cases p)
  case (DoMessage env t payload s)
  then have e: "framework_accepts env" "am = env_apply_input env" "st = env_step env" using assms(2) by auto
  have "determined am st w0 (snd (on_actor_input env payload s w))"
  proof (cases "decode_actor_input payload")
    case (Inl x)
    then have "snd (on_actor_input env payload s w) = w"
      by (simp add: on_actor_input_def pbind_def plift_def preturn_def)
    with assms(1) show ?thesis by simp
  next
    case (Inr r)
    with determined_input [OF assms(1) [unfolded e(2,3)] e(1)] e show ?thesis by (cases r) simp
  qed
  then show ?thesis
    using keepsD [OF determined_login [OF e(1)] assms(1)] keepsD [OF determined_chat assms(1)] assms(1)
    by (auto simp: DoMessage dispatch_def proc_run split: option.split spatial_handler.split)
next
  case (DoMove env i inp dt)
  with assms determined_move [of env w0 w i inp] show ?thesis by auto
next
  case (DoDestroyed t)
  with assms show ?thesis by (simp add: on_session_destroyed_run determined_effects split: option.split)
next
  case (DoSpawn env q)
  with assms determined_spawn [of am st w0 w env q] show ?thesis by auto
next
  case (DoFlush env)
  with keepsD [OF determined_flush assms(1)] show ?thesis by simp
qed (use assms in simp)

lemma determined_run:
  assumes "recording_on w" "sh_cell_size w \<noteq> 0" "\<forall>p \<in> set ops. faithful am st p"
  shows "determined am st w (spatial_run w ops)"
  by (rule spatial_run_invariant [where P = "faithful am st"])
    (use assms determined_refl determined_step in auto)

subsection \<open>Properties\<close>

text \<open>C3: A session's window follows its actor. After the first login of an attached session its window is the
  surroundings of its actor's cell; and in every run in which the session does not log in again and the
  actor is moved only by the session's own inputs, whatever other sessions and the control plane do and
  whatever is refused to them, the window stays exactly the surroundings of the cell the actor is in.\<close>

theorem window_follows_actor:
  assumes "\<forall>p \<in> set before. op_ok p" "w = spatial_run (world_init z cs r rc) before" "cs \<noteq> 0"
    "sh_next_actor_id w < 2 ^ 64" "gs_attached (sw_sessions w s)" "gs_window (sw_sessions w s) = {}"
    "framework_accepts env" "model_keeps_ids env" "walks_sets env" "sp_decode_login payload = Inr account"
    "w1 = spatial_step w (DoMessage env SP_LOGIN_TYPE payload s)"
    "map_of (sh_principals w1) account = Some a"
    "\<forall>p \<in> set ops. op_ok p \<and> undisturbed s a p"
  shows "tracks s a (spatial_run w1 ops)"
proof -
  have w: "identity_inv w" using identities.run_keeps [OF world_init_invariants(1) assms(1)] assms(2) by simp
  have "sh_cell_size (world_init z cs r rc) = cs"
    by (simp add: world_init_def SpatialHandlers_init_def SpatialHandlers.defs)
  from sizes.run_keeps [OF this assms(1)] have sz: "sh_cell_size w = cs" by (simp add: assms(2))
  have l: "w1 = snd (on_login env payload s w)"
    by (simp add: assms(11) dispatch_def register_handlers_def)
  obtain b where "map_of (sh_principals w1) account = Some b" "tracks s b w1"
    using on_login_tracks [OF w _ assms(7,5,6,10,4)] sz assms(3) by (auto simp: l)
  then have t: "tracks s a w1" using assms(12) by simp
  have i: "identity_inv w1"
    unfolding assms(11) by (rule identities.step_keeps [OF w]) (simp add: op_ok_def assms(8,9))
  have "sh_cell_size w1 = cs"
    unfolding assms(11) by (rule sizes.step_keeps [OF sz]) (simp add: op_ok_def assms(8,9))
  moreover have "a < sh_next_actor_id w1"
    using t i by (auto simp: tracks_def identity_inv_def split: option.splits)
  ultimately show ?thesis using undisturbed_run [OF t i _ _ assms(13)] assms(3) by simp
qed

definition demo_login :: bytes where
  "demo_login = [42, 0, 0, 0, 0, 0, 0, 0]"

definition demo_step :: bytes where
  "demo_step = [1, 0, 0, 0, 0, 0, 0, 0, 3, 0, 0, 0, 2, 0, 0, 0, 0, 0, 0]"

lemma demo_payloads:
  "sp_decode_login demo_login = Inr 42" "decode_actor_input demo_step = Inr (1, demo_input 2)"
  by (simp_all add: sp_decode_login_def decode_actor_input_def demo_login_def demo_step_def demo_input_def
      spatial_sizes ACTOR_INPUT_FMT_def struct_unpack_def unpack_field_def byte_order_def be_val_def
      input_of_fields_def Let_def)

lemma demo_env_accepts: "framework_accepts demo_env"
  by (simp add: framework_accepts_def demo_env_def)

theorem window_follows_actor_witness:
  "tracks 7 1 (spatial_run (world_init 5 65536 1 None)
     [DoMessage demo_env SP_LOGIN_TYPE demo_login 7, DoMessage demo_env ACTOR_INPUT_TYPE demo_step 7])"
proof -
  let ?w = "world_init 5 65536 1 None"
  let ?w1 = "spatial_step ?w (DoMessage demo_env SP_LOGIN_TYPE demo_login 7)"
  have w: "sh_next_actor_id ?w < 2 ^ 64" "gs_attached (sw_sessions ?w 7)" "gs_window (sw_sessions ?w 7) = {}"
    by (simp_all add: world_init_def SpatialHandlers_init_def SpatialHandlers.defs)
  have "sh_principals ?w1 = sh_principals (snd (spawn_actor demo_env 42 ?w))"
    using on_login_tracks [OF world_init_invariants(1) _ demo_env_accepts w(2,3) demo_payloads(1) w(1)]
    by (auto simp: dispatch_def register_handlers_def world_init_def SpatialHandlers_init_def SpatialHandlers.defs)
  then have p: "map_of (sh_principals ?w1) 42 = Some 1" by (simp add: demo_run_simps demo_env_def)
  have u: "\<forall>p \<in> set [DoMessage demo_env ACTOR_INPUT_TYPE demo_step 7]. op_ok p \<and> undisturbed 7 1 p"
    by (simp add: op_ok_def demo_env_ok demo_env_accepts demo_payloads spatial_type_ids)
  show ?thesis
    using window_follows_actor [OF _ _ _ w demo_env_accepts demo_env_ok demo_payloads(1) refl p u, of "[]" 5 65536 1 None]
    by simp
qed

text \<open>C40: The movement handler applies a movement before it asks who sent it. When the session cannot be
  queried, the moved actor is stored and published but the movement is not recorded. When the session is
  bound to another actor, the movement is stored, published and recorded, the gate counter goes up by
  one, and no session's window changes.\<close>

theorem input_applied_before_gate:
  assumes "decode_actor_input payload = Inr (i, inp)" "map_of (sh_actors w) i = Some a"
    "step_actor env a inp 50 = Inr c" "publish_answer env c w = None"
  shows "(env_info env \<noteq> None \<longrightarrow>
      on_actor_input env payload s w = (Inr (), publish_effect c (store_actor i c w)) \<and>
      sh_recorder (snd (on_actor_input env payload s w)) = sh_recorder w) \<and>
    (env_info env = None \<and> gs_actor_id (sw_sessions w s) \<noteq> i \<longrightarrow>
      (let w' = snd (on_actor_input env payload s w) in
       map_of (sh_actors w') i = Some c \<and> sw_sessions w' = sw_sessions w \<and>
       sh_gate_drops w' = sh_gate_drops w + 1 \<and>
       sh_recorder w' = map_option (\<lambda>rc. recorder_record rc (move_event i inp)) (sh_recorder w)))"
proof -
  have m: "apply_movement_locked env i inp 50 w = (Inr (Some c), publish_effect c (store_actor i c w))"
    by (simp add: apply_movement_locked_run assms(2-4))
  have v: "sw_sessions (publish_effect c (store_actor i c w)) = sw_sessions w"
    "sh_recorder (publish_effect c (store_actor i c w)) = sh_recorder w"
    "map_of (sh_actors (publish_effect c (store_actor i c w))) i = Some c"
    "sh_gate_drops (publish_effect c (store_actor i c w)) = sh_gate_drops w"
    by (simp_all add: world_effects update_conv')
  show ?thesis
    by (simp add: on_actor_input_run [OF assms(1)] assms(2) m v recorded_def Let_def)
qed

theorem input_applied_before_gate_witness:
  "on_actor_input (demo_env\<lparr>env_info := Some (KithExc KithStateError KITH_ESTATE)\<rparr>) demo_step 7 demo_world =
     (Inr (), publish_effect ((fresh_actor 1)\<lparr>ac_pos_x := 131072, ac_input_tick := 3\<rparr>)
        (store_actor 1 ((fresh_actor 1)\<lparr>ac_pos_x := 131072, ac_input_tick := 3\<rparr>) demo_world))"
proof -
  let ?env = "demo_env\<lparr>env_info := Some (KithExc KithStateError KITH_ESTATE)\<rparr>"
  let ?c = "(fresh_actor 1)\<lparr>ac_pos_x := 131072, ac_input_tick := 3\<rparr>"
  have a: "map_of (sh_actors demo_world) 1 = Some (fresh_actor 1)"
    by (simp add: demo_world_def demo_run_simps demo_env_def)
  have b: "step_actor ?env (fresh_actor 1) (demo_input 2) 50 = Inr ?c"
    by (simp add: step_actor_def sp_kith_def demo_env_def demo_input_def fresh_actor_def)
  have "sh_cell_size demo_world = 65536" by (simp add: demo_world_def demo_run_simps demo_env_def)
  then have "publish_answer ?env ?c demo_world = None" by (simp add: publish_answer_def demo_env_def)
  from input_applied_before_gate [OF demo_payloads(2) a b this, of 7] show ?thesis by simp
qed


definition demo_recorder :: replay_recorder where
  "demo_recorder =
     \<lparr>rc_writer = \<lparr>rw_stream = [], rw_closed = False, rw_meta_written = False, rw_last_tick = None,
                  rw_last_stream_key = None\<rparr>,
      rc_pending = [], rc_closed = False, rc_flushed = []\<rparr>"


end
