(* ===== verification/ClientQueue.thy ===== *)
theory ClientQueue
  imports KithErrors
begin

text \<open>
  The two rings of the client engine (\<open>src/client/queue.c\<close>): the outbound ring, which owns a copy of
  every encoded frame until it is popped, and the event ring, which overwrites its oldest record
  when it is full.

  Positions and counts are 32-bit words, as in the source. The ring descriptor is embedded in the
  handle and its slot array is allocated with it, so the null tests on them have no counterpart;
  the outcome of \<open>kith_alloc\<close> is the argument \<open>alloc_ok\<close>. The bytes \<open>memcpy\<close> leaves at the front of
  the caller's buffer are the value returned.

  \<open>ring_list\<close> reads a window of a circular array; its three laws (push, pop, overwrite outside of
  the window) carry the lemmas of both rings. The locale \<open>frame_source\<close> states what a consumer of
  the outbound ring relies on.
\<close>

subsection \<open>Circular windows\<close>

definition ring_list :: "'a list \<Rightarrow> nat \<Rightarrow> nat \<Rightarrow> 'a list" where
  "ring_list xs h n = map (\<lambda>i. xs ! ((h + i) mod length xs)) [0..<n]"

lemma length_ring_list [simp]: "length (ring_list xs h n) = n"
  by (simp add: ring_list_def)

lemma ring_list_0 [simp]: "ring_list xs h 0 = []"
  by (simp add: ring_list_def)

lemma ring_list_Suc: "ring_list xs h (Suc n) = ring_list xs h n @ [xs ! ((h + n) mod length xs)]"
  by (simp add: ring_list_def)

lemma ring_list_Cons:
  assumes "h < length xs"
  shows "ring_list xs h (Suc n) = xs ! h # ring_list xs (Suc h mod length xs) n"
proof -
  have "[0..<Suc n] = 0 # map Suc [0..<n]"
    by (simp add: map_Suc_upt upt_conv_Cons del: upt_Suc)
  moreover have "(Suc h mod length xs + i) mod length xs = Suc (h + i) mod length xs" for i
    using mod_add_left_eq [of "Suc h" "length xs" i] by simp
  ultimately show ?thesis
    using assms by (simp add: ring_list_def comp_def)
qed

lemma ring_index_inj:
  assumes "i < L" and "j < L" and "(h + i) mod L = (h + j) mod L"
  shows "i = (j :: nat)"
proof -
  have "int i mod int L = int j mod int L"
    using assms(3) by (metis add_diff_cancel_left' mod_diff_left_eq of_nat_add zmod_int)
  then show ?thesis
    using assms(1,2) by simp
qed

lemma ring_list_update_outside:
  assumes "n \<le> k" and "k < length xs"
  shows "ring_list (xs[(h + k) mod length xs := v]) h n = ring_list xs h n"
proof -
  have "(xs[(h + k) mod length xs := v]) ! ((h + i) mod length xs) = xs ! ((h + i) mod length xs)"
    if "i < n" for i
    using that assms ring_index_inj [of i "length xs" k h] by (metis nat_less_le nth_list_update_neq less_le_trans)
  then show ?thesis
    by (simp add: ring_list_def)
qed

lemma ring_list_push:
  assumes "n < length xs"
  shows "ring_list (xs[(h + n) mod length xs := v]) h (Suc n) = ring_list xs h n @ [v]"
proof -
  have "(h + n) mod length xs < length xs"
    using assms by (intro mod_less_divisor) linarith
  then show ?thesis
    using assms by (simp add: ring_list_Suc ring_list_update_outside)
qed

lemma ring_list_update_popped:
  assumes "h < length xs" and "n < length xs"
  shows "ring_list (xs[h := v]) (Suc h mod length xs) n = ring_list xs (Suc h mod length xs) n"
proof -
  let ?L = "length xs"
  have "(Suc h mod ?L + (?L - 1)) mod ?L = h"
  proof (cases "Suc h = ?L")
    case False
    then have "Suc h mod ?L + (?L - 1) = h + ?L"
      using assms(1) by simp
    then show ?thesis using assms(1) by simp
  qed (use assms(1) in auto)
  then show ?thesis
    using ring_list_update_outside [of n "?L - 1" xs "Suc h mod ?L" v] assms by simp
qed

lemma unat_ring_next:
  assumes "h < (c :: 32 word)"
  shows "unat ((h + 1) mod c) = Suc (unat h) mod unat c"
proof -
  have "unat h < unat c" "unat c < 2 ^ 32"
    using assms unsigned_less [of c] by (simp_all add: word_less_nat_alt)
  then have "unat (h + 1) = Suc (unat h)"
    by (simp add: unat_word_ariths)
  then show ?thesis
    by (simp add: unat_mod_distrib)
qed

subsection \<open>The outbound frame ring\<close>

record outbound_slot =
  os_data :: "bytes option"
  os_len :: "32 word"

record client_outq =
  oq_slots :: "outbound_slot list"
  oq_cap :: "32 word"
  oq_head :: "32 word"
  oq_tail :: "32 word"
  oq_count :: "32 word"

definition empty_slot :: outbound_slot where
  "empty_slot = \<lparr>os_data = None, os_len = 0\<rparr>"

definition outq_drop_head :: "client_outq \<Rightarrow> client_outq" where
  "outq_drop_head q =
     q\<lparr>oq_slots := (oq_slots q)[unat (oq_head q) := empty_slot],
       oq_head := (oq_head q + 1) mod oq_cap q,
       oq_count := oq_count q - 1\<rparr>"

function outq_clear_loop :: "client_outq \<Rightarrow> client_outq" where
  "outq_clear_loop q = (if 0 < oq_count q then outq_clear_loop (outq_drop_head q) else q)"
  by pat_completeness auto

termination
  by (relation "measure (\<lambda>q. unat (oq_count q))")
    (auto simp: outq_drop_head_def word_gt_0 intro!: measure_unat)

declare outq_clear_loop.simps [simp del]

definition client_outq_clear :: "client_outq \<Rightarrow> client_outq" where
  "client_outq_clear q =
     (if oq_cap q = 0 then q
      else let q' = outq_clear_loop q in q'\<lparr>oq_tail := oq_head q'\<rparr>)"

definition client_outq_push ::
    "bool \<Rightarrow> client_outq \<Rightarrow> bytes option \<Rightarrow> 32 word \<Rightarrow> (kith_error + unit) \<times> client_outq" where
  "client_outq_push alloc_ok q data len =
     (if oq_cap q = 0 then (Inl KITH_EINVAL, q)
      else if 0 < len \<and> data = None then (Inl KITH_EINVAL, q)
      else if oq_cap q \<le> oq_count q then (Inl KITH_EBUSY, q)
      else if 0 < len \<and> \<not> alloc_ok then (Inl KITH_ENOMEM, q)
      else let copy = (if 0 < len then map_option (take (unat len)) data else None)
           in (Inr (),
               q\<lparr>oq_slots := (oq_slots q)[unat (oq_tail q) := \<lparr>os_data = copy, os_len = len\<rparr>],
                 oq_tail := (oq_tail q + 1) mod oq_cap q,
                 oq_count := oq_count q + 1\<rparr>))"

definition slot_bytes :: "outbound_slot \<Rightarrow> bytes" where
  "slot_bytes slot = (case os_data slot of None \<Rightarrow> [] | Some d \<Rightarrow> take (unat (os_len slot)) d)"

definition client_outq_pop ::
    "client_outq \<Rightarrow> 32 word \<Rightarrow> (kith_error + bytes) \<times> client_outq" where
  "client_outq_pop q out_cap =
     (if oq_cap q = 0 then (Inl KITH_EINVAL, q)
      else if oq_count q = 0 then (Inl KITH_EAGAIN, q)
      else let slot = oq_slots q ! unat (oq_head q)
           in if out_cap < os_len slot then (Inl KITH_EOVERFLOW, q)
              else (Inr (slot_bytes slot), outq_drop_head q))"

definition outq_ok :: "client_outq \<Rightarrow> bool" where
  "outq_ok q \<longleftrightarrow>
     0 < oq_cap q \<and> length (oq_slots q) = unat (oq_cap q) \<and>
     oq_head q < oq_cap q \<and> oq_count q \<le> oq_cap q \<and>
     unat (oq_tail q) = (unat (oq_head q) + unat (oq_count q)) mod unat (oq_cap q)"

definition outq_slots :: "client_outq \<Rightarrow> outbound_slot list" where
  "outq_slots q = ring_list (oq_slots q) (unat (oq_head q)) (unat (oq_count q))"

definition outq_frames :: "client_outq \<Rightarrow> bytes list" where
  "outq_frames q = map slot_bytes (outq_slots q)"

text \<open>A live slot owns exactly \<open>len\<close> bytes.\<close>

definition slot_ok :: "outbound_slot \<Rightarrow> bool" where
  "slot_ok slot \<longleftrightarrow> length (slot_bytes slot) = unat (os_len slot)"

definition outq_inv :: "client_outq \<Rightarrow> bool" where
  "outq_inv q \<longleftrightarrow> outq_ok q \<and> list_all slot_ok (outq_slots q)"

lemma outq_lengths:
  assumes "outq_ok q"
  shows "unat (oq_head q) < length (oq_slots q)" and "unat (oq_count q) \<le> length (oq_slots q)"
    and "0 < length (oq_slots q)"
  using assms by (auto simp: outq_ok_def word_less_nat_alt word_le_nat_alt)

lemma outq_drop_head_slots:
  assumes "outq_ok q" and "oq_count q \<noteq> 0"
  shows "outq_ok (outq_drop_head q)"
    and "outq_slots q = oq_slots q ! unat (oq_head q) # outq_slots (outq_drop_head q)"
proof -
  let ?L = "length (oq_slots q)" and ?h = "unat (oq_head q)"
  obtain n where n: "unat (oq_count q) = Suc n"
    using assms(2) by (metis not0_implies_Suc unsigned_eq_0_iff)
  have c: "unat (oq_count q - 1) = n"
    using n assms(2) by (metis diff_Suc_1 unat_minus_one)
  have h: "unat ((oq_head q + 1) mod oq_cap q) = Suc ?h mod ?L"
    using assms(1) by (simp add: unat_ring_next outq_ok_def)
  note len = outq_lengths [OF assms(1)]
  have "Suc ?h mod ?L < ?L"
    using len(3) by (intro mod_less_divisor)
  moreover have "(Suc ?h mod ?L + n) mod ?L = (?h + Suc n) mod ?L"
    by (simp add: mod_add_left_eq)
  ultimately show "outq_ok (outq_drop_head q)"
    using assms(1) h c n len
    by (simp add: outq_ok_def outq_drop_head_def word_less_nat_alt word_le_nat_alt)
  show "outq_slots q = oq_slots q ! ?h # outq_slots (outq_drop_head q)"
    using len n by (simp add: outq_slots_def outq_drop_head_def h c ring_list_Cons
        ring_list_update_popped)
qed

lemma outq_clear_loop_ok:
  assumes "outq_ok q"
  shows "outq_ok (outq_clear_loop q) \<and> oq_count (outq_clear_loop q) = 0 \<and>
         oq_cap (outq_clear_loop q) = oq_cap q"
  using assms
proof (induction q rule: outq_clear_loop.induct)
  case (1 q)
  then show ?case
    using outq_drop_head_slots(1) [of q]
    by (subst (1 2 3) outq_clear_loop.simps)
      (auto simp: word_gt_0 outq_drop_head_def)
qed

lemma client_outq_clear_frames:
  assumes "outq_ok q"
  shows "outq_inv (client_outq_clear q)" and "outq_frames (client_outq_clear q) = []"
    and "oq_cap (client_outq_clear q) = oq_cap q"
  using outq_clear_loop_ok [OF assms] assms
  by (auto simp: client_outq_clear_def Let_def outq_inv_def outq_ok_def outq_slots_def
      outq_frames_def word_less_nat_alt)

text \<open>A push is refused exactly when the ring is full or memory is short, and then changes nothing.\<close>

lemma client_outq_push_refused:
  assumes "outq_ok q" and "length (outq_frames q) = unat (oq_cap q)"
  shows "client_outq_push ok q (Some data) len = (Inl KITH_EBUSY, q)"
  using assms by (auto simp: client_outq_push_def outq_frames_def outq_slots_def outq_ok_def
      word_le_nat_alt)

lemma client_outq_push_frames:
  assumes inv: "outq_inv q" and room: "length (outq_frames q) < unat (oq_cap q)"
    and len: "length data = unat len"
  obtains q' where "client_outq_push True q (Some data) len = (Inr (), q')"
    and "outq_inv q'" and "outq_frames q' = outq_frames q @ [data]" and "oq_cap q' = oq_cap q"
proof -
  let ?slot = "\<lparr>os_data = (if 0 < len then Some data else None), os_len = len\<rparr>"
  let ?q' = "q\<lparr>oq_slots := (oq_slots q)[unat (oq_tail q) := ?slot],
               oq_tail := (oq_tail q + 1) mod oq_cap q, oq_count := oq_count q + 1\<rparr>"
  have ok: "outq_ok q" using inv by (simp add: outq_inv_def)
  let ?L = "length (oq_slots q)" and ?h = "unat (oq_head q)" and ?n = "unat (oq_count q)"
  have n: "?n < ?L"
    using room ok by (simp add: outq_frames_def outq_slots_def outq_ok_def)
  have "?L < 2 ^ 32"
    using ok unsigned_less [of "oq_cap q"] by (simp add: outq_ok_def)
  then have c: "unat (oq_count q + 1) = Suc ?n"
    using n by (simp add: unat_word_ariths)
  have t: "unat (oq_tail q) = (?h + ?n) mod ?L"
    using ok by (simp add: outq_ok_def)
  then have "oq_tail q < oq_cap q"
    using ok n by (auto simp: outq_ok_def word_less_nat_alt)
  then have t': "unat ((oq_tail q + 1) mod oq_cap q) = (?h + Suc ?n) mod ?L"
    using t ok by (simp add: unat_ring_next outq_ok_def mod_Suc_eq)
  have "outq_ok ?q'"
    using ok n c t' by (simp add: outq_ok_def word_le_nat_alt)
  moreover have slots: "outq_slots ?q' = outq_slots q @ [?slot]"
    using n by (simp add: outq_slots_def c t ring_list_push)
  moreover have bytes: "slot_bytes ?slot = data"
    using len by (auto simp: slot_bytes_def word_gt_0)
  ultimately have "outq_inv ?q'" and "outq_frames ?q' = outq_frames q @ [data]"
    using inv len by (simp_all add: outq_inv_def outq_frames_def slot_ok_def)
  moreover have "client_outq_push True q (Some data) len = (Inr (), ?q')"
    using ok n len by (auto simp: client_outq_push_def outq_ok_def word_le_nat_alt)
  ultimately show thesis by (intro that [of ?q']) simp_all
qed

lemma client_outq_pop_empty:
  assumes "outq_inv q" and "outq_frames q = []"
  shows "client_outq_pop q cap = (Inl KITH_EAGAIN, q)"
proof -
  have "oq_count q = 0"
    using assms(2) by (metis length_0_conv length_map length_ring_list outq_frames_def
        outq_slots_def unsigned_eq_0_iff)
  then show ?thesis
    using assms(1) by (auto simp: client_outq_pop_def outq_inv_def outq_ok_def)
qed

lemma client_outq_pop_head:
  assumes inv: "outq_inv q" and frames: "outq_frames q = f # fs"
  shows "unat cap < length f \<Longrightarrow> client_outq_pop q cap = (Inl KITH_EOVERFLOW, q)"
    and "length f \<le> unat cap \<Longrightarrow>
           client_outq_pop q cap = (Inr f, outq_drop_head q) \<and> outq_inv (outq_drop_head q) \<and>
           outq_frames (outq_drop_head q) = fs \<and> oq_cap (outq_drop_head q) = oq_cap q"
proof -
  let ?slot = "oq_slots q ! unat (oq_head q)"
  have ok: "outq_ok q" using inv by (simp add: outq_inv_def)
  have count: "oq_count q \<noteq> 0"
    using frames by (auto simp: outq_frames_def outq_slots_def)
  note drop = outq_drop_head_slots [OF ok count]
  have f: "slot_bytes ?slot = f" "map slot_bytes (outq_slots (outq_drop_head q)) = fs"
    using frames drop(2) by (simp_all add: outq_frames_def)
  have len: "unat (os_len ?slot) = length f"
    using inv drop(2) f(1) by (simp add: outq_inv_def slot_ok_def)
  show "unat cap < length f \<Longrightarrow> client_outq_pop q cap = (Inl KITH_EOVERFLOW, q)"
    using ok count len by (auto simp: client_outq_pop_def outq_ok_def word_less_nat_alt)
  show "length f \<le> unat cap \<Longrightarrow>
           client_outq_pop q cap = (Inr f, outq_drop_head q) \<and> outq_inv (outq_drop_head q) \<and>
           outq_frames (outq_drop_head q) = fs \<and> oq_cap (outq_drop_head q) = oq_cap q"
    using inv ok count len f drop
    by (auto simp: client_outq_pop_def outq_ok_def outq_inv_def word_less_nat_alt outq_frames_def
        outq_drop_head_def)
qed

subsection \<open>What a consumer of the outbound ring relies on\<close>

text \<open>
  A source of frames hands them out in order. A buffer too small for the next frame leaves the
  source as it was, so that the caller may retry with a larger one.
\<close>

locale frame_source =
  fixes inv :: "'q \<Rightarrow> bool"
    and frames :: "'q \<Rightarrow> bytes list"
    and pop :: "'q \<Rightarrow> 32 word \<Rightarrow> (kith_error + bytes) \<times> 'q"
  assumes pop_empty: "inv q \<Longrightarrow> frames q = [] \<Longrightarrow> pop q cap = (Inl KITH_EAGAIN, q)"
    and pop_short: "inv q \<Longrightarrow> frames q = f # fs \<Longrightarrow> unat cap < length f \<Longrightarrow>
          pop q cap = (Inl KITH_EOVERFLOW, q)"
    and pop_fits: "inv q \<Longrightarrow> frames q = f # fs \<Longrightarrow> length f \<le> unat cap \<Longrightarrow>
          \<exists>q'. pop q cap = (Inr f, q') \<and> inv q' \<and> frames q' = fs"

interpretation ring_source: frame_source outq_inv outq_frames client_outq_pop
  using client_outq_pop_empty client_outq_pop_head by unfold_locales auto

subsection \<open>The event ring\<close>

definition KITH_CLIENT_EVENT_PAYLOAD_MAX :: nat where "KITH_CLIENT_EVENT_PAYLOAD_MAX = 1024"

record client_event =
  ce_ts_mono_ns :: "64 word"
  ce_type_id :: "16 word"
  ce_payload_len :: "32 word"
  ce_payload :: bytes

record client_eventq =
  eq_records :: "client_event list"
  eq_cap :: "32 word"
  eq_head :: "32 word"
  eq_tail :: "32 word"
  eq_count :: "32 word"

definition client_eventq_clear :: "client_eventq \<Rightarrow> client_eventq" where
  "client_eventq_clear q = q\<lparr>eq_head := 0, eq_tail := 0, eq_count := 0\<rparr>"

text \<open>The stored copy: the payload's bytes, the rest of the fixed array zeroed.\<close>

definition event_record :: "client_event \<Rightarrow> client_event" where
  "event_record e =
     e\<lparr>ce_payload := take (unat (ce_payload_len e)) (ce_payload e) @
         replicate (KITH_CLIENT_EVENT_PAYLOAD_MAX - unat (ce_payload_len e)) 0\<rparr>"

definition client_eventq_push ::
    "client_eventq \<Rightarrow> client_event option \<Rightarrow> (kith_error + unit) \<times> client_eventq" where
  "client_eventq_push q event =
     (if eq_cap q = 0 then (Inl KITH_EINVAL, q)
      else case event of
        None \<Rightarrow> (Inl KITH_EINVAL, q)
      | Some e \<Rightarrow>
          if KITH_CLIENT_EVENT_PAYLOAD_MAX < unat (ce_payload_len e) then (Inl KITH_EOVERFLOW, q)
          else
            let q1 = (if eq_cap q \<le> eq_count q
                      then q\<lparr>eq_head := (eq_head q + 1) mod eq_cap q, eq_count := eq_count q - 1\<rparr>
                      else q)
            in (Inr (),
                q1\<lparr>eq_records := (eq_records q1)[unat (eq_tail q1) := event_record e],
                   eq_tail := (eq_tail q1 + 1) mod eq_cap q1,
                   eq_count := eq_count q1 + 1\<rparr>))"

fun eventq_drain_loop :: "nat \<Rightarrow> client_eventq \<Rightarrow> client_event list \<times> client_eventq" where
  "eventq_drain_loop 0 q = ([], q)"
| "eventq_drain_loop (Suc room) q =
     (if 0 < eq_count q
      then let rec = eq_records q ! unat (eq_head q);
               (out, q') = eventq_drain_loop room
                 (q\<lparr>eq_head := (eq_head q + 1) mod eq_cap q, eq_count := eq_count q - 1\<rparr>)
           in (rec # out, q')
      else ([], q))"

definition client_eventq_drain ::
    "client_eventq \<Rightarrow> nat \<Rightarrow> (kith_error + client_event list) \<times> client_eventq" where
  "client_eventq_drain q out_cap =
     (if eq_cap q = 0 \<or> out_cap = 0 then (Inl KITH_EINVAL, q)
      else let (out, q') = eventq_drain_loop out_cap q in (Inr out, q'))"

definition eventq_ok :: "client_eventq \<Rightarrow> bool" where
  "eventq_ok q \<longleftrightarrow>
     0 < eq_cap q \<and> length (eq_records q) = unat (eq_cap q) \<and>
     eq_head q < eq_cap q \<and> eq_count q \<le> eq_cap q \<and>
     unat (eq_tail q) = (unat (eq_head q) + unat (eq_count q)) mod unat (eq_cap q)"

definition eventq_events :: "client_eventq \<Rightarrow> client_event list" where
  "eventq_events q = ring_list (eq_records q) (unat (eq_head q)) (unat (eq_count q))"

definition last_n :: "nat \<Rightarrow> 'a list \<Rightarrow> 'a list" where
  "last_n n xs = drop (length xs - n) xs"

lemma last_n_snoc: "0 < n \<Longrightarrow> last_n n (last_n n xs @ [x]) = last_n n (xs @ [x])"
  by (cases "n \<le> length xs") (auto simp: last_n_def Suc_diff_le)

lemma eventq_advance:
  assumes ok: "eventq_ok q" and n: "eq_count q \<noteq> 0"
    and q': "q' = q\<lparr>eq_head := (eq_head q + 1) mod eq_cap q, eq_count := eq_count q - 1\<rparr>"
  shows "eventq_ok q'" and "eventq_events q = eq_records q ! unat (eq_head q) # eventq_events q'"
    and "eq_count q' < eq_cap q'"
proof -
  let ?L = "length (eq_records q)" and ?h = "unat (eq_head q)"
  obtain n where n: "unat (eq_count q) = Suc n"
    using assms(2) by (metis not0_implies_Suc unsigned_eq_0_iff)
  have c: "unat (eq_count q - 1) = n"
    using n assms(2) by (metis diff_Suc_1 unat_minus_one)
  have h: "unat ((eq_head q + 1) mod eq_cap q) = Suc ?h mod ?L"
    using ok by (simp add: unat_ring_next eventq_ok_def)
  have len: "?h < ?L" "Suc n \<le> ?L" "0 < ?L"
    using ok n by (auto simp: eventq_ok_def word_less_nat_alt word_le_nat_alt)
  have "Suc ?h mod ?L < ?L" "(Suc ?h mod ?L + n) mod ?L = (?h + Suc n) mod ?L"
    using len(3) by (simp_all add: mod_add_left_eq)
  then show "eventq_ok q'"
    using ok h c n len by (simp add: q' eventq_ok_def word_less_nat_alt word_le_nat_alt)
  show "eventq_events q = eq_records q ! ?h # eventq_events q'"
    using len n by (simp add: q' eventq_events_def h c ring_list_Cons)
  show "eq_count q' < eq_cap q'"
    using ok c n len by (simp add: q' eventq_ok_def word_less_nat_alt)
qed

lemma eventq_store:
  assumes ok: "eventq_ok q" and room: "eq_count q < eq_cap q"
    and q': "q' = q\<lparr>eq_records := (eq_records q)[unat (eq_tail q) := r],
                    eq_tail := (eq_tail q + 1) mod eq_cap q, eq_count := eq_count q + 1\<rparr>"
  shows "eventq_ok q'" and "eventq_events q' = eventq_events q @ [r]"
proof -
  let ?L = "length (eq_records q)" and ?h = "unat (eq_head q)" and ?n = "unat (eq_count q)"
  have n: "?n < ?L"
    using room ok by (simp add: eventq_ok_def word_less_nat_alt)
  have "?L < 2 ^ 32"
    using ok unsigned_less [of "eq_cap q"] by (simp add: eventq_ok_def)
  then have c: "unat (eq_count q + 1) = Suc ?n"
    using n by (simp add: unat_word_ariths)
  have t: "unat (eq_tail q) = (?h + ?n) mod ?L"
    using ok by (simp add: eventq_ok_def)
  then have "eq_tail q < eq_cap q"
    using ok n by (auto simp: eventq_ok_def word_less_nat_alt)
  then have "unat ((eq_tail q + 1) mod eq_cap q) = (?h + Suc ?n) mod ?L"
    using t ok by (simp add: unat_ring_next eventq_ok_def mod_Suc_eq)
  then show "eventq_ok q'"
    using ok n c by (simp add: q' eventq_ok_def word_le_nat_alt)
  show "eventq_events q' = eventq_events q @ [r]"
    using n by (simp add: q' eventq_events_def c t ring_list_push)
qed

lemma client_eventq_push_events:
  assumes ok: "eventq_ok q" and len: "unat (ce_payload_len e) \<le> KITH_CLIENT_EVENT_PAYLOAD_MAX"
  obtains q' where "client_eventq_push q (Some e) = (Inr (), q')" and "eventq_ok q'"
    and "eq_cap q' = eq_cap q"
    and "eventq_events q' = last_n (unat (eq_cap q)) (eventq_events q @ [event_record e])"
proof (cases "eq_cap q \<le> eq_count q")
  case True
  then have count: "eq_count q = eq_cap q" "eq_count q \<noteq> 0"
    using ok by (auto simp: eventq_ok_def)
  note adv = eventq_advance [OF ok count(2) refl]
  note st = eventq_store [OF adv(1) adv(3) refl, of "event_record e"]
  have "length (eventq_events q) = unat (eq_cap q)"
    by (simp add: eventq_events_def count)
  then have "last_n (unat (eq_cap q)) (eventq_events q @ [event_record e]) =
             tl (eventq_events q) @ [event_record e]"
    using adv(2) by (simp add: last_n_def)
  then show thesis
    using that [OF _ st(1)] st(2) adv(2) len True ok
    by (simp add: client_eventq_push_def Let_def eventq_ok_def word_gt_0)
next
  case False
  then have room: "eq_count q < eq_cap q" by simp
  note st = eventq_store [OF ok room refl, of "event_record e"]
  have "last_n (unat (eq_cap q)) (eventq_events q @ [event_record e]) =
        eventq_events q @ [event_record e]"
    using room by (simp add: last_n_def eventq_events_def word_less_nat_alt)
  then show thesis
    using that [OF _ st(1)] st(2) len False ok
    by (simp add: client_eventq_push_def Let_def eventq_ok_def word_gt_0)
qed

lemma eventq_drain_loop_events:
  assumes "eventq_ok q"
  shows "fst (eventq_drain_loop room q) = take room (eventq_events q)"
    and "eventq_ok (snd (eventq_drain_loop room q))"
    and "eventq_events (snd (eventq_drain_loop room q)) = drop room (eventq_events q)"
proof -
  have "fst (eventq_drain_loop room q) = take room (eventq_events q) \<and>
        eventq_ok (snd (eventq_drain_loop room q)) \<and>
        eventq_events (snd (eventq_drain_loop room q)) = drop room (eventq_events q)"
    using assms
  proof (induction room q rule: eventq_drain_loop.induct)
    case (2 room q)
    show ?case
    proof (cases "0 < eq_count q")
      case True
      note adv = eventq_advance [OF 2(2) _ refl]
      show ?thesis
        using 2(1) [OF True refl] True adv by (auto simp: word_gt_0 split: prod.split)
    next
      case False
      then show ?thesis using 2(2) by (simp add: eventq_events_def word_gt_0)
    qed
  qed simp
  then show "fst (eventq_drain_loop room q) = take room (eventq_events q)"
    and "eventq_ok (snd (eventq_drain_loop room q))"
    and "eventq_events (snd (eventq_drain_loop room q)) = drop room (eventq_events q)"
    by blast+
qed
end
