(* ===== verification/ClientEngine.thy ===== *)
theory ClientEngine
  imports ClientQueue WireProto
begin

unbundle bit_operations_syntax

text \<open>
  The client engine (\<open>src/client/client.c\<close>, \<open>src/client/bootstrap.c\<close>): the handle, the bootstrap
  step machine, the keepalive and reconnect schedule, the outbound path through the wire encoder and
  the event queue.

  The handle is the record \<open>kith_client\<close>; the borrowed codec handle is its field \<open>cl_proto\<close>. A
  step's callbacks are represented by what they answer: \<open>on_enter\<close> by its return code, message type
  and payload, \<open>on_reply\<close> by a function of the frame giving its return code and the next step. The
  frame handler is called last by \<open>kith_client_feed_frame\<close>, so the model returns the frame it is
  called with. \<open>call_env\<close> answers for the allocator (\<open>grow_ok\<close> for the encode buffer, \<open>dup_ok\<close> for
  the ring's own copy). Timestamps are 64-bit words and their sums wrap, as in the source.
\<close>

datatype bootstrap_state = BOOTSTRAP_IDLE | BOOTSTRAP_RUNNING | BOOTSTRAP_READY | BOOTSTRAP_FAILED

record bootstrap_step =
  st_await_type_id :: "16 word"
  st_on_enter :: "(int \<times> 16 word \<times> bytes) option"
  st_on_reply :: "(c_frame \<Rightarrow> int \<times> 32 word) option"

record client_bootstrap =
  bo_steps :: "bootstrap_step list"
  bo_current_step :: "32 word"
  bo_state :: bootstrap_state
  bo_configured :: bool

record kith_client =
  cl_proto :: kith_proto
  cl_ping_type_id :: "16 word"
  cl_pong_type_id :: "16 word"
  cl_ping_interval_ms :: "32 word"
  cl_reconnect_base_ms :: "32 word"
  cl_reconnect_max_ms :: "32 word"
  cl_reconnect_max_attempts :: "32 word"
  cl_outq :: client_outq
  cl_events :: client_eventq
  cl_bootstrap :: client_bootstrap
  cl_connected :: bool
  cl_awaiting_pong :: bool
  cl_reconnect_due :: bool
  cl_reconnect_attempts :: "32 word"
  cl_last_reconnect_delay_ms :: "32 word"
  cl_next_ping_due_ms :: "64 word"
  cl_last_ping_sent_ms :: "64 word"
  cl_next_reconnect_due_ms :: "64 word"
  cl_rtt_last_ms :: "32 word"
  cl_rtt_min_ms :: "32 word"
  cl_rtt_max_ms :: "32 word"
  cl_rtt_sum_ms :: "64 word"
  cl_rtt_samples :: "32 word"
  cl_next_cmd_id :: "64 word"
  cl_commands_submitted :: "64 word"

subsection \<open>Parameters and creation\<close>

record client_params =
  cp_outbound_cap :: "32 word"
  cp_event_cap :: "32 word"
  cp_ping_type_id :: "16 word"
  cp_pong_type_id :: "16 word"
  cp_ping_interval_ms :: "32 word"
  cp_reconnect_base_ms :: "32 word"
  cp_reconnect_max_ms :: "32 word"
  cp_reconnect_max_attempts :: "32 word"

definition or_default :: "'a::zero \<Rightarrow> 'a \<Rightarrow> 'a" where
  "or_default v d = (if v = 0 then d else v)"

definition client_resolve_defaults :: "client_params \<Rightarrow> client_params" where
  "client_resolve_defaults p =
     p\<lparr>cp_outbound_cap := or_default (cp_outbound_cap p) 64,
       cp_event_cap := or_default (cp_event_cap p) 256,
       cp_ping_interval_ms := or_default (cp_ping_interval_ms p) 1000,
       cp_reconnect_base_ms := or_default (cp_reconnect_base_ms p) 250,
       cp_reconnect_max_ms := or_default (cp_reconnect_max_ms p) 4000\<rparr>"

text \<open>The agent passes parameters of the right size and ABI version; the third test remains.\<close>

definition client_params_validate :: "client_params \<Rightarrow> kith_error + unit" where
  "client_params_validate p =
     (if cp_reconnect_max_ms p < cp_reconnect_base_ms p then Inl KITH_EINVAL else Inr ())"

definition empty_event :: client_event where
  "empty_event = \<lparr>ce_ts_mono_ns = 0, ce_type_id = 0, ce_payload_len = 0,
                  ce_payload = replicate KITH_CLIENT_EVENT_PAYLOAD_MAX 0\<rparr>"

definition fresh_client :: "kith_proto \<Rightarrow> client_params \<Rightarrow> kith_client" where
  "fresh_client pr p =
     \<lparr>cl_proto = pr, cl_ping_type_id = cp_ping_type_id p,
      cl_pong_type_id = cp_pong_type_id p, cl_ping_interval_ms = cp_ping_interval_ms p,
      cl_reconnect_base_ms = cp_reconnect_base_ms p, cl_reconnect_max_ms = cp_reconnect_max_ms p,
      cl_reconnect_max_attempts = cp_reconnect_max_attempts p,
      cl_outq = \<lparr>oq_slots = replicate (unat (cp_outbound_cap p)) empty_slot,
                 oq_cap = cp_outbound_cap p, oq_head = 0, oq_tail = 0, oq_count = 0\<rparr>,
      cl_events = \<lparr>eq_records = replicate (unat (cp_event_cap p)) empty_event,
                   eq_cap = cp_event_cap p, eq_head = 0, eq_tail = 0, eq_count = 0\<rparr>,
      cl_bootstrap = \<lparr>bo_steps = [], bo_current_step = 0, bo_state = BOOTSTRAP_IDLE,
                      bo_configured = False\<rparr>,
      cl_connected = False, cl_awaiting_pong = False, cl_reconnect_due = False,
      cl_reconnect_attempts = 0, cl_last_reconnect_delay_ms = 0,
      cl_next_ping_due_ms = 0, cl_last_ping_sent_ms = 0, cl_next_reconnect_due_ms = 0,
      cl_rtt_last_ms = 0, cl_rtt_min_ms = 0, cl_rtt_max_ms = 0, cl_rtt_sum_ms = 0,
      cl_rtt_samples = 0, cl_next_cmd_id = 1, cl_commands_submitted = 0\<rparr>"

definition kith_client_create ::
    "call_env \<Rightarrow> client_params \<Rightarrow> kith_proto option \<Rightarrow> kith_error + kith_client" where
  "kith_client_create env params proto =
     (case proto of
        None \<Rightarrow> Inl KITH_EINVAL
      | Some pr \<Rightarrow>
          rbind (client_params_validate params) (\<lambda>_.
            if \<not> grow_ok env \<or> \<not> dup_ok env then Inl KITH_ENOMEM
            else Inr (fresh_client pr (client_resolve_defaults params))))"

subsection \<open>Encode and enqueue\<close>

definition client_encode_and_enqueue ::
    "call_env \<Rightarrow> kith_client \<Rightarrow> 16 word \<Rightarrow> 8 word \<Rightarrow> 64 word \<Rightarrow> bytes option \<Rightarrow> 32 word \<Rightarrow>
     (kith_error + unit) \<times> kith_client" where
  "client_encode_and_enqueue env c type_id flags correlation_id payload payload_len =
     (let frame_len = fst (kith_proto_encode (Some (cl_proto c)) type_id flags correlation_id
                             payload payload_len None)
      in if frame_len = 0 then (Inl KITH_EOVERFLOW, c)
         else if \<not> grow_ok env then (Inl KITH_ENOMEM, c)
         else let buf = snd (kith_proto_encode (Some (cl_proto c)) type_id flags correlation_id
                               payload payload_len (Some (replicate frame_len 0)));
                  (rc, q) = client_outq_push (dup_ok env) (cl_outq c) buf (of_nat frame_len)
              in (rc, c\<lparr>cl_outq := q\<rparr>))"

subsection \<open>Backoff and round trips\<close>

function backoff_loop :: "64 word \<Rightarrow> 64 word \<Rightarrow> 32 word \<Rightarrow> 64 word" where
  "backoff_loop max_delay delay shifts =
     (if 0 < shifts \<and> delay < max_delay
      then let doubled = push_bit 1 delay
           in if max_delay < doubled then max_delay
              else backoff_loop max_delay doubled (shifts - 1)
      else delay)"
  by pat_completeness auto

termination
  by (relation "measure (\<lambda>(_, _, s). unat s)") (auto simp: word_gt_0 intro!: measure_unat)

declare backoff_loop.simps [simp del]

definition client_compute_reconnect_delay :: "kith_client \<Rightarrow> 32 word \<Rightarrow> 32 word" where
  "client_compute_reconnect_delay c attempt_number =
     (let max_delay = ucast (cl_reconnect_max_ms c) :: 64 word;
          shifts = (if 0 < attempt_number then attempt_number - 1 else 0);
          delay = backoff_loop max_delay (ucast (cl_reconnect_base_ms c)) shifts
      in ucast (if max_delay < delay then max_delay else delay))"

definition client_record_rtt :: "kith_client \<Rightarrow> 32 word \<Rightarrow> kith_client" where
  "client_record_rtt c rtt =
     c\<lparr>cl_rtt_last_ms := rtt,
       cl_rtt_min_ms :=
         (if cl_rtt_samples c = 0 \<or> rtt < cl_rtt_min_ms c then rtt else cl_rtt_min_ms c),
       cl_rtt_max_ms :=
         (if cl_rtt_samples c = 0 \<or> cl_rtt_max_ms c < rtt then rtt else cl_rtt_max_ms c),
       cl_rtt_sum_ms := cl_rtt_sum_ms c + ucast rtt,
       cl_rtt_samples :=
         (if cl_rtt_samples c < 0xFFFFFFFF then cl_rtt_samples c + 1 else cl_rtt_samples c)\<rparr>"

subsection \<open>The bootstrap step machine\<close>

definition set_bootstrap_state :: "kith_client \<Rightarrow> bootstrap_state \<Rightarrow> kith_client" where
  "set_bootstrap_state c st = c\<lparr>cl_bootstrap := (cl_bootstrap c)\<lparr>bo_state := st\<rparr>\<rparr>"

definition bootstrap_step_count :: "kith_client \<Rightarrow> nat" where
  "bootstrap_step_count c = length (bo_steps (cl_bootstrap c))"

definition client_bootstrap_configure ::
    "call_env \<Rightarrow> client_bootstrap \<Rightarrow> bootstrap_step list \<Rightarrow>
     (kith_error + unit) \<times> client_bootstrap" where
  "client_bootstrap_configure env bs steps =
     (if bo_configured bs then (Inl KITH_ESTATE, bs)
      else if steps \<noteq> [] \<and> \<not> grow_ok env then (Inl KITH_ENOMEM, bs)
      else (Inr (), \<lparr>bo_steps = steps, bo_current_step = 0, bo_state = BOOTSTRAP_IDLE,
                     bo_configured = True\<rparr>))"

definition kith_client_configure_bootstrap ::
    "call_env \<Rightarrow> kith_client \<Rightarrow> bootstrap_step list \<Rightarrow> (kith_error + unit) \<times> kith_client" where
  "kith_client_configure_bootstrap env c steps =
     (let (rc, bs) = client_bootstrap_configure env (cl_bootstrap c) steps
      in (rc, c\<lparr>cl_bootstrap := bs\<rparr>))"

definition client_bootstrap_reset :: "kith_client \<Rightarrow> kith_client" where
  "client_bootstrap_reset c =
     c\<lparr>cl_bootstrap := (cl_bootstrap c)\<lparr>bo_current_step := 0, bo_state := BOOTSTRAP_IDLE\<rparr>\<rparr>"

definition bootstrap_enter_step ::
    "call_env \<Rightarrow> kith_client \<Rightarrow> 32 word \<Rightarrow> (kith_error + unit) \<times> kith_client" where
  "bootstrap_enter_step env c step_idx =
     (if bootstrap_step_count c \<le> unat step_idx
      then (Inr (), set_bootstrap_state c BOOTSTRAP_READY)
      else
        let c1 = c\<lparr>cl_bootstrap := (cl_bootstrap c)\<lparr>bo_current_step := step_idx\<rparr>\<rparr>
        in case st_on_enter (bo_steps (cl_bootstrap c) ! unat step_idx) of
             None \<Rightarrow> (Inr (), c1)
           | Some (rc, type_id, payload) \<Rightarrow>
               if rc \<noteq> 0 then (Inl KITH_ESTATE, set_bootstrap_state c1 BOOTSTRAP_FAILED)
               else (case client_encode_and_enqueue env c1 type_id 0 0
                            (if payload \<noteq> [] then Some payload else None)
                            (of_nat (length payload)) of
                       (Inl e, c2) \<Rightarrow> (Inl KITH_ESTATE, set_bootstrap_state c2 BOOTSTRAP_FAILED)
                     | (Inr _, c2) \<Rightarrow> (Inr (), c2)))"

definition client_bootstrap_start ::
    "call_env \<Rightarrow> kith_client \<Rightarrow> (kith_error + unit) \<times> kith_client" where
  "client_bootstrap_start env c =
     (let c1 = client_bootstrap_reset c
      in if bootstrap_step_count c1 = 0 then (Inr (), set_bootstrap_state c1 BOOTSTRAP_READY)
         else bootstrap_enter_step env (set_bootstrap_state c1 BOOTSTRAP_RUNNING) 0)"

definition client_bootstrap_matches :: "kith_client \<Rightarrow> c_frame \<Rightarrow> bool" where
  "client_bootstrap_matches c frame =
     (let bs = cl_bootstrap c in
      bo_state bs = BOOTSTRAP_RUNNING \<and> unat (bo_current_step bs) < length (bo_steps bs) \<and>
      (let await = st_await_type_id (bo_steps bs ! unat (bo_current_step bs))
       in await = 0 \<or> await = cf_type_id frame))"

definition client_bootstrap_feed ::
    "call_env \<Rightarrow> kith_client \<Rightarrow> c_frame \<Rightarrow> (kith_error + unit) \<times> kith_client" where
  "client_bootstrap_feed env c frame =
     (let bs = cl_bootstrap c in
      if bo_state bs \<noteq> BOOTSTRAP_RUNNING then (Inr (), c)
      else
        let (rc, next_step) =
              (case st_on_reply (bo_steps bs ! unat (bo_current_step bs)) of
                 None \<Rightarrow> (0, bo_current_step bs + 1)
               | Some reply \<Rightarrow> reply frame)
        in if rc \<noteq> 0 then (Inl KITH_ESTATE, set_bootstrap_state c BOOTSTRAP_FAILED)
           else if bootstrap_step_count c < unat next_step
           then (Inr (), set_bootstrap_state c BOOTSTRAP_FAILED)
           else if unat next_step = bootstrap_step_count c
           then (Inr (), set_bootstrap_state c BOOTSTRAP_READY)
           else bootstrap_enter_step env c next_step)"

subsection \<open>Connection lifecycle\<close>

definition runtime_reset :: "kith_client \<Rightarrow> kith_client" where
  "runtime_reset c =
     c\<lparr>cl_connected := False, cl_awaiting_pong := False, cl_reconnect_due := False,
       cl_reconnect_attempts := 0, cl_last_reconnect_delay_ms := 0,
       cl_next_reconnect_due_ms := 0, cl_next_ping_due_ms := 0, cl_last_ping_sent_ms := 0,
       cl_rtt_last_ms := 0, cl_rtt_min_ms := 0, cl_rtt_max_ms := 0, cl_rtt_sum_ms := 0,
       cl_rtt_samples := 0\<rparr>"

definition kith_client_on_connected ::
    "call_env \<Rightarrow> kith_client \<Rightarrow> 64 word \<Rightarrow> (kith_error + unit) \<times> kith_client" where
  "kith_client_on_connected env c now_ms =
     (let c1 = (runtime_reset c)\<lparr>cl_connected := True\<rparr>;
          c2 = (if cl_ping_type_id c1 \<noteq> 0 \<and> 0 < cl_ping_interval_ms c1
                then c1\<lparr>cl_next_ping_due_ms := now_ms + ucast (cl_ping_interval_ms c1)\<rparr> else c1);
          c3 = c2\<lparr>cl_outq := client_outq_clear (cl_outq c2)\<rparr>
      in client_bootstrap_start env c3)"

definition client_schedule_reconnect :: "kith_client \<Rightarrow> 64 word \<Rightarrow> kith_client" where
  "client_schedule_reconnect c now_ms =
     (if 0 < cl_reconnect_max_attempts c \<and> cl_reconnect_max_attempts c \<le> cl_reconnect_attempts c
      then c\<lparr>cl_next_reconnect_due_ms := 0\<rparr>
      else let attempts = cl_reconnect_attempts c + 1;
               delay = client_compute_reconnect_delay c attempts
           in c\<lparr>cl_reconnect_attempts := attempts, cl_last_reconnect_delay_ms := delay,
                cl_next_reconnect_due_ms := now_ms + ucast delay\<rparr>)"

definition kith_client_on_disconnected :: "kith_client \<Rightarrow> 64 word \<Rightarrow> kith_client" where
  "kith_client_on_disconnected c now_ms =
     (let c1 = client_bootstrap_reset
                 (c\<lparr>cl_connected := False, cl_awaiting_pong := False, cl_next_ping_due_ms := 0,
                    cl_reconnect_due := False\<rparr>)
      in client_schedule_reconnect (c1\<lparr>cl_outq := client_outq_clear (cl_outq c1)\<rparr>) now_ms)"

definition kith_client_on_connect_failed :: "kith_client \<Rightarrow> 64 word \<Rightarrow> kith_client" where
  "kith_client_on_connect_failed = client_schedule_reconnect"

subsection \<open>Inbound\<close>

definition handle_pong :: "kith_client \<Rightarrow> c_frame \<Rightarrow> 64 word \<Rightarrow> kith_client" where
  "handle_pong c frame now_ms =
     (case cf_payload frame of
        Some payload \<Rightarrow>
          if cl_awaiting_pong c \<and> 8 \<le> length payload
          then let sent_ms = read_be_u64 payload;
                   c1 = (if sent_ms = cl_last_ping_sent_ms c \<and> sent_ms \<le> now_ms
                         then let delta = now_ms - sent_ms
                              in client_record_rtt c
                                   (if 0xFFFFFFFF < delta then 0xFFFFFFFF else ucast delta)
                         else c)
               in c1\<lparr>cl_awaiting_pong := False\<rparr>
          else c
      | None \<Rightarrow> c)"

definition kith_client_feed_frame ::
    "call_env \<Rightarrow> kith_client \<Rightarrow> c_frame \<Rightarrow> 64 word \<Rightarrow>
     ((kith_error + unit) \<times> kith_client) \<times> c_frame option" where
  "kith_client_feed_frame env c frame now_ms =
     (if cl_pong_type_id c \<noteq> 0 \<and> cf_type_id frame = cl_pong_type_id c
      then ((Inr (), handle_pong c frame now_ms), None)
      else if client_bootstrap_matches c frame then (client_bootstrap_feed env c frame, None)
      else ((Inr (), c), Some frame))"

subsection \<open>Outbound, commands, events\<close>

definition kith_client_pop_outbound ::
    "kith_client \<Rightarrow> 32 word \<Rightarrow> (kith_error + bytes) \<times> kith_client" where
  "kith_client_pop_outbound c cap =
     (let (r, q) = client_outq_pop (cl_outq c) cap in (r, c\<lparr>cl_outq := q\<rparr>))"

record client_command =
  cm_type_id :: "16 word"
  cm_flags :: "8 word"
  cm_correlation_id :: "64 word"
  cm_payload :: "bytes option"
  cm_payload_len :: "32 word"

definition kith_client_submit_interactive ::
    "call_env \<Rightarrow> kith_client \<Rightarrow> client_command \<Rightarrow> (kith_error + 64 word) \<times> kith_client" where
  "kith_client_submit_interactive env c cmd =
     (case client_encode_and_enqueue env c (cm_type_id cmd) (cm_flags cmd)
             (cm_correlation_id cmd) (cm_payload cmd) (cm_payload_len cmd) of
        (Inl e, c1) \<Rightarrow> (Inl e, c1)
      | (Inr _, c1) \<Rightarrow>
          (Inr (cl_next_cmd_id c1),
           c1\<lparr>cl_commands_submitted := cl_commands_submitted c1 + 1,
              cl_next_cmd_id := cl_next_cmd_id c1 + 1\<rparr>))"

definition kith_client_publish_event ::
    "kith_client \<Rightarrow> client_event option \<Rightarrow> (kith_error + unit) \<times> kith_client" where
  "kith_client_publish_event c event =
     (let (rc, q) = client_eventq_push (cl_events c) event in (rc, c\<lparr>cl_events := q\<rparr>))"

definition kith_client_drain_events ::
    "kith_client \<Rightarrow> nat \<Rightarrow> (kith_error + client_event list) \<times> kith_client" where
  "kith_client_drain_events c out_cap =
     (let (r, q) = client_eventq_drain (cl_events c) out_cap in (r, c\<lparr>cl_events := q\<rparr>))"

subsection \<open>Tick and status\<close>

definition kith_client_tick ::
    "call_env \<Rightarrow> kith_client \<Rightarrow> 64 word \<Rightarrow> (kith_error + unit) \<times> kith_client" where
  "kith_client_tick env c now_ms =
     (let (rc, c1) =
        (if cl_connected c \<and> cl_ping_type_id c \<noteq> 0 \<and> 0 < cl_ping_interval_ms c \<and>
            \<not> cl_awaiting_pong c \<and> cl_next_ping_due_ms c \<le> now_ms
         then case client_encode_and_enqueue env c (cl_ping_type_id c) 0 0
                     (Some (write_be_u64 now_ms)) 8 of
                (Inl e, c') \<Rightarrow> (Inl KITH_ESTATE, c')
              | (Inr _, c') \<Rightarrow>
                  (Inr (), c'\<lparr>cl_last_ping_sent_ms := now_ms, cl_awaiting_pong := True,
                              cl_next_ping_due_ms := now_ms + ucast (cl_ping_interval_ms c')\<rparr>)
         else (Inr (), c))
      in case rc of
           Inl e \<Rightarrow> (Inl e, c1)
         | Inr _ \<Rightarrow>
             (Inr (),
              if \<not> cl_connected c1 \<and> 0 < cl_next_reconnect_due_ms c1 \<and>
                 cl_next_reconnect_due_ms c1 \<le> now_ms
              then c1\<lparr>cl_reconnect_due := True\<rparr> else c1))"

record bootstrap_status =
  bst_state :: bootstrap_state
  bst_current_step :: "32 word"
  bst_step_count :: nat

definition kith_client_bootstrap_status :: "kith_client \<Rightarrow> bootstrap_status" where
  "kith_client_bootstrap_status c =
     \<lparr>bst_state = bo_state (cl_bootstrap c), bst_current_step = bo_current_step (cl_bootstrap c),
      bst_step_count = bootstrap_step_count c\<rparr>"

record runtime_status =
  rst_connected :: bool
  rst_awaiting_pong :: bool
  rst_reconnect_due :: bool
  rst_reconnect_attempts :: "32 word"
  rst_rtt_last_ms :: "32 word"
  rst_rtt_min_ms :: "32 word"
  rst_rtt_max_ms :: "32 word"
  rst_rtt_sum_ms :: "64 word"
  rst_rtt_samples :: "32 word"
  rst_last_ping_sent_ms :: "64 word"
  rst_next_ping_due_ms :: "64 word"
  rst_next_reconnect_due_ms :: "64 word"

definition kith_client_runtime_status :: "kith_client \<Rightarrow> runtime_status" where
  "kith_client_runtime_status c =
     \<lparr>rst_connected = cl_connected c, rst_awaiting_pong = cl_awaiting_pong c,
      rst_reconnect_due = cl_reconnect_due c, rst_reconnect_attempts = cl_reconnect_attempts c,
      rst_rtt_last_ms = cl_rtt_last_ms c,
      rst_rtt_min_ms = (if 0 < cl_rtt_samples c then cl_rtt_min_ms c else 0),
      rst_rtt_max_ms = cl_rtt_max_ms c, rst_rtt_sum_ms = cl_rtt_sum_ms c,
      rst_rtt_samples = cl_rtt_samples c, rst_last_ping_sent_ms = cl_last_ping_sent_ms c,
      rst_next_ping_due_ms = cl_next_ping_due_ms c,
      rst_next_reconnect_due_ms = cl_next_reconnect_due_ms c\<rparr>"

end
