(* ===== verification/ClientLaws.thy ===== *)
theory ClientLaws
  imports ClientEngine
begin

text \<open>
  What the client engine keeps: the backoff schedule in closed form, the outbound path as a bounded
  FIFO of well-formed wire frames, the event queue as the newest records in order, and the
  invariants of the handle over every sequence of calls. The locale \<open>engine_invariant\<close> is the
  contract an invariant meets; it is interpreted once per invariant.
\<close>

unbundle bit_operations_syntax

subsection \<open>Backoff\<close>

lemma unat_push_bit_1:
  assumes "unat (d :: 64 word) < 2 ^ 32"
  shows "unat (push_bit 1 d) = 2 * unat d"
proof -
  have "push_bit 1 d = 2 * d"
    by (simp add: push_bit_eq_mult mult.commute)
  moreover have "unat (2 * d) = 2 * unat d"
    using assms by (subst unat_mult_lem [THEN iffD1]) simp_all
  ultimately show ?thesis by (simp only:)
qed

lemma backoff_loop_value:
  assumes "unat M < 2 ^ 32" and "d \<le> M"
  shows "unat (backoff_loop M d s) = min (unat d * 2 ^ unat s) (unat M)"
  using assms
proof (induction M d s rule: backoff_loop.induct)
  case (1 M d s)
  have d: "unat d \<le> unat M" "unat d < 2 ^ 32"
    using 1(2,3) by (simp_all add: word_le_nat_alt)
  note twice = unat_push_bit_1 [OF d(2)]
  show ?case
  proof (cases "0 < s \<and> d < M")
    case False
    then have "s = 0 \<or> d = M"
      using 1(3) by (auto simp: word_gt_0)
    moreover have "min (unat M * 2 ^ unat s) (unat M) = unat M"
      by (simp add: min_absorb2)
    ultimately show ?thesis
      using d False by (subst backoff_loop.simps) auto
  next
    case True
    then have "s \<noteq> 0" by (simp add: word_gt_0)
    then have s: "unat s = Suc (unat (s - 1))"
      by (simp add: unat_minus_one unat_gt_0)
    show ?thesis
    proof (cases "M < push_bit 1 d")
      case over: True
      have "unat M \<le> 2 * unat d * 1"
        using over twice unfolding word_less_nat_alt by linarith
      also have "\<dots> \<le> 2 * unat d * 2 ^ unat (s - 1)"
        by (intro mult_le_mono2) simp
      finally have "unat M \<le> unat d * 2 ^ unat s"
        by (simp add: s)
      then show ?thesis
        using True over by (subst backoff_loop.simps) simp
    next
      case False
      then show ?thesis
        using 1(1) [OF True refl False 1(2)] True
        by (subst backoff_loop.simps) (simp add: twice [simplified] s ac_simps)
    qed
  qed
qed

definition backoff_ms :: "nat \<Rightarrow> nat \<Rightarrow> nat \<Rightarrow> nat" where
  "backoff_ms base cap attempt = min (base * 2 ^ (attempt - 1)) cap"

lemma unat_ucast_32_64 [simp]: "unat (ucast (w :: 32 word) :: 64 word) = unat w"
  by (simp add: unsigned_ucast_eq take_bit_nat_eq_self_iff order.strict_trans [OF unat_less_32])

lemma reconnect_delay_value:
  "unat (client_compute_reconnect_delay c n) =
     backoff_ms (unat (cl_reconnect_base_ms c)) (unat (cl_reconnect_max_ms c)) (unat n)"
proof -
  let ?M = "ucast (cl_reconnect_max_ms c) :: 64 word"
    and ?b = "ucast (cl_reconnect_base_ms c) :: 64 word"
    and ?s = "if 0 < n then n - 1 else 0"
  have s: "unat ?s = unat n - 1"
    by (simp add: word_gt_0 unat_minus_one)
  have M: "unat ?M < 2 ^ 32" by simp
  have down: "unat (ucast w :: 32 word) = unat w" if "unat (w :: 64 word) \<le> unat ?M" for w
    using that le_less_trans [OF that M]
    by (simp add: unsigned_ucast_eq take_bit_nat_eq_self_iff)
  show ?thesis
  proof (cases "?b \<le> ?M")
    case True
    then have "unat (backoff_loop ?M ?b ?s) = min (unat ?b * 2 ^ unat ?s) (unat ?M)"
      by (intro backoff_loop_value M)
    then show ?thesis
      using s down [of "backoff_loop ?M ?b ?s"]
      by (auto simp: client_compute_reconnect_delay_def Let_def backoff_ms_def word_less_nat_alt)
  next
    case False
    then have stop: "backoff_loop ?M ?b ?s = ?b"
      by (subst backoff_loop.simps) auto
    have lt: "?M < ?b" using False by simp
    have "unat ?M \<le> unat ?b * 1"
      using lt by (simp add: word_less_nat_alt)
    also have "\<dots> \<le> unat ?b * 2 ^ (unat n - 1)"
      by (intro mult_le_mono2) simp
    finally show ?thesis
      using stop lt down [of ?M]
      by (simp add: client_compute_reconnect_delay_def Let_def backoff_ms_def)
  qed
qed

subsection \<open>The outbound path\<close>

text \<open>A payload pointer with its length: a null pointer goes with length zero only.\<close>

definition points_to :: "bytes option \<Rightarrow> 32 word \<Rightarrow> bytes \<Rightarrow> bool" where
  "points_to ptr len payload \<longleftrightarrow>
     len = of_nat (length payload) \<and> length payload < 2 ^ 32 \<and>
     (ptr = Some payload \<or> ptr = None \<and> payload = [])"

definition wire_frame :: "kith_proto \<Rightarrow> bytes \<Rightarrow> bool" where
  "wire_frame p b \<longleftrightarrow>
     (\<exists>t f c payload. frame_fits p f payload \<and> b = frame_bytes t f c payload)"

definition small_frames :: "kith_proto \<Rightarrow> bool" where
  "small_frames p \<longleftrightarrow> KITH_PROTO_HDR_SIZE + unat (kp_max_payload p) < 2 ^ 32"

lemma wire_frame_length:
  "wire_frame p b \<Longrightarrow> length b \<le> KITH_PROTO_HDR_SIZE + unat (kp_max_payload p)"
  by (auto simp: wire_frame_def frame_fits_def length_frame_bytes)

lemma wire_frame_cong: "kp_max_payload p = kp_max_payload q \<Longrightarrow> wire_frame p = wire_frame q"
  by (simp add: wire_frame_def frame_fits_def fun_eq_iff)

lemma encode_points_to:
  assumes "points_to ptr len payload"
  shows "kith_proto_encode (Some p) t f c ptr len buf =
         (if frame_fits p f payload
          then (length (frame_bytes t f c payload),
                map_option (\<lambda>out. take (length out) (frame_bytes t f c payload) @
                                   drop (length (frame_bytes t f c payload)) out) buf)
          else (0, buf))"
proof -
  have "kith_proto_encode (Some p) t f c ptr len buf =
        kith_proto_encode (Some p) t f c (if payload = [] then None else Some payload)
          (of_nat (length payload)) buf"
    using assms by (auto simp: points_to_def kith_proto_encode_def Let_def split: option.split)
  then show ?thesis
    using assms by (simp add: points_to_def kith_proto_encode_frame length_frame_bytes)
qed

lemma encode_and_enqueue_unfold:
  assumes "points_to ptr len payload"
  shows "client_encode_and_enqueue env c t f corr ptr len =
         (let b = frame_bytes t f corr payload;
              (rc, q) = client_outq_push (dup_ok env) (cl_outq c) (Some b) (of_nat (length b))
          in if \<not> frame_fits (cl_proto c) f payload then (Inl KITH_EOVERFLOW, c)
             else if \<not> grow_ok env then (Inl KITH_ENOMEM, c)
             else (rc, c\<lparr>cl_outq := q\<rparr>))"
  using assms
  by (simp add: client_encode_and_enqueue_def encode_points_to Let_def split: prod.split)

definition queue_inv :: "kith_client \<Rightarrow> bool" where
  "queue_inv c \<longleftrightarrow>
     outq_inv (cl_outq c) \<and> eventq_ok (cl_events c) \<and> small_frames (cl_proto c) \<and>
     list_all (wire_frame (cl_proto c)) (outq_frames (cl_outq c))"

definition client_frames :: "kith_client \<Rightarrow> bytes list" where
  "client_frames c = outq_frames (cl_outq c)"

definition has_room :: "kith_client \<Rightarrow> bool" where
  "has_room c \<longleftrightarrow> length (client_frames c) < unat (oq_cap (cl_outq c))"

lemma outq_frames_bounded: "outq_ok q \<Longrightarrow> length (outq_frames q) \<le> unat (oq_cap q)"
  by (simp add: outq_frames_def outq_slots_def outq_ok_def word_le_nat_alt)

lemma push_without_memory:
  "outq_ok q \<Longrightarrow> b \<noteq> [] \<Longrightarrow> length b < 2 ^ 32 \<Longrightarrow>
     \<exists>e. client_outq_push False q (Some b) (of_nat (length b)) = (Inl e, q)"
  by (auto simp: client_outq_push_def word_gt_0 word_unat_eq_iff unat_of_nat_32)

text \<open>
  Encoding and queueing either changes nothing or appends one wire frame; it succeeds exactly when
  the frame fits the codec, memory is available and the ring has room.
\<close>

lemma encode_and_enqueue_cases:
  assumes inv: "queue_inv c" and p: "points_to ptr len payload"
  obtains (refused) e where "client_encode_and_enqueue env c t f corr ptr len = (Inl e, c)"
      and "\<not> (frame_fits (cl_proto c) f payload \<and> grow_ok env \<and> dup_ok env \<and> has_room c)"
  | (queued) q where "client_encode_and_enqueue env c t f corr ptr len = (Inr (), c\<lparr>cl_outq := q\<rparr>)"
      and "outq_inv q" and "outq_frames q = client_frames c @ [frame_bytes t f corr payload]"
      and "frame_fits (cl_proto c) f payload" and "oq_cap q = oq_cap (cl_outq c)"
proof -
  let ?b = "frame_bytes t f corr payload"
  have outq: "outq_inv (cl_outq c)" "outq_ok (cl_outq c)"
    using inv by (simp_all add: queue_inv_def outq_inv_def)
  consider "\<not> frame_fits (cl_proto c) f payload \<or> \<not> grow_ok env"
    | "frame_fits (cl_proto c) f payload" "grow_ok env" by blast
  then show thesis
  proof cases
    case 1
    then show thesis
      by (intro refused [of "if frame_fits (cl_proto c) f payload then KITH_ENOMEM else KITH_EOVERFLOW"])
        (auto simp: encode_and_enqueue_unfold [OF p] Let_def split: prod.split)
  next
    case fits: 2
    then have "wire_frame (cl_proto c) ?b" by (auto simp: wire_frame_def)
    then have len: "length ?b < 2 ^ 32"
      using wire_frame_length inv by (fastforce simp: queue_inv_def small_frames_def)
    note unat_len = unat_of_nat_32 [OF len [simplified]]
    consider "length (client_frames c) = unat (oq_cap (cl_outq c))" | "\<not> dup_ok env"
      | "has_room c" "dup_ok env"
      using outq_frames_bounded [OF outq(2)] by (fastforce simp: has_room_def client_frames_def)
    then show thesis
    proof cases
      case 1
      then have "client_outq_push (dup_ok env) (cl_outq c) (Some ?b) (of_nat (length ?b)) =
                 (Inl KITH_EBUSY, cl_outq c)"
        using outq by (intro client_outq_push_refused) (simp_all add: client_frames_def)
      then show thesis
        using 1 fits by (intro refused [of KITH_EBUSY])
          (simp_all add: encode_and_enqueue_unfold [OF p] has_room_def)
    next
      case 2
      then obtain e where "client_outq_push (dup_ok env) (cl_outq c) (Some ?b) (of_nat (length ?b)) =
                 (Inl e, cl_outq c)"
        using push_without_memory [OF outq(2) frame_bytes_nonempty len] by auto
      then show thesis
        using 2 fits by (intro refused [of e]) (simp_all add: encode_and_enqueue_unfold [OF p])
    next
      case 3
      then obtain q where q: "client_outq_push True (cl_outq c) (Some ?b) (of_nat (length ?b)) = (Inr (), q)"
          "outq_inv q" "outq_frames q = outq_frames (cl_outq c) @ [?b]" "oq_cap q = oq_cap (cl_outq c)"
        using client_outq_push_frames [OF outq(1), of ?b "of_nat (length ?b)"] unat_len
        by (auto simp: has_room_def client_frames_def)
      then show thesis
        using 3 fits by (intro queued [of q])
          (simp_all add: encode_and_enqueue_unfold [OF p] client_frames_def)
    qed
  qed
qed

subsection \<open>Sequences of calls\<close>

datatype engine_op =
    OpRegister bytes "16 word"
  | OpConfigure "bootstrap_step list"
  | OpConnected "64 word"
  | OpDisconnected "64 word"
  | OpConnectFailed "64 word"
  | OpFeed c_frame "64 word"
  | OpPop "32 word"
  | OpSubmit client_command
  | OpPublish client_event
  | OpDrain nat
  | OpTick "64 word"

fun engine_step :: "call_env \<Rightarrow> kith_client \<Rightarrow> engine_op \<Rightarrow> kith_client" where
  "engine_step env c (OpRegister name t) =
     (case snd (kith_proto_register_type_id env (Some (cl_proto c)) (Some name) t) of
        Some p \<Rightarrow> c\<lparr>cl_proto := p\<rparr> | None \<Rightarrow> c)"
| "engine_step env c (OpConfigure steps) = snd (kith_client_configure_bootstrap env c steps)"
| "engine_step env c (OpConnected now) = snd (kith_client_on_connected env c now)"
| "engine_step env c (OpDisconnected now) = kith_client_on_disconnected c now"
| "engine_step env c (OpConnectFailed now) = kith_client_on_connect_failed c now"
| "engine_step env c (OpFeed frame now) = snd (fst (kith_client_feed_frame env c frame now))"
| "engine_step env c (OpPop room) = snd (kith_client_pop_outbound c room)"
| "engine_step env c (OpSubmit cmd) = snd (kith_client_submit_interactive env c cmd)"
| "engine_step env c (OpPublish e) = snd (kith_client_publish_event c (Some e))"
| "engine_step env c (OpDrain n) = snd (kith_client_drain_events c n)"
| "engine_step env c (OpTick now) = snd (kith_client_tick env c now)"

text \<open>
  The calls the C contract admits: a payload pointer agrees with its length, a step callback
  writes at most the buffer it is given.
\<close>

definition CLIENT_STEP_PAYLOAD_CAP :: nat where "CLIENT_STEP_PAYLOAD_CAP = 4096"

definition enter_ok :: "bootstrap_step \<Rightarrow> bool" where
  "enter_ok step \<longleftrightarrow>
     (case st_on_enter step of
        None \<Rightarrow> True | Some (rc, t, payload) \<Rightarrow> length payload \<le> CLIENT_STEP_PAYLOAD_CAP)"

definition steps_ok :: "bootstrap_step list \<Rightarrow> bool" where
  "steps_ok steps \<longleftrightarrow> list_all enter_ok steps \<and> length steps < 2 ^ 32"

definition engine_op_ok :: "engine_op \<Rightarrow> bool" where
  "engine_op_ok op \<longleftrightarrow>
     (case op of
        OpConfigure steps \<Rightarrow> steps_ok steps
      | OpSubmit cmd \<Rightarrow> \<exists>payload. points_to (cm_payload cmd) (cm_payload_len cmd) payload
      | _ \<Rightarrow> True)"

inductive engine_reach :: "kith_client \<Rightarrow> bool" where
  create: "kith_client_create env params (Some p) = Inr c \<Longrightarrow> small_frames p \<Longrightarrow> engine_reach c"
| step: "engine_reach c \<Longrightarrow> engine_op_ok op \<Longrightarrow> engine_reach (engine_step env c op)"

locale engine_invariant =
  fixes I :: "kith_client \<Rightarrow> bool"
  assumes initial: "kith_client_create env params (Some p) = Inr c \<Longrightarrow> small_frames p \<Longrightarrow> I c"
    and kept: "I c \<Longrightarrow> engine_op_ok op \<Longrightarrow> I (engine_step env c op)"
begin

lemma reachable: "engine_reach c \<Longrightarrow> I c"
  by (induction rule: engine_reach.induct) (auto intro: initial kept)

end

lemmas engine_defs =
  kith_client_configure_bootstrap_def client_bootstrap_configure_def
  kith_client_on_disconnected_def kith_client_on_connect_failed_def
  client_schedule_reconnect_def kith_client_pop_outbound_def kith_client_publish_event_def
  kith_client_drain_events_def client_bootstrap_reset_def set_bootstrap_state_def

lemma create_is_fresh:
  "kith_client_create env params (Some p) = Inr c \<Longrightarrow>
     c = fresh_client p (client_resolve_defaults params)"
  by (auto simp: kith_client_create_def client_params_validate_def split: if_splits)

lemma or_default_pos: "d \<noteq> 0 \<Longrightarrow> 0 < or_default v (d :: 32 word)"
  by (simp add: or_default_def word_gt_0)

lemma fresh_queue_inv:
  assumes "0 < cp_outbound_cap p" and "0 < cp_event_cap p"
  shows "outq_inv (cl_outq (fresh_client pr p))" and "client_frames (fresh_client pr p) = []"
    and "eventq_ok (cl_events (fresh_client pr p))"
    and "eventq_events (cl_events (fresh_client pr p)) = []"
  using assms by (simp_all add: fresh_client_def outq_inv_def outq_ok_def outq_slots_def
      client_frames_def outq_frames_def eventq_ok_def eventq_events_def)

text \<open>Encoding touches the outbound ring only.\<close>

lemma enqueue_shape:
  "\<exists>q. snd (client_encode_and_enqueue env c t f corr ptr len) = c\<lparr>cl_outq := q\<rparr>"
proof -
  have "c = c\<lparr>cl_outq := cl_outq c\<rparr>" by simp
  then show ?thesis
    unfolding client_encode_and_enqueue_def Let_def
    by (auto split: prod.split intro: exI [of _ "cl_outq c"])
qed

lemma register_keeps_max:
  "snd (kith_proto_register_type_id env (Some p) (Some name) t) = Some p' \<Longrightarrow>
     kp_max_payload p' = kp_max_payload p"
  by (auto simp: kith_proto_register_type_id_def grow_types_locked_def Let_def
      split: list.splits if_splits option.splits sum.splits)

subsection \<open>The queues hold wire frames\<close>

definition outbound_inv :: "kith_client \<Rightarrow> bool" where
  "outbound_inv c \<longleftrightarrow> queue_inv c \<and> steps_ok (bo_steps (cl_bootstrap c))"

lemma outbound_inv_state [simp]: "outbound_inv (set_bootstrap_state c st) = outbound_inv c"
  by (simp add: set_bootstrap_state_def outbound_inv_def queue_inv_def)

lemma outbound_inv_reset [simp]: "outbound_inv (client_bootstrap_reset c) = outbound_inv c"
  by (simp add: client_bootstrap_reset_def outbound_inv_def queue_inv_def)

lemma outbound_inv_enqueue:
  assumes "outbound_inv c" and "points_to ptr len payload"
  shows "outbound_inv (snd (client_encode_and_enqueue env c t f corr ptr len))"
proof -
  have q: "queue_inv c" using assms(1) by (simp add: outbound_inv_def)
  show ?thesis
    using q assms(2)
  proof (cases rule: encode_and_enqueue_cases [where env = env and t = t and f = f and corr = corr])
    case (queued q)
    then have "wire_frame (cl_proto c) (frame_bytes t f corr payload)"
      by (auto simp: wire_frame_def)
    with queued assms(1) show ?thesis
      by (simp add: outbound_inv_def queue_inv_def client_frames_def)
  qed (simp add: assms(1))
qed

lemma points_to_enter:
  assumes "steps_ok steps" and "i < length steps" and "st_on_enter (steps ! i) = Some (rc, t, payload)"
  shows "points_to (if payload \<noteq> [] then Some payload else None) (of_nat (length payload)) payload"
proof -
  have "enter_ok (steps ! i)"
    using assms(1,2) by (simp add: steps_ok_def list_all_length)
  then show ?thesis
    using assms(3) by (simp add: enter_ok_def points_to_def CLIENT_STEP_PAYLOAD_CAP_def)
qed

lemma outbound_inv_enter:
  assumes "outbound_inv c"
  shows "outbound_inv (snd (bootstrap_enter_step env c i))"
proof (cases "bootstrap_step_count c \<le> unat i")
  case True
  then show ?thesis
    using assms by (simp add: bootstrap_enter_step_def)
next
  case False
  let ?c1 = "c\<lparr>cl_bootstrap := (cl_bootstrap c)\<lparr>bo_current_step := i\<rparr>\<rparr>"
  have c1: "outbound_inv ?c1" using assms by (simp add: outbound_inv_def queue_inv_def)
  show ?thesis
  proof (cases "st_on_enter (bo_steps (cl_bootstrap c) ! unat i)")
    case None
    then show ?thesis using False c1 by (simp add: bootstrap_enter_step_def)
  next
    case (Some a)
    obtain rc t payload where a: "a = (rc, t, payload)" by (cases a)
    have "points_to (if payload \<noteq> [] then Some payload else None) (of_nat (length payload)) payload"
      using points_to_enter [of "bo_steps (cl_bootstrap c)" "unat i"] assms False Some a
      by (simp add: outbound_inv_def bootstrap_step_count_def)
    from outbound_inv_enqueue [OF c1 this, of env t 0 0] show ?thesis
      using False Some a c1
      by (auto simp: bootstrap_enter_step_def Let_def set_bootstrap_state_def outbound_inv_def
          queue_inv_def split: prod.split sum.split)
  qed
qed

lemma outbound_inv_start: "outbound_inv c \<Longrightarrow> outbound_inv (snd (client_bootstrap_start env c))"
  by (simp add: client_bootstrap_start_def Let_def outbound_inv_enter)

lemma outbound_inv_feed: "outbound_inv c \<Longrightarrow> outbound_inv (snd (client_bootstrap_feed env c frame))"
  by (simp add: client_bootstrap_feed_def Let_def outbound_inv_enter split: prod.split)

lemma outbound_inv_pop: "outbound_inv c \<Longrightarrow> outbound_inv (snd (kith_client_pop_outbound c room))"
proof (cases "outq_frames (cl_outq c)")
  case Nil
  then show "outbound_inv c \<Longrightarrow> ?thesis"
    using client_outq_pop_empty [of "cl_outq c" room]
    by (simp add: kith_client_pop_outbound_def outbound_inv_def queue_inv_def)
next
  case (Cons b bs)
  then show "outbound_inv c \<Longrightarrow> ?thesis"
    using client_outq_pop_head [of "cl_outq c" b bs, where cap = room]
    by (cases "unat room < length b")
      (simp_all add: kith_client_pop_outbound_def outbound_inv_def queue_inv_def)
qed

lemma eventq_push_ok:
  assumes "eventq_ok q"
  shows "eventq_ok (snd (client_eventq_push q (Some e)))"
proof (cases "unat (ce_payload_len e) \<le> KITH_CLIENT_EVENT_PAYLOAD_MAX")
  case True
  then show ?thesis
    using assms by (metis client_eventq_push_events snd_conv)
qed (use assms in \<open>auto simp: client_eventq_push_def\<close>)

lemma outbound_inv_frame:
  assumes "outbound_inv c" and "cl_outq d = cl_outq c" and "cl_events d = cl_events c"
    and "cl_proto d = cl_proto c" and "bo_steps (cl_bootstrap d) = bo_steps (cl_bootstrap c)"
  shows "outbound_inv d"
  using assms by (simp add: outbound_inv_def queue_inv_def)

lemma outbound_inv_clear:
  "outbound_inv c \<Longrightarrow> outbound_inv (c\<lparr>cl_outq := client_outq_clear (cl_outq c)\<rparr>)"
  by (simp add: outbound_inv_def queue_inv_def client_outq_clear_frames outq_inv_def
      client_outq_clear_frames(1) [unfolded outq_inv_def])

lemma schedule_reconnect_fields [simp]:
  "cl_outq (client_schedule_reconnect c now) = cl_outq c"
  "cl_events (client_schedule_reconnect c now) = cl_events c"
  "cl_proto (client_schedule_reconnect c now) = cl_proto c"
  "cl_bootstrap (client_schedule_reconnect c now) = cl_bootstrap c"
  "cl_connected (client_schedule_reconnect c now) = cl_connected c"
  "cl_awaiting_pong (client_schedule_reconnect c now) = cl_awaiting_pong c"
  "cl_ping_type_id (client_schedule_reconnect c now) = cl_ping_type_id c"
  "cl_reconnect_due (client_schedule_reconnect c now) = cl_reconnect_due c"
  "cl_rtt_last_ms (client_schedule_reconnect c now) = cl_rtt_last_ms c"
  "cl_rtt_min_ms (client_schedule_reconnect c now) = cl_rtt_min_ms c"
  "cl_rtt_max_ms (client_schedule_reconnect c now) = cl_rtt_max_ms c"
  "cl_rtt_sum_ms (client_schedule_reconnect c now) = cl_rtt_sum_ms c"
  "cl_rtt_samples (client_schedule_reconnect c now) = cl_rtt_samples c"
  by (simp_all add: client_schedule_reconnect_def Let_def)

lemma handle_pong_cases:
  obtains "handle_pong c frame now = c"
  | r where "handle_pong c frame now = (client_record_rtt c r)\<lparr>cl_awaiting_pong := False\<rparr>"
  | "handle_pong c frame now = c\<lparr>cl_awaiting_pong := False\<rparr>"
proof (cases "cf_payload frame")
  case None
  then show thesis using that(1) by (simp add: handle_pong_def)
next
  case (Some payload)
  let ?due = "cl_awaiting_pong c \<and> 8 \<le> length payload"
    and ?ours = "read_be_u64 payload = cl_last_ping_sent_ms c \<and> read_be_u64 payload \<le> now"
  consider "\<not> ?due" | "?due" "?ours" | "?due" "\<not> ?ours" by argo
  then show thesis
  proof cases
    case 1
    then show thesis by (intro that(1)) (auto simp: handle_pong_def Some)
  next
    case 2
    let ?delta = "now - read_be_u64 payload"
    show thesis
      by (rule that(2) [of "if 0xFFFFFFFF < ?delta then 0xFFFFFFFF else ucast ?delta"])
        (use 2 in \<open>auto simp: handle_pong_def Some Let_def\<close>)
  next
    case 3
    show thesis by (rule that(3)) (simp only: handle_pong_def Some option.case Let_def 3 if_True if_False simp_thms)
  qed
qed

lemma record_rtt_fields [simp]:
  "cl_outq (client_record_rtt c r) = cl_outq c"
  "cl_events (client_record_rtt c r) = cl_events c"
  "cl_proto (client_record_rtt c r) = cl_proto c"
  "cl_bootstrap (client_record_rtt c r) = cl_bootstrap c"
  "cl_connected (client_record_rtt c r) = cl_connected c"
  "cl_ping_type_id (client_record_rtt c r) = cl_ping_type_id c"
  "cl_reconnect_due (client_record_rtt c r) = cl_reconnect_due c"
  by (simp_all add: client_record_rtt_def)

lemma outbound_inv_pong: "outbound_inv c \<Longrightarrow> outbound_inv (handle_pong c frame now)"
  by (rule handle_pong_cases [of c frame now]) (auto intro: outbound_inv_frame)

lemma points_to_ping: "points_to (Some (write_be_u64 now)) 8 (write_be_u64 now)"
  by (simp add: points_to_def)

text \<open>A tick is a ping, when one is due, and then the reconnect flag.\<close>

definition ping_due :: "kith_client \<Rightarrow> 64 word \<Rightarrow> bool" where
  "ping_due c now \<longleftrightarrow>
     cl_connected c \<and> cl_ping_type_id c \<noteq> 0 \<and> 0 < cl_ping_interval_ms c \<and>
     \<not> cl_awaiting_pong c \<and> cl_next_ping_due_ms c \<le> now"

lemma tick_cases:
  obtains (quiet) "\<not> ping_due c now"
      and "kith_client_tick env c now =
             (Inr (), c\<lparr>cl_reconnect_due := (cl_reconnect_due c \<or> \<not> cl_connected c \<and>
                          0 < cl_next_reconnect_due_ms c \<and> cl_next_reconnect_due_ms c \<le> now)\<rparr>)"
  | (refused) q e where "ping_due c now" and "kith_client_tick env c now = (Inl KITH_ESTATE, c\<lparr>cl_outq := q\<rparr>)"
      and "client_encode_and_enqueue env c (cl_ping_type_id c) 0 0 (Some (write_be_u64 now)) 8 =
             (Inl e, c\<lparr>cl_outq := q\<rparr>)"
  | (pinged) q where "ping_due c now" and "kith_client_tick env c now =
        (Inr (), c\<lparr>cl_outq := q, cl_last_ping_sent_ms := now, cl_awaiting_pong := True,
                    cl_next_ping_due_ms := now + ucast (cl_ping_interval_ms c)\<rparr>)"
      and "client_encode_and_enqueue env c (cl_ping_type_id c) 0 0 (Some (write_be_u64 now)) 8 =
             (Inr (), c\<lparr>cl_outq := q\<rparr>)"
proof (cases "ping_due c now")
  case False
  then show thesis
    by (cases "\<not> cl_connected c \<and> 0 < cl_next_reconnect_due_ms c \<and>
               cl_next_reconnect_due_ms c \<le> now"; intro quiet)
      (simp_all only: kith_client_tick_def ping_due_def [symmetric] Let_def if_True if_False
        prod.case sum.case simp_thms, simp)
next
  case True
  obtain q where q: "snd (client_encode_and_enqueue env c (cl_ping_type_id c) 0 0
                            (Some (write_be_u64 now)) 8) = c\<lparr>cl_outq := q\<rparr>"
    using enqueue_shape by blast
  show thesis
  proof (cases "fst (client_encode_and_enqueue env c (cl_ping_type_id c) 0 0
                       (Some (write_be_u64 now)) 8)")
    case (Inl e)
    then have "client_encode_and_enqueue env c (cl_ping_type_id c) 0 0 (Some (write_be_u64 now)) 8 =
               (Inl e, c\<lparr>cl_outq := q\<rparr>)"
      using q by (simp add: prod_eq_iff)
    then show thesis
      using True by (intro refused [of q e]) (simp_all add: kith_client_tick_def ping_due_def)
  next
    case (Inr u)
    then have "client_encode_and_enqueue env c (cl_ping_type_id c) 0 0 (Some (write_be_u64 now)) 8 =
               (Inr (), c\<lparr>cl_outq := q\<rparr>)"
      using q by (simp add: prod_eq_iff)
    then show thesis
      using True by (intro pinged [of q]) (simp_all add: kith_client_tick_def ping_due_def)
  qed
qed

lemma outbound_inv_tick:
  assumes "outbound_inv c"
  shows "outbound_inv (snd (kith_client_tick env c now))"
proof (cases rule: tick_cases [of c now env])
  case quiet
  then show ?thesis using assms by (auto intro: outbound_inv_frame)
next
  case (refused q e)
  then show ?thesis
    using outbound_inv_enqueue [OF assms points_to_ping, of env "cl_ping_type_id c" 0 0 now] by simp
next
  case (pinged q)
  then have "outbound_inv (c\<lparr>cl_outq := q\<rparr>)"
    using outbound_inv_enqueue [OF assms points_to_ping, of env "cl_ping_type_id c" 0 0 now] by simp
  with pinged show ?thesis by (auto intro: outbound_inv_frame)
qed

lemma outbound_inv_register:
  assumes "outbound_inv c"
    and "snd (kith_proto_register_type_id env (Some (cl_proto c)) (Some name) t) = Some p"
  shows "outbound_inv (c\<lparr>cl_proto := p\<rparr>)"
  using assms register_keeps_max [OF assms(2)] wire_frame_cong [of p "cl_proto c"]
  by (simp add: outbound_inv_def queue_inv_def small_frames_def)

lemma outbound_inv_submit:
  assumes "outbound_inv c" and "points_to (cm_payload cmd) (cm_payload_len cmd) payload"
  shows "outbound_inv (snd (kith_client_submit_interactive env c cmd))"
  using outbound_inv_enqueue [OF assms, of env "cm_type_id cmd" "cm_flags cmd" "cm_correlation_id cmd"]
  by (auto simp: kith_client_submit_interactive_def split: prod.split sum.split
      intro: outbound_inv_frame)

lemma outbound_inv_events:
  "outbound_inv c \<Longrightarrow> eventq_ok q \<Longrightarrow> outbound_inv (c\<lparr>cl_events := q\<rparr>)"
  by (simp add: outbound_inv_def queue_inv_def)

lemma eventq_drain_ok: "eventq_ok q \<Longrightarrow> eventq_ok (snd (client_eventq_drain q n))"
  using eventq_drain_loop_events(2) [of q n]
  by (auto simp: client_eventq_drain_def split: prod.split)

lemma outbound_inv_connected:
  assumes "outbound_inv c"
  shows "outbound_inv (snd (kith_client_on_connected env c now))"
proof -
  let ?c1 = "(runtime_reset c)\<lparr>cl_connected := True\<rparr>"
  have "outbound_inv ?c1"
    using assms by (rule outbound_inv_frame) (simp_all add: runtime_reset_def)
  then have "outbound_inv (?c1\<lparr>cl_next_ping_due_ms := t\<rparr>)" "outbound_inv ?c1" for t
    by (auto intro: outbound_inv_frame)
  from this [THEN outbound_inv_clear] show ?thesis
    unfolding kith_client_on_connected_def Let_def
    by (cases "cl_ping_type_id ?c1 \<noteq> 0 \<and> 0 < cl_ping_interval_ms ?c1")
      (simp_all only: if_True if_False outbound_inv_start simp_thms)
qed

lemma outbound_inv_disconnected:
  assumes "outbound_inv c"
  shows "outbound_inv (kith_client_on_disconnected c now)"
proof -
  let ?c1 = "client_bootstrap_reset (c\<lparr>cl_connected := False, cl_awaiting_pong := False,
                cl_next_ping_due_ms := 0, cl_reconnect_due := False\<rparr>)"
  have "outbound_inv ?c1"
    using assms by (rule outbound_inv_frame) (simp_all add: client_bootstrap_reset_def)
  from outbound_inv_clear [OF this] show ?thesis
    unfolding kith_client_on_disconnected_def Let_def by (rule outbound_inv_frame) simp_all
qed

interpretation outbound: engine_invariant outbound_inv
proof
  fix env params p c
  assume "kith_client_create env params (Some p) = Inr c" and small: "small_frames p"
  then have c: "c = fresh_client p (client_resolve_defaults params)"
    by (intro create_is_fresh)
  have "0 < cp_outbound_cap (client_resolve_defaults params)"
    and "0 < cp_event_cap (client_resolve_defaults params)"
    by (simp_all add: client_resolve_defaults_def or_default_pos)
  from fresh_queue_inv [OF this, of p] show "outbound_inv c"
    unfolding outbound_inv_def queue_inv_def c client_frames_def
    using small by (simp add: fresh_client_def steps_ok_def)
next
  fix env c op
  assume inv: "outbound_inv c" and ok: "engine_op_ok op"
  show "outbound_inv (engine_step env c op)"
  proof (cases op)
    case (OpConfigure steps)
    then show ?thesis
      using inv ok by (auto simp: kith_client_configure_bootstrap_def engine_op_ok_def
          client_bootstrap_configure_def outbound_inv_def queue_inv_def)
  next
    case (OpConnectFailed now)
    then show ?thesis
      using inv by (auto simp: kith_client_on_connect_failed_def intro: outbound_inv_frame)
  next
    case (OpFeed frame now)
    then show ?thesis
      using inv by (simp add: kith_client_feed_frame_def outbound_inv_pong outbound_inv_feed)
  next
    case (OpPublish e)
    then show ?thesis
      using inv outbound_inv_events [OF inv eventq_push_ok [of "cl_events c" e]]
      by (auto simp: kith_client_publish_event_def outbound_inv_def queue_inv_def split: prod.split)
  next
    case (OpDrain n)
    then show ?thesis
      using inv outbound_inv_events [OF inv eventq_drain_ok [of "cl_events c" n]]
      by (auto simp: kith_client_drain_events_def outbound_inv_def queue_inv_def split: prod.split)
  next
    case (OpSubmit cmd)
    then show ?thesis
      using inv ok by (auto simp: engine_op_ok_def intro: outbound_inv_submit)
  qed (use inv in \<open>auto simp: outbound_inv_register outbound_inv_connected outbound_inv_disconnected
        outbound_inv_pop outbound_inv_tick split: option.split\<close>)
qed

subsection \<open>Connection, bootstrap and keepalive agree\<close>

definition link_inv :: "kith_client \<Rightarrow> bool" where
  "link_inv c \<longleftrightarrow>
     (cl_awaiting_pong c \<longrightarrow> cl_connected c \<and> cl_ping_type_id c \<noteq> 0) \<and>
     (cl_connected c \<longrightarrow> \<not> cl_reconnect_due c) \<and>
     (bo_state (cl_bootstrap c) \<noteq> BOOTSTRAP_IDLE \<longrightarrow> cl_connected c) \<and>
     (bo_state (cl_bootstrap c) = BOOTSTRAP_RUNNING \<longrightarrow>
        unat (bo_current_step (cl_bootstrap c)) < bootstrap_step_count c)"

definition same_link :: "kith_client \<Rightarrow> kith_client \<Rightarrow> bool" where
  "same_link c d \<longleftrightarrow>
     cl_connected d = cl_connected c \<and> cl_awaiting_pong d = cl_awaiting_pong c \<and>
     cl_ping_type_id d = cl_ping_type_id c \<and> cl_reconnect_due d = cl_reconnect_due c"

lemma enqueue_same_fields:
  assumes "client_encode_and_enqueue env c t f corr ptr len = (rc, d)"
  shows "same_link c d" and "cl_bootstrap d = cl_bootstrap c"
    and "cl_rtt_samples d = cl_rtt_samples c" and "cl_rtt_min_ms d = cl_rtt_min_ms c"
    and "cl_rtt_max_ms d = cl_rtt_max_ms c" and "cl_rtt_last_ms d = cl_rtt_last_ms c"
    and "cl_rtt_sum_ms d = cl_rtt_sum_ms c"
    and "cl_next_cmd_id d = cl_next_cmd_id c" and "cl_commands_submitted d = cl_commands_submitted c"
proof -
  obtain q where "d = c\<lparr>cl_outq := q\<rparr>"
    using enqueue_shape [of env c t f corr ptr len] assms by auto
  then show "same_link c d" and "cl_bootstrap d = cl_bootstrap c"
    and "cl_rtt_samples d = cl_rtt_samples c" and "cl_rtt_min_ms d = cl_rtt_min_ms c"
    and "cl_rtt_max_ms d = cl_rtt_max_ms c" and "cl_rtt_last_ms d = cl_rtt_last_ms c"
    and "cl_rtt_sum_ms d = cl_rtt_sum_ms c"
    and "cl_next_cmd_id d = cl_next_cmd_id c" and "cl_commands_submitted d = cl_commands_submitted c"
    by (simp_all add: same_link_def)
qed

text \<open>Entering a step leaves the machine failed, ready, or at that step in the state it was in.\<close>

lemma enter_step_outcome:
  assumes "bootstrap_enter_step env c i = (rc, d)"
  shows "same_link c d" and "bo_steps (cl_bootstrap d) = bo_steps (cl_bootstrap c)"
    and "bo_state (cl_bootstrap d) = BOOTSTRAP_FAILED \<or>
         bootstrap_step_count c \<le> unat i \<and> bo_state (cl_bootstrap d) = BOOTSTRAP_READY \<or>
         unat i < bootstrap_step_count c \<and> bo_current_step (cl_bootstrap d) = i \<and>
         bo_state (cl_bootstrap d) = bo_state (cl_bootstrap c)"
proof -
  let ?c1 = "c\<lparr>cl_bootstrap := (cl_bootstrap c)\<lparr>bo_current_step := i\<rparr>\<rparr>"
  have enq: "same_link c d2 \<and> cl_bootstrap d2 = (cl_bootstrap c)\<lparr>bo_current_step := i\<rparr>"
    if "client_encode_and_enqueue env ?c1 t f corr ptr len = (rc2, d2)" for t f corr ptr len rc2 d2
    using enqueue_same_fields(1,2) [OF that] by (simp add: same_link_def)
  show "same_link c d" and "bo_steps (cl_bootstrap d) = bo_steps (cl_bootstrap c)"
    and "bo_state (cl_bootstrap d) = BOOTSTRAP_FAILED \<or>
         bootstrap_step_count c \<le> unat i \<and> bo_state (cl_bootstrap d) = BOOTSTRAP_READY \<or>
         unat i < bootstrap_step_count c \<and> bo_current_step (cl_bootstrap d) = i \<and>
         bo_state (cl_bootstrap d) = bo_state (cl_bootstrap c)"
    using assms
    by (auto simp: bootstrap_enter_step_def set_bootstrap_state_def Let_def same_link_def
        split: if_splits option.splits prod.splits sum.splits dest!: enq)
qed

lemma link_inv_enter:
  assumes "link_inv c" and "cl_connected c" and "bo_state (cl_bootstrap c) = BOOTSTRAP_RUNNING"
  shows "link_inv (snd (bootstrap_enter_step env c i))"
proof -
  obtain rc d where d: "bootstrap_enter_step env c i = (rc, d)"
    by (cases "bootstrap_enter_step env c i")
  show ?thesis
    using enter_step_outcome [OF d] assms d
    by (auto simp: link_inv_def same_link_def bootstrap_step_count_def)
qed

lemma link_inv_feed:
  assumes "link_inv c" and "client_bootstrap_matches c frame"
  shows "link_inv (snd (client_bootstrap_feed env c frame))"
proof -
  have run: "bo_state (cl_bootstrap c) = BOOTSTRAP_RUNNING"
    using assms(2) by (simp add: client_bootstrap_matches_def Let_def)
  then have conn: "cl_connected c" using assms(1) by (simp add: link_inv_def)
  have halt: "link_inv (set_bootstrap_state c st)" if "st \<noteq> BOOTSTRAP_RUNNING" for st
    using assms(1) conn that by (simp add: link_inv_def set_bootstrap_state_def)
  show ?thesis
    using link_inv_enter [OF assms(1) conn run]
    by (auto simp: client_bootstrap_feed_def Let_def run halt split: prod.split)
qed

lemma link_inv_start:
  assumes "cl_connected c" and "\<not> cl_awaiting_pong c" and "\<not> cl_reconnect_due c"
  shows "link_inv (snd (client_bootstrap_start env c))"
proof (cases "bootstrap_step_count c = 0")
  case True
  then show ?thesis
    using assms by (simp add: client_bootstrap_start_def Let_def bootstrap_step_count_def
        client_bootstrap_reset_def set_bootstrap_state_def link_inv_def)
next
  case False
  let ?d = "set_bootstrap_state (client_bootstrap_reset c) BOOTSTRAP_RUNNING"
  have "link_inv ?d" "cl_connected ?d" "bo_state (cl_bootstrap ?d) = BOOTSTRAP_RUNNING"
    using assms False by (simp_all add: link_inv_def set_bootstrap_state_def
        client_bootstrap_reset_def bootstrap_step_count_def)
  from link_inv_enter [OF this] show ?thesis
    using False by (simp add: client_bootstrap_start_def Let_def bootstrap_step_count_def
        client_bootstrap_reset_def)
qed

lemma link_inv_cong:
  "same_link c d \<Longrightarrow> cl_bootstrap d = cl_bootstrap c \<Longrightarrow> link_inv c \<Longrightarrow> link_inv d"
  by (simp add: link_inv_def same_link_def bootstrap_step_count_def)

lemma link_inv_pong: "link_inv c \<Longrightarrow> link_inv (handle_pong c frame now)"
  by (rule handle_pong_cases [of c frame now]) (simp_all add: link_inv_def bootstrap_step_count_def)

lemma link_inv_tick: "link_inv c \<Longrightarrow> link_inv (snd (kith_client_tick env c now))"
  by (rule tick_cases [of c now env])
    (auto simp: link_inv_def bootstrap_step_count_def ping_due_def)

lemma link_inv_connected: "link_inv (snd (kith_client_on_connected env c now))"
  unfolding kith_client_on_connected_def Let_def
  by (rule link_inv_start) (simp_all add: runtime_reset_def)

lemma link_inv_disconnected: "link_inv (kith_client_on_disconnected c now)"
  by (simp add: kith_client_on_disconnected_def link_inv_def client_bootstrap_reset_def)

lemma submit_same_link:
  "same_link c (snd (kith_client_submit_interactive env c cmd)) \<and>
   cl_bootstrap (snd (kith_client_submit_interactive env c cmd)) = cl_bootstrap c"
  using enqueue_same_fields(1,2)
  by (fastforce simp: kith_client_submit_interactive_def same_link_def split: prod.split sum.split)

interpretation links: engine_invariant link_inv
proof
  fix env params p c
  assume "kith_client_create env params (Some p) = Inr c"
  then have "c = fresh_client p (client_resolve_defaults params)" by (rule create_is_fresh)
  then show "link_inv c" by (simp add: link_inv_def fresh_client_def)
next
  fix env c op
  assume inv: "link_inv c"
  show "link_inv (engine_step env c op)"
  proof (cases op)
    case (OpRegister name t)
    then show ?thesis
      using inv by (auto simp: link_inv_def bootstrap_step_count_def split: option.split)
  next
    case (OpConfigure steps)
    then show ?thesis
      using inv by (auto simp: kith_client_configure_bootstrap_def client_bootstrap_configure_def
          link_inv_def bootstrap_step_count_def)
  next
    case (OpFeed frame now)
    then show ?thesis
      using inv by (simp add: kith_client_feed_frame_def link_inv_pong link_inv_feed)
  next
    case (OpSubmit cmd)
    then show ?thesis
      using inv submit_same_link by (auto intro: link_inv_cong)
  qed (use inv in \<open>auto simp: link_inv_tick link_inv_connected link_inv_disconnected
        kith_client_on_connect_failed_def kith_client_pop_outbound_def kith_client_publish_event_def
        kith_client_drain_events_def same_link_def split: prod.split intro: link_inv_cong\<close>)
qed

subsection \<open>Round-trip statistics and command identifiers\<close>

definition stats_inv :: "kith_client \<Rightarrow> bool" where
  "stats_inv c \<longleftrightarrow>
     cl_next_cmd_id c = cl_commands_submitted c + 1 \<and>
     (cl_rtt_samples c \<noteq> 0 \<longrightarrow>
        cl_rtt_min_ms c \<le> cl_rtt_last_ms c \<and> cl_rtt_last_ms c \<le> cl_rtt_max_ms c) \<and>
     (cl_rtt_samples c < 0xFFFFFFFF \<longrightarrow>
        unat (cl_rtt_samples c) * unat (cl_rtt_min_ms c) \<le> unat (cl_rtt_sum_ms c) \<and>
        unat (cl_rtt_sum_ms c) \<le> unat (cl_rtt_samples c) * unat (cl_rtt_max_ms c))"

definition same_stats :: "kith_client \<Rightarrow> kith_client \<Rightarrow> bool" where
  "same_stats c d \<longleftrightarrow>
     cl_rtt_samples d = cl_rtt_samples c \<and> cl_rtt_min_ms d = cl_rtt_min_ms c \<and>
     cl_rtt_max_ms d = cl_rtt_max_ms c \<and> cl_rtt_last_ms d = cl_rtt_last_ms c \<and>
     cl_rtt_sum_ms d = cl_rtt_sum_ms c \<and> cl_next_cmd_id d = cl_next_cmd_id c \<and>
     cl_commands_submitted d = cl_commands_submitted c"

lemma stats_inv_cong: "same_stats c d \<Longrightarrow> stats_inv c \<Longrightarrow> stats_inv d"
  by (simp add: stats_inv_def same_stats_def)

lemma same_stats_trans: "same_stats c d \<Longrightarrow> same_stats d e \<Longrightarrow> same_stats c e"
  by (simp add: same_stats_def)

text \<open>
  The sum of the samples never wraps before the sample counter saturates: it is at most
  \<open>(2 ^ 32 - 1) ^ 2\<close>.
\<close>

lemma rtt_sum_step:
  assumes "unat s \<le> n * m" and "n < 2 ^ 32 - 1" and "m < 2 ^ 32" and "unat (r :: 32 word) \<le> M" "m \<le> M"
    and "M < 2 ^ 32"
  shows "unat (s + ucast r :: 64 word) = unat s + unat r" and "unat s + unat r \<le> Suc n * M"
proof -
  have "unat s \<le> n * M" using assms(1) mult_le_mono2 [OF assms(5)] by (rule order.trans)
  then show le: "unat s + unat r \<le> Suc n * M"
    using assms(4) by simp
  have "Suc n * M \<le> (2 ^ 32 - 1) * (2 ^ 32 - 1)"
    using assms(2,6) by (intro mult_le_mono) simp_all
  also have "\<dots> < (2 ^ 64 :: nat)" by simp
  finally have "unat s + unat r < 2 ^ 64" using le by simp
  then show "unat (s + ucast r :: 64 word) = unat s + unat r"
    by (simp add: unat_word_ariths)
qed

lemma stats_inv_rtt:
  assumes inv: "stats_inv c"
  shows "stats_inv (client_record_rtt c r)"
proof (cases "cl_rtt_samples c < 0xFFFFFFFF")
  case False
  then have "cl_rtt_samples c \<noteq> 0" by auto
  then show ?thesis
    using False inv by (auto simp: stats_inv_def client_record_rtt_def)
next
  case True
  let ?n = "unat (cl_rtt_samples c)" and ?d = "client_record_rtt c r"
  have n: "?n < 2 ^ 32 - 1" using True by (simp add: word_less_nat_alt)
  then have n': "unat (cl_rtt_samples c + 1) = Suc ?n" by (simp add: unat_word_ariths)
  have hi: "unat r \<le> unat (cl_rtt_max_ms ?d)" "?n \<noteq> 0 \<Longrightarrow> cl_rtt_max_ms c \<le> cl_rtt_max_ms ?d"
    by (auto simp: client_record_rtt_def word_le_nat_alt word_less_nat_alt)
  have lo: "unat (cl_rtt_min_ms ?d) \<le> unat r" "?n \<noteq> 0 \<Longrightarrow> cl_rtt_min_ms ?d \<le> cl_rtt_min_ms c"
    by (auto simp: client_record_rtt_def word_le_nat_alt word_less_nat_alt)
  have old: "?n * unat (cl_rtt_min_ms c) \<le> unat (cl_rtt_sum_ms c)"
            "unat (cl_rtt_sum_ms c) \<le> ?n * unat (cl_rtt_max_ms c)"
    using inv True by (auto simp: stats_inv_def)
  have top: "unat (cl_rtt_sum_ms c) \<le> ?n * unat (cl_rtt_max_ms ?d)"
    using old(2) hi(2) by (cases "?n = 0")
      (auto simp: word_le_nat_alt intro: order.trans mult_le_mono2)
  have bottom: "?n * unat (cl_rtt_min_ms ?d) \<le> unat (cl_rtt_sum_ms c)"
    using old(1) lo(2) by (cases "?n = 0")
      (auto simp: word_le_nat_alt intro: order.trans [OF mult_le_mono2])
  have "unat (cl_rtt_max_ms ?d) < 2 ^ 32" by simp
  note sum = rtt_sum_step [OF top n this hi(1) order.refl this]
  have "cl_rtt_sum_ms ?d = cl_rtt_sum_ms c + ucast r" "cl_rtt_samples ?d = cl_rtt_samples c + 1"
       "cl_rtt_last_ms ?d = r" "cl_next_cmd_id ?d = cl_next_cmd_id c"
       "cl_commands_submitted ?d = cl_commands_submitted c"
    using True by (simp_all add: client_record_rtt_def)
  then show ?thesis
    using sum bottom lo(1) hi(1) inv n'
    by (simp add: stats_inv_def word_le_nat_alt)
qed

lemma stats_inv_pong: "stats_inv c \<Longrightarrow> stats_inv (handle_pong c frame now)"
  by (rule handle_pong_cases [of c frame now])
    (use stats_inv_rtt [of c] in \<open>simp_all add: stats_inv_def\<close>)

lemma enter_step_stats: "same_stats c (snd (bootstrap_enter_step env c i))"
proof -
  have "same_stats c d2"
    if "client_encode_and_enqueue env (c\<lparr>cl_bootstrap := b\<rparr>) t f corr ptr len = (rc2, d2)"
    for b t f corr ptr len rc2 d2
    using enqueue_same_fields(3-9) [OF that] by (simp add: same_stats_def)
  then show ?thesis
    by (auto simp: bootstrap_enter_step_def set_bootstrap_state_def Let_def same_stats_def
        split: option.split prod.split sum.split)
qed

lemma feed_stats: "same_stats c (snd (client_bootstrap_feed env c frame))"
  using enter_step_stats
  by (auto simp: client_bootstrap_feed_def set_bootstrap_state_def Let_def same_stats_def
      split: prod.split)

lemma start_stats: "same_stats c (snd (client_bootstrap_start env c))"
proof -
  let ?d = "set_bootstrap_state (client_bootstrap_reset c) BOOTSTRAP_RUNNING"
  have "same_stats c ?d" by (simp add: set_bootstrap_state_def client_bootstrap_reset_def same_stats_def)
  from same_stats_trans [OF this enter_step_stats] show ?thesis
    by (simp add: client_bootstrap_start_def Let_def)
      (simp add: set_bootstrap_state_def client_bootstrap_reset_def same_stats_def)
qed

lemma stats_inv_connected:
  assumes "stats_inv c"
  shows "stats_inv (snd (kith_client_on_connected env c now))"
  unfolding kith_client_on_connected_def Let_def
  by (rule stats_inv_cong [OF start_stats]) (use assms in \<open>simp add: stats_inv_def runtime_reset_def\<close>)

lemma stats_inv_tick: "stats_inv c \<Longrightarrow> stats_inv (snd (kith_client_tick env c now))"
  by (rule tick_cases [of c now env]) (simp_all add: stats_inv_def)

lemma stats_inv_submit:
  assumes "stats_inv c"
  shows "stats_inv (snd (kith_client_submit_interactive env c cmd))"
proof -
  obtain rc d where d: "client_encode_and_enqueue env c (cm_type_id cmd) (cm_flags cmd)
      (cm_correlation_id cmd) (cm_payload cmd) (cm_payload_len cmd) = (rc, d)"
    by fastforce
  then have "stats_inv d"
    using enqueue_same_fields(3-9) [OF d] assms by (simp add: stats_inv_def)
  then show ?thesis
    by (cases rc) (simp_all add: kith_client_submit_interactive_def d stats_inv_def)
qed

lemma schedule_reconnect_stats: "same_stats c (client_schedule_reconnect c now)"
  by (simp add: same_stats_def client_schedule_reconnect_def Let_def)

lemma stats_inv_disconnected: "stats_inv c \<Longrightarrow> stats_inv (kith_client_on_disconnected c now)"
  unfolding kith_client_on_disconnected_def Let_def
  by (rule stats_inv_cong [OF schedule_reconnect_stats])
    (simp add: stats_inv_def client_bootstrap_reset_def)

interpretation stats: engine_invariant stats_inv
proof
  fix env params p c
  assume "kith_client_create env params (Some p) = Inr c"
  then have "c = fresh_client p (client_resolve_defaults params)" by (rule create_is_fresh)
  then show "stats_inv c" by (simp add: stats_inv_def fresh_client_def)
next
  fix env c op
  assume inv: "stats_inv c"
  show "stats_inv (engine_step env c op)"
  proof (cases op)
    case (OpRegister name t)
    then show ?thesis
      using inv by (auto simp: stats_inv_def split: option.split)
  next
    case (OpFeed frame now)
    then show ?thesis
      using inv by (simp add: kith_client_feed_frame_def stats_inv_pong
          stats_inv_cong [OF feed_stats])
  next
    case (OpConnectFailed now)
    then show ?thesis
      using inv by (simp add: kith_client_on_connect_failed_def
          stats_inv_cong [OF schedule_reconnect_stats])
  qed (use inv in \<open>auto simp: stats_inv_tick stats_inv_connected stats_inv_submit
        stats_inv_disconnected
        kith_client_pop_outbound_def kith_client_publish_event_def kith_client_drain_events_def
        kith_client_configure_bootstrap_def same_stats_def split: prod.split
        intro: stats_inv_cong\<close>)
qed

subsection \<open>A handshake completes\<close>

definition step_frames :: "bootstrap_step \<Rightarrow> bytes list" where
  "step_frames step =
     (case st_on_enter step of None \<Rightarrow> [] | Some (rc, t, payload) \<Rightarrow> [frame_bytes t 0 0 payload])"

definition step_enters :: "kith_proto \<Rightarrow> bootstrap_step \<Rightarrow> bool" where
  "step_enters p step \<longleftrightarrow>
     (case st_on_enter step of
        None \<Rightarrow> True | Some (rc, t, payload) \<Rightarrow> rc = 0 \<and> frame_fits p 0 payload)"

text \<open>The peer's \<open>i\<close>-th frame answers step \<open>i\<close>, and the step moves on to the next one.\<close>

definition answers :: "bootstrap_step \<Rightarrow> nat \<Rightarrow> c_frame \<Rightarrow> bool" where
  "answers step i frame \<longleftrightarrow>
     (st_await_type_id step = 0 \<or> st_await_type_id step = cf_type_id frame) \<and>
     (case st_on_reply step of None \<Rightarrow> True | Some reply \<Rightarrow> reply frame = (0, of_nat (Suc i)))"

definition memory_ok :: "call_env \<Rightarrow> bool" where
  "memory_ok env \<longleftrightarrow> grow_ok env \<and> dup_ok env"

definition same_setup :: "kith_client \<Rightarrow> kith_client \<Rightarrow> bool" where
  "same_setup c d \<longleftrightarrow>
     bo_steps (cl_bootstrap d) = bo_steps (cl_bootstrap c) \<and> cl_proto d = cl_proto c \<and>
     cl_pong_type_id d = cl_pong_type_id c \<and> oq_cap (cl_outq d) = oq_cap (cl_outq c)"

definition feed_all :: "call_env \<Rightarrow> kith_client \<Rightarrow> (c_frame \<times> 64 word) list \<Rightarrow> kith_client" where
  "feed_all env = foldl (\<lambda>c (frame, now). snd (fst (kith_client_feed_frame env c frame now)))"

lemma step_frames_short: "length (step_frames step) \<le> 1"
  by (auto simp: step_frames_def split: option.split)

lemma enter_step_sends:
  assumes inv: "outbound_inv c" and i: "unat i < bootstrap_step_count c" and env: "memory_ok env"
    and enters: "step_enters (cl_proto c) (bo_steps (cl_bootstrap c) ! unat i)"
    and room: "has_room c"
  obtains d where "bootstrap_enter_step env c i = (Inr (), d)" and "outbound_inv d" and "same_setup c d"
    and "client_frames d = client_frames c @ step_frames (bo_steps (cl_bootstrap c) ! unat i)"
    and "bo_current_step (cl_bootstrap d) = i" and "bo_state (cl_bootstrap d) = bo_state (cl_bootstrap c)"
proof -
  let ?c1 = "c\<lparr>cl_bootstrap := (cl_bootstrap c)\<lparr>bo_current_step := i\<rparr>\<rparr>"
    and ?step = "bo_steps (cl_bootstrap c) ! unat i"
  have c1: "outbound_inv ?c1" using inv by (rule outbound_inv_frame) simp_all
  show thesis
  proof (cases "st_on_enter ?step")
    case None
    then show thesis
      using i c1 by (intro that [of ?c1]) (simp_all add: bootstrap_enter_step_def step_frames_def
          same_setup_def client_frames_def)
  next
    case (Some a)
    then obtain t payload where a: "a = (0, t, payload)" and fits: "frame_fits (cl_proto c) 0 payload"
      using enters by (cases a) (simp add: step_enters_def)
    have p: "points_to (if payload \<noteq> [] then Some payload else None) (of_nat (length payload)) payload"
      using points_to_enter [of "bo_steps (cl_bootstrap c)" "unat i"] inv i Some a
      by (simp add: outbound_inv_def bootstrap_step_count_def)
    have "queue_inv ?c1" using c1 by (simp add: outbound_inv_def)
    from this p obtain q where q: "client_encode_and_enqueue env ?c1 t 0 0
          (if payload \<noteq> [] then Some payload else None) (of_nat (length payload)) = (Inr (), ?c1\<lparr>cl_outq := q\<rparr>)"
        "outq_frames q = client_frames ?c1 @ [frame_bytes t 0 0 payload]" "oq_cap q = oq_cap (cl_outq ?c1)"
      by (cases rule: encode_and_enqueue_cases [where env = env and t = t and f = 0 and corr = 0])
        (use env fits room in \<open>auto simp: memory_ok_def has_room_def client_frames_def\<close>)
    have "outbound_inv (?c1\<lparr>cl_outq := q\<rparr>)"
      using outbound_inv_enqueue [OF c1 p, of env t 0 0] q(1) by simp
    then show thesis
      using i Some a q by (intro that [of "?c1\<lparr>cl_outq := q\<rparr>"])
        (simp_all add: bootstrap_enter_step_def step_frames_def same_setup_def client_frames_def)
  qed
qed

lemma feed_answer:
  assumes "bo_state (cl_bootstrap c) = BOOTSTRAP_RUNNING"
    and "bo_current_step (cl_bootstrap c) = of_nat i" and "i < bootstrap_step_count c"
    and "bootstrap_step_count c < 2 ^ 32"
    and "answers (bo_steps (cl_bootstrap c) ! i) i frame"
    and "cl_pong_type_id c = 0 \<or> cf_type_id frame \<noteq> cl_pong_type_id c"
  shows "kith_client_feed_frame env c frame now =
           ((if Suc i = bootstrap_step_count c
             then (Inr (), set_bootstrap_state c BOOTSTRAP_READY)
             else bootstrap_enter_step env c (of_nat (Suc i))), None)"
proof -
  have i: "unat (of_nat i :: 32 word) = i" "unat (of_nat (Suc i) :: 32 word) = Suc i"
    using assms(3,4) by (simp_all add: unat_of_nat_32 del: of_nat_Suc)
  have next_step: "(case st_on_reply (bo_steps (cl_bootstrap c) ! i) of
            None \<Rightarrow> (0, bo_current_step (cl_bootstrap c) + 1) | Some reply \<Rightarrow> reply frame) = (0, of_nat (Suc i) :: 32 word)"
    using assms(2,5) by (auto simp: answers_def add.commute split: option.splits)
  have cur: "unat (bo_current_step (cl_bootstrap c)) = i"
    using assms(2) i by simp
  have "client_bootstrap_matches c frame"
    using assms i by (simp add: client_bootstrap_matches_def bootstrap_step_count_def answers_def Let_def)
  moreover have "client_bootstrap_feed env c frame =
      (if Suc i = bootstrap_step_count c
       then (Inr (), set_bootstrap_state c BOOTSTRAP_READY)
       else bootstrap_enter_step env c (of_nat (Suc i)))"
    using assms(1,3) i(2) by (simp add: client_bootstrap_feed_def Let_def cur next_step del: of_nat_Suc)
  ultimately show ?thesis
    using assms(6) by (auto simp: kith_client_feed_frame_def)
qed

lemma feed_all_reaches_ready:
  assumes "bo_state (cl_bootstrap c) = BOOTSTRAP_RUNNING"
    and "bo_current_step (cl_bootstrap c) = of_nat i" and "i < length ss"
    and "bo_steps (cl_bootstrap c) = ss" and "outbound_inv c"
    and "length (client_frames c) + (length ss - Suc i) \<le> unat (oq_cap (cl_outq c))"
    and "list_all (step_enters (cl_proto c)) ss" and "memory_ok env"
    and "length fs = length ss - i"
    and "\<forall>j < length fs. answers (ss ! (i + j)) (i + j) (fst (fs ! j))"
    and "\<forall>frame \<in> fst ` set fs. cl_pong_type_id c = 0 \<or> cf_type_id frame \<noteq> cl_pong_type_id c"
  shows "bo_state (cl_bootstrap (feed_all env c fs)) = BOOTSTRAP_READY \<and>
         client_frames (feed_all env c fs) =
           client_frames c @ concat (map step_frames (drop (Suc i) ss))"
  using assms
proof (induction fs arbitrary: c i)
  case (Cons f fs)
  obtain frame now where f: "f = (frame, now)" by (cases f)
  have n: "bootstrap_step_count c = length ss" "length ss < 2 ^ 32"
    using Cons.prems(4,5) by (simp_all add: bootstrap_step_count_def outbound_inv_def steps_ok_def)
  have "answers (ss ! i) i frame"
    using Cons.prems(10) [rule_format, of 0] f by simp
  then have feed: "kith_client_feed_frame env c frame now =
           ((if Suc i = length ss then (Inr (), set_bootstrap_state c BOOTSTRAP_READY)
             else bootstrap_enter_step env c (of_nat (Suc i))), None)"
    using feed_answer [of c i frame env now] Cons.prems n f by simp
  show ?case
  proof (cases "Suc i = length ss")
    case True
    moreover have "length (f # fs) = Suc (length fs)" by simp
    ultimately have "length fs = 0" using Cons.prems(9) by arith
    then have "fs = []" by simp
    with True show ?thesis
      using feed f by (simp add: feed_all_def set_bootstrap_state_def client_frames_def)
  next
    case False
    then have i: "Suc i < length ss" using Cons.prems(3) by simp
    then have wi: "unat (of_nat (Suc i) :: 32 word) = Suc i"
      using n(2) by (intro unat_of_nat_32) simp
    have room: "has_room c" using Cons.prems(6) i by (simp add: has_room_def)
    have ent: "step_enters (cl_proto c) (bo_steps (cl_bootstrap c) ! Suc i)"
      using Cons.prems(4,7) i by (simp add: list_all_length)
    obtain d where d: "bootstrap_enter_step env c (of_nat (Suc i)) = (Inr (), d)" "outbound_inv d"
        "same_setup c d" "client_frames d = client_frames c @ step_frames (ss ! Suc i)"
        "bo_current_step (cl_bootstrap d) = of_nat (Suc i)"
        "bo_state (cl_bootstrap d) = bo_state (cl_bootstrap c)"
      using enter_step_sends [OF Cons.prems(5), of "of_nat (Suc i)" env] wi i n ent room Cons.prems(4,8)
      by metis
    have "bo_state (cl_bootstrap (feed_all env d fs)) = BOOTSTRAP_READY \<and>
         client_frames (feed_all env d fs) =
           client_frames d @ concat (map step_frames (drop (Suc (Suc i)) ss))"
    proof (rule Cons.IH [of d "Suc i"])
      show "\<forall>j < length fs. answers (ss ! (Suc i + j)) (Suc i + j) (fst (fs ! j))"
        using Cons.prems(10) by (metis (no_types, lifting) Suc_less_eq add_Suc_shift length_Cons nth_Cons_Suc)
      show "length (client_frames d) + (length ss - Suc (Suc i)) \<le> unat (oq_cap (cl_outq d))"
        using Cons.prems(6) d(3,4) i step_frames_short [of "ss ! Suc i"]
        by (simp add: same_setup_def)
    qed (use Cons.prems d i in \<open>auto simp: same_setup_def\<close>)
    moreover have "drop (Suc i) ss = ss ! Suc i # drop (Suc (Suc i)) ss"
      using i by (rule Cons_nth_drop_Suc [symmetric])
    ultimately show ?thesis
      using feed False f d(1,4) by (simp add: feed_all_def)
  qed
qed simp

text \<open>A new connection starts the handshake on an empty queue.\<close>

lemma on_connected_start:
  assumes inv: "outbound_inv c"
  obtains d where "kith_client_on_connected env c now = client_bootstrap_start env d"
    and "outbound_inv d" and "client_frames d = []" and "same_setup c d"
proof -
  let ?c1 = "(runtime_reset c)\<lparr>cl_connected := True\<rparr>"
  let ?c2 = "if cl_ping_type_id ?c1 \<noteq> 0 \<and> 0 < cl_ping_interval_ms ?c1
              then ?c1\<lparr>cl_next_ping_due_ms := now + ucast (cl_ping_interval_ms ?c1)\<rparr> else ?c1"
  let ?c3 = "?c2\<lparr>cl_outq := client_outq_clear (cl_outq ?c2)\<rparr>"
  have ok: "outq_ok (cl_outq c)"
    using inv by (simp add: outbound_inv_def queue_inv_def outq_inv_def)
  have "outbound_inv ?c2" "cl_outq ?c2 = cl_outq c"
    using inv by (auto simp: runtime_reset_def intro: outbound_inv_frame)
  moreover have "same_setup c ?c3"
    using client_outq_clear_frames(3) [OF ok] by (simp add: same_setup_def runtime_reset_def)
  ultimately show thesis
    using outbound_inv_clear [of ?c2] client_outq_clear_frames(2) [OF ok]
    by (intro that [of ?c3]) (simp_all add: kith_client_on_connected_def Let_def client_frames_def)
qed

end
