(* ===== verification/Evidence.thy ===== *)
theory Evidence
  imports Prelude
begin

text \<open>
  Frame retention and movement-window evaluation (\<open>python/kith/_agent/_evidence.py\<close>).

  \<open>EvidenceFrames\<close> keeps frames in two flat queues, two metadata integers and one payload per frame;
  \<open>frames_of\<close> is the list of frames it stands for. \<open>WindowSnapshot\<close> reduces captured frames to the
  identifiers seen, at most \<open>VIEW_WINDOW_ID_CAP\<close> of them, in batches of 64 frames. A Python set of
  integers is a set; the generator \<open>_batches\<close> is the list of the values it yields together with the
  exception that ends it, if any. The extractor is a callback and may raise.
\<close>

type_synonym evidence_frame = "int \<times> int \<times> bytes"

subsection \<open>Flat queues\<close>

datatype evidence_exc = IndexErr | StorageErr

record EvidenceFrames =
  ef_metadata :: "int list"
  ef_payloads :: "bytes list"

definition EvidenceFrames_init :: EvidenceFrames where
  "EvidenceFrames_init = \<lparr>ef_metadata = [], ef_payloads = []\<rparr>"

definition EvidenceFrames_len :: "EvidenceFrames \<Rightarrow> nat" where
  "EvidenceFrames_len f = length (ef_payloads f)"

text \<open>
  \<open>append_values\<close>: an append that fails (memory) is numbered 0, 1 or 2 by its position among the three;
  the handler pops both queues back to the lengths they had and raises again.
\<close>

definition append_values ::
    "nat option \<Rightarrow> EvidenceFrames \<Rightarrow> int \<Rightarrow> int \<Rightarrow> bytes \<Rightarrow>
     (evidence_exc + unit) \<times> EvidenceFrames" where
  "append_values fault f ts_ns type_id payload =
     (let metadata_length = length (ef_metadata f);
          payload_length = length (ef_payloads f);
          done = (case fault of None \<Rightarrow> 3 | Some k \<Rightarrow> k);
          f1 = f\<lparr>ef_metadata := ef_metadata f @ take done [ts_ns, type_id],
                 ef_payloads := ef_payloads f @ take (done - 2) [payload]\<rparr>
      in if 3 \<le> done then (Inr (), f1)
         else (Inl StorageErr,
               f1\<lparr>ef_payloads := take payload_length (ef_payloads f1),
                  ef_metadata := take metadata_length (ef_metadata f1)\<rparr>))"

definition evidence_append :: "EvidenceFrames \<Rightarrow> evidence_frame \<Rightarrow> EvidenceFrames" where
  "evidence_append f frame =
     (case frame of (ts, ty, payload) \<Rightarrow> snd (append_values None f ts ty payload))"

definition evidence_extend :: "EvidenceFrames \<Rightarrow> evidence_frame list \<Rightarrow> EvidenceFrames" where
  "evidence_extend = foldl evidence_append"

definition discard_oldest :: "EvidenceFrames \<Rightarrow> (evidence_exc + bytes) \<times> EvidenceFrames" where
  "discard_oldest f =
     (case ef_payloads f of
        [] \<Rightarrow> (Inl IndexErr, f)
      | p # ps \<Rightarrow> (Inr p, f\<lparr>ef_metadata := tl (tl (ef_metadata f)), ef_payloads := ps\<rparr>))"

definition popleft :: "EvidenceFrames \<Rightarrow> (evidence_exc + evidence_frame) \<times> EvidenceFrames" where
  "popleft f =
     (case ef_payloads f of
        [] \<Rightarrow> (Inl IndexErr, f)
      | p # ps \<Rightarrow>
          (Inr (ef_metadata f ! 0, ef_metadata f ! 1, p), snd (discard_oldest f)))"

definition oldest_timestamp :: "EvidenceFrames \<Rightarrow> evidence_exc + int" where
  "oldest_timestamp f = (case ef_metadata f of [] \<Rightarrow> Inl IndexErr | ts # _ \<Rightarrow> Inr ts)"

definition evidence_clear :: "EvidenceFrames \<Rightarrow> EvidenceFrames" where
  "evidence_clear f = \<lparr>ef_metadata = [], ef_payloads = []\<rparr>"

definition span_ns :: "EvidenceFrames \<Rightarrow> int option" where
  "span_ns f =
     (if ef_payloads f = [] then None
      else Some (ef_metadata f ! (length (ef_metadata f) - 2) - ef_metadata f ! 0))"

text \<open>\<open>__iter__\<close>: two metadata values per payload.\<close>

fun iter_frames :: "int list \<Rightarrow> bytes list \<Rightarrow> evidence_frame list" where
  "iter_frames (ts # ty # ms) (p # ps) = (ts, ty, p) # iter_frames ms ps"
| "iter_frames _ _ = []"

definition frames_of :: "EvidenceFrames \<Rightarrow> evidence_frame list" where
  "frames_of f = iter_frames (ef_metadata f) (ef_payloads f)"

definition evidence_ok :: "EvidenceFrames \<Rightarrow> bool" where
  "evidence_ok f \<longleftrightarrow> length (ef_metadata f) = 2 * length (ef_payloads f)"

lemma iter_frames_snoc:
  "length ms = 2 * length ps \<Longrightarrow> iter_frames (ms @ [ts, ty]) (ps @ [p]) = iter_frames ms ps @ [(ts, ty, p)]"
  by (induction ms ps rule: iter_frames.induct) auto

lemma length_iter_frames: "length ms = 2 * length ps \<Longrightarrow> length (iter_frames ms ps) = length ps"
  by (induction ms ps rule: iter_frames.induct) auto

lemma iter_frames_payloads: "length ms = 2 * length ps \<Longrightarrow> map (snd \<circ> snd) (iter_frames ms ps) = ps"
  by (induction ms ps rule: iter_frames.induct) auto

lemma frames_of_Cons:
  assumes "evidence_ok f" and "frames_of f = (ts, ty, p) # fs"
  obtains ms ps where "f = \<lparr>ef_metadata = ts # ty # ms, ef_payloads = p # ps\<rparr>"
    and "iter_frames ms ps = fs" and "length ms = 2 * length ps"
proof (cases f)
  case (fields metadata payloads)
  then show thesis
    using assms that by (cases "(metadata, payloads)" rule: iter_frames.cases)
      (auto simp: frames_of_def evidence_ok_def)
qed

lemma frames_of_empty_iff: "evidence_ok f \<Longrightarrow> frames_of f = [] \<longleftrightarrow> ef_payloads f = []"
  using length_iter_frames [of "ef_metadata f" "ef_payloads f"]
  by (auto simp: frames_of_def evidence_ok_def)

subsection \<open>The queue it implements\<close>

text \<open>
  What a user of the retention relies on: frames come out in the order they went in, a failed append
  changes nothing, and an empty store refuses to discard.
\<close>

locale frame_retention =
  fixes ok :: "'s \<Rightarrow> bool"
    and frames :: "'s \<Rightarrow> evidence_frame list"
    and append :: "'s \<Rightarrow> evidence_frame \<Rightarrow> 's"
    and pop :: "'s \<Rightarrow> (evidence_exc + evidence_frame) \<times> 's"
    and clear :: "'s \<Rightarrow> 's"
  assumes append_frames: "ok s \<Longrightarrow> ok (append s f) \<and> frames (append s f) = frames s @ [f]"
    and pop_frames: "ok s \<Longrightarrow> frames s = f # fs \<Longrightarrow> \<exists>s'. pop s = (Inr f, s') \<and> ok s' \<and> frames s' = fs"
    and pop_none: "ok s \<Longrightarrow> frames s = [] \<Longrightarrow> pop s = (Inl IndexErr, s)"
    and clear_frames: "ok s \<Longrightarrow> ok (clear s) \<and> frames (clear s) = []"
begin

lemma extend_frames: "ok s \<Longrightarrow> ok (foldl append s fs) \<and> frames (foldl append s fs) = frames s @ fs"
  by (induction fs arbitrary: s) (auto simp: append_frames)

lemma pop_after_extend:
  assumes "ok s" and "frames s = []" and "fs \<noteq> []"
  shows "fst (pop (foldl append s fs)) = Inr (hd fs)"
  using assms extend_frames [of s fs] pop_frames [of "foldl append s fs" "hd fs" "tl fs"]
  by auto

end

lemma append_frames_of:
  assumes "evidence_ok f"
  shows "evidence_ok (evidence_append f x) \<and> frames_of (evidence_append f x) = frames_of f @ [x]"
  using assms iter_frames_snoc
  by (cases x) (simp add: evidence_append_def append_values_def evidence_ok_def frames_of_def Let_def)

interpretation flat: frame_retention evidence_ok frames_of evidence_append popleft evidence_clear
proof
  fix s f fs assume ok: "evidence_ok s" and fs: "frames_of s = f # fs"
  then obtain ts ty p ms ps where "f = (ts, ty, p)"
      and "s = \<lparr>ef_metadata = ts # ty # ms, ef_payloads = p # ps\<rparr>"
      and "iter_frames ms ps = fs" and "length ms = 2 * length ps"
    by (cases f) (metis frames_of_Cons)
  then show "\<exists>s'. popleft s = (Inr f, s') \<and> evidence_ok s' \<and> frames_of s' = fs"
    by (simp add: popleft_def discard_oldest_def evidence_ok_def frames_of_def)
next
  fix s assume "evidence_ok s" and "frames_of s = []"
  then show "popleft s = (Inl IndexErr, s)"
    by (simp add: frames_of_empty_iff popleft_def)
next
  fix s f assume "evidence_ok s"
  then show "evidence_ok (evidence_append s f) \<and> frames_of (evidence_append s f) = frames_of s @ [f]"
    by (rule append_frames_of)
qed (simp add: evidence_clear_def evidence_ok_def frames_of_def)

subsection \<open>Window evaluation\<close>

definition VIEW_WINDOW_ID_CAP :: nat where "VIEW_WINDOW_ID_CAP = 256"

record WindowEvidence =
  we_distinct_ids :: "int set"
  we_frame_ts_ns :: "int list"
  we_incomplete :: bool
  we_deque_distinct_ids :: "int set"

record 'e WindowSnapshot =
  ws_frames :: "evidence_frame list"
  ws_start_ns :: "int option"
  ws_deadline_ns :: "int option"
  ws_incomplete :: bool
  ws_extractor :: "(int \<Rightarrow> bytes \<Rightarrow> 'e + int list) option"

definition in_window :: "'e WindowSnapshot \<Rightarrow> int \<Rightarrow> bool" where
  "in_window snap ts_ns \<longleftrightarrow>
     (case ws_start_ns snap of None \<Rightarrow> True | Some s \<Rightarrow> s \<le> ts_ns) \<and>
     (case ws_deadline_ns snap of None \<Rightarrow> True | Some d \<Rightarrow> ts_ns \<le> d)"

text \<open>\<open>ids.update(itertools.islice(extracted, CAP - len(ids)))\<close>\<close>

definition admit_ids :: "int set \<Rightarrow> int list \<Rightarrow> int set" where
  "admit_ids ids extracted = ids \<union> set (take (VIEW_WINDOW_ID_CAP - card ids) extracted)"

record reduction =
  rd_ids :: "int set"
  rd_deque_ids :: "int set"
  rd_frame_ts :: "int list"

definition reduce_frame ::
    "'e WindowSnapshot \<Rightarrow> reduction \<Rightarrow> evidence_frame \<Rightarrow> 'e + reduction" where
  "reduce_frame snap r frame =
     (case frame of (ts_ns, type_id, payload) \<Rightarrow>
        let inside = in_window snap ts_ns;
            r1 = (if inside then r\<lparr>rd_frame_ts := rd_frame_ts r @ [ts_ns]\<rparr> else r);
            want_deque = (card (rd_deque_ids r) < VIEW_WINDOW_ID_CAP);
            want_window = (inside \<and> card (rd_ids r) < VIEW_WINDOW_ID_CAP)
        in case ws_extractor snap of
             Some extractor \<Rightarrow>
               if want_deque \<or> want_window
               then rbind (extractor type_id payload) (\<lambda>extracted.
                      let r2 = (if want_deque
                                then r1\<lparr>rd_deque_ids := admit_ids (rd_deque_ids r1) extracted\<rparr>
                                else r1)
                      in Inr (if want_window then r2\<lparr>rd_ids := admit_ids (rd_ids r2) extracted\<rparr>
                              else r2))
               else Inr r1
           | None \<Rightarrow> Inr r1)"

fun batches_from ::
    "'e WindowSnapshot \<Rightarrow> nat \<Rightarrow> reduction \<Rightarrow> evidence_frame list \<Rightarrow>
     WindowEvidence option list \<times> 'e option" where
  "batches_from snap index r [] =
     ([Some \<lparr>we_distinct_ids = rd_ids r, we_frame_ts_ns = rd_frame_ts r,
             we_incomplete = ws_incomplete snap, we_deque_distinct_ids = rd_deque_ids r\<rparr>], None)"
| "batches_from snap index r (frame # frames) =
     (case reduce_frame snap r frame of
        Inl e \<Rightarrow> ([], Some e)
      | Inr r' \<Rightarrow>
          let (ys, e) = batches_from snap (Suc index) r' frames
          in (if index mod 64 = 0 then None # ys else ys, e))"

definition batches :: "'e WindowSnapshot \<Rightarrow> WindowEvidence option list \<times> 'e option" where
  "batches snap =
     batches_from snap 1 \<lparr>rd_ids = {}, rd_deque_ids = {}, rd_frame_ts = []\<rparr> (ws_frames snap)"

datatype 'e evaluate_exc = ExtractorRaised 'e | AssertionErr

text \<open>
  The consumer of the generator: the first value that is not None, or the generator's exception, or
  the assertion after the loop. The second component counts the values passed over, each of which
  the asynchronous form follows with one sleep.
\<close>

fun first_result ::
    "WindowEvidence option list \<Rightarrow> 'e option \<Rightarrow> ('e evaluate_exc + WindowEvidence) \<times> nat" where
  "first_result [] raised =
     (case raised of Some e \<Rightarrow> (Inl (ExtractorRaised e), 0) | None \<Rightarrow> (Inl AssertionErr, 0))"
| "first_result (Some ev # ys) raised = (Inr ev, 0)"
| "first_result (None # ys) raised =
     (let (res, n) = first_result ys raised in (res, Suc n))"

definition evaluate :: "'e WindowSnapshot \<Rightarrow> 'e evaluate_exc + WindowEvidence" where
  "evaluate snap = (let (ys, e) = batches snap in fst (first_result ys e))"

definition evaluate_async :: "'e WindowSnapshot \<Rightarrow> ('e evaluate_exc + WindowEvidence) \<times> nat" where
  "evaluate_async snap =
     (let (ys, e) = batches snap; (res, n) = first_result ys e in (res, Suc n))"


subsection \<open>Laws of the evaluation\<close>

definition evidence_of :: "'e WindowSnapshot \<Rightarrow> reduction \<Rightarrow> WindowEvidence" where
  "evidence_of snap r =
     \<lparr>we_distinct_ids = rd_ids r, we_frame_ts_ns = rd_frame_ts r,
      we_incomplete = ws_incomplete snap, we_deque_distinct_ids = rd_deque_ids r\<rparr>"

definition yields_between :: "nat \<Rightarrow> nat \<Rightarrow> nat" where
  "yields_between i n = length (filter (\<lambda>k. k mod 64 = 0) [i..<i + n])"

lemma yields_between_Suc:
  "yields_between i (Suc n) = (if i mod 64 = 0 then Suc (yields_between (Suc i) n) else yields_between (Suc i) n)"
  by (simp add: yields_between_def upt_conv_Cons del: upt_Suc)

lemma yields_from_1: "yields_between 1 n = n div 64"
proof (induction n)
  case (Suc n)
  have "[1..<1 + Suc n] = [1..<1 + n] @ [Suc n]" by simp
  then have "yields_between 1 (Suc n) = yields_between 1 n + (if Suc n mod 64 = 0 then 1 else 0)"
    by (simp only: yields_between_def filter_append length_append) simp
  then show ?case using Suc by (simp add: div_Suc)
qed (simp add: yields_between_def)

lemma first_result_batches:
  "case batches_from snap i r fs of (ys, e) \<Rightarrow>
     (case rfold (reduce_frame snap) r fs of
        Inr r' \<Rightarrow> first_result ys e = (Inr (evidence_of snap r'), yields_between i (length fs))
      | Inl x \<Rightarrow> fst (first_result ys e) = Inl (ExtractorRaised x))"
proof (induction fs arbitrary: i r)
  case Nil
  then show ?case by (simp add: evidence_of_def yields_between_def)
next
  case (Cons f fs)
  show ?case
  proof (cases "reduce_frame snap r f")
    case (Inl x)
    then show ?thesis by simp
  next
    case (Inr r')
    obtain ys e where b: "batches_from snap (Suc i) r' fs = (ys, e)" by fastforce
    with Cons [of "Suc i" r'] Inr show ?thesis
      by (auto simp: yields_between_Suc split: sum.splits prod.splits)
  qed
qed

definition reduction_start :: reduction where
  "reduction_start = \<lparr>rd_ids = {}, rd_deque_ids = {}, rd_frame_ts = []\<rparr>"

lemma evaluate_rfold:
  "case rfold (reduce_frame snap) reduction_start (ws_frames snap) of
     Inr r \<Rightarrow> evaluate snap = Inr (evidence_of snap r) \<and>
              evaluate_async snap = (Inr (evidence_of snap r), Suc (length (ws_frames snap) div 64))
   | Inl x \<Rightarrow> evaluate snap = Inl (ExtractorRaised x) \<and>
              fst (evaluate_async snap) = Inl (ExtractorRaised x)"
proof -
  obtain ys e where b: "batches snap = (ys, e)" by fastforce
  then show ?thesis
    using first_result_batches [where snap = snap and i = 1 and r = reduction_start and
        fs = "ws_frames snap"]
    by (auto simp: evaluate_def evaluate_async_def batches_def reduction_start_def [symmetric]
        yields_from_1 [unfolded One_nat_def] split: sum.splits prod.splits)
qed

lemma card_admit_ids:
  assumes "finite ids" and "card ids \<le> VIEW_WINDOW_ID_CAP"
  shows "finite (admit_ids ids xs) \<and> card (admit_ids ids xs) \<le> VIEW_WINDOW_ID_CAP"
proof -
  let ?n = "VIEW_WINDOW_ID_CAP - card ids"
  have "card (admit_ids ids xs) \<le> card ids + card (set (take ?n xs))"
    unfolding admit_ids_def by (rule card_Un_le)
  also have "\<dots> \<le> card ids + ?n"
    using card_length [of "take ?n xs"] by simp
  also have "\<dots> = VIEW_WINDOW_ID_CAP" using assms(2) by simp
  finally show ?thesis using assms(1) by (simp add: admit_ids_def)
qed

lemma admit_ids_all: "card ids + length xs \<le> VIEW_WINDOW_ID_CAP \<Longrightarrow> admit_ids ids xs = ids \<union> set xs"
  by (simp add: admit_ids_def)

text \<open>The frames that count, and the identifiers they carry.\<close>

definition window_frames :: "'e WindowSnapshot \<Rightarrow> evidence_frame list" where
  "window_frames snap = filter (\<lambda>(ts, _). in_window snap ts) (ws_frames snap)"

definition ids_in :: "(int \<Rightarrow> bytes \<Rightarrow> int list) \<Rightarrow> evidence_frame list \<Rightarrow> int set" where
  "ids_in ex fs = (\<Union>(ts, ty, p) \<in> set fs. set (ex ty p))"

lemma ids_in_simps [simp]:
  "ids_in ex [] = {}" "ids_in ex ((ts, ty, p) # fs) = set (ex ty p) \<union> ids_in ex fs"
  "ids_in ex (fs @ gs) = ids_in ex fs \<union> ids_in ex gs"
  by (auto simp: ids_in_def)

lemma finite_ids_in [simp]: "finite (ids_in ex fs)"
  by (auto simp: ids_in_def)

definition reduction_inv ::
    "'e WindowSnapshot \<Rightarrow> (int \<Rightarrow> bytes \<Rightarrow> int list) \<Rightarrow> evidence_frame list \<Rightarrow> reduction \<Rightarrow> bool" where
  "reduction_inv snap ex fs r \<longleftrightarrow>
     (let ws = filter (\<lambda>(ts, _). in_window snap ts) fs in
      rd_frame_ts r = map fst ws \<and>
      rd_ids r \<subseteq> ids_in ex ws \<and> card (rd_ids r) \<le> VIEW_WINDOW_ID_CAP \<and>
      rd_deque_ids r \<subseteq> ids_in ex fs \<and> card (rd_deque_ids r) \<le> VIEW_WINDOW_ID_CAP)"

lemma admit_ids_subset: "admit_ids ids xs \<subseteq> ids \<union> set xs"
  by (auto simp: admit_ids_def dest: in_set_takeD)

lemma reduce_frame_total:
  assumes "ws_extractor snap = Some (\<lambda>t p. Inr (ex t p))"
  shows "reduce_frame snap r (ts, ty, p) = Inr
     \<lparr>rd_ids = (if in_window snap ts \<and> card (rd_ids r) < VIEW_WINDOW_ID_CAP
                then admit_ids (rd_ids r) (ex ty p) else rd_ids r),
      rd_deque_ids = (if card (rd_deque_ids r) < VIEW_WINDOW_ID_CAP
                      then admit_ids (rd_deque_ids r) (ex ty p) else rd_deque_ids r),
      rd_frame_ts = (if in_window snap ts then rd_frame_ts r @ [ts] else rd_frame_ts r)\<rparr>"
  by (cases r) (simp add: reduce_frame_def assms Let_def)

lemma reduce_frame_inv:
  assumes inv: "reduction_inv snap ex fs r"
    and ex: "ws_extractor snap = Some (\<lambda>t p. Inr (ex t p))"
  obtains r' where "reduce_frame snap r (ts, ty, p) = Inr r'" and "reduction_inv snap ex (fs @ [(ts, ty, p)]) r'"
proof -
  have fin: "finite (rd_ids r)" "finite (rd_deque_ids r)"
    using inv by (auto simp: reduction_inv_def Let_def intro: finite_subset [OF _ finite_ids_in])
  define d where "d = (if card (rd_deque_ids r) < VIEW_WINDOW_ID_CAP
                       then admit_ids (rd_deque_ids r) (ex ty p) else rd_deque_ids r)"
  define w where "w = (if in_window snap ts \<and> card (rd_ids r) < VIEW_WINDOW_ID_CAP
                       then admit_ids (rd_ids r) (ex ty p) else rd_ids r)"
  let ?r = "\<lparr>rd_ids = w, rd_deque_ids = d,
             rd_frame_ts = (if in_window snap ts then rd_frame_ts r @ [ts] else rd_frame_ts r)\<rparr>"
  have "reduce_frame snap r (ts, ty, p) = Inr ?r"
    by (simp add: reduce_frame_total [OF ex] d_def w_def)
  moreover have "card d \<le> VIEW_WINDOW_ID_CAP" "d \<subseteq> rd_deque_ids r \<union> set (ex ty p)"
    using inv card_admit_ids [OF fin(2)] admit_ids_subset
    by (auto simp: d_def reduction_inv_def Let_def)
  moreover have "card w \<le> VIEW_WINDOW_ID_CAP"
      "w \<subseteq> (if in_window snap ts then rd_ids r \<union> set (ex ty p) else rd_ids r)"
    using inv card_admit_ids [OF fin(1)] admit_ids_subset
    by (auto simp: w_def reduction_inv_def Let_def)
  ultimately show thesis
    using inv by (intro that [of ?r]) (auto simp: reduction_inv_def Let_def split: if_splits)
qed

lemma reduce_frames_inv:
  assumes ex: "ws_extractor snap = Some (\<lambda>t p. Inr (ex t p))"
  shows "\<exists>r. rfold (reduce_frame snap) reduction_start fs = Inr r \<and> reduction_inv snap ex fs r"
proof (induction fs rule: rev_induct)
  case Nil
  then show ?case by (simp add: reduction_inv_def reduction_start_def)
next
  case (snoc f fs)
  then obtain r where r: "rfold (reduce_frame snap) reduction_start fs = Inr r"
      "reduction_inv snap ex fs r" by blast
  obtain ts ty p where f: "f = (ts, ty, p)" by (cases f)
  obtain r' where "reduce_frame snap r f = Inr r'" "reduction_inv snap ex (fs @ [f]) r'"
    using reduce_frame_inv [OF r(2) ex] unfolding f by blast
  then show ?case using r(1) by (simp add: rfold_append)
qed

text \<open>While the identifiers found and the next frame fit under the cap together, nothing is missed.\<close>

lemma reduce_frames_complete:
  assumes ex: "ws_extractor snap = Some (\<lambda>t p. Inr (ex t p))"
    and fits: "\<forall>(ts, ty, p) \<in> set fs. card (ids_in ex fs) + length (ex ty p) \<le> VIEW_WINDOW_ID_CAP"
  shows "\<exists>r. rfold (reduce_frame snap) reduction_start fs = Inr r \<and>
             rd_ids r = ids_in ex (filter (\<lambda>(ts, _). in_window snap ts) fs) \<and>
             rd_deque_ids r = ids_in ex fs"
  using fits
proof (induction fs rule: rev_induct)
  case Nil
  then show ?case by (simp add: reduction_start_def)
next
  case (snoc f fs)
  obtain ts ty p where f: "f = (ts, ty, p)" by (cases f)
  let ?ws = "filter (\<lambda>(ts, _). in_window snap ts) fs"
  have mono: "card (ids_in ex fs) \<le> card (ids_in ex (fs @ [f]))"
    by (intro card_mono) (auto simp: f)
  then have "\<forall>(ts, ty, p) \<in> set fs. card (ids_in ex fs) + length (ex ty p) \<le> VIEW_WINDOW_ID_CAP"
    using snoc.prems by fastforce
  then obtain r where r: "rfold (reduce_frame snap) reduction_start fs = Inr r"
      "rd_ids r = ids_in ex ?ws" "rd_deque_ids r = ids_in ex fs"
    using snoc.IH by blast
  have room: "card (ids_in ex fs) + length (ex ty p) \<le> VIEW_WINDOW_ID_CAP"
    using snoc.prems mono f by auto
  have "card (ids_in ex ?ws) \<le> card (ids_in ex fs)"
    by (intro card_mono) (auto simp: ids_in_def)
  then have room': "card (ids_in ex ?ws) + length (ex ty p) \<le> VIEW_WINDOW_ID_CAP"
    using room by linarith
  have skip: "\<not> card ids < VIEW_WINDOW_ID_CAP \<Longrightarrow> card ids + length (ex ty p) \<le> VIEW_WINDOW_ID_CAP \<Longrightarrow>
      ex ty p = []" for ids :: "int set"
    by (metis add_leD1 add_le_same_cancel1 le_antisym le_zero_eq length_0_conv not_less)
  show ?case
    using r room room' skip [of "ids_in ex fs"] skip [of "ids_in ex ?ws"]
    by (simp add: rfold_append f reduce_frame_total [OF ex] admit_ids_all)
qed

subsection \<open>Properties\<close>

text \<open>
  Evaluating a captured window always returns, and the two ways to evaluate agree. For every
  snapshot, \<open>evaluate\<close> produces the evidence or raises what the extractor raised; the assertion that
  guards the end of its loop is never reached. \<open>evaluate_async\<close> gives the same result, and when it
  returns evidence it has yielded to the event loop once at the start and once per 64 frames.
\<close>

theorem evaluation_returns:
  "evaluate snap \<noteq> Inl AssertionErr \<and> fst (evaluate_async snap) = evaluate snap \<and>
   (\<forall>ev. evaluate snap = Inr ev \<longrightarrow>
      snd (evaluate_async snap) = 1 + length (ws_frames snap) div 64)"
  using evaluate_rfold [of snap] by (auto split: sum.splits)

definition plain_snapshot :: "evidence_frame list \<Rightarrow> (int \<Rightarrow> bytes \<Rightarrow> int list) \<Rightarrow> unit WindowSnapshot" where
  "plain_snapshot fs ex =
     \<lparr>ws_frames = fs, ws_start_ns = Some 10, ws_deadline_ns = None, ws_incomplete = False,
      ws_extractor = Some (\<lambda>t p. Inr (ex t p))\<rparr>"

theorem evaluation_returns_witness:
  "evaluate (plain_snapshot [(12, 1, [])] (\<lambda>_ _. [5])) =
     Inr \<lparr>we_distinct_ids = {5}, we_frame_ts_ns = [12], we_incomplete = False, we_deque_distinct_ids = {5}\<rparr> \<and>
   snd (evaluate_async (plain_snapshot [(12, 1, [])] (\<lambda>_ _. [5]))) = 1"
proof -
  let ?s = "plain_snapshot [(12, 1, [])] (\<lambda>_ _. [5])"
  have "evaluate ?s =
     Inr \<lparr>we_distinct_ids = {5}, we_frame_ts_ns = [12], we_incomplete = False, we_deque_distinct_ids = {5}\<rparr>"
    by (simp add: evaluate_def batches_def plain_snapshot_def reduce_frame_def in_window_def
        admit_ids_def VIEW_WINDOW_ID_CAP_def)
  with evaluation_returns [of ?s] show ?thesis
    by (simp add: plain_snapshot_def)
qed



end
