(* ===== verification/AgentClient.thy ===== *)
theory AgentClient
  imports ClientLaws Evidence PyStruct
begin

unbundle bit_operations_syntax

text \<open>
  The headless client (\<open>python/kith/_agent/ahc.py\<close>, class \<open>AgenticHeadlessClient\<close>) over the client
  engine: construction, type registration, submission, the outbound drain, the inbound consumer with
  its direct path, keepalive, the event history and the movement-window accumulator.

  The object is the record \<open>agent\<close>; the codec handle is shared with the engine and lives in
  \<open>cl_proto (ag_engine a)\<close>. \<open>agent_env\<close> holds what the process observes: the allocator and locks
  (\<open>ae_call\<close>), the successive readings of \<open>time.monotonic_ns\<close> (\<open>ae_clock\<close>, indexed by the number of
  readings taken so far) and the size of the transport's write buffer after the writes made
  (\<open>ae_buffered\<close>). Asyncio delivers callbacks one at a time on one thread, so each method is a
  function of the state. The two loops that the source does not bound, the drain and the inbound
  consumer, are partial functions: a run that does not end is \<open>None\<close>.

  Subscriber output is the list of events pushed; their JSON rendering, the sockets, the tasks and the
  two servers of the class are not part of the model.
\<close>

datatype agent_exc = ClientErr client_error | ValueError

record ClientEvent =
  ev_ts_mono_ns :: int
  ev_type_id :: int
  ev_correlation_id :: int
  ev_payload :: bytes

record transport =
  tr_closing :: bool
  tr_written :: "bytes list"

record agent_env =
  ae_call :: call_env
  ae_clock :: "nat \<Rightarrow> int"
  ae_buffered :: "bytes list \<Rightarrow> nat"

record 'e agent =
  ag_engine :: kith_client
  ag_reads :: nat
  ag_registered_type_ids :: "int set"
  ag_direct_wire_limit :: nat
  ag_out_limit :: nat
  ag_out_cap :: nat
  ag_outbound_empty :: bool
  ag_direct_type_ids :: "int set"
  ag_pong_type_id :: int
  ag_pong_timeout_ms :: int
  ag_direct_ready :: bool
  ag_summary_mode :: bool
  ag_summary_slot :: "ClientEvent option"
  ag_summary_last_keep_ns :: "int option"
  ag_evidence_budget_bytes :: nat
  ag_evidence :: EvidenceFrames
  ag_evidence_bytes :: nat
  ag_evidence_evictions :: nat
  ag_evidence_retired :: bool
  ag_window_id_extractor :: "(int \<Rightarrow> bytes \<Rightarrow> 'e + int list) option"
  ag_window_start_ns :: "int option"
  ag_window_open :: bool
  ag_window_deadline_ns :: "int option"
  ag_window_evidence :: "WindowEvidence option"
  ag_window_generation :: nat
  ag_window_evicted_in_window :: bool
  ag_last_frame_ts_ns :: "int option"
  ag_replication_count :: nat
  ag_draining :: bool
  ag_event_history_size :: nat
  ag_event_history :: "ClientEvent list"
  ag_pending_push :: "ClientEvent list"
  ag_subscriptions :: "int set"
  ag_subscribe_all :: bool
  ag_pushed :: "ClientEvent list"
  ag_running :: bool
  ag_transport :: "transport option"
  ag_inbuf :: bytes

definition monotonic_ns :: "agent_env \<Rightarrow> 'e agent \<Rightarrow> int \<times> 'e agent" where
  "monotonic_ns env a = (ae_clock env (ag_reads a), a\<lparr>ag_reads := Suc (ag_reads a)\<rparr>)"

definition now_ms :: "agent_env \<Rightarrow> 'e agent \<Rightarrow> 64 word \<times> 'e agent" where
  "now_ms env a =
     (let (ns, a') = monotonic_ns env a in (word_of_int (ns div 1000000), a'))"

definition agent_check :: "kith_error + 'a \<Rightarrow> agent_exc + 'a" where
  "agent_check r =
     (case r of Inl e \<Rightarrow> Inl (ClientErr (KithClientError (kith_error_value e))) | Inr v \<Rightarrow> Inr v)"

subsection \<open>Construction\<close>

definition UINT32_MAX :: nat where "UINT32_MAX = 2 ^ 32 - 1"
definition PROTO_DEFAULT_MAX_PAYLOAD :: nat where "PROTO_DEFAULT_MAX_PAYLOAD = 2 ^ 20"
definition OUTBOUND_HIGH_WATER :: nat where "OUTBOUND_HIGH_WATER = 256 * 1024"
definition CLIENT_DEFAULT_PING_INTERVAL_MS :: int where "CLIENT_DEFAULT_PING_INTERVAL_MS = 1000"

record agent_args =
  aa_max_payload :: int
  aa_outbound_buffer_initial_bytes :: int
  aa_outbound_cap :: int
  aa_event_cap :: int
  aa_ping_type_id :: int
  aa_pong_type_id :: int
  aa_ping_interval_ms :: int
  aa_pong_timeout_ms :: int
  aa_reconnect_base_ms :: int
  aa_reconnect_max_ms :: int
  aa_reconnect_max_attempts :: int
  aa_event_history_size :: nat
  aa_direct_type_ids :: "int set"
  aa_summary_mode :: bool
  aa_evidence_budget_bytes :: nat

definition effective_ping_interval :: "agent_args \<Rightarrow> int" where
  "effective_ping_interval args =
     (let v = uint (word_of_int (aa_ping_interval_ms args) :: 32 word)
      in if v = 0 then CLIENT_DEFAULT_PING_INTERVAL_MS else v)"

definition create_client_params :: "agent_args \<Rightarrow> client_params" where
  "create_client_params args =
     \<lparr>cp_outbound_cap = word_of_int (aa_outbound_cap args),
      cp_event_cap = word_of_int (aa_event_cap args),
      cp_ping_type_id = word_of_int (aa_ping_type_id args),
      cp_pong_type_id = word_of_int (aa_pong_type_id args),
      cp_ping_interval_ms = word_of_int (effective_ping_interval args),
      cp_reconnect_base_ms = word_of_int (aa_reconnect_base_ms args),
      cp_reconnect_max_ms = word_of_int (aa_reconnect_max_ms args),
      cp_reconnect_max_attempts = word_of_int (aa_reconnect_max_attempts args)\<rparr>"

definition agent_of ::
    "agent_args \<Rightarrow> (int \<Rightarrow> bytes \<Rightarrow> 'e + int list) option \<Rightarrow> kith_client \<Rightarrow> 'e agent" where
  "agent_of args extractor engine =
     (let wire_limit = (if aa_max_payload args \<noteq> 0 then nat (aa_max_payload args)
                        else PROTO_DEFAULT_MAX_PAYLOAD);
          out_limit = min (KITH_PROTO_HDR_SIZE + wire_limit) UINT32_MAX;
          ping_interval = (if (word_of_int (aa_ping_type_id args) :: 16 word) \<noteq> 0
                           then effective_ping_interval args else 0)
      in \<lparr>ag_engine = engine, ag_reads = 0, ag_registered_type_ids = {},
          ag_direct_wire_limit = wire_limit, ag_out_limit = out_limit,
          ag_out_cap = min (nat (aa_outbound_buffer_initial_bytes args)) out_limit,
          ag_outbound_empty = False, ag_direct_type_ids = aa_direct_type_ids args,
          ag_pong_type_id = uint (word_of_int (aa_pong_type_id args) :: 16 word),
          ag_pong_timeout_ms =
            (if aa_pong_timeout_ms args \<noteq> 0 then aa_pong_timeout_ms args else 3 * ping_interval),
          ag_direct_ready = False, ag_summary_mode = aa_summary_mode args, ag_summary_slot = None,
          ag_summary_last_keep_ns = None,
          ag_evidence_budget_bytes = aa_evidence_budget_bytes args,
          ag_evidence = EvidenceFrames_init, ag_evidence_bytes = 0, ag_evidence_evictions = 0,
          ag_evidence_retired = False, ag_window_id_extractor = extractor,
          ag_window_start_ns = None, ag_window_open = False, ag_window_deadline_ns = None,
          ag_window_evidence = None, ag_window_generation = 0,
          ag_window_evicted_in_window = False, ag_last_frame_ts_ns = None,
          ag_replication_count = 0, ag_draining = False,
          ag_event_history_size = aa_event_history_size args, ag_event_history = [],
          ag_pending_push = [], ag_subscriptions = {}, ag_subscribe_all = False, ag_pushed = [],
          ag_running = False, ag_transport = None, ag_inbuf = []\<rparr>)"

definition AHC_init ::
    "call_env \<Rightarrow> agent_args \<Rightarrow> (int \<Rightarrow> bytes \<Rightarrow> 'e + int list) option \<Rightarrow> agent_exc + 'e agent" where
  "AHC_init env args extractor =
     (if \<not> (0 \<le> aa_max_payload args \<and> aa_max_payload args \<le> int UINT32_MAX) then Inl ValueError
      else if \<not> (0 < aa_outbound_buffer_initial_bytes args \<and>
                 aa_outbound_buffer_initial_bytes args \<le> int UINT32_MAX) then Inl ValueError
      else
        rbind (agent_check (kith_proto_create env (word_of_int (aa_max_payload args)))) (\<lambda>proto.
        rbind (agent_check (kith_client_create env (create_client_params args) (Some proto))) (\<lambda>c.
        Inr (agent_of args extractor c))))"

definition AHC_register_type ::
    "agent_env \<Rightarrow> 'e agent \<Rightarrow> bytes \<Rightarrow> int \<Rightarrow> (agent_exc + unit) \<times> 'e agent" where
  "AHC_register_type env a name type_id =
     (let wire_type_id = type_id AND 0xFFFF;
          (r, p) = kith_proto_register_type_id (ae_call env) (Some (cl_proto (ag_engine a)))
                     (Some name) (word_of_int wire_type_id);
          a1 = a\<lparr>ag_engine := (ag_engine a)\<lparr>cl_proto := the p\<rparr>\<rparr>
      in case agent_check r of
           Inl e \<Rightarrow> (Inl e, a1)
         | Inr _ \<Rightarrow>
             (Inr (), a1\<lparr>ag_registered_type_ids := insert wire_type_id (ag_registered_type_ids a1)\<rparr>))"

subsection \<open>The outbound drain\<close>

text \<open>
  \<open>_pop_outbound\<close> retries with a buffer twice as large, up to the limit, while the engine answers that
  the next frame does not fit; the loop is written over any source of frames.
\<close>

partial_function (option) pop_growing ::
    "('q \<Rightarrow> 32 word \<Rightarrow> (kith_error + bytes) \<times> 'q) \<Rightarrow> nat \<Rightarrow> nat \<Rightarrow> 'q \<Rightarrow>
     ((kith_error + bytes option) \<times> nat \<times> 'q) option" where
  "pop_growing pop limit capacity q =
     (case pop q (of_nat capacity) of
        (Inl e, q') \<Rightarrow>
          if e = KITH_EAGAIN then Some (Inr None, capacity, q')
          else if e = KITH_EOVERFLOW \<and> capacity < limit
          then pop_growing pop limit (min (capacity * 2) limit) q'
          else Some (Inl e, capacity, q')
      | (Inr frame, q') \<Rightarrow> Some (Inr (Some frame), capacity, q'))"

definition pop_outbound :: "'e agent \<Rightarrow> ((agent_exc + bytes option) \<times> 'e agent) option" where
  "pop_outbound a =
     map_option (\<lambda>(r, capacity, c).
         (agent_check r,
          a\<lparr>ag_engine := c, ag_out_cap := capacity, ag_outbound_empty := (r = Inr None)\<rparr>))
       (pop_growing kith_client_pop_outbound (ag_out_limit a) (ag_out_cap a) (ag_engine a))"

definition transport_write :: "'e agent \<Rightarrow> bytes \<Rightarrow> 'e agent" where
  "transport_write a frame =
     a\<lparr>ag_transport :=
         map_option (\<lambda>t. t\<lparr>tr_written := tr_written t @ [frame]\<rparr>) (ag_transport a)\<rparr>"

definition write_buffer_size :: "agent_env \<Rightarrow> 'e agent \<Rightarrow> nat" where
  "write_buffer_size env a =
     (case ag_transport a of None \<Rightarrow> 0 | Some t \<Rightarrow> ae_buffered env (tr_written t))"

partial_function (option) flush_loop ::
    "agent_env \<Rightarrow> 'e agent \<Rightarrow> ((agent_exc + unit) \<times> 'e agent) option" where
  "flush_loop env a =
     (case pop_outbound a of
        None \<Rightarrow> None
      | Some (Inl e, a') \<Rightarrow> Some (Inl e, a')
      | Some (Inr None, a') \<Rightarrow> Some (Inr (), a')
      | Some (Inr (Some frame), a') \<Rightarrow>
          let a2 = transport_write a' frame
          in if OUTBOUND_HIGH_WATER \<le> write_buffer_size env a2 then Some (Inr (), a2)
             else flush_loop env a2)"

definition flush_outbound :: "agent_env \<Rightarrow> 'e agent \<Rightarrow> ((agent_exc + unit) \<times> 'e agent) option" where
  "flush_outbound env a =
     (if ag_draining a \<or> \<not> ag_running a then Some (Inr (), a)
      else case ag_transport a of
        None \<Rightarrow> Some (Inr (), a)
      | Some t \<Rightarrow>
          if tr_closing t then Some (Inr (), a)
          else map_option (\<lambda>(r, a'). (r, a'\<lparr>ag_draining := False\<rparr>))
                 (flush_loop env (a\<lparr>ag_draining := True\<rparr>)))"

definition request_flush :: "agent_env \<Rightarrow> 'e agent \<Rightarrow> ((agent_exc + unit) \<times> 'e agent) option" where
  "request_flush env a = flush_outbound env (a\<lparr>ag_outbound_empty := False\<rparr>)"

definition submit_on_loop ::
    "agent_env \<Rightarrow> 'e agent \<Rightarrow> int \<Rightarrow> bytes \<Rightarrow> int \<Rightarrow> int \<Rightarrow>
     ((agent_exc + int) \<times> 'e agent) option" where
  "submit_on_loop env a type_id payload flags correlation_id =
     (let cmd = \<lparr>cm_type_id = word_of_int (type_id AND 0xFFFF), cm_flags = word_of_int (flags AND 0xFF),
                 cm_correlation_id = word_of_int (correlation_id AND 0xFFFFFFFFFFFFFFFF),
                 cm_payload = Some payload, cm_payload_len = of_nat (length payload)\<rparr>;
          (r, c) = kith_client_submit_interactive (ae_call env) (ag_engine a) cmd;
          a1 = a\<lparr>ag_engine := c, ag_outbound_empty := False\<rparr>
      in case agent_check r of
           Inl e \<Rightarrow> Some (Inl e, a1)
         | Inr cmd_id \<Rightarrow>
             map_option (\<lambda>(f, a2). (case f of Inl e \<Rightarrow> Inl e | Inr _ \<Rightarrow> Inr (uint cmd_id), a2))
               (request_flush env a1))"

definition probe_stalled_outbound :: "agent_env \<Rightarrow> 'e agent \<Rightarrow> 'e agent option" where
  "probe_stalled_outbound env a =
     (if \<not> ag_running a \<or> ag_draining a then Some a
      else case ag_transport a of
        None \<Rightarrow> Some a
      | Some t \<Rightarrow>
          if tr_closing t then Some a
          else (case pop_outbound a of
                  None \<Rightarrow> None
                | Some (Inl e, a') \<Rightarrow> Some a'
                | Some (Inr None, a') \<Rightarrow> Some a'
                | Some (Inr (Some frame), a') \<Rightarrow>
                    map_option snd (request_flush env (transport_write a' frame))))"

subsection \<open>Keepalive\<close>

definition check_pong_staleness :: "agent_env \<Rightarrow> 'e agent \<Rightarrow> 'e agent" where
  "check_pong_staleness env a =
     (if ag_pong_timeout_ms a \<le> 0 then a
      else let rs = kith_client_runtime_status (ag_engine a) in
      if \<not> rst_awaiting_pong rs \<or> rst_last_ping_sent_ms rs = 0 then a
      else let (ns, a1) = monotonic_ns env a;
               elapsed = ns div 1000000 - uint (rst_last_ping_sent_ms rs)
           in if elapsed \<le> ag_pong_timeout_ms a1 then a1
              else a1\<lparr>ag_transport := map_option (\<lambda>t. t\<lparr>tr_closing := True\<rparr>) (ag_transport a1)\<rparr>)"

definition tick_engine :: "agent_env \<Rightarrow> 'e agent \<Rightarrow> ((agent_exc + unit) \<times> 'e agent) option" where
  "tick_engine env a =
     (if \<not> ag_running a then Some (Inr (), a)
      else let (now, a1) = now_ms env a;
               c = snd (kith_client_tick (ae_call env) (ag_engine a1) now);
               a2 = a1\<lparr>ag_engine := c, ag_outbound_empty := False\<rparr>
           in request_flush env (check_pong_staleness env a2))"

subsection \<open>Events\<close>

definition deque_append :: "nat \<Rightarrow> 'a list \<Rightarrow> 'a \<Rightarrow> 'a list" where
  "deque_append maxlen xs x = last_n maxlen (xs @ [x])"

definition record_event :: "'e agent \<Rightarrow> ClientEvent \<Rightarrow> 'e agent" where
  "record_event a event =
     a\<lparr>ag_event_history := deque_append (ag_event_history_size a) (ag_event_history a) event,
       ag_pending_push := ag_pending_push a @ [event]\<rparr>"

definition on_frame_c :: "agent_env \<Rightarrow> 'e agent \<Rightarrow> c_frame \<Rightarrow> 'e agent" where
  "on_frame_c env a frame =
     (let payload = (case cf_payload frame of None \<Rightarrow> [] | Some b \<Rightarrow> b);
          (ts, a1) = monotonic_ns env a;
          event = \<lparr>ev_ts_mono_ns = ts, ev_type_id = uint (cf_type_id frame),
                   ev_correlation_id =
                     (if cf_has_correlation frame then uint (cf_correlation_id frame) else 0),
                   ev_payload = payload\<rparr>
      in record_event (a1\<lparr>ag_last_frame_ts_ns := Some ts\<rparr>) event)"

definition matches_subscription :: "'e agent \<Rightarrow> int \<Rightarrow> bool" where
  "matches_subscription a type_id \<longleftrightarrow> ag_subscribe_all a \<or> type_id \<in> ag_subscriptions a"

definition flush_pushes :: "'e agent \<Rightarrow> 'e agent" where
  "flush_pushes a =
     (if ag_pending_push a = [] then a
      else a\<lparr>ag_pushed :=
               ag_pushed a @ filter (\<lambda>e. matches_subscription a (ev_type_id e)) (ag_pending_push a),
             ag_pending_push := []\<rparr>)"

text \<open>\<open>items[-count:] if count < len(items) else items\<close>, with Python's reading of a negative start.\<close>

definition slice_from :: "int \<Rightarrow> 'a list \<Rightarrow> 'a list" where
  "slice_from start xs =
     (if 0 \<le> start then drop (nat start) xs else drop (nat (int (length xs) + start)) xs)"

definition recent_events :: "'e agent \<Rightarrow> int \<Rightarrow> ClientEvent list" where
  "recent_events a count_arg =
     (if ag_summary_mode a then (case ag_summary_slot a of None \<Rightarrow> [] | Some e \<Rightarrow> [e])
      else if count_arg < int (length (ag_event_history a))
      then slice_from (- count_arg) (ag_event_history a) else ag_event_history a)"

definition evidence_frames :: "'e agent \<Rightarrow> ClientEvent list" where
  "evidence_frames a =
     map (\<lambda>(ts, type_id, payload).
            \<lparr>ev_ts_mono_ns = ts, ev_type_id = type_id, ev_correlation_id = 0, ev_payload = payload\<rparr>)
       (frames_of (ag_evidence a))"

definition last_frame_age_ns :: "agent_env \<Rightarrow> 'e agent \<Rightarrow> int option" where
  "last_frame_age_ns env a =
     map_option (\<lambda>ts. ae_clock env (ag_reads a) - ts) (ag_last_frame_ts_ns a)"

subsection \<open>The movement window\<close>

definition begin_view_window :: "agent_env \<Rightarrow> 'e agent \<Rightarrow> 'e agent" where
  "begin_view_window env a =
     (let (ts, a1) = monotonic_ns env (a\<lparr>ag_window_generation := Suc (ag_window_generation a)\<rparr>)
      in a1\<lparr>ag_window_start_ns := Some ts, ag_window_open := True, ag_evidence_retired := False,
            ag_window_deadline_ns := None, ag_window_evidence := None,
            ag_window_evicted_in_window := False\<rparr>)"

definition seal_view_window :: "'e agent \<Rightarrow> int \<Rightarrow> 'e agent" where
  "seal_view_window a deadline_ns =
     a\<lparr>ag_window_generation := Suc (ag_window_generation a), ag_window_evidence := None,
       ag_window_deadline_ns := Some deadline_ns\<rparr>"

definition snapshot_view_window :: "'e agent \<Rightarrow> 'e WindowSnapshot option" where
  "snapshot_view_window a =
     (if \<not> ag_window_open a then None
      else Some \<lparr>ws_frames = frames_of (ag_evidence a), ws_start_ns = ag_window_start_ns a,
                 ws_deadline_ns = ag_window_deadline_ns a,
                 ws_incomplete = (ag_window_evicted_in_window a \<or> ag_evidence_budget_bytes a = 0),
                 ws_extractor = ag_window_id_extractor a\<rparr>)"

definition retire_view_window :: "'e agent \<Rightarrow> 'e agent" where
  "retire_view_window a =
     (if ag_evidence_retired a then a
      else a\<lparr>ag_window_generation := Suc (ag_window_generation a), ag_window_open := False,
             ag_window_evidence := None, ag_evidence_retired := True,
             ag_evidence := evidence_clear (ag_evidence a), ag_evidence_bytes := 0\<rparr>)"

definition cache_window_evidence :: "'e agent \<Rightarrow> nat \<Rightarrow> bool \<Rightarrow> WindowEvidence \<Rightarrow> 'e agent" where
  "cache_window_evidence a generation final evidence =
     (if final \<and> generation = ag_window_generation a \<and> ag_window_evidence a = None
      then a\<lparr>ag_window_evidence := Some evidence\<rparr> else a)"

definition view_window ::
    "agent_env \<Rightarrow> 'e agent \<Rightarrow> ('e evaluate_exc + WindowEvidence option) \<times> 'e agent" where
  "view_window env a =
     (case ag_window_evidence a of
        Some ev \<Rightarrow> (Inr (Some ev), a)
      | None \<Rightarrow>
          let generation = ag_window_generation a;
              (captured_ns, a1) = monotonic_ns env a
          in case snapshot_view_window a1 of
               None \<Rightarrow> (Inr None, a1)
             | Some snap \<Rightarrow>
                 let final = (case ws_deadline_ns snap of None \<Rightarrow> False | Some d \<Rightarrow> d \<le> captured_ns)
                 in case evaluate snap of
                      Inl e \<Rightarrow> (Inl e, a1)
                    | Inr ev \<Rightarrow> (Inr (Some ev), cache_window_evidence a1 generation final ev))"

text \<open>
  \<open>_append_evidence\<close>: the loop evicts the oldest frames while the bytes retained exceed the budget. It
  ends because each round removes a payload.
\<close>

function evict_loop :: "'e agent \<Rightarrow> 'e agent" where
  "evict_loop a =
     (case ef_payloads (ag_evidence a) of
        [] \<Rightarrow> a
      | dropped # payloads \<Rightarrow>
          if ag_evidence_budget_bytes a < ag_evidence_bytes a
          then let metadata = ef_metadata (ag_evidence a);
                   dropped_in_window =
                     (ag_window_open a \<and> \<not> ag_window_evicted_in_window a \<and>
                      (case ag_window_start_ns a of None \<Rightarrow> False | Some s \<Rightarrow> s \<le> metadata ! 0))
               in evict_loop
                    (a\<lparr>ag_evidence := \<lparr>ef_metadata = tl (tl metadata), ef_payloads = payloads\<rparr>,
                       ag_evidence_bytes := ag_evidence_bytes a - length dropped,
                       ag_evidence_evictions := Suc (ag_evidence_evictions a),
                       ag_window_evicted_in_window :=
                         (dropped_in_window \<or> ag_window_evicted_in_window a)\<rparr>)
          else a)"
  by pat_completeness auto

termination
  by (relation "measure (\<lambda>a. length (ef_payloads (ag_evidence a)))") auto

declare evict_loop.simps [simp del]

definition append_evidence :: "'e agent \<Rightarrow> int \<Rightarrow> int \<Rightarrow> bytes \<Rightarrow> 'e agent" where
  "append_evidence a ts_ns type_id payload =
     evict_loop
       (a\<lparr>ag_evidence := \<lparr>ef_metadata = ef_metadata (ag_evidence a) @ [ts_ns, type_id],
                          ef_payloads = ef_payloads (ag_evidence a) @ [payload]\<rparr>,
          ag_evidence_bytes := ag_evidence_bytes a + length payload\<rparr>)"

definition arm_connection :: "'e agent \<Rightarrow> 'e agent" where
  "arm_connection a =
     (let a1 = a\<lparr>ag_direct_ready := False, ag_summary_slot := None, ag_summary_last_keep_ns := None\<rparr>
      in if \<not> ag_window_open a1
         then a1\<lparr>ag_evidence := evidence_clear (ag_evidence a1), ag_evidence_bytes := 0\<rparr> else a1)"

subsection \<open>The inbound consumer\<close>

definition HEADER_FORMAT :: "fmt list" where "HEADER_FORMAT = [FB, FB, FB, FB, FH, FI]"
definition CORR_TRAILER_SIZE :: nat where "CORR_TRAILER_SIZE = 8"
definition SUMMARY_MIN_INTERVAL_NS :: int where "SUMMARY_MIN_INTERVAL_NS = 1000000000"

definition poll_direct_ready :: "'e agent \<Rightarrow> 'e agent" where
  "poll_direct_ready a =
     (if bst_state (kith_client_bootstrap_status (ag_engine a)) = BOOTSTRAP_READY
      then a\<lparr>ag_direct_ready := True\<rparr> else a)"

definition match_direct_frame :: "'e agent \<Rightarrow> bytes \<Rightarrow> nat \<Rightarrow> (int \<times> int \<times> nat \<times> nat) option" where
  "match_direct_frame a buf pos =
     (if \<not> ag_direct_ready a \<or> ag_direct_type_ids a = {} then None
      else if length buf < pos + calcsize HEADER_FORMAT then None
      else case unpack_fields Big HEADER_FORMAT (drop pos buf) of
        [m0, m1, version, flags, type_id, wire_len] \<Rightarrow>
          if m0 \<noteq> 0x4B \<or> m1 \<noteq> 0x54 \<or> version \<noteq> 1 then None
          else if type_id \<notin> ag_direct_type_ids a \<or> type_id \<notin> ag_registered_type_ids a then None
          else if ag_pong_type_id a \<noteq> 0 \<and> type_id = ag_pong_type_id a then None
          else if int (ag_direct_wire_limit a) < wire_len then None
          else let end_pos = pos + calcsize HEADER_FORMAT + nat wire_len in
          if length buf < end_pos then None
          else let trailer = (if flags AND 0x02 \<noteq> 0 then CORR_TRAILER_SIZE else 0) in
          if nat wire_len < trailer then None
          else let payload_end = end_pos - trailer;
                   correlation_id =
                     (if trailer \<noteq> 0
                      then int (be_val (take (end_pos - payload_end) (drop payload_end buf))) else 0)
               in Some (type_id, correlation_id, payload_end, end_pos)
      | _ \<Rightarrow> None)"

definition retain_payload :: "'e agent \<Rightarrow> int \<Rightarrow> int \<Rightarrow> nat \<Rightarrow> bytes \<Rightarrow> 'e agent" where
  "retain_payload a event_ts type_id payload_len payload =
     (if ag_evidence_budget_bytes a \<noteq> 0 \<and> payload_len \<noteq> 0 \<and> \<not> ag_evidence_retired a
      then append_evidence a event_ts type_id payload else a)"

definition keep_due :: "'e agent \<Rightarrow> int \<Rightarrow> bool" where
  "keep_due a event_ts \<longleftrightarrow>
     \<not> ag_summary_mode a \<or>
     (case ag_summary_last_keep_ns a of
        None \<Rightarrow> True | Some t \<Rightarrow> SUMMARY_MIN_INTERVAL_NS \<le> event_ts - t)"

definition keep_event :: "'e agent \<Rightarrow> ClientEvent \<Rightarrow> 'e agent" where
  "keep_event a event =
     (if ag_summary_mode a
      then a\<lparr>ag_summary_slot := Some event, ag_summary_last_keep_ns := Some (ev_ts_mono_ns event)\<rparr>
      else record_event a event)"

definition dispatch_direct ::
    "agent_env \<Rightarrow> 'e agent \<Rightarrow> bytes \<Rightarrow> nat \<Rightarrow> int \<Rightarrow> int \<Rightarrow> nat \<Rightarrow> 'e agent" where
  "dispatch_direct env a buf pos type_id correlation_id payload_end =
     (let (event_ts, a0) = monotonic_ns env a;
          a1 = a0\<lparr>ag_last_frame_ts_ns := Some event_ts\<rparr>;
          payload_start = pos + calcsize HEADER_FORMAT;
          payload_len = payload_end - payload_start;
          payload = take payload_len (drop payload_start buf);
          keep = keep_due a1 event_ts;
          a2 = retain_payload a1 event_ts type_id payload_len payload;
          event = \<lparr>ev_ts_mono_ns = event_ts, ev_type_id = type_id,
                   ev_correlation_id = correlation_id, ev_payload = payload\<rparr>;
          a3 = (if keep then keep_event a2 event else a2)
      in a3\<lparr>ag_replication_count := Suc (ag_replication_count a3)\<rparr>)"

datatype 'e consume_step =
    Advance "'e agent" nat
  | Starved "'e agent"
  | Failed agent_exc "'e agent"

definition consume_decoded :: "agent_env \<Rightarrow> 'e agent \<Rightarrow> bytes \<Rightarrow> nat \<Rightarrow> 'e consume_step" where
  "consume_decoded env a buf pos =
     (let (r, p) = kith_proto_decode (ae_call env) (Some (cl_proto (ag_engine a)))
                     (Some (drop pos buf));
          a1 = a\<lparr>ag_engine := (ag_engine a)\<lparr>cl_proto := the p\<rparr>\<rparr>
      in if r = Inl KITH_EAGAIN then Starved a1
         else case agent_check r of
           Inl e \<Rightarrow> Failed e a1
         | Inr (frame, consumed) \<Rightarrow>
             let (now, a2) = now_ms env (a1\<lparr>ag_outbound_empty := False\<rparr>);
                 ((fed, c), delivered) = kith_client_feed_frame (ae_call env) (ag_engine a2) frame now;
                 a3 = a2\<lparr>ag_engine := c\<rparr>;
                 a4 = (case delivered of None \<Rightarrow> a3 | Some f \<Rightarrow> on_frame_c env a3 f);
                 a5 = a4\<lparr>ag_outbound_empty := False\<rparr>
             in case agent_check fed of
                  Inl e \<Rightarrow> Failed e a5
                | Inr _ \<Rightarrow> Advance a5 (pos + consumed))"

definition consume_one :: "agent_env \<Rightarrow> 'e agent \<Rightarrow> bytes \<Rightarrow> nat \<Rightarrow> 'e consume_step" where
  "consume_one env a buf pos =
     (case match_direct_frame a buf pos of
        Some (type_id, correlation_id, payload_end, end_pos) \<Rightarrow>
          Advance (dispatch_direct env a buf pos type_id correlation_id payload_end) end_pos
      | None \<Rightarrow> consume_decoded env a buf pos)"

partial_function (option) consume_loop ::
    "agent_env \<Rightarrow> 'e agent \<Rightarrow> bytes \<Rightarrow> nat \<Rightarrow> (agent_exc option \<times> 'e agent \<times> nat) option" where
  "consume_loop env a buf pos =
     (if ag_running a \<and> pos < length buf
      then case consume_one env a buf pos of
             Advance a' pos' \<Rightarrow> consume_loop env a' buf pos'
           | Starved a' \<Rightarrow> Some (None, a', pos)
           | Failed e a' \<Rightarrow> Some (Some e, a', pos)
      else Some (None, a, pos))"

definition consume_inbound :: "agent_env \<Rightarrow> 'e agent \<Rightarrow> (agent_exc option \<times> 'e agent) option" where
  "consume_inbound env a =
     (let a1 = (if ag_direct_type_ids a \<noteq> {} \<and> \<not> ag_direct_ready a then poll_direct_ready a else a)
      in map_option (\<lambda>(e, a2, pos). (e, flush_pushes (a2\<lparr>ag_inbuf := drop pos (ag_inbuf a2)\<rparr>)))
           (consume_loop env a1 (ag_inbuf a1) 0))"

definition on_socket_data ::
    "agent_env \<Rightarrow> 'e agent \<Rightarrow> bytes \<Rightarrow> (agent_exc option \<times> 'e agent) option" where
  "on_socket_data env a data =
     (case consume_inbound env (a\<lparr>ag_inbuf := ag_inbuf a @ data\<rparr>) of
        None \<Rightarrow> None
      | Some (Some e, a') \<Rightarrow> Some (Some e, a')
      | Some (None, a') \<Rightarrow>
          if ag_outbound_empty a' then Some (None, a')
          else map_option (\<lambda>(r, a2). (case r of Inl e \<Rightarrow> Some e | Inr _ \<Rightarrow> None, a2))
                 (request_flush env a'))"

subsection \<open>Bootstrap specifications\<close>

text \<open>
  \<open>BootstrapStep\<close> with its callbacks by their answers: \<open>on_enter\<close> absent, present and passive (it
  returns None), or present with a message type and payload; \<open>make_enter\<close> and \<open>make_reply\<close> of
  \<open>_native.py\<close> wrap them for the engine.
\<close>

record agent_step =
  as_await_type_id :: int
  as_on_enter :: "(int \<times> bytes) option option"
  as_on_reply :: "(c_frame \<Rightarrow> int) option"

definition make_enter :: "(int \<times> bytes) option \<Rightarrow> int \<times> 16 word \<times> bytes" where
  "make_enter result =
     (case result of
        None \<Rightarrow> (0, 0, [])
      | Some (type_id, payload) \<Rightarrow>
          (0, word_of_int (type_id AND 0xFFFF),
           take (min (length payload) CLIENT_STEP_PAYLOAD_CAP) payload))"

definition make_reply :: "(c_frame \<Rightarrow> int) \<Rightarrow> c_frame \<Rightarrow> int \<times> 32 word" where
  "make_reply on_reply frame = (0, word_of_int (on_reply frame AND 0xFFFFFFFF))"

definition configure_bootstrap ::
    "agent_env \<Rightarrow> 'e agent \<Rightarrow> agent_step list \<Rightarrow> (agent_exc + unit) \<times> 'e agent" where
  "configure_bootstrap env a steps =
     (let c_steps = map (\<lambda>s. \<lparr>st_await_type_id = word_of_int (as_await_type_id s),
                              st_on_enter = map_option make_enter (as_on_enter s),
                              st_on_reply = map_option make_reply (as_on_reply s)\<rparr>) steps;
          (r, c) = kith_client_configure_bootstrap (ae_call env) (ag_engine a) c_steps
      in (agent_check r, a\<lparr>ag_engine := c\<rparr>))"

end
