(* ===== verification/ClientProps.thy ===== *)
theory ClientProps
  imports ClientLaws
begin

text \<open>
  The properties of the client engine: its invariants over every sequence of calls, the handshake
  that completes, the reconnect schedule, and the event queue. The small client at the beginning is
  the input the witnesses use.
\<close>

subsection \<open>Properties of the engine\<close>

text \<open>
  A client in memory: a codec that accepts payloads of up to 64 bytes, a queue of two frames and one
  handshake step that sends three bytes and waits for a frame of type 9.
\<close>

definition engine_env :: call_env where
  "engine_env = \<lparr>lock_ok = True, grow_ok = True, dup_ok = True\<rparr>"

definition engine_proto :: kith_proto where
  "engine_proto = \<lparr>kp_types = [], kp_cap = 0, kp_max_payload = 64, kp_rejections = 0\<rparr>"

definition engine_params :: client_params where
  "engine_params =
     \<lparr>cp_outbound_cap = 2, cp_event_cap = 2, cp_ping_type_id = 0, cp_pong_type_id = 0,
      cp_ping_interval_ms = 0, cp_reconnect_base_ms = 0, cp_reconnect_max_ms = 0,
      cp_reconnect_max_attempts = 0\<rparr>"

definition engine_start :: kith_client where
  "engine_start = fresh_client engine_proto (client_resolve_defaults engine_params)"

definition hello_step :: bootstrap_step where
  "hello_step = \<lparr>st_await_type_id = 9, st_on_enter = Some (0, 7, [1, 2, 3]), st_on_reply = None\<rparr>"

lemma engine_start_created: "kith_client_create engine_env engine_params (Some engine_proto) = Inr engine_start"
  by (simp add: kith_client_create_def client_params_validate_def engine_params_def engine_env_def
      engine_start_def)

lemma engine_proto_small: "small_frames engine_proto"
  by (simp add: small_frames_def engine_proto_def proto_sizes)

lemma engine_start_reached: "engine_reach engine_start"
  using engine_start_created engine_proto_small by (rule engine_reach.create)



text \<open>
  C13: A handshake completes. Take a client whose handle invariants hold, with a non-empty list of
  steps that each enter successfully with a frame that fits, and an outbound ring with room for one
  frame per step. When the connection comes up and the peer's frames arrive, one for each step in
  order, of the type the step awaits and answered by moving to the next step, the engine is READY
  after the last of them, and the frames queued are exactly those of the steps, in order.
\<close>

theorem handshake_completes:
  assumes inv: "outbound_inv c" and ss: "bo_steps (cl_bootstrap c) = ss" "ss \<noteq> []"
    and cap: "length ss \<le> unat (oq_cap (cl_outq c))"
    and enters: "list_all (step_enters (cl_proto c)) ss" and env: "memory_ok env"
    and len: "length fs = length ss"
    and ans: "\<forall>j < length fs. answers (ss ! j) j (fst (fs ! j))"
    and pong: "\<forall>frame \<in> fst ` set fs. cl_pong_type_id c = 0 \<or> cf_type_id frame \<noteq> cl_pong_type_id c"
  shows "bo_state (cl_bootstrap (feed_all env (snd (kith_client_on_connected env c now)) fs)) =
           BOOTSTRAP_READY \<and>
         client_frames (feed_all env (snd (kith_client_on_connected env c now)) fs) =
           concat (map step_frames ss)"
proof -
  obtain c3 where on: "kith_client_on_connected env c now = client_bootstrap_start env c3"
    and c3: "outbound_inv c3" "client_frames c3 = []" "same_setup c c3"
    using inv by (rule on_connected_start)
  let ?d = "set_bootstrap_state (client_bootstrap_reset c3) BOOTSTRAP_RUNNING"
  have d1: "outbound_inv ?d" using c3(1) by simp
  have d: "client_frames ?d = []" "same_setup c ?d"
    "bo_state (cl_bootstrap ?d) = BOOTSTRAP_RUNNING"
    using c3 by (simp_all add: same_setup_def set_bootstrap_state_def client_bootstrap_reset_def
        client_frames_def)
  have n: "0 < length ss" using ss(2) by simp
  have start: "client_bootstrap_start env c3 = bootstrap_enter_step env ?d 0"
    using c3(3) ss n by (simp add: client_bootstrap_start_def Let_def bootstrap_step_count_def
        client_bootstrap_reset_def same_setup_def)
  have room: "has_room ?d"
    using d(1,2) order.strict_trans2 [OF n cap] by (simp add: has_room_def same_setup_def)
  obtain e where e: "bootstrap_enter_step env ?d 0 = (Inr (), e)" "outbound_inv e" "same_setup ?d e"
      "client_frames e = client_frames ?d @ step_frames (ss ! 0)"
      "bo_current_step (cl_bootstrap e) = 0" "bo_state (cl_bootstrap e) = bo_state (cl_bootstrap ?d)"
    using enter_step_sends [OF d1 _ env _ room, of 0] d(2) ss(1) n enters
    by (auto simp: bootstrap_step_count_def same_setup_def list_all_length)
  have "bo_state (cl_bootstrap (feed_all env e fs)) = BOOTSTRAP_READY \<and>
        client_frames (feed_all env e fs) =
          client_frames e @ concat (map step_frames (drop (Suc 0) ss))"
  proof (rule feed_all_reaches_ready)
    have "length (client_frames e) \<le> 1"
      using e(4) d(1) step_frames_short [of "ss ! 0"] by simp
    moreover have "oq_cap (cl_outq e) = oq_cap (cl_outq c)"
      using e(3) d(2) by (simp add: same_setup_def)
    ultimately show "length (client_frames e) + (length ss - Suc 0) \<le> unat (oq_cap (cl_outq e))"
      using cap n by (simp only:)
    show "bo_steps (cl_bootstrap e) = ss" "list_all (step_enters (cl_proto e)) ss"
      "\<forall>frame \<in> fst ` set fs. cl_pong_type_id e = 0 \<or> cf_type_id frame \<noteq> cl_pong_type_id e"
      using e(3) d(2) ss(1) enters pong by (simp_all add: same_setup_def)
  qed (use e d n env len ans in simp_all)
  moreover have "ss = ss ! 0 # drop (Suc 0) ss"
    using n by (cases ss) auto
  ultimately show ?thesis
    using on start e(1,4) d(1) by (metis append_Nil concat.simps(2) list.simps(9) snd_conv)
qed

lemma engine_start_outbound:
  "outbound_inv (engine_step engine_env engine_start (OpConfigure [hello_step]))"
  by (rule outbound.reachable, rule engine_reach.step [OF engine_start_reached])
    (simp add: engine_op_ok_def steps_ok_def enter_ok_def hello_step_def CLIENT_STEP_PAYLOAD_CAP_def)

definition hello_reply :: c_frame where
  "hello_reply = \<lparr>cf_type_id = 9, cf_flags = 0, cf_has_correlation = False, cf_correlation_id = 0,
                  cf_payload = None\<rparr>"

theorem handshake_completes_witness:
  "client_frames (feed_all engine_env
     (snd (kith_client_on_connected engine_env
        (engine_step engine_env engine_start (OpConfigure [hello_step])) 5)) [(hello_reply, 6)]) =
   [frame_bytes 7 0 0 [1, 2, 3]]"
proof -
  let ?c = "engine_step engine_env engine_start (OpConfigure [hello_step])"
  have c: "bo_steps (cl_bootstrap ?c) = [hello_step]" "cl_proto ?c = engine_proto"
    "oq_cap (cl_outq ?c) = 2" "cl_pong_type_id ?c = 0"
    by (simp_all add: kith_client_configure_bootstrap_def client_bootstrap_configure_def
        engine_start_def fresh_client_def client_resolve_defaults_def engine_params_def
        or_default_def engine_env_def)
  have fits: "step_enters engine_proto hello_step"
    by (simp add: step_enters_def hello_step_def frame_fits_def engine_proto_def trailer_len_of_def)
  have ans: "answers hello_step 0 hello_reply"
    by (simp add: answers_def hello_step_def hello_reply_def)
  have "memory_ok engine_env" by (simp add: memory_ok_def engine_env_def)
  from handshake_completes [OF engine_start_outbound c(1) _ _ _ this, of "[(hello_reply, 6)]" 5]
  show ?thesis
    using c fits ans by (simp add: step_frames_def hello_step_def)
qed

definition connect_failures :: "kith_client \<Rightarrow> 64 word list \<Rightarrow> kith_client" where
  "connect_failures = foldl kith_client_on_connect_failed"

lemma connect_failures_attempts:
  assumes "length ts < 2 ^ 32" and "cl_reconnect_attempts c = 0"
    and "cl_reconnect_max_attempts c = 0 \<or> length ts \<le> unat (cl_reconnect_max_attempts c)"
  shows "cl_reconnect_attempts (connect_failures c ts) = of_nat (length ts) \<and>
         cl_reconnect_max_attempts (connect_failures c ts) = cl_reconnect_max_attempts c \<and>
         cl_reconnect_base_ms (connect_failures c ts) = cl_reconnect_base_ms c \<and>
         cl_reconnect_max_ms (connect_failures c ts) = cl_reconnect_max_ms c"
  using assms
proof (induction ts rule: rev_induct)
  case (snoc t ts)
  then have "unat (of_nat (length ts) :: 32 word) = length ts"
    by (simp add: unat_of_nat_32)
  with snoc show ?case
    by (auto simp: connect_failures_def kith_client_on_connect_failed_def
        client_schedule_reconnect_def Let_def word_le_nat_alt add.commute)
qed (simp add: connect_failures_def)

text \<open>
  C29: The reconnect schedule. After any number of failed attempts since the last connection that the
  configured limit admits, the engine's attempt counter is that number, the delay is the base delay
  doubled once per further attempt and capped at the maximum, and the deadline is the time of the
  last failure plus that delay (as a 64-bit sum); one more failure at the limit clears the deadline,
  which stops the client. A caller that sets a base delay and leaves the maximum at zero, which the
  header documents as the default of 4000 ms, is refused with \<open>KITH_EINVAL\<close>, because the bounds are
  compared before the defaults are filled in.
\<close>

theorem reconnect_schedule:
  assumes "length ts < 2 ^ 32 - 1" and "cl_reconnect_attempts c = 0"
    and "cl_reconnect_max_attempts c = 0 \<or> length ts < unat (cl_reconnect_max_attempts c)"
  shows "(let d = connect_failures c (ts @ [t]) in
            unat (cl_reconnect_attempts d) = Suc (length ts) \<and>
            unat (cl_last_reconnect_delay_ms d) =
              min (unat (cl_reconnect_base_ms c) * 2 ^ length ts) (unat (cl_reconnect_max_ms c)) \<and>
            cl_next_reconnect_due_ms d = t + ucast (cl_last_reconnect_delay_ms d) \<and>
            (Suc (length ts) = unat (cl_reconnect_max_attempts c) \<longrightarrow>
               cl_next_reconnect_due_ms (kith_client_on_connect_failed d t') = 0)) \<and>
         (\<forall>env params p. cp_reconnect_max_ms params = 0 \<and> cp_reconnect_base_ms params \<noteq> 0 \<longrightarrow>
            kith_client_create env params (Some p) = Inl KITH_EINVAL)"
proof -
  let ?c = "connect_failures c ts" and ?n = "length ts"
  have prev: "cl_reconnect_attempts ?c = of_nat ?n"
      "cl_reconnect_max_attempts ?c = cl_reconnect_max_attempts c"
      "cl_reconnect_base_ms ?c = cl_reconnect_base_ms c"
      "cl_reconnect_max_ms ?c = cl_reconnect_max_ms c"
    using connect_failures_attempts [of ts c] assms by auto
  have n: "unat (of_nat ?n :: 32 word) = ?n" and n': "unat (of_nat ?n + 1 :: 32 word) = Suc ?n"
    using assms(1) unat_of_nat_32 [of ?n] unat_of_nat_32 [of "Suc ?n"] by (simp_all add: add.commute)
  have go: "connect_failures c (ts @ [t]) = ?c\<lparr>cl_reconnect_attempts := of_nat ?n + 1,
      cl_last_reconnect_delay_ms := client_compute_reconnect_delay ?c (of_nat ?n + 1),
      cl_next_reconnect_due_ms := t + ucast (client_compute_reconnect_delay ?c (of_nat ?n + 1))\<rparr>"
  proof -
    have "\<not> (0 < cl_reconnect_max_attempts ?c \<and> cl_reconnect_max_attempts ?c \<le> cl_reconnect_attempts ?c)"
      unfolding prev word_le_nat_alt n using assms(3) by (auto simp: word_gt_0)
    moreover have "connect_failures c (ts @ [t]) = client_schedule_reconnect ?c t"
      by (simp add: connect_failures_def kith_client_on_connect_failed_def)
    ultimately show ?thesis
      by (simp only: client_schedule_reconnect_def if_False Let_def prev(1))
  qed
  have delay: "unat (client_compute_reconnect_delay ?c (of_nat ?n + 1)) =
      min (unat (cl_reconnect_base_ms c) * 2 ^ ?n) (unat (cl_reconnect_max_ms c))"
    by (simp add: reconnect_delay_value backoff_ms_def n' prev)
  have stop: "cl_next_reconnect_due_ms (kith_client_on_connect_failed
      (connect_failures c (ts @ [t])) t') = 0" if "Suc ?n = unat (cl_reconnect_max_attempts c)"
  proof -
    have "0 < cl_reconnect_max_attempts c"
      using that by (auto simp: word_gt_0)
    moreover have "cl_reconnect_max_attempts c \<le> of_nat ?n + 1"
      unfolding word_le_nat_alt n' that by simp
    ultimately show ?thesis
      by (simp add: go kith_client_on_connect_failed_def client_schedule_reconnect_def prev(2))
  qed
  have "kith_client_create env params (Some p) = Inl KITH_EINVAL"
    if "cp_reconnect_max_ms params = 0" "cp_reconnect_base_ms params \<noteq> 0" for env params p
    using that by (simp add: kith_client_create_def client_params_validate_def word_gt_0)
  then show ?thesis
    using stop delay n' by (simp add: Let_def go)
qed

theorem reconnect_schedule_witness:
  "unat (cl_last_reconnect_delay_ms (connect_failures engine_start ([1, 2] @ [3]))) = 1000"
  using reconnect_schedule [of "[1, 2]" engine_start 3 0]
  by (simp add: Let_def engine_start_def fresh_client_def client_resolve_defaults_def
      engine_params_def or_default_def)

text \<open>
  The event queue keeps the newest records. From an empty queue, publishing any events whose
  payload is within the fixed record size succeeds, and a drain into a buffer of \<open>n\<close> records returns
  the oldest \<open>n\<close> of the last \<open>capacity\<close> events in the order they were published, each with its
  payload zero-padded to the record size; the records not returned stay queued.
\<close>

theorem event_queue_keeps_newest:
  assumes "eventq_ok (cl_events c)" and "eventq_events (cl_events c) = []"
    and "list_all (\<lambda>e. unat (ce_payload_len e) \<le> KITH_CLIENT_EVENT_PAYLOAD_MAX) es" and "0 < n"
  shows "(let d = foldl (\<lambda>c e. snd (kith_client_publish_event c (Some e))) c es;
              kept = last_n (unat (eq_cap (cl_events c))) (map event_record es) in
            fst (kith_client_drain_events d n) = Inr (take n kept) \<and>
            eventq_events (cl_events (snd (kith_client_drain_events d n))) = drop n kept)"
proof -
  let ?d = "foldl (\<lambda>c e. snd (kith_client_publish_event c (Some e))) c es"
    and ?cap = "unat (eq_cap (cl_events c))"
  have "eventq_ok (cl_events ?d) \<and> eq_cap (cl_events ?d) = eq_cap (cl_events c) \<and>
        eventq_events (cl_events ?d) = last_n ?cap (map event_record es)"
    using assms(3)
  proof (induction es rule: rev_induct)
    case Nil
    then show ?case using assms(1,2) by (simp add: last_n_def)
  next
    case (snoc e es)
    let ?b = "foldl (\<lambda>c e. snd (kith_client_publish_event c (Some e))) c es"
    have b: "eventq_ok (cl_events ?b)" "eq_cap (cl_events ?b) = eq_cap (cl_events c)"
        "eventq_events (cl_events ?b) = last_n ?cap (map event_record es)"
      using snoc by simp_all
    have "0 < ?cap" using assms(1) by (simp add: eventq_ok_def unat_gt_0 word_gt_0)
    moreover obtain q where "client_eventq_push (cl_events ?b) (Some e) = (Inr (), q)" "eventq_ok q"
        "eq_cap q = eq_cap (cl_events c)"
        "eventq_events q = last_n ?cap (last_n ?cap (map event_record es) @ [event_record e])"
      using client_eventq_push_events [OF b(1), of e] b(2,3) snoc.prems by auto
    ultimately show ?case
      by (simp add: kith_client_publish_event_def last_n_snoc)
  qed
  then show ?thesis
    using eventq_drain_loop_events [of "cl_events ?d" n] assms(1,4)
    by (auto simp: kith_client_drain_events_def client_eventq_drain_def Let_def eventq_ok_def
        split: prod.split)
qed

definition small_event :: "64 word \<Rightarrow> client_event" where
  "small_event ts = \<lparr>ce_ts_mono_ns = ts, ce_type_id = 3, ce_payload_len = 0, ce_payload = []\<rparr>"

theorem event_queue_keeps_newest_witness:
  "fst (kith_client_drain_events (foldl (\<lambda>c e. snd (kith_client_publish_event c (Some e)))
      engine_start [small_event 1, small_event 2, small_event 3]) 5) =
   Inr [event_record (small_event 2), event_record (small_event 3)]"
proof -
  have p: "0 < cp_outbound_cap (client_resolve_defaults engine_params)"
    "0 < cp_event_cap (client_resolve_defaults engine_params)"
    by (simp_all add: client_resolve_defaults_def or_default_pos)
  have cap: "eq_cap (cl_events engine_start) = 2"
    by (simp add: engine_start_def fresh_client_def client_resolve_defaults_def engine_params_def
        or_default_def)
  show ?thesis
    using event_queue_keeps_newest [OF fresh_queue_inv(3,4) [OF p, of engine_proto],
        of "[small_event 1, small_event 2, small_event 3]" 5] cap
    by (simp add: Let_def engine_start_def [symmetric] small_event_def last_n_def
        KITH_CLIENT_EVENT_PAYLOAD_MAX_def)
qed
end
