(* ===== verification/AgentOutbound.thy ===== *)
theory AgentOutbound
  imports AgentClient ClientProps "HOL-Library.Sublist"
begin

text \<open>
  The outbound side of the headless client: the growing pop and the drain return, hand over the
  engine's frames in order, and lose none. The drain is proved once for any source of frames
  (\<open>frame_source\<close>) and used with the engine's queue.
\<close>

subsection \<open>The growing pop over any source\<close>

context frame_source
begin

lemma pop_growing_empty:
  "inv q \<Longrightarrow> frames q = [] \<Longrightarrow> pop_growing pop limit capacity q = Some (Inr None, capacity, q)"
  by (subst pop_growing.simps) (simp add: pop_empty)

lemma pop_growing_returns:
  assumes "inv q" and "frames q = f # fs" and "length f \<le> limit" and "limit < 2 ^ 32"
    and "0 < capacity" and "capacity \<le> limit"
  shows "\<exists>capacity' q'. pop_growing pop limit capacity q = Some (Inr (Some f), capacity', q') \<and>
           pop q (of_nat capacity') = (Inr f, q') \<and> inv q' \<and> frames q' = fs \<and>
           capacity \<le> capacity' \<and> capacity' \<le> limit"
  using assms(5,6)
proof (induction "limit - capacity" arbitrary: capacity rule: less_induct)
  case less
  have cap: "unat (of_nat capacity :: 32 word) = capacity"
    using less.prems assms(4) by (intro unat_of_nat_32) simp
  show ?case
  proof (cases "length f \<le> capacity")
    case True
    then show ?thesis
      using pop_fits [OF assms(1,2), of "of_nat capacity"] cap less.prems
      by (subst pop_growing.simps) auto
  next
    case False
    then have short: "pop q (of_nat capacity) = (Inl KITH_EOVERFLOW, q)"
      using pop_short [OF assms(1,2), of "of_nat capacity"] cap by simp
    let ?next = "min (capacity * 2) limit"
    have "capacity < limit" using False assms(3) by simp
    moreover from this have "limit - ?next < limit - capacity" "0 < ?next" "?next \<le> limit" "capacity \<le> ?next"
      using less.prems by auto
    ultimately show ?thesis
      using less.hyps [of ?next] short
      by (subst pop_growing.simps) (fastforce intro: order.trans)
  qed
qed

end

lemma engine_pop_empty:
  "outbound_inv c \<Longrightarrow> client_frames c = [] \<Longrightarrow> kith_client_pop_outbound c cap = (Inl KITH_EAGAIN, c)"
  using client_outq_pop_empty [of "cl_outq c" cap]
  by (simp add: kith_client_pop_outbound_def client_frames_def outbound_inv_def queue_inv_def)

interpretation engine_source: frame_source outbound_inv client_frames kith_client_pop_outbound
proof
  fix c f fs and cap :: "32 word"
  assume inv: "outbound_inv c" and fs: "client_frames c = f # fs"
  have q: "outq_inv (cl_outq c)" "outq_frames (cl_outq c) = f # fs"
    using inv fs by (simp_all add: outbound_inv_def queue_inv_def client_frames_def)
  show "unat cap < length f \<Longrightarrow> kith_client_pop_outbound c cap = (Inl KITH_EOVERFLOW, c)"
    using client_outq_pop_head(1) [OF q] by (simp add: kith_client_pop_outbound_def)
  show "length f \<le> unat cap \<Longrightarrow>
      \<exists>d. kith_client_pop_outbound c cap = (Inr f, d) \<and> outbound_inv d \<and> client_frames d = fs"
    using client_outq_pop_head(2) [OF q, of cap] outbound_inv_pop [OF inv, of cap]
    by (simp add: kith_client_pop_outbound_def client_frames_def)
qed (rule engine_pop_empty)

subsection \<open>The agent's own invariant\<close>

definition type_ids_of :: "kith_proto \<Rightarrow> int set" where
  "type_ids_of p = (\<lambda>e. uint (te_id e)) ` set (kp_types p)"

definition agent_ok :: "'e agent \<Rightarrow> bool" where
  "agent_ok a \<longleftrightarrow>
     outbound_inv (ag_engine a) \<and>
     ag_direct_wire_limit a = unat (kp_max_payload (cl_proto (ag_engine a))) \<and>
     ag_out_limit a = KITH_PROTO_HDR_SIZE + ag_direct_wire_limit a \<and>
     0 < ag_out_cap a \<and> ag_out_cap a \<le> ag_out_limit a \<and>
     ag_registered_type_ids a = type_ids_of (cl_proto (ag_engine a)) \<and>
     ag_pong_type_id a = uint (cl_pong_type_id (ag_engine a))"

lemma agent_frames_fit:
  assumes "agent_ok a" and "f \<in> set (client_frames (ag_engine a))"
  shows "length f \<le> ag_out_limit a" and "ag_out_limit a < 2 ^ 32"
proof -
  have "wire_frame (cl_proto (ag_engine a)) f" "small_frames (cl_proto (ag_engine a))"
    using assms by (auto simp: agent_ok_def outbound_inv_def queue_inv_def client_frames_def list_all_iff)
  then show "length f \<le> ag_out_limit a" and "ag_out_limit a < 2 ^ 32"
    using assms(1) wire_frame_length by (fastforce simp: agent_ok_def small_frames_def)+
qed

lemma pop_outbound_none:
  assumes "agent_ok a" and "client_frames (ag_engine a) = []"
  shows "pop_outbound a = Some (Inr None, a\<lparr>ag_outbound_empty := True\<rparr>)"
  using assms engine_source.pop_growing_empty [of "ag_engine a"]
  by (simp add: pop_outbound_def agent_ok_def agent_check_def)

lemma pop_outbound_head:
  assumes ok: "agent_ok a" and frames: "client_frames (ag_engine a) = f # fs"
  obtains a' where "pop_outbound a = Some (Inr (Some f), a')" and "agent_ok a'"
    and "client_frames (ag_engine a') = fs"
    and "ag_transport a' = ag_transport a" and "ag_running a' = ag_running a"
    and "ag_inbuf a' = ag_inbuf a" and "ag_event_history a' = ag_event_history a"
proof -
  let ?c = "ag_engine a"
  have fit: "length f \<le> ag_out_limit a" "ag_out_limit a < 2 ^ 32"
    using agent_frames_fit [OF ok, of f] frames by simp_all
  have inv: "outbound_inv ?c" "0 < ag_out_cap a" "ag_out_cap a \<le> ag_out_limit a"
    using ok by (simp_all add: agent_ok_def)
  obtain k d where d: "pop_growing kith_client_pop_outbound (ag_out_limit a) (ag_out_cap a) ?c =
        Some (Inr (Some f), k, d)" "kith_client_pop_outbound ?c (of_nat k) = (Inr f, d)"
      "outbound_inv d" "client_frames d = fs" "ag_out_cap a \<le> k" "k \<le> ag_out_limit a"
    using engine_source.pop_growing_returns [OF inv(1) frames fit inv(2,3)] by blast
  then obtain q where "d = ?c\<lparr>cl_outq := q\<rparr>"
    by (auto simp: kith_client_pop_outbound_def split: prod.splits)
  with d ok inv show thesis
    by (intro that [of "a\<lparr>ag_engine := d, ag_out_cap := k, ag_outbound_empty := False\<rparr>"])
      (auto simp: pop_outbound_def agent_check_def agent_ok_def)
qed

lemma agent_ok_write [simp]: "agent_ok (transport_write a f) = agent_ok a"
  by (simp add: agent_ok_def transport_write_def)

lemma agent_ok_flags [simp]:
  "agent_ok (a\<lparr>ag_draining := b\<rparr>) = agent_ok a" "agent_ok (a\<lparr>ag_outbound_empty := b\<rparr>) = agent_ok a"
  by (simp_all add: agent_ok_def)

definition written :: "'e agent \<Rightarrow> bytes list" where
  "written a = (case ag_transport a of None \<Rightarrow> [] | Some t \<Rightarrow> tr_written t)"

definition above_high_water :: "agent_env \<Rightarrow> 'e agent \<Rightarrow> bool" where
  "above_high_water env a \<longleftrightarrow> OUTBOUND_HIGH_WATER \<le> write_buffer_size env a"

text \<open>The drain hands the front of the queue to the transport until one of its two stops.\<close>

lemma flush_loop_returns:
  assumes "agent_ok a" and "ag_transport a = Some t"
  shows "\<exists>a' sent. flush_loop env a = Some (Inr (), a') \<and> agent_ok a' \<and>
           client_frames (ag_engine a) = sent @ client_frames (ag_engine a') \<and>
           ag_transport a' = Some (t\<lparr>tr_written := tr_written t @ sent\<rparr>) \<and>
           (client_frames (ag_engine a') = [] \<or> above_high_water env a')"
  using assms
proof (induction "client_frames (ag_engine a)" arbitrary: a t)
  case Nil
  then show ?case
    by (subst flush_loop.simps) (simp add: pop_outbound_none)
next
  case (Cons f fs)
  obtain b where b: "pop_outbound a = Some (Inr (Some f), b)" "agent_ok b"
      "client_frames (ag_engine b) = fs" "ag_transport b = ag_transport a"
    using pop_outbound_head [OF Cons.prems(1) Cons.hyps(2) [symmetric]] by blast
  let ?b = "transport_write b f" and ?t = "t\<lparr>tr_written := tr_written t @ [f]\<rparr>"
  have w: "ag_transport ?b = Some ?t" "client_frames (ag_engine ?b) = fs" "agent_ok ?b"
    using b Cons.prems(2) by (simp_all add: transport_write_def agent_ok_def)
  show ?case
  proof (cases "above_high_water env ?b")
    case True
    then show ?thesis
      using b(1) w Cons.hyps(2)
      by (subst flush_loop.simps) (auto simp: above_high_water_def intro!: exI [of _ "[f]"])
  next
    case False
    obtain a' sent where "flush_loop env ?b = Some (Inr (), a')" "agent_ok a'"
        "fs = sent @ client_frames (ag_engine a')"
        "ag_transport a' = Some (?t\<lparr>tr_written := tr_written ?t @ sent\<rparr>)"
        "client_frames (ag_engine a') = [] \<or> above_high_water env a'"
      using Cons.hyps(1) [of ?b ?t] w by metis
    with False b(1) Cons.hyps(2) show ?thesis
      by (subst flush_loop.simps) (auto simp: above_high_water_def intro!: exI [of _ "f # sent"])
  qed
qed

subsection \<open>Construction and registration establish the invariant\<close>

definition same_client_setup :: "kith_client \<Rightarrow> kith_client \<Rightarrow> bool" where
  "same_client_setup c d \<longleftrightarrow> cl_proto d = cl_proto c \<and> cl_pong_type_id d = cl_pong_type_id c"

lemma agent_ok_engine:
  "agent_ok a \<Longrightarrow> outbound_inv d \<Longrightarrow> same_client_setup (ag_engine a) d \<Longrightarrow> agent_ok (a\<lparr>ag_engine := d\<rparr>)"
  by (simp add: agent_ok_def same_client_setup_def)

lemma init_agent_ok:
  assumes init: "AHC_init env args extractor = Inr a"
    and small: "KITH_PROTO_HDR_SIZE + nat (aa_max_payload args) < 2 ^ 32"
  shows "agent_ok a \<and> client_frames (ag_engine a) = [] \<and> ag_transport a = None"
proof -
  let ?w = "word_of_int (aa_max_payload args) :: 32 word"
  from init obtain p c where p: "kith_proto_create env ?w = Inr p"
      and c: "kith_client_create env (create_client_params args) (Some p) = Inr c"
      and a: "a = agent_of args extractor c"
      and rng: "0 \<le> aa_max_payload args" "aa_max_payload args \<le> int UINT32_MAX"
        "0 < aa_outbound_buffer_initial_bytes args"
    by (auto simp: AHC_init_def agent_check_def split: if_splits sum.splits)
  have w: "unat ?w = nat (aa_max_payload args)"
    using rng by (simp add: UINT32_MAX_def unat_eq_nat_uint uint_word_of_int nat_mod_distrib)
  have p': "kp_max_payload p = (if ?w = 0 then KITH_PROTO_DEFAULT_MAX_PAYLOAD else ?w)" "kp_types p = []"
    using p by (auto simp: kith_proto_create_def split: if_splits)
  have zero: "?w = 0 \<longleftrightarrow> aa_max_payload args = 0"
    using w rng(1) by (metis nat_0_iff order_antisym_conv unsigned_eq_0_iff le_refl)
  have limit: "ag_direct_wire_limit a = unat (kp_max_payload p)"
    using w zero by (simp add: a agent_of_def Let_def p' PROTO_DEFAULT_MAX_PAYLOAD_def
        KITH_PROTO_DEFAULT_MAX_PAYLOAD_def)
  have sm: "small_frames p"
    using small w by (simp add: small_frames_def p' KITH_PROTO_DEFAULT_MAX_PAYLOAD_def proto_sizes)
  have inv: "outbound_inv c" using c sm by (rule outbound.initial)
  have fresh: "c = fresh_client p (client_resolve_defaults (create_client_params args))"
    using c by (rule create_is_fresh)
  then have cp: "cl_proto c = p" "cl_pong_type_id c = word_of_int (aa_pong_type_id args)"
      "client_frames c = []"
    by (simp_all add: fresh_client_def client_resolve_defaults_def create_client_params_def
        client_frames_def outq_frames_def outq_slots_def)
  have "ag_out_limit a = KITH_PROTO_HDR_SIZE + ag_direct_wire_limit a"
    using sm limit by (simp add: a agent_of_def Let_def small_frames_def UINT32_MAX_def)
  moreover have "ag_out_cap a = min (nat (aa_outbound_buffer_initial_bytes args)) (ag_out_limit a)"
    by (simp add: a agent_of_def Let_def)
  moreover have "ag_engine a = c" "ag_registered_type_ids a = {}" "ag_transport a = None"
      "ag_pong_type_id a = uint (word_of_int (aa_pong_type_id args) :: 16 word)"
    by (simp_all add: a agent_of_def Let_def)
  ultimately show ?thesis
    using inv limit cp p'(2) rng(3) by (simp add: agent_ok_def type_ids_of_def proto_sizes)
qed

lemma register_types:
  assumes "kith_proto_register_type_id env (Some p) (Some name) t = (r, p')"
  obtains q where "p' = Some q" and "kp_max_payload q = kp_max_payload p"
    and "case r of Inr _ \<Rightarrow> type_ids_of q = insert (uint t) (type_ids_of p) | Inl _ \<Rightarrow> type_ids_of q = type_ids_of p"
proof -
  have "\<exists>q. p' = Some q \<and> kp_max_payload q = kp_max_payload p \<and>
    (case r of Inr _ \<Rightarrow> type_ids_of q = insert (uint t) (type_ids_of p) | Inl _ \<Rightarrow> type_ids_of q = type_ids_of p)"
    using assms
    by (auto simp: kith_proto_register_type_id_def Let_def grow_types_locked_def type_ids_of_def
        find_by_name_locked_def find_Some_iff split: list.splits if_splits option.splits sum.splits)
  then show thesis using that by blast
qed

lemma register_agent_ok:
  assumes ok: "agent_ok a"
  shows "agent_ok (snd (AHC_register_type env a name type_id))"
proof -
  let ?t = "type_id AND 0xFFFF" and ?p = "cl_proto (ag_engine a)"
  obtain r p' where r: "kith_proto_register_type_id (ae_call env) (Some ?p) (Some name)
      (word_of_int ?t) = (r, p')" by fastforce
  then obtain q where q: "p' = Some q" "kp_max_payload q = kp_max_payload ?p"
      "case r of Inr _ \<Rightarrow> type_ids_of q = insert (uint (word_of_int ?t :: 16 word)) (type_ids_of ?p)
       | Inl _ \<Rightarrow> type_ids_of q = type_ids_of ?p"
    by (rule register_types)
  have t: "uint (word_of_int ?t :: 16 word) = ?t"
    by (simp add: uint_word_of_int mask_eq_exp_minus_1 take_bit_eq_mod flip: take_bit_eq_mask
        [of 16 type_id, unfolded mask_eq_exp_minus_1, simplified])
  have "outbound_inv ((ag_engine a)\<lparr>cl_proto := q\<rparr>)"
    using outbound_inv_register [of "ag_engine a" "ae_call env" name "word_of_int ?t" q] ok r q(1)
    by (simp add: agent_ok_def)
  then show ?thesis
    using ok q r t by (cases r) (auto simp: AHC_register_type_def Let_def agent_check_def agent_ok_def)
qed

subsection \<open>Properties of the outbound side\<close>

text \<open>Frames on their way out: those already written, then those still queued.\<close>

definition pipeline :: "'e agent \<Rightarrow> bytes list" where
  "pipeline a = written a @ client_frames (ag_engine a)"

definition can_write :: "'e agent \<Rightarrow> bool" where
  "can_write a \<longleftrightarrow>
     ag_running a \<and> \<not> ag_draining a \<and> (case ag_transport a of None \<Rightarrow> False | Some t \<Rightarrow> \<not> tr_closing t)"

lemma request_flush_open:
  assumes ok: "agent_ok a" and w: "can_write a"
  shows "\<exists>a'. request_flush env a = Some (Inr (), a') \<and> agent_ok a' \<and> \<not> ag_draining a' \<and>
           pipeline a' = pipeline a \<and> prefix (written a) (written a') \<and>
           (client_frames (ag_engine a') = [] \<or> above_high_water env a')"
proof -
  obtain t where t: "ag_transport a = Some t" "\<not> tr_closing t" "ag_running a" "\<not> ag_draining a"
    using w by (auto simp: can_write_def split: option.splits)
  let ?b = "a\<lparr>ag_outbound_empty := False, ag_draining := True\<rparr>"
  have "agent_ok ?b" "ag_transport ?b = Some t" using ok t by (simp_all add: agent_ok_def)
  from flush_loop_returns [OF this, of env] obtain a' sent
    where "flush_loop env ?b = Some (Inr (), a')" "agent_ok a'"
      "client_frames (ag_engine a) = sent @ client_frames (ag_engine a')"
      "ag_transport a' = Some (t\<lparr>tr_written := tr_written t @ sent\<rparr>)"
      "client_frames (ag_engine a') = [] \<or> above_high_water env a'"
    by auto
  then show ?thesis
    using t by (simp add: request_flush_def flush_outbound_def pipeline_def written_def
        above_high_water_def write_buffer_size_def)
qed

lemma request_flush_closed:
  assumes "\<not> can_write a"
  shows "request_flush env a = Some (Inr (), a\<lparr>ag_outbound_empty := False\<rparr>)"
  using assms by (auto simp: request_flush_def flush_outbound_def can_write_def split: option.splits)


text \<open>A client with a one-byte scratch buffer, connected to a transport that never fills.\<close>

definition demo_agent_env :: agent_env where
  "demo_agent_env = \<lparr>ae_call = engine_env, ae_clock = (\<lambda>n. int n), ae_buffered = (\<lambda>_. 0)\<rparr>"

definition demo_args :: agent_args where
  "demo_args =
     \<lparr>aa_max_payload = 64, aa_outbound_buffer_initial_bytes = 1, aa_outbound_cap = 2,
      aa_event_cap = 2, aa_ping_type_id = 0, aa_pong_type_id = 0, aa_ping_interval_ms = 0,
      aa_pong_timeout_ms = 0, aa_reconnect_base_ms = 0, aa_reconnect_max_ms = 0,
      aa_reconnect_max_attempts = 0, aa_event_history_size = 4, aa_direct_type_ids = {9},
      aa_summary_mode = False, aa_evidence_budget_bytes = 100\<rparr>"

definition demo_idle :: "unit agent" where
  "demo_idle = agent_of demo_args None
     (fresh_client \<lparr>kp_types = [], kp_cap = 0, kp_max_payload = 64, kp_rejections = 0\<rparr>
        (client_resolve_defaults (create_client_params demo_args)))"

definition demo_agent :: "unit agent" where
  "demo_agent = demo_idle\<lparr>ag_running := True, ag_transport := Some \<lparr>tr_closing = False, tr_written = []\<rparr>\<rparr>"

lemma demo_init: "AHC_init engine_env demo_args None = Inr demo_idle"
  by (simp add: AHC_init_def demo_args_def UINT32_MAX_def kith_proto_create_def engine_env_def
      agent_check_def kith_client_create_def client_params_validate_def create_client_params_def
      demo_idle_def)

lemma demo_agent_ok: "agent_ok demo_agent" and demo_can_write: "can_write demo_agent"
  using init_agent_ok [OF demo_init]
  by (simp_all add: demo_args_def proto_sizes demo_agent_def agent_ok_def can_write_def demo_idle_def
      agent_of_def Let_def)

lemma demo_pipeline: "pipeline demo_agent = []"
  using init_agent_ok [OF demo_init]
  by (simp add: demo_args_def proto_sizes demo_agent_def pipeline_def written_def)


lemma submit_engine_cases:
  assumes inv: "outbound_inv c" and p: "points_to (cm_payload cmd) (cm_payload_len cmd) payload"
  obtains (refused) e where "kith_client_submit_interactive env c cmd = (Inl e, c)"
      and "\<not> (frame_fits (cl_proto c) (cm_flags cmd) payload \<and> memory_ok env \<and> has_room c)"
  | (accepted) d where "kith_client_submit_interactive env c cmd = (Inr (cl_next_cmd_id c), d)"
      and "outbound_inv d" and "same_client_setup c d"
      and "client_frames d = client_frames c @
             [frame_bytes (cm_type_id cmd) (cm_flags cmd) (cm_correlation_id cmd) payload]"
proof -
  have q: "queue_inv c" using inv by (simp add: outbound_inv_def)
  note keep = outbound_inv_submit [OF inv p, of env]
  show thesis
    using q p
  proof (cases rule: encode_and_enqueue_cases [where env = env and t = "cm_type_id cmd" and
        f = "cm_flags cmd" and corr = "cm_correlation_id cmd"])
    case (refused e)
    then show thesis
      by (intro that(1) [of e]) (auto simp: kith_client_submit_interactive_def memory_ok_def)
  next
    case (queued q)
    let ?d = "c\<lparr>cl_outq := q, cl_commands_submitted := cl_commands_submitted c + 1,
                cl_next_cmd_id := cl_next_cmd_id c + 1\<rparr>"
    have "kith_client_submit_interactive env c cmd = (Inr (cl_next_cmd_id c), ?d)"
      by (simp add: kith_client_submit_interactive_def queued(1))
    with keep queued show thesis
      by (intro that(2) [of ?d]) (simp_all add: same_client_setup_def client_frames_def)
  qed
qed

lemma submit_accepted_only_if:
  assumes inv: "outbound_inv c" and p: "points_to (cm_payload cmd) (cm_payload_len cmd) payload"
    and acc: "kith_client_submit_interactive env c cmd = (Inr i, d)"
  shows "frame_fits (cl_proto c) (cm_flags cmd) payload \<and> memory_ok env \<and> has_room c"
proof -
  let ?b = "frame_bytes (cm_type_id cmd) (cm_flags cmd) (cm_correlation_id cmd) payload"
  have outq: "outq_ok (cl_outq c)" "small_frames (cl_proto c)"
    using inv by (simp_all add: outbound_inv_def queue_inv_def outq_inv_def)
  obtain d' where enq: "client_encode_and_enqueue env c (cm_type_id cmd) (cm_flags cmd)
      (cm_correlation_id cmd) (cm_payload cmd) (cm_payload_len cmd) = (Inr (), d')"
    using acc by (auto simp: kith_client_submit_interactive_def split: prod.splits sum.splits)
  then have fits: "frame_fits (cl_proto c) (cm_flags cmd) payload" "grow_ok env"
      and push: "fst (client_outq_push (dup_ok env) (cl_outq c) (Some ?b) (of_nat (length ?b))) = Inr ()"
    by (auto simp: encode_and_enqueue_unfold [OF p] Let_def split: prod.splits if_splits)
  have "wire_frame (cl_proto c) ?b" using fits by (auto simp: wire_frame_def)
  then have len: "length ?b < 2 ^ 32"
    using wire_frame_length outq(2) by (fastforce simp: small_frames_def)
  have "dup_ok env"
    using push push_without_memory [OF outq(1) frame_bytes_nonempty len] by (cases "dup_ok env") auto
  moreover have "has_room c"
    using push client_outq_push_refused [OF outq(1), of "dup_ok env" ?b "of_nat (length ?b)"]
      outq_frames_bounded [OF outq(1)]
    by (fastforce simp: has_room_def client_frames_def)
  ultimately show ?thesis using fits by (simp add: memory_ok_def)
qed

text \<open>
  C23: A submitted command is sent in order or refused without effect. \<open>_submit_on_loop\<close> always
  returns. It returns the engine's next command identifier exactly when the frame fits the codec's
  bound, memory is available and the outbound queue has room; then the frames written and queued
  are those of before followed by the command's frame, and the frame is on the transport unless the
  drain stopped at the high-water mark or the transport does not accept writes. Otherwise it raises
  \<open>KithClientError\<close> and neither the queue nor the transport has changed. The invariants hold
  afterwards in both cases.
\<close>

theorem submit_sends_or_refuses:
  assumes ok: "agent_ok a" and len: "length payload < 2 ^ 32"
  shows "\<exists>r a'. submit_on_loop env a type_id payload flags corr = Some (r, a') \<and> agent_ok a' \<and>
     (if frame_fits (cl_proto (ag_engine a)) (word_of_int (flags AND 0xFF)) payload \<and>
         memory_ok (ae_call env) \<and> has_room (ag_engine a)
      then r = Inr (uint (cl_next_cmd_id (ag_engine a))) \<and>
           pipeline a' = pipeline a @
             [frame_bytes (word_of_int (type_id AND 0xFFFF)) (word_of_int (flags AND 0xFF))
                (word_of_int (corr AND 0xFFFFFFFFFFFFFFFF)) payload] \<and>
           (client_frames (ag_engine a') = [] \<or> \<not> can_write a \<or>
            OUTBOUND_HIGH_WATER \<le> write_buffer_size env a')
      else (\<exists>n. r = Inl (ClientErr (KithClientError n))) \<and> pipeline a' = pipeline a)"
proof -
  let ?cmd = "\<lparr>cm_type_id = word_of_int (type_id AND 0xFFFF), cm_flags = word_of_int (flags AND 0xFF),
              cm_correlation_id = word_of_int (corr AND 0xFFFFFFFFFFFFFFFF),
              cm_payload = Some payload, cm_payload_len = of_nat (length payload)\<rparr> :: client_command"
    and ?c = "ag_engine a"
  have inv: "outbound_inv ?c" using ok by (simp add: agent_ok_def)
  have p: "points_to (cm_payload ?cmd) (cm_payload_len ?cmd) payload"
    using len by (simp add: points_to_def)
  from inv p show ?thesis
  proof (cases rule: submit_engine_cases [where env = "ae_call env"])
    case (refused e)
    then have "submit_on_loop env a type_id payload flags corr =
        Some (Inl (ClientErr (KithClientError (kith_error_value e))), a\<lparr>ag_outbound_empty := False\<rparr>)"
      by (simp add: submit_on_loop_def Let_def agent_check_def)
    with refused(2) ok show ?thesis
      by (auto simp: pipeline_def written_def)
  next
    case (accepted d)
    let ?a1 = "a\<lparr>ag_engine := d, ag_outbound_empty := False\<rparr>"
    have a1: "agent_ok ?a1"
      using agent_ok_engine [OF ok accepted(2,3)] by simp
    have cw: "can_write ?a1 = can_write a" by (simp add: can_write_def)
    have pl: "pipeline ?a1 = pipeline a @ [frame_bytes (cm_type_id ?cmd) (cm_flags ?cmd)
        (cm_correlation_id ?cmd) payload]"
      using accepted(4) by (simp add: pipeline_def written_def)
    have may: "frame_fits (cl_proto ?c) (cm_flags ?cmd) payload \<and> memory_ok (ae_call env) \<and> has_room ?c"
      by (rule submit_accepted_only_if [OF inv p accepted(1)])
    obtain a' where "request_flush env ?a1 = Some (Inr (), a')" "agent_ok a'" "pipeline a' = pipeline ?a1"
        "client_frames (ag_engine a') = [] \<or> \<not> can_write a \<or> OUTBOUND_HIGH_WATER \<le> write_buffer_size env a'"
      using request_flush_open [OF a1, of env] request_flush_closed [of ?a1 env] cw a1
      by (cases "can_write a") (auto simp: above_high_water_def pipeline_def written_def)
    then show ?thesis
      using accepted(1) pl may by (simp add: submit_on_loop_def Let_def agent_check_def)
  qed
qed

theorem submit_sends_or_refuses_witness:
  "\<exists>a'. submit_on_loop demo_agent_env demo_agent 7 [1, 2, 3] 0 0 = Some (Inr 1, a') \<and>
        pipeline a' = [frame_bytes 7 0 0 [1, 2, 3]]"
proof -
  have c: "frame_fits (cl_proto (ag_engine demo_agent)) 0 [1, 2, 3]"
      "cl_next_cmd_id (ag_engine demo_agent) = 1" "has_room (ag_engine demo_agent)"
    by (simp_all add: demo_agent_def demo_idle_def agent_of_def Let_def fresh_client_def
        frame_fits_def trailer_len_of_def has_room_def client_frames_def outq_frames_def
        outq_slots_def client_resolve_defaults_def create_client_params_def demo_args_def
        or_default_def)
  have "memory_ok (ae_call demo_agent_env)"
    by (simp add: memory_ok_def demo_agent_env_def engine_env_def)
  then show ?thesis
    using submit_sends_or_refuses [OF demo_agent_ok, of "[1, 2, 3]" demo_agent_env 7 0 0] c demo_pipeline
    by auto
qed

end
