(* ===== verification/AgentInbound.thy ===== *)
theory AgentInbound
  imports AgentOutbound
begin

unbundle bit_operations_syntax

text \<open>
  The inbound side of the headless client. The direct path reads the wire header with \<open>struct\<close> and
  never calls the C decoder; it is shown to accept only frames that the decoder accepts, with the
  same type, correlation identifier, payload and length. The consumer loop is shown to return on
  every buffer, and to turn a stream of frames, cut anywhere, into the events of its complete
  frames in order.
\<close>

subsection \<open>The two readings of a header\<close>

lemma shift_in_byte:
  fixes v :: "'a::len word"
  assumes "unat v * 256 + 256 \<le> 2 ^ LENGTH('a)" and "8 \<le> LENGTH('a)"
  shows "unat (push_bit 8 v OR ucast (b :: byte)) = unat v * 256 + unat b"
proof -
  have "push_bit 8 v OR ucast b = push_bit 8 v + ucast b"
    by (rule disjunctive_add [symmetric]) (auto simp: bit_simps dest: bit_imp_le_length)
  moreover have "unat (push_bit 8 v) = unat v * 256"
    using assms(1) by (simp only: unsigned_push_bit_eq)
      (simp add: push_bit_eq_mult take_bit_nat_eq_self)
  moreover have "unat (ucast b :: 'a word) = unat b"
    using assms(2) by (simp add: unsigned_ucast_eq take_bit_nat_eq_self_iff
        order.strict_trans2 [OF unat_byte_less] power_increasing [of 8 "LENGTH('a)" "2 :: nat", simplified])
  moreover have "unat v * 256 + unat b < 2 ^ LENGTH('a)"
    using assms(1) unat_byte_less [of b] by linarith
  ultimately show ?thesis
    by (simp add: unat_word_ariths)
qed

definition join_bytes :: "bytes \<Rightarrow> 'a::len word" where
  "join_bytes bs = foldl (\<lambda>v b. push_bit 8 v OR ucast b) 0 bs"

lemma unat_join_bytes:
  "8 * length bs \<le> LENGTH('a) \<Longrightarrow> unat (join_bytes bs :: 'a::len word) = be_val bs"
proof (induction bs rule: rev_induct)
  case (snoc b bs)
  have "(be_val bs + 1) * 256 \<le> 256 ^ length bs * 256"
    using be_val_less [of bs] by (intro mult_le_mono1) simp
  also have "\<dots> = 2 ^ (8 * length (bs @ [b]))"
    by (simp add: pow256 [symmetric] power_add)
  also have "\<dots> \<le> 2 ^ LENGTH('a)"
    using snoc.prems by (intro power_increasing) simp_all
  finally show ?case
    using snoc shift_in_byte [of "join_bytes bs :: 'a word" b] by (simp add: join_bytes_def)
qed (simp add: join_bytes_def)

lemma read_be_join:
  "read_be_u16 [b0, b1] = join_bytes [b0, b1]"
  "read_be_u32 [b0, b1, b2, b3] = join_bytes [b0, b1, b2, b3]"
  by (simp_all add: read_be_u16_def read_be_u32_def join_bytes_def push_bit_or or.assoc)

lemma unat_join_bytes_2: "unat (join_bytes [b0, b1] :: 16 word) = be_val [b0, b1]"
  by (simp add: unat_join_bytes)

lemma unat_join_bytes_4: "unat (join_bytes [b0, b1, b2, b3] :: 32 word) = be_val [b0, b1, b2, b3]"
  by (simp add: unat_join_bytes)

lemma read_be_u64_join: "8 \<le> length b \<Longrightarrow> read_be_u64 b = join_bytes (take 8 b)"
proof -
  assume "8 \<le> length b"
  then have "take 8 b = map ((!) b) [0..<8]" by (intro nth_equalityI) auto
  then show ?thesis
    by (simp add: read_be_u64_def join_bytes_def KITH_PROTO_CORR_TRAILER_SIZE_def fold_map
        foldl_conv_fold comp_def upt_8)
qed

lemma uint_is_unat: "uint w = int (unat w)"
  by simp

lemma header_split:
  assumes "10 \<le> length b"
  obtains b0 b1 b2 b3 b4 b5 b6 b7 b8 b9 r where "b = b0 # b1 # b2 # b3 # b4 # b5 # b6 # b7 # b8 # b9 # r"
  using assms by (auto simp: Suc_le_length_iff numeral_eq_Suc)

lemma unpack_header:
  assumes "10 \<le> length b"
  shows "unpack_fields Big HEADER_FORMAT b =
     [uint (b ! 0), uint (b ! 1), uint (b ! 2), uint (b ! 3), uint (read_be_u16 (drop 4 b)),
      uint (read_be_u32 (drop 6 b))]"
proof -
  obtain b0 b1 b2 b3 b4 b5 b6 b7 b8 b9 r where b: "b = b0 # b1 # b2 # b3 # b4 # b5 # b6 # b7 # b8 # b9 # r"
    using assms by (rule header_split)
  have "read_be_u16 (b4 # b5 # r') = read_be_u16 [b4, b5]" for r'
    by (simp add: read_be_u16_def)
  then have h: "unat (read_be_u16 (b4 # b5 # r')) = be_val [b4, b5]" for r'
    by (metis read_be_join(1) unat_join_bytes_2)
  have "read_be_u32 (b6 # b7 # b8 # b9 # r') = read_be_u32 [b6, b7, b8, b9]" for r'
    by (simp add: read_be_u32_def)
  then have i: "unat (read_be_u32 (b6 # b7 # b8 # b9 # r')) = be_val [b6, b7, b8, b9]" for r'
    by (metis read_be_join(2) unat_join_bytes_4)
  have "be_val [x] = unat x" for x
    by (simp add: be_val_def)
  with h i show ?thesis
    by (simp add: b HEADER_FORMAT_def unpack_field_def byte_order_def uint_is_unat del: of_nat_unat)
qed

lemma header_size [simp]: "calcsize HEADER_FORMAT = KITH_PROTO_HDR_SIZE"
  by (simp add: HEADER_FORMAT_def proto_sizes)

lemma and_2_uint: "uint (w :: byte) AND 2 \<noteq> 0 \<longleftrightarrow> trailer_len_of w = 8"
proof -
  have "uint w AND 2 = uint (w AND 2)"
    by (simp add: unsigned_and_eq)
  then have "uint w AND 2 \<noteq> 0 \<longleftrightarrow> w AND 2 \<noteq> 0"
    by (simp only: unsigned_eq_0_iff)
  then show ?thesis
    by (simp add: trailer_len_of_def proto_sizes KITH_PROTO_FLAG_CORRELATION_def)
qed

lemma known_type: "find_by_id_locked p t \<noteq> None \<longleftrightarrow> uint t \<in> type_ids_of p"
  by (auto simp: find_by_id_locked_def type_ids_of_def find_None_iff
      dest: word_uint_eq_iff [THEN iffD2])

lemma wire_len_within: "int k < uint (w :: 32 word) \<longleftrightarrow> k < unat w"
  by (simp only: uint_is_unat of_nat_less_iff)

subsection \<open>The direct path agrees with the decoder\<close>

definition frame_payload_bytes :: "c_frame \<Rightarrow> bytes" where
  "frame_payload_bytes frame = (case cf_payload frame of None \<Rightarrow> [] | Some b \<Rightarrow> b)"

definition frame_correlation :: "c_frame \<Rightarrow> int" where
  "frame_correlation frame = (if cf_has_correlation frame then uint (cf_correlation_id frame) else 0)"

definition payload_slice :: "bytes \<Rightarrow> nat \<Rightarrow> nat \<Rightarrow> bytes" where
  "payload_slice buf pos payload_end =
     take (payload_end - (pos + calcsize HEADER_FORMAT)) (drop (pos + calcsize HEADER_FORMAT) buf)"

lemma match_direct_conditions:
  assumes m: "match_direct_frame a buf pos = Some (t, corr, pe, e)"
  defines "b \<equiv> drop pos buf"
  defines "n \<equiv> unat (read_be_u32 (drop 6 b))" and "tr \<equiv> trailer_len_of (b ! 3)"
    and "ty \<equiv> uint (read_be_u16 (drop 4 b))"
  shows "10 \<le> length b" and "uint (b ! 0) = 0x4B" and "uint (b ! 1) = 0x54" and "uint (b ! 2) = 1"
    and "ty \<in> ag_registered_type_ids a" and "ag_pong_type_id a = 0 \<or> ty \<noteq> ag_pong_type_id a"
    and "n \<le> ag_direct_wire_limit a" and "pos + 10 + n \<le> length buf" and "tr \<le> n"
    and "t = ty" and "e = pos + 10 + n" and "pe = e - tr"
    and "corr = (if tr \<noteq> 0 then int (be_val (take (e - pe) (drop pe buf))) else 0)"
proof -
  show len: "10 \<le> length b"
    using m by (auto simp: b_def match_direct_frame_def proto_sizes split: if_splits)
  note hdr = unpack_header [OF len [unfolded b_def]]
  have tr: "(if uint (drop pos buf ! 3) AND 2 \<noteq> 0 then CORR_TRAILER_SIZE else 0) = tr"
    using trailer_len_cases [of "b ! 3"] by (auto simp: and_2_uint CORR_TRAILER_SIZE_def tr_def b_def)
  have n: "nat (uint (read_be_u32 (drop 6 (drop pos buf)))) = n" by (simp add: n_def b_def)
  show "uint (b ! 0) = 0x4B" "uint (b ! 1) = 0x54" "uint (b ! 2) = 1"
    "ty \<in> ag_registered_type_ids a" "ag_pong_type_id a = 0 \<or> ty \<noteq> ag_pong_type_id a"
    "n \<le> ag_direct_wire_limit a" "pos + 10 + n \<le> length buf" "tr \<le> n"
    "t = ty" "e = pos + 10 + n" "pe = e - tr"
    "corr = (if tr \<noteq> 0 then int (be_val (take (e - pe) (drop pe buf))) else 0)"
    using m unfolding match_direct_frame_def hdr list.case Let_def tr n header_size wire_len_within
    by (auto simp: proto_sizes ty_def b_def n_def split: if_splits)
qed

lemma match_direct_decodes:
  assumes ok: "agent_ok a" and m: "match_direct_frame a buf pos = Some (t, corr, pe, e)"
    and lock: "lock_ok env"
  obtains frame where
    "kith_proto_decode env (Some (cl_proto (ag_engine a))) (Some (drop pos buf)) =
       (Inr (frame, e - pos), Some (cl_proto (ag_engine a)))"
    and "t = uint (cf_type_id frame)" and "corr = frame_correlation frame"
    and "payload_slice buf pos pe = frame_payload_bytes frame"
    and "pos + KITH_PROTO_HDR_SIZE \<le> e" and "e \<le> length buf"
    and "cl_pong_type_id (ag_engine a) = 0 \<or> cf_type_id frame \<noteq> cl_pong_type_id (ag_engine a)"
proof -
  let ?b = "drop pos buf" and ?p = "cl_proto (ag_engine a)"
  let ?ty = "read_be_u16 (drop 4 ?b)" and ?fl = "?b ! 3" and ?wl = "read_be_u32 (drop 6 ?b)"
  let ?n = "unat ?wl" and ?tr = "trailer_len_of ?fl"
  note conds = match_direct_conditions(2-9) [OF m] and res = match_direct_conditions(10-13) [OF m]
  note len = match_direct_conditions(1) [OF m]
  have magic: "?b ! 0 = KITH_PROTO_MAGIC0" "?b ! 1 = KITH_PROTO_MAGIC1" "?b ! 2 = KITH_PROTO_VERSION"
    using conds(1-3) by (simp_all add: word_uint_eq_iff KITH_PROTO_MAGIC0_def KITH_PROTO_MAGIC1_def
        KITH_PROTO_VERSION_def)
  have parse: "parse_header ?b = Inr (?ty, ?fl, ?wl)"
    using len magic by (simp add: parse_header_def proto_sizes)
  have fits: "\<not> kp_max_payload ?p < ?wl" "\<not> length ?b < 10 + ?n"
    using conds(6,7) ok by (simp_all add: agent_ok_def word_less_nat_alt)
  have small: "\<not> 2 ^ 64 \<le> 10 + ?n"
    using unat_less_32 [of ?wl] by (simp del: unat_less_32)
  have known: "find_by_id_locked ?p ?ty \<noteq> None"
    using conds(4) ok by (simp only: known_type agent_ok_def)
  define frame where "frame =
     \<lparr>cf_type_id = ?ty, cf_flags = ?fl, cf_has_correlation = (?tr = 8),
      cf_correlation_id = (if ?tr = 8 then read_be_u64 (drop (10 + ?n - 8) ?b) else 0),
      cf_payload = (if ?n - ?tr \<noteq> 0 then Some (take (?n - ?tr) (drop 10 ?b)) else None)\<rparr>"
  have "kith_proto_decode env (Some ?p) (Some ?b) = (Inr (frame, e - pos), Some ?p)"
    unfolding kith_proto_decode_def prod.case option.case parse sum.case Let_def has_corr_iff proto_sizes
    using fits small lock known conds(8) trailer_len_cases [of ?fl] res(2)
    by (auto simp: frame_def)
  moreover have "corr = frame_correlation frame"
  proof (cases "?tr = 8")
    case True
    have "8 \<le> length (drop (10 + ?n - 8) ?b)" using conds(7,8) True by simp
    from read_be_u64_join [OF this] have "uint (read_be_u64 (drop (10 + ?n - 8) ?b)) =
        int (be_val (take 8 (drop (10 + ?n - 8) ?b)))"
      by (simp add: unat_join_bytes uint_is_unat del: of_nat_unat)
    then show ?thesis
      using True res conds(8) by (simp add: frame_correlation_def frame_def add.commute add.left_commute)
  next
    case False
    then have "?tr = 0" using trailer_len_cases [of ?fl] by simp
    then show ?thesis using res by (simp add: frame_correlation_def frame_def)
  qed
  moreover have "payload_slice buf pos pe = frame_payload_bytes frame"
    using res conds(8) by (simp add: payload_slice_def frame_payload_bytes_def frame_def proto_sizes
        add.commute)
  moreover have "t = uint (cf_type_id frame)" using res by (simp add: frame_def)
  moreover have "cl_pong_type_id (ag_engine a) = 0 \<or> cf_type_id frame \<noteq> cl_pong_type_id (ag_engine a)"
    using conds(5) ok unsigned_eq_0_iff [of "cl_pong_type_id (ag_engine a)"]
    by (auto simp: agent_ok_def frame_def)
  ultimately show thesis
    using res(2) conds(7) by (intro that [of frame]) (simp_all add: proto_sizes)
qed

subsection \<open>The consumer returns\<close>

lemma decode_consumes:
  assumes "kith_proto_decode env (Some p) (Some b) = (Inr (frame, n), p')"
  shows "KITH_PROTO_HDR_SIZE \<le> n \<and> n \<le> length b"
  using assms by (auto simp: kith_proto_decode_def Let_def proto_reject_def
      split: sum.splits prod.splits if_splits)

lemma consume_one_advances:
  assumes "consume_one env a buf pos = Advance a' pos'" and "pos \<le> length buf"
  shows "pos < pos' \<and> pos' \<le> length buf"
proof (cases "match_direct_frame a buf pos")
  case (Some m)
  obtain t corr pe e where m: "m = (t, corr, pe, e)" by (cases m)
  note r = match_direct_conditions [OF Some [unfolded m]]
  have "pos' = e" using assms(1) Some m by (simp add: consume_one_def)
  then show ?thesis using r(8,11) by simp
next
  case None
  then obtain frame n p where "kith_proto_decode (ae_call env) (Some (cl_proto (ag_engine a)))
      (Some (drop pos buf)) = (Inr (frame, n), p)" "pos' = pos + n"
    using assms by (auto simp: consume_one_def consume_decoded_def Let_def agent_check_def
        split: prod.splits sum.splits if_splits)
  then show ?thesis
    using decode_consumes assms(2) by (fastforce simp: proto_sizes)
qed

subsection \<open>A stream of frames\<close>

type_synonym wire_item = "16 word \<times> 8 word \<times> 64 word \<times> bytes"

definition item_bytes :: "wire_item \<Rightarrow> bytes" where
  "item_bytes = (\<lambda>(t, f, c, payload). frame_bytes t f c payload)"

text \<open>What an event says of its frame, its arrival time apart.\<close>

definition item_data :: "wire_item \<Rightarrow> int \<times> int \<times> bytes" where
  "item_data = (\<lambda>(t, f, c, payload). (uint t, if trailer_len_of f = 0 then 0 else uint c, payload))"

definition event_data :: "ClientEvent \<Rightarrow> int \<times> int \<times> bytes" where
  "event_data e = (ev_type_id e, ev_correlation_id e, ev_payload e)"

definition admissible :: "kith_client \<Rightarrow> wire_item \<Rightarrow> bool" where
  "admissible c = (\<lambda>(t, f, corr, payload).
     frame_fits (cl_proto c) f payload \<and> find_by_id_locked (cl_proto c) t \<noteq> None \<and>
     (cl_pong_type_id c = 0 \<or> t \<noteq> cl_pong_type_id c))"

text \<open>A client past its handshake that keeps every event.\<close>

definition streaming :: "agent_env \<Rightarrow> 'e agent \<Rightarrow> bool" where
  "streaming env a \<longleftrightarrow>
     agent_ok a \<and> ag_running a \<and> \<not> ag_summary_mode a \<and> lock_ok (ae_call env) \<and>
     bo_state (cl_bootstrap (ag_engine a)) \<noteq> BOOTSTRAP_RUNNING \<and>
     length (ag_event_history a) \<le> ag_event_history_size a"

definition same_stream :: "'e agent \<Rightarrow> 'e agent \<Rightarrow> bool" where
  "same_stream a b \<longleftrightarrow>
     ag_engine b = ag_engine a \<and> ag_running b = ag_running a \<and>
     ag_summary_mode b = ag_summary_mode a \<and> ag_direct_wire_limit b = ag_direct_wire_limit a \<and>
     ag_out_limit b = ag_out_limit a \<and> ag_out_cap b = ag_out_cap a \<and>
     ag_registered_type_ids b = ag_registered_type_ids a \<and> ag_pong_type_id b = ag_pong_type_id a \<and>
     ag_inbuf b = ag_inbuf a \<and> ag_pushed b = ag_pushed a \<and> ag_subscriptions b = ag_subscriptions a \<and>
     ag_subscribe_all b = ag_subscribe_all a \<and> ag_event_history_size b = ag_event_history_size a"

definition gained :: "'e agent \<Rightarrow> ClientEvent list \<Rightarrow> 'e agent \<Rightarrow> bool" where
  "gained a evs b \<longleftrightarrow>
     same_stream a b \<and> ag_pending_push b = ag_pending_push a @ evs \<and>
     ag_event_history b = last_n (ag_event_history_size a) (ag_event_history a @ evs)"

lemma length_last_n: "length (last_n n xs) \<le> n"
  by (simp add: last_n_def)

lemma streaming_gained: "streaming env a \<Longrightarrow> gained a evs b \<Longrightarrow> streaming env b"
  by (simp add: streaming_def gained_def same_stream_def agent_ok_def length_last_n)

lemma evict_loop_shape:
  "\<exists>ev n k w. evict_loop a = a\<lparr>ag_evidence := ev, ag_evidence_bytes := n,
      ag_evidence_evictions := k, ag_window_evicted_in_window := w\<rparr>"
proof (induction a rule: evict_loop.induct)
  case (1 a)
  have self: "a = a\<lparr>ag_evidence := ag_evidence a, ag_evidence_bytes := ag_evidence_bytes a,
      ag_evidence_evictions := ag_evidence_evictions a,
      ag_window_evicted_in_window := ag_window_evicted_in_window a\<rparr>" by simp
  show ?case
  proof (cases "ef_payloads (ag_evidence a)")
    case Nil
    then show ?thesis by (subst evict_loop.simps) (simp, metis self)
  next
    case (Cons p ps)
    show ?thesis
    proof (cases "ag_evidence_budget_bytes a < ag_evidence_bytes a")
      case True
      from 1 [OF Cons True refl refl] show ?thesis
        using Cons True by (subst evict_loop.simps) (auto simp: Let_def)
    next
      case False
      then show ?thesis using Cons by (subst evict_loop.simps) (simp, metis self)
    qed
  qed
qed

lemma append_evidence_fields:
  assumes b_def: "b = append_evidence a ts ty payload"
  shows "same_stream a b" and "ag_event_history b = ag_event_history a"
    and "ag_pending_push b = ag_pending_push a" and "ag_summary_last_keep_ns b = ag_summary_last_keep_ns a"
proof -
  obtain ev n k w where "b = a\<lparr>ag_evidence := ev, ag_evidence_bytes := n,
      ag_evidence_evictions := k, ag_window_evicted_in_window := w\<rparr>"
    using evict_loop_shape [of "a\<lparr>ag_evidence := \<lparr>ef_metadata = ef_metadata (ag_evidence a) @ [ts, ty],
        ef_payloads = ef_payloads (ag_evidence a) @ [payload]\<rparr>,
        ag_evidence_bytes := ag_evidence_bytes a + length payload\<rparr>"]
    by (auto simp: b_def append_evidence_def)
  then show "same_stream a b" and "ag_event_history b = ag_event_history a"
    and "ag_pending_push b = ag_pending_push a" and "ag_summary_last_keep_ns b = ag_summary_last_keep_ns a"
    by (simp_all add: same_stream_def)
qed

lemma last_n_append: "last_n n (last_n n xs @ ys) = last_n n (xs @ ys)"
proof (cases "length xs \<le> n")
  case False
  then have "length xs + length ys - n = (length xs - n) + (n + length ys - n)" by simp
  then show ?thesis
    using False by (simp add: last_n_def) (metis append_Nil2 drop_append drop_drop add.commute
        diff_is_0_eq drop0 le_add1 linorder_le_cases)
qed (simp add: last_n_def)

lemma record_event_gained: "same_stream a b \<Longrightarrow> ag_event_history b = ag_event_history a \<Longrightarrow>
    ag_pending_push b = ag_pending_push a \<Longrightarrow> gained a [e] (record_event b e)"
  by (simp add: gained_def record_event_def deque_append_def same_stream_def)

lemma gained_refl: "streaming env a \<Longrightarrow> gained a [] a"
  by (simp add: gained_def same_stream_def streaming_def last_n_def)

lemma gained_trans: "gained a evs b \<Longrightarrow> gained b evs' c \<Longrightarrow> gained a (evs @ evs') c"
  by (simp add: gained_def same_stream_def last_n_append flip: append_assoc)

lemma retain_payload_fields:
  assumes "b = retain_payload a ts ty len payload"
  shows "same_stream a b" and "ag_event_history b = ag_event_history a"
    and "ag_pending_push b = ag_pending_push a"
  using assms append_evidence_fields [of "append_evidence a ts ty payload" a ts ty payload, OF refl]
  by (simp_all add: retain_payload_def same_stream_def)

lemma dispatch_direct_gained:
  assumes "\<not> ag_summary_mode a"
  shows "\<exists>e. event_data e = (t, corr, payload_slice buf pos pe) \<and>
             gained a [e] (dispatch_direct env a buf pos t corr pe)"
proof -
  let ?ts = "ae_clock env (ag_reads a)" and ?p = "payload_slice buf pos pe"
  let ?a1 = "a\<lparr>ag_reads := Suc (ag_reads a), ag_last_frame_ts_ns := Some ?ts\<rparr>"
  let ?a2 = "retain_payload ?a1 ?ts t (pe - (pos + calcsize HEADER_FORMAT)) ?p"
  let ?e = "\<lparr>ev_ts_mono_ns = ?ts, ev_type_id = t, ev_correlation_id = corr, ev_payload = ?p\<rparr>"
  have f: "same_stream a ?a2" "ag_event_history ?a2 = ag_event_history a"
      "ag_pending_push ?a2 = ag_pending_push a"
    using retain_payload_fields [of ?a2 ?a1, OF refl] by (simp_all add: same_stream_def)
  then have "\<not> ag_summary_mode ?a2" using assms by (simp add: same_stream_def)
  then have "dispatch_direct env a buf pos t corr pe =
      (record_event ?a2 ?e)\<lparr>ag_replication_count := Suc (ag_replication_count (record_event ?a2 ?e))\<rparr>"
    using assms by (simp add: dispatch_direct_def monotonic_ns_def Let_def payload_slice_def
        keep_due_def keep_event_def)
  moreover have "gained a [?e] (record_event ?a2 ?e)"
    using f by (rule record_event_gained)
  ultimately have "gained a [?e] (dispatch_direct env a buf pos t corr pe)"
    by (simp add: gained_def same_stream_def)
  then show ?thesis by (intro exI [of _ ?e]) (simp add: event_data_def)
qed

fun step_agent :: "'e consume_step \<Rightarrow> 'e agent" where
  "step_agent (Advance a pos) = a"
| "step_agent (Starved a) = a"
| "step_agent (Failed e a) = a"

lemma retain_payload_inbuf [simp]: "ag_inbuf (retain_payload a ts ty len payload) = ag_inbuf a"
  using retain_payload_fields(1) [OF refl, of a ts ty len payload] by (simp add: same_stream_def)

lemma dispatch_direct_inbuf: "ag_inbuf (dispatch_direct env a buf pos t corr pe) = ag_inbuf a"
  by (simp add: dispatch_direct_def monotonic_ns_def Let_def keep_event_def record_event_def)

lemma consume_one_inbuf: "ag_inbuf (step_agent (consume_one env a buf pos)) = ag_inbuf a"
  by (auto simp: consume_one_def dispatch_direct_inbuf consume_decoded_def Let_def now_ms_def
      monotonic_ns_def on_frame_c_def record_event_def split: option.split prod.split sum.split)

lemma consume_loop_returns:
  "pos \<le> length buf \<Longrightarrow>
     \<exists>e a' k. consume_loop env a buf pos = Some (e, a', k) \<and> pos \<le> k \<and> k \<le> length buf \<and>
              ag_inbuf a' = ag_inbuf a"
proof (induction "length buf - pos" arbitrary: a pos rule: less_induct)
  case less
  note keep = consume_one_inbuf [of env a buf pos]
  show ?case
  proof (cases "ag_running a \<and> pos < length buf")
    case True
    show ?thesis
    proof (cases "consume_one env a buf pos")
      case (Advance a' pos')
      note adv = consume_one_advances [OF Advance less.prems]
      then have "length buf - pos' < length buf - pos" by linarith
      from less.hyps [OF this, of a'] adv show ?thesis
        using True Advance keep by (subst consume_loop.simps) fastforce
    qed (use True keep in \<open>subst consume_loop.simps, simp\<close>)+
  next
    case False
    then show ?thesis using less.prems by (subst consume_loop.simps) auto
  qed
qed

lemma feed_delivers:
  assumes "bo_state (cl_bootstrap c) \<noteq> BOOTSTRAP_RUNNING"
    and "cl_pong_type_id c = 0 \<or> cf_type_id frame \<noteq> cl_pong_type_id c"
  shows "kith_client_feed_frame env c frame now = ((Inr (), c), Some frame)"
  using assms by (auto simp: kith_client_feed_frame_def client_bootstrap_matches_def Let_def)

lemma consume_decoded_gained:
  assumes st: "streaming env a"
    and dec: "kith_proto_decode (ae_call env) (Some (cl_proto (ag_engine a))) (Some (drop pos buf)) =
       (Inr (frame, n), Some (cl_proto (ag_engine a)))"
    and pong: "cl_pong_type_id (ag_engine a) = 0 \<or> cf_type_id frame \<noteq> cl_pong_type_id (ag_engine a)"
  shows "\<exists>e a'. event_data e = (uint (cf_type_id frame), frame_correlation frame, frame_payload_bytes frame) \<and>
             gained a [e] a' \<and> consume_decoded env a buf pos = Advance a' (pos + n)"
proof -
  let ?a2 = "a\<lparr>ag_outbound_empty := False, ag_reads := Suc (ag_reads a)\<rparr>"
  let ?ts = "ae_clock env (Suc (ag_reads a))"
  let ?e = "\<lparr>ev_ts_mono_ns = ?ts, ev_type_id = uint (cf_type_id frame),
            ev_correlation_id = frame_correlation frame, ev_payload = frame_payload_bytes frame\<rparr>"
  let ?a4 = "record_event (?a2\<lparr>ag_reads := Suc (Suc (ag_reads a)), ag_last_frame_ts_ns := Some ?ts\<rparr>) ?e"
  have feed: "kith_client_feed_frame (ae_call env) (ag_engine a) frame now =
      ((Inr (), ag_engine a), Some frame)" for now
    using st pong by (intro feed_delivers) (simp_all add: streaming_def)
  have "on_frame_c env ?a2 frame = ?a4"
    by (simp add: on_frame_c_def monotonic_ns_def Let_def frame_payload_bytes_def frame_correlation_def)
  then have "consume_decoded env a buf pos = Advance (?a4\<lparr>ag_outbound_empty := False\<rparr>) (pos + n)"
    by (simp add: consume_decoded_def dec agent_check_def now_ms_def monotonic_ns_def Let_def feed)
  moreover have "gained a [?e] ?a4"
    by (rule record_event_gained) (simp_all add: same_stream_def)
  then have "gained a [?e] (?a4\<lparr>ag_outbound_empty := False\<rparr>)"
    by (simp add: gained_def same_stream_def)
  ultimately show ?thesis
    by (intro exI [of _ ?e]) (auto simp: event_data_def)
qed

text \<open>Whichever path takes it, a complete frame becomes one event with its data.\<close>

lemma consume_one_frame:
  assumes st: "streaming env a" and adm: "admissible (ag_engine a) item"
    and buf: "drop pos buf = item_bytes item @ rest"
  shows "\<exists>e a'. event_data e = item_data item \<and> gained a [e] a' \<and>
             consume_one env a buf pos = Advance a' (pos + length (item_bytes item))"
proof -
  obtain t f c payload where item: "item = (t, f, c, payload)" by (cases item)
  let ?p = "cl_proto (ag_engine a)" and ?frame = "frame_of t f c payload"
  have ok: "agent_ok a" "lock_ok (ae_call env)" "\<not> ag_summary_mode a"
    using st by (simp_all add: streaming_def)
  have dec: "kith_proto_decode (ae_call env) (Some ?p) (Some (drop pos buf)) =
      (Inr (?frame, length (item_bytes item)), Some ?p)"
    using kith_proto_decode_frame [of ?p f payload t "ae_call env" c rest] adm ok buf
    by (simp add: item admissible_def item_bytes_def)
  have data: "(uint (cf_type_id ?frame), frame_correlation ?frame, frame_payload_bytes ?frame) = item_data item"
    by (simp add: frame_of_def frame_correlation_def frame_payload_bytes_def item_data_def item)
  show ?thesis
  proof (cases "match_direct_frame a buf pos")
    case None
    have "cl_pong_type_id (ag_engine a) = 0 \<or> cf_type_id ?frame \<noteq> cl_pong_type_id (ag_engine a)"
      using adm by (simp add: admissible_def item frame_of_def)
    from consume_decoded_gained [OF st dec this] show ?thesis
      using None data by (simp add: consume_one_def)
  next
    case (Some m)
    obtain ty corr pe e where m: "m = (ty, corr, pe, e)" by (cases m)
    obtain frame where fr: "kith_proto_decode (ae_call env) (Some ?p) (Some (drop pos buf)) =
          (Inr (frame, e - pos), Some ?p)" "ty = uint (cf_type_id frame)"
        "corr = frame_correlation frame" "payload_slice buf pos pe = frame_payload_bytes frame"
        "pos + KITH_PROTO_HDR_SIZE \<le> e"
      using match_direct_decodes [OF ok(1) Some [unfolded m] ok(2)] by metis
    then have "frame = ?frame" "e = pos + length (item_bytes item)"
      using dec by simp_all
    then show ?thesis
      using dispatch_direct_gained [OF ok(3), of ty corr buf pos pe env] fr data Some m
      by (auto simp: consume_one_def)
  qed
qed

lemma consume_one_partial:
  assumes st: "streaming env a" and adm: "admissible (ag_engine a) item"
    and k: "k < length (item_bytes item)" and buf: "drop pos buf = take k (item_bytes item)"
  shows "consume_one env a buf pos = Starved a"
proof -
  obtain t f c payload where item: "item = (t, f, c, payload)" by (cases item)
  let ?p = "cl_proto (ag_engine a)"
  have dec: "kith_proto_decode (ae_call env) (Some ?p) (Some (drop pos buf)) = (Inl KITH_EAGAIN, Some ?p)"
    using kith_proto_decode_partial [of ?p f payload k t c "ae_call env"] adm k buf
    by (simp add: item admissible_def item_bytes_def)
  have "match_direct_frame a buf pos = None"
  proof (rule ccontr)
    assume "match_direct_frame a buf pos \<noteq> None"
    then obtain ty corr pe e where m: "match_direct_frame a buf pos = Some (ty, corr, pe, e)"
      by (metis not_None_eq prod_cases4)
    have "agent_ok a" "lock_ok (ae_call env)" using st by (simp_all add: streaming_def)
    from match_direct_decodes [OF this(1) m this(2)] dec show False by auto
  qed
  then show ?thesis
    by (simp add: consume_one_def consume_decoded_def dec)
qed

lemma consume_loop_stream:
  assumes "streaming env a" and "list_all (admissible (ag_engine a)) items"
    and "admissible (ag_engine a) partial_item" and "k < length (item_bytes partial_item)"
    and "drop pos buf = concat (map item_bytes items) @ take k (item_bytes partial_item)" and "pos \<le> length buf"
  shows "\<exists>a' evs. consume_loop env a buf pos = Some (None, a', pos + length (concat (map item_bytes items))) \<and>
           gained a evs a' \<and> map event_data evs = map item_data items"
  using assms
proof (induction items arbitrary: a pos)
  case Nil
  have run: "ag_running a" using Nil.prems(1) by (simp add: streaming_def)
  show ?case
  proof (cases "pos < length buf")
    case True
    have "consume_one env a buf pos = Starved a"
      using consume_one_partial [OF Nil.prems(1,3,4)] Nil.prems(5) by simp
    then show ?thesis
      using True run gained_refl [OF Nil.prems(1)]
      by (subst consume_loop.simps) (auto intro!: exI [of _ "[]"])
  next
    case False
    then show ?thesis
      using gained_refl [OF Nil.prems(1)] by (subst consume_loop.simps) (auto intro!: exI [of _ "[]"])
  qed
next
  case (Cons item items)
  have run: "ag_running a" using Cons.prems(1) by (simp add: streaming_def)
  have ne: "item_bytes item \<noteq> []" by (cases item) (simp add: item_bytes_def)
  have d: "drop pos buf = item_bytes item @ (concat (map item_bytes items) @ take k (item_bytes partial_item))"
    using Cons.prems(5) by simp
  then have lt: "pos < length buf"
    using ne by (metis append_is_Nil_conv drop_eq_Nil not_le)
  have adm: "admissible (ag_engine a) item" using Cons.prems(2) by simp
  obtain e b where e: "event_data e = item_data item" "gained a [e] b"
      "consume_one env a buf pos = Advance b (pos + length (item_bytes item))"
    using consume_one_frame [OF Cons.prems(1) adm d] by blast
  have eng: "ag_engine b = ag_engine a" using e(2) by (simp add: gained_def same_stream_def)
  let ?pos = "pos + length (item_bytes item)"
  have d': "drop ?pos buf = concat (map item_bytes items) @ take k (item_bytes partial_item)"
    using d by (metis add.commute append_eq_conv_conj drop_drop)
  have le: "?pos \<le> length buf"
    using consume_one_advances [OF e(3)] lt by simp
  obtain a' evs where "consume_loop env b buf ?pos =
        Some (None, a', ?pos + length (concat (map item_bytes items)))"
      "gained b evs a'" "map event_data evs = map item_data items"
    using Cons.IH [of b ?pos] streaming_gained [OF Cons.prems(1) e(2)] Cons.prems(2-4) eng d' le by auto
  then show ?case
    using run lt e gained_trans [OF e(2)]
    by (subst consume_loop.simps) (auto intro!: exI [of _ "e # evs"] simp: add.assoc)
qed

subsection \<open>Properties of the inbound side\<close>

text \<open>
  C11: The direct path is an optimisation of the C decoder. Whenever \<open>_match_direct_frame\<close> accepts the
  bytes at a position, \<open>kith_proto_decode\<close> on the same bytes succeeds, leaves the codec unchanged and
  yields the same message type, correlation identifier (0 without a trailer), payload and end
  position, and the frame is not a pong; the frame it accepts is complete and at least a header long.
\<close>

theorem direct_path_agrees:
  assumes "agent_ok a" and "match_direct_frame a buf pos = Some (t, corr, payload_end, end_pos)"
    and "lock_ok env"
  shows "\<exists>frame. kith_proto_decode env (Some (cl_proto (ag_engine a))) (Some (drop pos buf)) =
             (Inr (frame, end_pos - pos), Some (cl_proto (ag_engine a))) \<and>
           t = uint (cf_type_id frame) \<and>
           corr = (if cf_has_correlation frame then uint (cf_correlation_id frame) else 0) \<and>
           payload_slice buf pos payload_end = frame_payload_bytes frame \<and>
           pos + KITH_PROTO_HDR_SIZE \<le> end_pos \<and> end_pos \<le> length buf \<and>
           (cl_pong_type_id (ag_engine a) = 0 \<or> cf_type_id frame \<noteq> cl_pong_type_id (ag_engine a))"
  using match_direct_decodes [OF assms] by (metis frame_correlation_def)

definition demo_ready :: "unit agent" where
  "demo_ready = (snd (AHC_register_type demo_agent_env demo_agent [97] 9))\<lparr>ag_direct_ready := True\<rparr>"

lemma demo_ready_fields:
  "ag_engine demo_ready = (ag_engine demo_idle)\<lparr>cl_proto :=
     \<lparr>kp_types = [\<lparr>te_name = [97], te_id = 9\<rparr>], kp_cap = 16, kp_max_payload = 64, kp_rejections = 0\<rparr>\<rparr>"
  "ag_registered_type_ids demo_ready = {9}" "ag_direct_ready demo_ready"
  "ag_direct_type_ids demo_ready = {9}" "ag_pong_type_id demo_ready = 0"
  "ag_direct_wire_limit demo_ready = 64" "ag_running demo_ready" "\<not> ag_summary_mode demo_ready"
  "ag_event_history demo_ready = []" "ag_pending_push demo_ready = []" "ag_inbuf demo_ready = []"
  "ag_event_history_size demo_ready = 4"
  by (simp_all add: demo_ready_def AHC_register_type_def demo_agent_def demo_idle_def agent_of_def
      Let_def demo_args_def fresh_client_def kith_proto_register_type_id_def demo_agent_env_def
      engine_env_def find_by_name_locked_def find_by_id_locked_def grow_types_locked_def
      agent_check_def)

lemma demo_ready_ok: "agent_ok demo_ready"
proof -
  have "agent_ok (snd (AHC_register_type demo_agent_env demo_agent [97] 9))"
    by (rule register_agent_ok [OF demo_agent_ok])
  then show ?thesis by (simp add: demo_ready_def agent_ok_def)
qed

definition demo_frame :: bytes where
  "demo_frame = [0x4B, 0x54, 1, 0, 0, 9, 0, 0, 0, 2, 70, 71]"

lemma demo_match: "match_direct_frame demo_ready demo_frame 0 = Some (9, 0, 12, 12)"
  by (simp add: match_direct_frame_def demo_ready_fields demo_frame_def HEADER_FORMAT_def
      unpack_field_def byte_order_def be_val_def)

theorem direct_path_agrees_witness:
  "\<exists>frame. kith_proto_decode engine_env (Some (cl_proto (ag_engine demo_ready))) (Some demo_frame) =
      (Inr (frame, 12), Some (cl_proto (ag_engine demo_ready))) \<and> cf_type_id frame = 9"
proof -
  have "lock_ok engine_env" by (simp add: engine_env_def)
  from direct_path_agrees [OF demo_ready_ok demo_match this] show ?thesis
    by (auto simp: word_uint_eq_iff)
qed

text \<open>
  C16: The inbound consumer returns on every buffer, whatever bytes it holds and whatever the state of
  the client: each round that goes on has consumed at least a frame header. It removes a prefix of
  the buffer and keeps the rest.
\<close>

theorem consumer_returns:
  "\<exists>e a' n. consume_inbound env a = Some (e, a') \<and> n \<le> length (ag_inbuf a) \<and>
            ag_inbuf a' = drop n (ag_inbuf a)"
proof -
  let ?a1 = "if ag_direct_type_ids a \<noteq> {} \<and> \<not> ag_direct_ready a then poll_direct_ready a else a"
  have buf: "ag_inbuf ?a1 = ag_inbuf a" by (simp add: poll_direct_ready_def)
  obtain e b k where "consume_loop env ?a1 (ag_inbuf a) 0 = Some (e, b, k)" "k \<le> length (ag_inbuf a)"
      "ag_inbuf b = ag_inbuf a"
    using consume_loop_returns [of 0 "ag_inbuf a" env ?a1] buf by auto
  then show ?thesis
    using buf by (auto simp: consume_inbound_def Let_def flush_pushes_def)
qed

text \<open>
  C2: A byte stream becomes its events, in order and independently of how it is cut. Take a client
  past its handshake in full-retention mode whose buffer holds any number of encoded frames of
  registered types other than the pong type, followed by an incomplete prefix of another one. One
  consume succeeds, leaves exactly the incomplete prefix in the buffer, and produces one event per
  complete frame with its type, correlation identifier and payload, no matter which of them took
  the direct path; the history holds the last events up to its size, and subscribers receive
  exactly those they subscribed to.
\<close>

theorem stream_becomes_events:
  assumes st: "streaming env a" and items: "list_all (admissible (ag_engine a)) items"
    and rest: "admissible (ag_engine a) next_item" "k < length (item_bytes next_item)"
    and buf: "ag_inbuf a = concat (map item_bytes items) @ take k (item_bytes next_item)"
    and pend: "ag_pending_push a = []"
  shows "\<exists>a' evs. consume_inbound env a = Some (None, a') \<and> ag_inbuf a' = take k (item_bytes next_item) \<and>
           map event_data evs = map item_data items \<and>
           ag_event_history a' = last_n (ag_event_history_size a) (ag_event_history a @ evs) \<and>
           ag_pushed a' = ag_pushed a @ filter (\<lambda>e. matches_subscription a (ev_type_id e)) evs"
proof -
  let ?a1 = "if ag_direct_type_ids a \<noteq> {} \<and> \<not> ag_direct_ready a then poll_direct_ready a else a"
  have a1: "same_stream a ?a1" "ag_pending_push ?a1 = []" "ag_event_history ?a1 = ag_event_history a"
    using pend by (simp_all add: poll_direct_ready_def same_stream_def)
  have "streaming env ?a1"
    using st a1 by (simp add: streaming_def same_stream_def agent_ok_def)
  moreover have "ag_engine ?a1 = ag_engine a" "ag_inbuf ?a1 = ag_inbuf a"
    using a1(1) by (simp_all add: same_stream_def)
  ultimately obtain b evs where b: "consume_loop env ?a1 (ag_inbuf a) 0 =
        Some (None, b, length (concat (map item_bytes items)))"
      "gained ?a1 evs b" "map event_data evs = map item_data items"
    using consume_loop_stream [of env ?a1 items next_item k 0 "ag_inbuf a"] items rest buf by auto
  have "ag_inbuf b = ag_inbuf a" "ag_pushed b = ag_pushed a" "ag_pending_push b = evs"
      "ag_subscriptions b = ag_subscriptions a" "ag_subscribe_all b = ag_subscribe_all a"
      "ag_event_history b = last_n (ag_event_history_size a) (ag_event_history a @ evs)"
    using b(2) a1 by (simp_all add: gained_def same_stream_def)
  then show ?thesis
    using b(1,3) buf a1(1)
    by (auto simp: consume_inbound_def Let_def flush_pushes_def matches_subscription_def same_stream_def)
qed

theorem stream_becomes_events_witness:
  "\<exists>a' evs. consume_inbound demo_agent_env
      (demo_ready\<lparr>ag_inbuf := frame_bytes 9 0 0 [70, 71] @ take 3 (frame_bytes 9 0 0 [72])\<rparr>) =
        Some (None, a') \<and> length (ag_inbuf a') = 3 \<and> map event_data evs = [(9, 0, [70, 71])] \<and>
      ag_event_history a' = evs"
proof -
  let ?a = "demo_ready\<lparr>ag_inbuf := frame_bytes 9 0 0 [70, 71] @ take 3 (frame_bytes 9 0 0 [72])\<rparr>"
  have st: "streaming demo_agent_env ?a"
    using demo_ready_ok by (simp add: streaming_def agent_ok_def demo_ready_fields demo_agent_env_def
        engine_env_def demo_idle_def agent_of_def Let_def fresh_client_def)
  have adm: "admissible (ag_engine ?a) (9, 0, 0, payload)" if "length payload \<le> 2" for payload
    using that by (simp add: admissible_def demo_ready_fields frame_fits_def trailer_len_of_def
        find_by_id_locked_def demo_idle_def agent_of_def Let_def fresh_client_def
        client_resolve_defaults_def create_client_params_def demo_args_def)
  have len: "length (frame_bytes 9 0 0 [72]) = 11"
    by (simp add: length_frame_bytes proto_sizes trailer_len_of_def)
  have p: "list_all (admissible (ag_engine ?a)) [(9, 0, 0, [70, 71])]"
      "admissible (ag_engine ?a) (9, 0, 0, [72])" "3 < length (item_bytes (9, 0, 0, [72]))"
      "ag_inbuf ?a = concat (map item_bytes [(9, 0, 0, [70, 71])]) @ take 3 (item_bytes (9, 0, 0, [72]))"
      "ag_pending_push ?a = []"
    using adm [of "[70, 71]"] adm [of "[72]"] len by (simp_all add: item_bytes_def demo_ready_fields)
  obtain a' evs where r: "consume_inbound demo_agent_env ?a = Some (None, a')"
      "ag_inbuf a' = take 3 (item_bytes (9, 0, 0, [72]))"
      "map event_data evs = map item_data [(9, 0, 0, [70, 71])]"
      "ag_event_history a' = last_n (ag_event_history_size ?a) (ag_event_history ?a @ evs)"
    using stream_becomes_events [OF st p] by blast
  have "length evs = 1" using arg_cong [OF r(3), of length] by simp
  then have "ag_event_history a' = evs"
    using r(4) by (simp add: demo_ready_fields last_n_def)
  moreover have "length (ag_inbuf a') = 3" using r(2) len by (simp add: item_bytes_def)
  moreover have "map event_data evs = [(9, 0, [70, 71])]"
    using r(3) by (simp add: item_data_def trailer_len_of_def)
  ultimately show ?thesis
    using r(1) by (intro exI [of _ a'] exI [of _ evs] conjI)
qed

end
