(* ===== verification/AgentWindow.thy ===== *)
theory AgentWindow
  imports AgentInbound
begin

text \<open>
  The movement-window accumulator of the headless client: the byte budget of the retained frames, and
  what an evidence read proves about the frames received since the window opened. Runs are sequences
  of the calls that touch the window; a second component carries, for the statement only, the frames
  received since the last \<open>begin_view_window\<close>. The clock is the process's monotonic clock, so its
  readings never decrease.
\<close>

subsection \<open>Eviction\<close>

definition bytes_of :: "evidence_frame list \<Rightarrow> nat" where
  "bytes_of fs = sum_list (map (\<lambda>(_, _, p). length p) fs)"

lemma bytes_of_simps [simp]:
  "bytes_of [] = 0" "bytes_of ((ts, ty, p) # fs) = length p + bytes_of fs"
  "bytes_of (fs @ gs) = bytes_of fs + bytes_of gs"
  by (simp_all add: bytes_of_def)

definition retained :: "'e agent \<Rightarrow> evidence_frame list" where
  "retained a = frames_of (ag_evidence a)"

definition store_ok :: "'e agent \<Rightarrow> bool" where
  "store_ok a \<longleftrightarrow> evidence_ok (ag_evidence a) \<and> ag_evidence_bytes a = bytes_of (retained a)"

text \<open>The frames an eviction takes while the window is open and that lie at or after its start.\<close>

definition touches_window :: "'e agent \<Rightarrow> evidence_frame list \<Rightarrow> bool" where
  "touches_window a fs \<longleftrightarrow>
     ag_window_open a \<and>
     (case ag_window_start_ns a of None \<Rightarrow> False | Some s \<Rightarrow> \<exists>f \<in> set fs. s \<le> fst f)"

definition counts_in_window :: "'e agent \<Rightarrow> int \<Rightarrow> bool" where
  "counts_in_window a ts \<longleftrightarrow>
     ag_window_open a \<and> (case ag_window_start_ns a of None \<Rightarrow> False | Some s \<Rightarrow> s \<le> ts)"

lemma touches_window_simps [simp]:
  "\<not> touches_window a []"
  "touches_window a (f # fs) \<longleftrightarrow> counts_in_window a (fst f) \<or> touches_window a fs"
  by (auto simp: touches_window_def counts_in_window_def split: option.splits)

lemma evict_loop_spec:
  "store_ok a \<Longrightarrow>
     \<exists>n. store_ok (evict_loop a) \<and> retained (evict_loop a) = drop n (retained a) \<and>
         ag_evidence_bytes (evict_loop a) \<le> ag_evidence_budget_bytes a \<and>
         (ag_window_evicted_in_window (evict_loop a) \<longleftrightarrow>
            ag_window_evicted_in_window a \<or> touches_window a (take n (retained a)))"
proof (induction a rule: evict_loop.induct)
  case (1 a)
  have ok: "evidence_ok (ag_evidence a)" using 1(2) by (simp add: store_ok_def)
  show ?case
  proof (cases "ef_payloads (ag_evidence a) \<noteq> [] \<and> ag_evidence_budget_bytes a < ag_evidence_bytes a")
    case False
    then have stop: "evict_loop a = a" by (subst evict_loop.simps) (auto split: list.split)
    have "ag_evidence_bytes a \<le> ag_evidence_budget_bytes a"
      using False 1(2) frames_of_empty_iff [OF ok] by (auto simp: store_ok_def retained_def)
    then show ?thesis using 1(2) stop by (intro exI [of _ 0]) simp
  next
    case True
    then obtain ts ty p fs where fs: "retained a = (ts, ty, p) # fs"
      using frames_of_empty_iff [OF ok] by (cases "retained a") (auto simp: retained_def)
    then obtain ms ps where ev: "ag_evidence a = \<lparr>ef_metadata = ts # ty # ms, ef_payloads = p # ps\<rparr>"
        "iter_frames ms ps = fs" "length ms = 2 * length ps"
      using frames_of_Cons [OF ok, of ts ty p fs] by (auto simp: retained_def)
    let ?w = "ag_window_open a \<and> \<not> ag_window_evicted_in_window a \<and>
              (case ag_window_start_ns a of None \<Rightarrow> False | Some s \<Rightarrow> s \<le> ts)"
    let ?b = "a\<lparr>ag_evidence := \<lparr>ef_metadata = ms, ef_payloads = ps\<rparr>,
                ag_evidence_bytes := ag_evidence_bytes a - length p,
                ag_evidence_evictions := Suc (ag_evidence_evictions a),
                ag_window_evicted_in_window := (?w \<or> ag_window_evicted_in_window a)\<rparr>"
    have step: "evict_loop a = evict_loop ?b"
      using True by (subst evict_loop.simps) (simp add: ev Let_def cong: option.case_cong)
    have b: "store_ok ?b" "retained ?b = fs"
      using 1(2) fs ev by (simp_all add: store_ok_def retained_def frames_of_def evidence_ok_def)
    have budget: "ag_evidence_budget_bytes a < ag_evidence_bytes a" using True by simp
    have "\<exists>n. store_ok (evict_loop ?b) \<and> retained (evict_loop ?b) = drop n (retained ?b) \<and>
         ag_evidence_bytes (evict_loop ?b) \<le> ag_evidence_budget_bytes ?b \<and>
         (ag_window_evicted_in_window (evict_loop ?b) \<longleftrightarrow>
            ag_window_evicted_in_window ?b \<or> touches_window ?b (take n (retained ?b)))"
      using 1(1) [of p ps, OF _ budget refl refl] b(1) by (simp add: ev cong: option.case_cong)
    then obtain n where n: "store_ok (evict_loop ?b)" "retained (evict_loop ?b) = drop n fs"
        "ag_evidence_bytes (evict_loop ?b) \<le> ag_evidence_budget_bytes a"
        "ag_window_evicted_in_window (evict_loop ?b) \<longleftrightarrow>
            ag_window_evicted_in_window ?b \<or> touches_window ?b (take n fs)"
      using b(2) by auto
    have "touches_window ?b = touches_window a" by (simp add: touches_window_def fun_eq_iff)
    moreover have "ag_window_evicted_in_window ?b \<longleftrightarrow>
        ag_window_evicted_in_window a \<or> counts_in_window a ts"
      by (auto simp: counts_in_window_def)
    ultimately have "ag_window_evicted_in_window (evict_loop ?b) \<longleftrightarrow>
        ag_window_evicted_in_window a \<or> touches_window a (take (Suc n) (retained a))"
      using n(4) fs by simp
    then show ?thesis
      using n(1-3) step fs by (intro exI [of _ "Suc n"]) simp
  qed
qed

lemma append_evidence_spec:
  assumes "store_ok a"
  obtains n where "store_ok (append_evidence a ts ty p)"
    and "retained (append_evidence a ts ty p) = drop n (retained a @ [(ts, ty, p)])"
    and "ag_evidence_bytes (append_evidence a ts ty p) \<le> ag_evidence_budget_bytes a"
    and "ag_window_evicted_in_window (append_evidence a ts ty p) \<longleftrightarrow>
           ag_window_evicted_in_window a \<or> touches_window a (take n (retained a @ [(ts, ty, p)]))"
proof -
  let ?b = "a\<lparr>ag_evidence := \<lparr>ef_metadata = ef_metadata (ag_evidence a) @ [ts, ty],
                             ef_payloads = ef_payloads (ag_evidence a) @ [p]\<rparr>,
              ag_evidence_bytes := ag_evidence_bytes a + length p\<rparr>"
  have r: "retained ?b = retained a @ [(ts, ty, p)]" "store_ok ?b"
    using assms iter_frames_snoc [of "ef_metadata (ag_evidence a)" "ef_payloads (ag_evidence a)"]
    by (simp_all add: store_ok_def retained_def frames_of_def evidence_ok_def)
  have "touches_window ?b = touches_window a" by (simp add: touches_window_def fun_eq_iff)
  with evict_loop_spec [OF r(2)] r(1) show thesis
    using that by (auto simp: append_evidence_def)
qed

subsection \<open>Runs of the window operations\<close>

datatype window_op =
    WBegin
  | WSeal int
  | WRetire
  | WArm
  | WDirect bytes nat int int nat
  | WView

fun window_step :: "agent_env \<Rightarrow> 'e agent \<Rightarrow> window_op \<Rightarrow> 'e agent" where
  "window_step env a WBegin = begin_view_window env a"
| "window_step env a (WSeal d) = seal_view_window a d"
| "window_step env a WRetire = retire_view_window a"
| "window_step env a WArm = arm_connection a"
| "window_step env a (WDirect buf pos t corr pe) = dispatch_direct env a buf pos t corr pe"
| "window_step env a WView = snd (view_window env a)"

fun since_step ::
    "agent_env \<Rightarrow> 'e agent \<Rightarrow> evidence_frame list \<Rightarrow> window_op \<Rightarrow> evidence_frame list" where
  "since_step env a since WBegin = []"
| "since_step env a since (WDirect buf pos t corr pe) =
     (if pe - (pos + calcsize HEADER_FORMAT) \<noteq> 0
      then since @ [(ae_clock env (ag_reads a), t, payload_slice buf pos pe)] else since)"
| "since_step env a since _ = since"

definition window_run ::
    "agent_env \<Rightarrow> 'e agent \<Rightarrow> window_op list \<Rightarrow> 'e agent \<times> evidence_frame list" where
  "window_run env a ops =
     foldl (\<lambda>(a, since) op. (window_step env a op, since_step env a since op)) (a, []) ops"

text \<open>While nothing of the window was evicted, what is retained ends with everything received since.\<close>

definition window_inv :: "agent_env \<Rightarrow> 'e agent \<Rightarrow> evidence_frame list \<Rightarrow> bool" where
  "window_inv env a since \<longleftrightarrow>
     store_ok a \<and> ag_evidence_bytes a \<le> ag_evidence_budget_bytes a \<and>
     (\<forall>f \<in> set (retained a). fst f \<le> ae_clock env (ag_reads a)) \<and>
     (ag_window_open a \<longrightarrow>
        \<not> ag_evidence_retired a \<and>
        (\<exists>s. ag_window_start_ns a = Some s \<and> s \<le> ae_clock env (ag_reads a) \<and>
             (\<forall>f \<in> set since. s \<le> fst f) \<and>
             (\<not> ag_window_evicted_in_window a \<and> ag_evidence_budget_bytes a \<noteq> 0 \<longrightarrow>
                (\<exists>earlier. retained a = earlier @ since \<and> (\<forall>f \<in> set earlier. fst f \<le> s)))))"

definition same_window :: "'e agent \<Rightarrow> 'e agent \<Rightarrow> bool" where
  "same_window a b \<longleftrightarrow>
     ag_evidence b = ag_evidence a \<and> ag_evidence_bytes b = ag_evidence_bytes a \<and>
     ag_evidence_budget_bytes b = ag_evidence_budget_bytes a \<and>
     ag_evidence_retired b = ag_evidence_retired a \<and> ag_window_open b = ag_window_open a \<and>
     ag_window_start_ns b = ag_window_start_ns a \<and>
     ag_window_evicted_in_window b = ag_window_evicted_in_window a"

lemma window_inv_same:
  assumes "same_window a b" and "ae_clock env (ag_reads a) \<le> ae_clock env (ag_reads b)"
    and "window_inv env a since"
  shows "window_inv env b since"
  using assms by (force simp: window_inv_def same_window_def store_ok_def retained_def)

definition clocked :: "agent_env \<Rightarrow> 'e agent \<Rightarrow> 'e agent" where
  "clocked env a =
     a\<lparr>ag_reads := Suc (ag_reads a), ag_last_frame_ts_ns := Some (ae_clock env (ag_reads a))\<rparr>"

lemma retain_payload_untouched:
  assumes "b = retain_payload a ts t len p"
  shows "ag_reads b = ag_reads a" and "ag_evidence_budget_bytes b = ag_evidence_budget_bytes a"
    and "ag_evidence_retired b = ag_evidence_retired a" and "ag_window_open b = ag_window_open a"
    and "ag_window_start_ns b = ag_window_start_ns a"
proof -
  obtain ev n k w where "append_evidence a ts t p = a\<lparr>ag_evidence := ev, ag_evidence_bytes := n,
      ag_evidence_evictions := k, ag_window_evicted_in_window := w\<rparr>"
    using evict_loop_shape [of "a\<lparr>ag_evidence := \<lparr>ef_metadata = ef_metadata (ag_evidence a) @ [ts, t],
        ef_payloads = ef_payloads (ag_evidence a) @ [p]\<rparr>,
        ag_evidence_bytes := ag_evidence_bytes a + length p\<rparr>"]
    by (auto simp: append_evidence_def)
  then show "ag_reads b = ag_reads a" and "ag_evidence_budget_bytes b = ag_evidence_budget_bytes a"
    and "ag_evidence_retired b = ag_evidence_retired a" and "ag_window_open b = ag_window_open a"
    and "ag_window_start_ns b = ag_window_start_ns a"
    using assms by (simp_all add: retain_payload_def)
qed

lemma dispatch_window:
  defines "len \<equiv> \<lambda>pos pe. pe - (pos + calcsize HEADER_FORMAT)"
  shows "same_window (retain_payload (clocked env a) (ae_clock env (ag_reads a)) t (len pos pe)
                  (payload_slice buf pos pe)) (dispatch_direct env a buf pos t corr pe)"
    and "ag_reads (dispatch_direct env a buf pos t corr pe) = Suc (ag_reads a)"
  using retain_payload_untouched(1) [OF refl, of "clocked env a" "ae_clock env (ag_reads a)" t "len pos pe"
      "payload_slice buf pos pe"]
  by (simp_all add: dispatch_direct_def monotonic_ns_def Let_def payload_slice_def clocked_def
      keep_event_def record_event_def same_window_def len_def)

lemma clock_step: "mono (ae_clock env) \<Longrightarrow> ae_clock env n \<le> ae_clock env (Suc n)"
  by (simp add: monoD)

lemma window_inv_clocked:
  "mono (ae_clock env) \<Longrightarrow> window_inv env a since \<Longrightarrow> window_inv env (clocked env a) since"
  by (rule window_inv_same [of a]) (simp_all add: same_window_def clocked_def clock_step)

text \<open>Retention: a frame is added at the end; an eviction that reaches into the window is flagged.\<close>

lemma window_inv_retain:
  assumes inv: "window_inv env a since" and start: "\<And>s. ag_window_open a \<Longrightarrow> ag_window_start_ns a = Some s \<Longrightarrow> s \<le> ts"
    and now: "ts \<le> ae_clock env (ag_reads a)"
  shows "window_inv env (retain_payload a ts t len p) (if len \<noteq> 0 then since @ [(ts, t, p)] else since)"
proof (cases "ag_evidence_budget_bytes a \<noteq> 0 \<and> len \<noteq> 0 \<and> \<not> ag_evidence_retired a")
  case False
  then have same: "retain_payload a ts t len p = a" by (auto simp: retain_payload_def)
  show ?thesis
    using inv start False unfolding same window_inv_def by auto
next
  case True
  let ?b = "append_evidence a ts t p" and ?f = "(ts, t, p)"
  have b: "retain_payload a ts t len p = ?b" using True by (simp add: retain_payload_def)
  have st: "store_ok a" using inv by (simp add: window_inv_def)
  obtain n where n: "store_ok ?b" "retained ?b = drop n (retained a @ [?f])"
      "ag_evidence_bytes ?b \<le> ag_evidence_budget_bytes a"
      "ag_window_evicted_in_window ?b \<longleftrightarrow>
         ag_window_evicted_in_window a \<or> touches_window a (take n (retained a @ [?f]))"
    using append_evidence_spec [OF st] by blast
  note keep = retain_payload_untouched [OF b [symmetric]]
  have "\<forall>f \<in> set (retained ?b). fst f \<le> ae_clock env (ag_reads ?b)"
    using inv now n(2) keep(1) by (auto simp: window_inv_def dest: in_set_dropD)
  moreover have "\<exists>s. ag_window_start_ns ?b = Some s \<and> s \<le> ae_clock env (ag_reads ?b) \<and>
        (\<forall>f \<in> set (since @ [?f]). s \<le> fst f) \<and>
        (\<not> ag_window_evicted_in_window ?b \<longrightarrow>
           (\<exists>earlier. retained ?b = earlier @ (since @ [?f]) \<and> (\<forall>f \<in> set earlier. fst f \<le> s)))"
    if "ag_window_open ?b"
  proof -
    have op: "ag_window_open a" using that keep(4) by simp
    then obtain s where s: "ag_window_start_ns a = Some s" "s \<le> ae_clock env (ag_reads a)"
        "\<forall>f \<in> set since. s \<le> fst f"
        "\<not> ag_window_evicted_in_window a \<Longrightarrow>
           \<exists>earlier. retained a = earlier @ since \<and> (\<forall>f \<in> set earlier. fst f \<le> s)"
      using inv True by (auto simp: window_inv_def)
    have "\<exists>earlier. retained ?b = earlier @ (since @ [?f]) \<and> (\<forall>f \<in> set earlier. fst f \<le> s)"
      if no: "\<not> ag_window_evicted_in_window ?b"
    proof -
      obtain earlier where e: "retained a = earlier @ since" "\<forall>f \<in> set earlier. fst f \<le> s"
        using s(4) no n(4) by auto
      have gone: "\<forall>f \<in> set (take n (earlier @ (since @ [?f]))). \<not> s \<le> fst f"
        using no n(4) op s(1) e(1) by (simp add: touches_window_def)
      have all: "\<forall>f \<in> set (since @ [?f]). s \<le> fst f" using s start [OF op s(1)] by simp
      have "n \<le> length earlier"
      proof (rule ccontr)
        assume "\<not> n \<le> length earlier"
        then have "hd (since @ [?f]) \<in> set (take n (earlier @ (since @ [?f])))"
          by (cases "since @ [?f]"; cases "n - length earlier") auto
        moreover have "hd (since @ [?f]) \<in> set (since @ [?f])" by (rule hd_in_set) simp
        ultimately show False using gone all by blast
      qed
      then show ?thesis
        using n(2) e by (intro exI [of _ "drop n earlier"]) (auto dest: in_set_dropD)
    qed
    then show ?thesis
      using s start [OF op s(1)] keep(1,5) by auto
  qed
  ultimately show ?thesis
    using n(1,3) inv True keep b by (auto simp: window_inv_def)
qed

lemma window_inv_direct:
  assumes clk: "mono (ae_clock env)" and inv: "window_inv env a since"
  shows "window_inv env (dispatch_direct env a buf pos t corr pe)
           (since_step env a since (WDirect buf pos t corr pe))"
proof -
  let ?ts = "ae_clock env (ag_reads a)"
  have "window_inv env (clocked env a) since" using assms by (rule window_inv_clocked)
  moreover have "s \<le> ?ts" if "ag_window_open (clocked env a)" "ag_window_start_ns (clocked env a) = Some s" for s
    using inv that by (auto simp: window_inv_def clocked_def)
  moreover have "?ts \<le> ae_clock env (ag_reads (clocked env a))"
    using clk by (simp add: clocked_def clock_step)
  ultimately have r: "window_inv env (retain_payload (clocked env a) ?ts t
      (pe - (pos + calcsize HEADER_FORMAT)) (payload_slice buf pos pe))
      (since_step env a since (WDirect buf pos t corr pe))"
    using window_inv_retain [of env "clocked env a" since ?ts t "pe - (pos + calcsize HEADER_FORMAT)"
        "payload_slice buf pos pe"] by (simp only: since_step.simps)
  have "ag_reads (retain_payload (clocked env a) ?ts t (pe - (pos + calcsize HEADER_FORMAT))
      (payload_slice buf pos pe)) = Suc (ag_reads a)"
    by (simp add: retain_payload_untouched(1) [OF refl] clocked_def)
  then show ?thesis
    by (intro window_inv_same [OF dispatch_window(1) _ r]) (simp add: dispatch_window(2))
qed

lemma window_inv_step:
  assumes clk: "mono (ae_clock env)" and inv: "window_inv env a since"
  shows "window_inv env (window_step env a op) (since_step env a since op)"
proof (cases op)
  case WBegin
  have "\<exists>earlier. retained a = earlier \<and> (\<forall>f \<in> set earlier. fst f \<le> ae_clock env (ag_reads a))"
    using inv by (simp add: window_inv_def)
  then show ?thesis
    using inv WBegin clock_step [OF clk, of "ag_reads a"]
    by (auto simp: window_inv_def begin_view_window_def monotonic_ns_def Let_def store_ok_def
        retained_def intro: order.trans)
next
  case (WSeal d)
  have "same_window a (seal_view_window a d)" "ag_reads (seal_view_window a d) = ag_reads a"
    by (simp_all add: same_window_def seal_view_window_def)
  with WSeal inv show ?thesis by (auto intro: window_inv_same)
next
  case WRetire
  then show ?thesis
    using inv by (auto simp: window_inv_def retire_view_window_def store_ok_def retained_def
        evidence_clear_def evidence_ok_def frames_of_def)
next
  case WArm
  show ?thesis
  proof (cases "ag_window_open a")
    case True
    then have "same_window a (arm_connection a)" "ag_reads (arm_connection a) = ag_reads a"
      by (simp_all add: same_window_def arm_connection_def)
    with WArm inv show ?thesis by (auto intro: window_inv_same)
  next
    case False
    then show ?thesis
      using WArm by (simp add: window_inv_def arm_connection_def store_ok_def retained_def
          evidence_clear_def evidence_ok_def frames_of_def)
  qed
next
  case (WDirect buf pos t corr pe)
  then show ?thesis using window_inv_direct [OF assms] by simp
next
  case WView
  have "same_window a (snd (view_window env a)) \<and> ag_reads a \<le> ag_reads (snd (view_window env a))"
    by (auto simp: view_window_def monotonic_ns_def Let_def same_window_def cache_window_evidence_def
        split: option.split sum.split)
  then show ?thesis
    using WView inv clk by (auto intro: window_inv_same dest: monoD)
qed

lemma window_inv_run:
  assumes "mono (ae_clock env)" and "window_inv env a []"
  shows "case window_run env a ops of (b, since) \<Rightarrow> window_inv env b since"
proof (induction ops rule: rev_induct)
  case Nil
  then show ?case using assms(2) by (simp add: window_run_def)
next
  case (snoc op ops)
  then show ?case
    using window_inv_step [OF assms(1)] by (simp add: window_run_def split: prod.splits)
qed

subsection \<open>Properties of the window\<close>

text \<open>An accumulator as the constructor leaves it.\<close>

definition window_fresh :: "'e agent \<Rightarrow> bool" where
  "window_fresh a \<longleftrightarrow>
     ag_evidence a = EvidenceFrames_init \<and> ag_evidence_bytes a = 0 \<and> \<not> ag_window_open a"

definition before_deadline :: "'e WindowSnapshot \<Rightarrow> int \<Rightarrow> bool" where
  "before_deadline snap ts = (case ws_deadline_ns snap of None \<Rightarrow> True | Some d \<Rightarrow> ts \<le> d)"


lemma demo_window_fields:
  "ag_evidence demo_ready = EvidenceFrames_init" "ag_evidence_bytes demo_ready = 0"
  "ag_evidence_budget_bytes demo_ready = 100" "\<not> ag_window_open demo_ready" "ag_reads demo_ready = 0"
  "\<not> ag_evidence_retired demo_ready"
  by (simp_all add: demo_ready_def AHC_register_type_def demo_agent_def demo_idle_def agent_of_def
      Let_def demo_args_def fresh_client_def kith_proto_register_type_id_def demo_agent_env_def
      engine_env_def find_by_name_locked_def find_by_id_locked_def grow_types_locked_def
      agent_check_def)

lemma demo_kept:
  "evict_loop (a\<lparr>ag_evidence := ev, ag_evidence_bytes := n\<rparr>) = a\<lparr>ag_evidence := ev, ag_evidence_bytes := n\<rparr>"
  if "n \<le> ag_evidence_budget_bytes a"
  using that by (subst evict_loop.simps) (simp split: list.split)


subsection \<open>Entering the handshake\<close>

text \<open>A new connection starts from an empty queue: only the first step's frame is on it.\<close>

definition connect_frames :: "kith_client \<Rightarrow> bytes list" where
  "connect_frames c = (case bo_steps (cl_bootstrap c) of [] \<Rightarrow> [] | s # _ \<Rightarrow> step_frames s)"

lemma on_connected_frames:
  assumes inv: "outbound_inv c" and mem: "memory_ok env"
    and enters: "bo_steps (cl_bootstrap c) \<noteq> [] \<Longrightarrow> step_enters (cl_proto c) (hd (bo_steps (cl_bootstrap c)))"
  shows "fst (kith_client_on_connected env c now) = Inr ()"
    and "client_frames (snd (kith_client_on_connected env c now)) = connect_frames c"
proof -
  obtain d where d: "kith_client_on_connected env c now = client_bootstrap_start env d"
      "outbound_inv d" "client_frames d = []" "same_setup c d"
    using inv by (rule on_connected_start)
  let ?r = "client_bootstrap_reset d"
  let ?e = "set_bootstrap_state ?r BOOTSTRAP_RUNNING"
  have e1: "outbound_inv ?e" using d(2) by simp
  have e: "client_frames ?e = []" "client_frames (set_bootstrap_state ?r BOOTSTRAP_READY) = []"
      "same_setup c ?e" "bootstrap_step_count ?e = bootstrap_step_count ?r"
      "bo_steps (cl_bootstrap ?r) = bo_steps (cl_bootstrap c)"
    using d by (simp_all add: same_setup_def set_bootstrap_state_def client_bootstrap_reset_def
        client_frames_def bootstrap_step_count_def)
  have "fst (client_bootstrap_start env d) = Inr () \<and>
        client_frames (snd (client_bootstrap_start env d)) = connect_frames c"
  proof (cases "bo_steps (cl_bootstrap c)")
    case Nil
    then show ?thesis
      using e by (simp add: client_bootstrap_start_def Let_def bootstrap_step_count_def connect_frames_def)
  next
    case (Cons s ss)
    have "0 < unat (oq_cap (cl_outq ?e))"
      using e1 by (simp add: outbound_inv_def queue_inv_def outq_inv_def outq_ok_def word_less_nat_alt)
    then have room: "has_room ?e" using e(1) by (simp add: has_room_def)
    have steps: "bo_steps (cl_bootstrap ?e) = s # ss" "cl_proto ?e = cl_proto c"
      using e(3) Cons by (simp_all add: same_setup_def)
    then have n: "unat (0 :: 32 word) < bootstrap_step_count ?e"
        "step_enters (cl_proto ?e) (bo_steps (cl_bootstrap ?e) ! unat (0 :: 32 word))"
      using enters Cons by (simp_all add: bootstrap_step_count_def)
    obtain g where g: "bootstrap_enter_step env ?e 0 = (Inr (), g)"
        "client_frames g = client_frames ?e @ step_frames (bo_steps (cl_bootstrap ?e) ! unat (0 :: 32 word))"
      by (rule enter_step_sends [OF e1 n(1) mem n(2) room], rule that)
    have "client_bootstrap_start env d = bootstrap_enter_step env ?e 0"
      using n(1) e(4) by (simp add: client_bootstrap_start_def Let_def)
    then show ?thesis using g e(1) steps(1) Cons by (simp add: connect_frames_def)
  qed
  then show "fst (kith_client_on_connected env c now) = Inr ()"
    and "client_frames (snd (kith_client_on_connected env c now)) = connect_frames c"
    using d(1) by simp_all
qed

definition first_frames :: "agent_step \<Rightarrow> bytes list" where
  "first_frames s =
     (case as_on_enter s of
        None \<Rightarrow> []
      | Some None \<Rightarrow> [frame_bytes 0 0 0 []]
      | Some (Some (type_id, payload)) \<Rightarrow>
          [frame_bytes (word_of_int (type_id AND 0xFFFF)) 0 0 (take CLIENT_STEP_PAYLOAD_CAP payload)])"

text \<open>
  C31: What a configured client sends when it connects. After \<open>_configure_bootstrap\<close> succeeded with a
  nonempty list of steps, a fresh connection discards what was queued and puts on the queue exactly
  what the first step asks for: nothing for a step without an \<open>on_enter\<close>, one frame with the type
  cut to 16 bits and the payload cut to the step buffer for a step that returns a message, and one
  empty frame of type 0 for a step whose \<open>on_enter\<close> returns None, although such a step is documented
  to wait passively.
\<close>

theorem connect_sends_first_step:
  assumes ok: "agent_ok a" and conf: "configure_bootstrap env a (s # steps) = (Inr (), b)"
    and len: "length (s # steps) < 2 ^ 32" and mem: "memory_ok (ae_call env)"
    and fits: "\<forall>t p. as_on_enter s = Some (Some (t, p)) \<longrightarrow>
                 frame_fits (cl_proto (ag_engine a)) 0 (take CLIENT_STEP_PAYLOAD_CAP p)"
  shows "client_frames (snd (kith_client_on_connected (ae_call env) (ag_engine b) now)) = first_frames s"
proof -
  let ?steps = "bo_steps (cl_bootstrap (ag_engine b))"
  have b: "cl_outq (ag_engine b) = cl_outq (ag_engine a)" "cl_proto (ag_engine b) = cl_proto (ag_engine a)"
      "cl_events (ag_engine b) = cl_events (ag_engine a)"
      "?steps = map (\<lambda>s. \<lparr>st_await_type_id = word_of_int (as_await_type_id s),
                          st_on_enter = map_option make_enter (as_on_enter s),
                          st_on_reply = map_option make_reply (as_on_reply s)\<rparr>) (s # steps)"
    using conf by (auto simp: configure_bootstrap_def kith_client_configure_bootstrap_def
        client_bootstrap_configure_def agent_check_def Let_def split: if_splits)
  have "list_all enter_ok ?steps"
    unfolding b(4) by (auto simp: list_all_iff enter_ok_def make_enter_def split: option.split)
  then have inv: "outbound_inv (ag_engine b)"
    using ok len b by (auto simp: agent_ok_def outbound_inv_def queue_inv_def steps_ok_def)
  have "frame_fits (cl_proto (ag_engine a)) 0 []" by (simp add: frame_fits_def trailer_len_of_def)
  then have enters: "step_enters (cl_proto (ag_engine b)) (hd ?steps)"
    using fits b by (auto simp: step_enters_def make_enter_def min_def split: option.split)
  have "connect_frames (ag_engine b) = first_frames s"
    using b(4) by (simp add: connect_frames_def step_frames_def first_frames_def make_enter_def min_def
        split: option.split)
  then show ?thesis using on_connected_frames(2) [OF inv mem, of now] enters by simp
qed

theorem connect_sends_first_step_witness:
  "\<exists>b. configure_bootstrap demo_agent_env demo_agent
         [\<lparr>as_await_type_id = 5, as_on_enter = Some None, as_on_reply = None\<rparr>] = (Inr (), b) \<and>
       client_frames (snd (kith_client_on_connected engine_env (ag_engine b) 0)) = [frame_bytes 0 0 0 []]"
proof -
  let ?s = "\<lparr>as_await_type_id = 5, as_on_enter = Some None, as_on_reply = None\<rparr>"
  have "fst (configure_bootstrap demo_agent_env demo_agent [?s]) = Inr ()"
    by (simp add: configure_bootstrap_def kith_client_configure_bootstrap_def Let_def
        client_bootstrap_configure_def agent_check_def demo_agent_def demo_idle_def agent_of_def
        fresh_client_def demo_agent_env_def engine_env_def)
  then obtain b where b: "configure_bootstrap demo_agent_env demo_agent [?s] = (Inr (), b)"
    by (metis prod.collapse)
  have m: "memory_ok (ae_call demo_agent_env)"
    by (simp add: memory_ok_def demo_agent_env_def engine_env_def)
  show ?thesis
    using b connect_sends_first_step [OF demo_agent_ok b _ m, of 0]
    by (simp add: first_frames_def demo_agent_env_def)
qed

subsection \<open>Recent events\<close>

text \<open>
  \<open>recent_events\<close> slices from the negated count: a positive count gives the last events, a count of
  0 the whole history, a negative count drops that many of the oldest.
\<close>

lemma recent_events_slice:
  assumes "\<not> ag_summary_mode a"
  shows "0 < n \<Longrightarrow> recent_events a n = last_n (nat n) (ag_event_history a)"
    and "recent_events a 0 = ag_event_history a"
    and "n < 0 \<Longrightarrow> recent_events a n = drop (nat (- n)) (ag_event_history a)"
  using assms by (auto simp: recent_events_def slice_from_def last_n_def nat_diff_distrib' nat_add_distrib
      intro!: arg_cong [where f = "\<lambda>k. drop k (ag_event_history a)"])

end
