(* ===== verification/AgentDriver.thy ===== *)
theory AgentDriver
  imports AgentWindow
begin

text \<open>
  The connection driver of the headless client (\<open>_run_connection\<close>, \<open>_reconnect_wait\<close>, \<open>_pump\<close>,
  \<open>start\<close>, \<open>stop\<close> of \<open>ahc.py\<close>), cut at its suspension points: a phase says what the coroutine awaits,
  and one operation per segment runs from one await to the next. Everything else that runs on the
  client's loop (socket callbacks, the shared ticker and sweeper, submissions, window calls, control
  commands) is an operation too, so a run of the client is a sequence of operations in the order the
  event loop takes them. An exception that leaves a protocol callback makes asyncio close the
  transport; one that leaves the coroutine ends its task.
\<close>

subsection \<open>Construction\<close>

definition register_all ::
    "agent_env \<Rightarrow> 'e agent \<Rightarrow> (bytes \<times> int) list \<Rightarrow> agent_exc + 'e agent" where
  "register_all env a types =
     rfold (\<lambda>a (name, type_id).
         case AHC_register_type env a name type_id of (Inl e, _) \<Rightarrow> Inl e | (Inr _, a') \<Rightarrow> Inr a')
       a types"

definition AgenticHeadlessClient ::
    "agent_env \<Rightarrow> agent_args \<Rightarrow> (int \<Rightarrow> bytes \<Rightarrow> 'e + int list) option \<Rightarrow> (bytes \<times> int) list \<Rightarrow>
     agent_step list \<Rightarrow> agent_exc + 'e agent" where
  "AgenticHeadlessClient env args extractor message_types bootstrap_steps =
     rbind (AHC_init (ae_call env) args extractor) (\<lambda>a.
     rbind (register_all env a message_types) (\<lambda>a1.
       if bootstrap_steps = [] then Inr a1
       else case configure_bootstrap env a1 bootstrap_steps of
              (Inl e, _) \<Rightarrow> Inl e | (Inr _, a2) \<Rightarrow> Inr a2))"

subsection \<open>Status\<close>

record ClientStatus =
  cs_connected :: bool
  cs_bootstrap_state :: int
  cs_bootstrap_step :: int
  cs_bootstrap_step_count :: int
  cs_rtt_last_ms :: int
  cs_reconnect_attempts :: int

primrec bootstrap_state_value :: "bootstrap_state \<Rightarrow> int" where
  "bootstrap_state_value BOOTSTRAP_IDLE = 0"
| "bootstrap_state_value BOOTSTRAP_RUNNING = 1"
| "bootstrap_state_value BOOTSTRAP_READY = 2"
| "bootstrap_state_value BOOTSTRAP_FAILED = 3"

definition query_status :: "'e agent \<Rightarrow> ClientStatus" where
  "query_status a =
     (let bs = kith_client_bootstrap_status (ag_engine a);
          rs = kith_client_runtime_status (ag_engine a)
      in \<lparr>cs_connected = rst_connected rs, cs_bootstrap_state = bootstrap_state_value (bst_state bs),
          cs_bootstrap_step = uint (bst_current_step bs),
          cs_bootstrap_step_count = int (bst_step_count bs),
          cs_rtt_last_ms = uint (rst_rtt_last_ms rs),
          cs_reconnect_attempts = uint (rst_reconnect_attempts rs)\<rparr>)"

subsection \<open>The driver\<close>

datatype phase =
    Unstarted
  | Idle
  | Connecting
  | Pumping
  | Waiting int
  | Finished
  | Crashed agent_exc
  | Stopped

record 'e driver =
  dr_agent :: "'e agent"
  dr_auto_connect :: bool
  dr_reconnect_enabled :: bool
  dr_connected :: bool
  dr_phase :: phase

definition loop_top :: "'e driver \<Rightarrow> 'e driver" where
  "loop_top d =
     d\<lparr>dr_phase := (if \<not> ag_running (dr_agent d) then Finished
                    else if \<not> dr_auto_connect d then Idle else Connecting)\<rparr>"

definition agent_start :: "'e driver \<Rightarrow> 'e driver" where
  "agent_start d =
     (if ag_running (dr_agent d) then d
      else loop_top (d\<lparr>dr_agent := (dr_agent d)\<lparr>ag_running := True\<rparr>\<rparr>))"

text \<open>The sleep of \<open>_reconnect_wait\<close>, in milliseconds.\<close>

definition reconnect_wait :: "agent_env \<Rightarrow> 'e driver \<Rightarrow> 'e driver" where
  "reconnect_wait env d =
     (if \<not> ag_running (dr_agent d) then loop_top d
      else let rs = kith_client_runtime_status (ag_engine (dr_agent d));
               deadline_ms = uint (rst_next_reconnect_due_ms rs);
               (ns, a1) = monotonic_ns env (dr_agent d);
               delay = (if deadline_ms \<noteq> 0 then max 0 (deadline_ms - ns div 1000000) else 250)
           in d\<lparr>dr_agent := a1, dr_phase := Waiting delay\<rparr>)"

definition connect_failed :: "agent_env \<Rightarrow> 'e driver \<Rightarrow> 'e driver" where
  "connect_failed env d =
     (if \<not> dr_reconnect_enabled d then d\<lparr>dr_phase := Finished\<rparr>
      else let (now, a1) = now_ms env (dr_agent d);
               a2 = a1\<lparr>ag_engine := kith_client_on_connect_failed (ag_engine a1) now\<rparr>
           in reconnect_wait env (d\<lparr>dr_agent := a2\<rparr>))"

definition connect_ok :: "agent_env \<Rightarrow> 'e driver \<Rightarrow> 'e driver option" where
  "connect_ok env d =
     (let a = (dr_agent d)\<lparr>ag_transport := Some \<lparr>tr_closing = False, tr_written = []\<rparr>,
                           ag_outbound_empty := False\<rparr>;
          (now, a1) = now_ms env a;
          (rc, c) = kith_client_on_connected (ae_call env) (ag_engine a1) now;
          a2 = a1\<lparr>ag_engine := c, ag_outbound_empty := False\<rparr>
      in case agent_check rc of
           Inl e \<Rightarrow> Some (d\<lparr>dr_agent := a2, dr_phase := Crashed e\<rparr>)
         | Inr _ \<Rightarrow>
             map_option (\<lambda>(r, a3).
                 d\<lparr>dr_agent := a3, dr_connected := True,
                   dr_phase := (case r of Inl e \<Rightarrow> Crashed e | Inr _ \<Rightarrow> Pumping)\<rparr>)
               (request_flush env (arm_connection a2)))"

definition pump_teardown :: "agent_env \<Rightarrow> 'e driver \<Rightarrow> 'e driver" where
  "pump_teardown env d =
     (let (now, a1) = now_ms env ((dr_agent d)\<lparr>ag_transport := None, ag_inbuf := []\<rparr>)
      in d\<lparr>dr_agent := a1\<lparr>ag_engine := kith_client_on_disconnected (ag_engine a1) now\<rparr>,
           dr_connected := False\<rparr>)"

definition pump_ended :: "agent_env \<Rightarrow> 'e driver \<Rightarrow> 'e driver" where
  "pump_ended env d =
     (let d1 = pump_teardown env d
      in if \<not> dr_reconnect_enabled d1 then d1\<lparr>dr_phase := Finished\<rparr> else reconnect_wait env d1)"

text \<open>Stopping cancels the task, which unwinds the pump, and releases the engine.\<close>

definition agent_stop :: "agent_env \<Rightarrow> 'e driver \<Rightarrow> 'e driver" where
  "agent_stop env d =
     (let d0 = d\<lparr>dr_agent := (dr_agent d)\<lparr>ag_running := False\<rparr>\<rparr>;
          d1 = (if dr_phase d0 = Pumping then pump_teardown env d0 else d0)
      in d1\<lparr>dr_agent := (dr_agent d1)\<lparr>ag_transport := None, ag_inbuf := []\<rparr>, dr_phase := Stopped\<rparr>)"

subsection \<open>Callbacks on the loop\<close>

definition data_received :: "agent_env \<Rightarrow> 'e agent \<Rightarrow> bytes \<Rightarrow> 'e agent option" where
  "data_received env a data =
     map_option (\<lambda>(e, a').
         if e = None then a'
         else a'\<lparr>ag_transport := map_option (\<lambda>t. t\<lparr>tr_closing := True\<rparr>) (ag_transport a')\<rparr>)
       (on_socket_data env a data)"

definition on_write_resumed :: "agent_env \<Rightarrow> 'e agent \<Rightarrow> 'e agent option" where
  "on_write_resumed env a = map_option snd (request_flush env a)"

definition on_connection_lost :: "agent_env \<Rightarrow> 'e driver \<Rightarrow> 'e driver" where
  "on_connection_lost env d = (if dr_phase d = Pumping then pump_ended env d else d)"

end
