(* ===== verification/AgentControl.thy ===== *)
theory AgentControl
  imports AgentDriver PyJson PyStrings
begin

text \<open>
  The control surface of the headless client (\<open>python/kith/_agent/_control.py\<close>): the line-delimited
  JSON commands of the IPC socket and the routes of the HTTP server. A request is a JSON value of
  \<open>PyJson\<close>. Responses keep the request's id and the values the command reports; the wording of error
  messages is left out. What the interpreter contributes is an argument: \<open>str()\<close> of a JSON value that
  is not a string, the integer of a float, its truth value, and the digit values of non-ASCII
  characters.
\<close>

record control_env =
  co_str :: "json \<Rightarrow> pystr"
  co_float_int :: "pystr \<Rightarrow> int option"
  co_float_true :: "pystr \<Rightarrow> bool"
  co_digit :: "nat \<Rightarrow> nat option"

datatype control_exc = KeyErr | ValueErr | OverflowErr | AttributeErr | AgentErr agent_exc

subsection \<open>Values\<close>

definition str_of :: "control_env \<Rightarrow> json \<Rightarrow> pystr" where
  "str_of co j = (case j of JStr s \<Rightarrow> s | _ \<Rightarrow> co_str co j)"

definition int_of_text :: "control_env \<Rightarrow> pystr \<Rightarrow> control_exc + int" where
  "int_of_text co s = (case py_int (co_digit co) s of None \<Rightarrow> Inl ValueErr | Some i \<Rightarrow> Inr i)"

text \<open>A float with no integer value: an infinity overflows, a NaN is a value error.\<close>

definition to_int :: "control_env \<Rightarrow> json \<Rightarrow> control_exc + int" where
  "to_int co value =
     (case value of
        JBool b \<Rightarrow> Inr (if b then 1 else 0)
      | JInt i \<Rightarrow> Inr i
      | JFloat t \<Rightarrow>
          (case co_float_int co t of
             Some i \<Rightarrow> Inr i | None \<Rightarrow> Inl (if t = pytext ''NaN'' then ValueErr else OverflowErr))
      | _ \<Rightarrow> int_of_text co (str_of co value))"

definition event_list :: "json \<Rightarrow> json list" where
  "event_list value = (case value of JList js \<Rightarrow> js | _ \<Rightarrow> [])"

definition truthy :: "control_env \<Rightarrow> json \<Rightarrow> bool" where
  "truthy co j =
     (case j of JNull \<Rightarrow> False | JBool b \<Rightarrow> b | JInt i \<Rightarrow> i \<noteq> 0 | JFloat t \<Rightarrow> co_float_true co t
      | JStr s \<Rightarrow> s \<noteq> [] | JList js \<Rightarrow> js \<noteq> [] | JObj kvs \<Rightarrow> kvs \<noteq> [])"

definition req_get :: "(pystr \<times> json) list \<Rightarrow> string \<Rightarrow> json \<Rightarrow> json" where
  "req_get req k d = (case map_of req (pytext k) of None \<Rightarrow> d | Some j \<Rightarrow> j)"

definition req_item :: "(pystr \<times> json) list \<Rightarrow> string \<Rightarrow> control_exc + json" where
  "req_item req k = (case map_of req (pytext k) of None \<Rightarrow> Inl KeyErr | Some j \<Rightarrow> Inr j)"

text \<open>\<open>bytes.fromhex\<close>: pairs of hexadecimal digits with ASCII white space between them.\<close>

fun fromhex :: "pystr \<Rightarrow> bytes option" where
  "fromhex [] = Some []"
| "fromhex [c] = (if (9 \<le> c \<and> c \<le> 13) \<or> c = 32 then Some [] else None)"
| "fromhex (c # d # s) =
     (if (9 \<le> c \<and> c \<le> 13) \<or> c = 32 then fromhex (d # s)
      else case (hex_digit_value (\<lambda>_. None) c, hex_digit_value (\<lambda>_. None) d) of
             (Some h, Some l) \<Rightarrow> map_option (\<lambda>bs. of_nat (16 * h + l) # bs) (fromhex s)
           | _ \<Rightarrow> None)"

subsection \<open>Commands\<close>

datatype ipc_cmd =
    Cmd_connect
  | Cmd_disconnect
  | Cmd_submit
  | Cmd_register_type
  | Cmd_query_state
  | Cmd_recent_events
  | Cmd_subscribe
  | Cmd_unsubscribe
  | Cmd_shutdown

definition IPC_COMMANDS :: "(pystr \<times> ipc_cmd) list" where
  "IPC_COMMANDS =
     [(pytext ''connect'', Cmd_connect), (pytext ''disconnect'', Cmd_disconnect),
      (pytext ''submit'', Cmd_submit), (pytext ''register_type'', Cmd_register_type),
      (pytext ''query_state'', Cmd_query_state), (pytext ''recent_events'', Cmd_recent_events),
      (pytext ''subscribe'', Cmd_subscribe), (pytext ''unsubscribe'', Cmd_unsubscribe),
      (pytext ''shutdown'', Cmd_shutdown)]"

datatype ipc_response =
    Ack json
  | AckCommand json int
  | AckSubscriptions json bool "int list"
  | AckUnknown json pystr
  | AckError json control_exc
  | StateOf json ClientStatus
  | EventsOf json "ClientEvent list"

primrec response_id :: "ipc_response \<Rightarrow> json" where
  "response_id (Ack i) = i"
| "response_id (AckCommand i _) = i"
| "response_id (AckSubscriptions i _ _) = i"
| "response_id (AckUnknown i _) = i"
| "response_id (AckError i _) = i"
| "response_id (StateOf i _) = i"
| "response_id (EventsOf i _) = i"

type_synonym 'e command_result = "((control_exc + ipc_response) \<times> 'e driver) option"

definition close_transport :: "'e agent \<Rightarrow> 'e agent" where
  "close_transport a = a\<lparr>ag_transport := map_option (\<lambda>t. t\<lparr>tr_closing := True\<rparr>) (ag_transport a)\<rparr>"

definition cmd_connect :: "'e driver \<Rightarrow> json \<Rightarrow> 'e command_result" where
  "cmd_connect d req_id =
     Some (Inr (Ack req_id), if dr_connected d then d else d\<lparr>dr_auto_connect := True\<rparr>)"

definition cmd_disconnect :: "'e driver \<Rightarrow> json \<Rightarrow> 'e command_result" where
  "cmd_disconnect d req_id =
     Some (Inr (Ack req_id), d\<lparr>dr_auto_connect := False, dr_agent := close_transport (dr_agent d)\<rparr>)"

definition submit_args ::
    "control_env \<Rightarrow> (pystr \<times> json) list \<Rightarrow> control_exc + (int \<times> bytes \<times> int \<times> int)" where
  "submit_args co req =
     rbind (req_item req ''type_id'') (\<lambda>t.
     rbind (to_int co t) (\<lambda>type_id.
     rbind (to_int co (req_get req ''flags'' (JInt 0))) (\<lambda>flags.
     rbind (to_int co (req_get req ''correlation_id'' (JInt 0))) (\<lambda>corr.
       let payload_hex = req_get req ''payload_hex'' JNull
       in if truthy co payload_hex
          then (case fromhex (str_of co payload_hex) of
                  None \<Rightarrow> Inl ValueErr | Some payload \<Rightarrow> Inr (type_id, payload, flags, corr))
          else Inr (type_id, [], flags, corr)))))"

definition cmd_submit ::
    "control_env \<Rightarrow> agent_env \<Rightarrow> 'e driver \<Rightarrow> json \<Rightarrow> (pystr \<times> json) list \<Rightarrow> 'e command_result" where
  "cmd_submit co env d req_id req =
     (case submit_args co req of
        Inl e \<Rightarrow> Some (Inl e, d)
      | Inr (type_id, payload, flags, corr) \<Rightarrow>
          map_option (\<lambda>(r, a).
              (case r of Inl e \<Rightarrow> Inl (AgentErr e) | Inr cmd_id \<Rightarrow> Inr (AckCommand req_id cmd_id),
               d\<lparr>dr_agent := a\<rparr>))
            (submit_on_loop env (dr_agent d) type_id payload flags corr))"

text \<open>The name reaches C as a string that ends at its first zero byte.\<close>

definition cmd_register_type ::
    "control_env \<Rightarrow> agent_env \<Rightarrow> 'e driver \<Rightarrow> json \<Rightarrow> (pystr \<times> json) list \<Rightarrow> 'e command_result" where
  "cmd_register_type co env d req_id req =
     (case rbind (req_item req ''name'') (\<lambda>n.
           rbind (req_item req ''type_id'') (\<lambda>t.
           rbind (to_int co t) (\<lambda>type_id.
           case utf8_encode (str_of co n) of
             Inl _ \<Rightarrow> Inl ValueErr
           | Inr name \<Rightarrow> Inr (c_string name, type_id)))) of
        Inl e \<Rightarrow> Some (Inl e, d)
      | Inr (name, type_id) \<Rightarrow>
          (case AHC_register_type env (dr_agent d) name type_id of
             (r, a) \<Rightarrow> Some (case r of Inl e \<Rightarrow> Inl (AgentErr e) | Inr _ \<Rightarrow> Inr (Ack req_id),
                            d\<lparr>dr_agent := a\<rparr>)))"

definition cmd_query_state :: "'e driver \<Rightarrow> json \<Rightarrow> 'e command_result" where
  "cmd_query_state d req_id = Some (Inr (StateOf req_id (query_status (dr_agent d))), d)"

definition cmd_recent_events ::
    "control_env \<Rightarrow> 'e driver \<Rightarrow> json \<Rightarrow> (pystr \<times> json) list \<Rightarrow> 'e command_result" where
  "cmd_recent_events co d req_id req =
     Some (rbind (to_int co (req_get req ''count'' (JInt 64))) (\<lambda>n.
             Inr (EventsOf req_id (recent_events (dr_agent d) n))), d)"

fun change_subscriptions ::
    "control_env \<Rightarrow> (int \<Rightarrow> int set \<Rightarrow> int set) \<Rightarrow> json list \<Rightarrow> int set \<Rightarrow> control_exc option \<times> int set" where
  "change_subscriptions co f [] ids = (None, ids)"
| "change_subscriptions co f (ev # evs) ids =
     (case to_int co ev of
        Inl e \<Rightarrow> (Some e, ids) | Inr i \<Rightarrow> change_subscriptions co f evs (f i ids))"

definition subscription_command ::
    "control_env \<Rightarrow> bool \<Rightarrow> (int \<Rightarrow> int set \<Rightarrow> int set) \<Rightarrow> 'e driver \<Rightarrow> json \<Rightarrow> (pystr \<times> json) list \<Rightarrow>
     'e command_result" where
  "subscription_command co on f d req_id req =
     (let events = event_list (req_get req ''events'' (JList []));
          a = dr_agent d;
          (e, a') = (if events = [JStr (pytext ''*'')] then (None, a\<lparr>ag_subscribe_all := on\<rparr>)
                     else map_prod id (\<lambda>ids. a\<lparr>ag_subscriptions := ids\<rparr>)
                            (change_subscriptions co f events (ag_subscriptions a)))
      in Some (case e of
                 Some x \<Rightarrow> Inl x
               | None \<Rightarrow> Inr (AckSubscriptions req_id (ag_subscribe_all a')
                                (sorted_list_of_set (ag_subscriptions a'))),
               d\<lparr>dr_agent := a'\<rparr>))"

definition cmd_subscribe ::
    "control_env \<Rightarrow> 'e driver \<Rightarrow> json \<Rightarrow> (pystr \<times> json) list \<Rightarrow> 'e command_result" where
  "cmd_subscribe co = subscription_command co True insert"

definition cmd_unsubscribe ::
    "control_env \<Rightarrow> 'e driver \<Rightarrow> json \<Rightarrow> (pystr \<times> json) list \<Rightarrow> 'e command_result" where
  "cmd_unsubscribe co = subscription_command co False (\<lambda>i ids. ids - {i})"

definition cmd_shutdown :: "'e driver \<Rightarrow> json \<Rightarrow> 'e command_result" where
  "cmd_shutdown d req_id =
     Some (Inr (Ack req_id),
           d\<lparr>dr_auto_connect := False, dr_agent := (dr_agent d)\<lparr>ag_running := False\<rparr>\<rparr>)"

definition run_command ::
    "control_env \<Rightarrow> agent_env \<Rightarrow> ipc_cmd \<Rightarrow> 'e driver \<Rightarrow> json \<Rightarrow> (pystr \<times> json) list \<Rightarrow>
     'e command_result" where
  "run_command co env c d req_id req =
     (case c of
        Cmd_connect \<Rightarrow> cmd_connect d req_id
      | Cmd_disconnect \<Rightarrow> cmd_disconnect d req_id
      | Cmd_submit \<Rightarrow> cmd_submit co env d req_id req
      | Cmd_register_type \<Rightarrow> cmd_register_type co env d req_id req
      | Cmd_query_state \<Rightarrow> cmd_query_state d req_id
      | Cmd_recent_events \<Rightarrow> cmd_recent_events co d req_id req
      | Cmd_subscribe \<Rightarrow> cmd_subscribe co d req_id req
      | Cmd_unsubscribe \<Rightarrow> cmd_unsubscribe co d req_id req
      | Cmd_shutdown \<Rightarrow> cmd_shutdown d req_id)"

text \<open>The exceptions \<open>_dispatch_ipc\<close> answers; an overflow or a missing attribute passes through.\<close>

definition answered :: "control_exc \<Rightarrow> bool" where
  "answered e \<longleftrightarrow> e \<noteq> OverflowErr \<and> e \<noteq> AttributeErr"

definition dispatch_ipc ::
    "control_env \<Rightarrow> agent_env \<Rightarrow> 'e driver \<Rightarrow> json \<Rightarrow> 'e command_result" where
  "dispatch_ipc co env d req =
     (case req of
        JObj kvs \<Rightarrow>
          let req_id = req_get kvs ''id'' JNull;
              cmd = str_of co (req_get kvs ''cmd'' (JStr []))
          in (case map_of IPC_COMMANDS cmd of
                None \<Rightarrow> Some (Inr (AckUnknown req_id cmd), d)
              | Some c \<Rightarrow>
                  map_option (\<lambda>(r, d').
                      (case r of
                         Inl e \<Rightarrow> if answered e then Inr (AckError req_id e) else Inl e
                       | Inr resp \<Rightarrow> Inr resp, d'))
                    (run_command co env c d req_id kvs))
      | _ \<Rightarrow> Some (Inl AttributeErr, d))"

subsection \<open>The IPC peer\<close>

definition take_line :: "bytes \<Rightarrow> (bytes \<times> bytes) option" where
  "take_line buf =
     (if 10 \<in> set buf
      then Some (takeWhile (\<lambda>b. b \<noteq> 10) buf, tl (dropWhile (\<lambda>b. b \<noteq> 10) buf)) else None)"

definition bytes_strip :: "bytes \<Rightarrow> bytes" where
  "bytes_strip s =
     (let space = (\<lambda>b. (9 \<le> b \<and> b \<le> 13) \<or> b = 32)
      in rev (dropWhile space (rev (dropWhile space s))))"

text \<open>
  One line: blank lines and lines that are not UTF-8 or not JSON are skipped; the \<open>ValueError\<close> of an
  integer beyond the digit limit is not a decode error and leaves the handler.
\<close>

definition ipc_line ::
    "control_env \<Rightarrow> agent_env \<Rightarrow> 'e driver \<Rightarrow> bytes \<Rightarrow>
     ((control_exc + ipc_response option) \<times> 'e driver) option" where
  "ipc_line co env d line =
     (if bytes_strip line = [] then Some (Inr None, d)
      else case utf8_decode (bytes_strip line) of
        Inl _ \<Rightarrow> Some (Inr None, d)
      | Inr t \<Rightarrow>
          (case json_loads t of
             Inl JSONDecodeError \<Rightarrow> Some (Inr None, d)
           | Inl _ \<Rightarrow> Some (Inl ValueErr, d)
           | Inr req \<Rightarrow>
               map_option (\<lambda>(r, d'). (case r of Inl e \<Rightarrow> Inl e | Inr resp \<Rightarrow> Inr (Some resp), d'))
                 (dispatch_ipc co env d req)))"

lemma after_separator_shorter: "x \<in> set s \<Longrightarrow> length (tl (dropWhile (\<lambda>c. c \<noteq> x) s)) < length s"
  using length_dropWhile_le [of "\<lambda>c. c \<noteq> x" s] by (cases s) auto

lemma take_line_shorter: "take_line buf = Some (line, rest) \<Longrightarrow> length rest < length buf"
  using after_separator_shorter [of 10 buf] by (auto simp: take_line_def split: if_splits)

type_synonym 'e peer_result =
  "(control_exc option \<times> ipc_response list \<times> bytes \<times> 'e driver) option"

function ipc_buffer ::
    "control_env \<Rightarrow> agent_env \<Rightarrow> 'e driver \<Rightarrow> bytes \<Rightarrow> 'e peer_result" where
  "ipc_buffer co env d buf =
     (case take_line buf of
        None \<Rightarrow> Some (None, [], buf, d)
      | Some (line, rest) \<Rightarrow>
          (case ipc_line co env d line of
             None \<Rightarrow> None
           | Some (Inl e, d') \<Rightarrow> Some (Some e, [], rest, d')
           | Some (Inr resp, d') \<Rightarrow>
               map_option (\<lambda>(x, out, buf', d''). (x, (case resp of None \<Rightarrow> [] | Some r \<Rightarrow> [r]) @ out, buf', d''))
                 (ipc_buffer co env d' rest)))"
  by pat_completeness auto
termination by (relation "measure (\<lambda>(_, _, _, buf). length buf)") (auto dest: take_line_shorter)

declare ipc_buffer.simps [simp del]

text \<open>The read loop over the chunks the socket delivers; an empty read is the end of the stream.\<close>

fun ipc_handle_peer ::
    "control_env \<Rightarrow> agent_env \<Rightarrow> 'e driver \<Rightarrow> bytes \<Rightarrow> bytes list \<Rightarrow> 'e peer_result" where
  "ipc_handle_peer co env d buf [] = Some (None, [], buf, d)"
| "ipc_handle_peer co env d buf (data # chunks) =
     (if \<not> ag_running (dr_agent d) \<or> data = [] then Some (None, [], buf, d)
      else case ipc_buffer co env d (buf @ data) of
        None \<Rightarrow> None
      | Some (Some e, out, buf', d') \<Rightarrow> Some (Some e, out, buf', d')
      | Some (None, out, buf', d') \<Rightarrow>
          map_option (\<lambda>(x, out', b, d''). (x, out @ out', b, d'')) (ipc_handle_peer co env d' buf' chunks))"

subsection \<open>The HTTP routes\<close>

definition query_string :: "pystr \<Rightarrow> pystr" where
  "query_string path = tl (dropWhile (\<lambda>c. c \<noteq> 63) path)"

function split_amp :: "pystr \<Rightarrow> pystr list" where
  "split_amp s =
     (if 38 \<in> set s
      then takeWhile (\<lambda>c. c \<noteq> 38) s # split_amp (tl (dropWhile (\<lambda>c. c \<noteq> 38) s))
      else [s])"
  by pat_completeness auto
termination by (relation "measure length") (use after_separator_shorter in auto)

declare split_amp.simps [simp del]

text \<open>The loop of \<open>/events\<close>: the last \<open>count=\<close> pair wins, read from its eighth character on.\<close>

fun events_count :: "control_env \<Rightarrow> pystr list \<Rightarrow> int \<Rightarrow> control_exc + int" where
  "events_count co [] n = Inr n"
| "events_count co (pair # pairs) n =
     (if py_startswith pair (pytext ''count='')
      then rbind (int_of_text co (drop 7 pair)) (events_count co pairs)
      else events_count co pairs n)"

datatype http_reply =
    Health
  | State ClientStatus
  | Events "ClientEvent list"
  | EventStream
  | Command ipc_response
  | BadJson
  | NotFound

definition http_status :: "http_reply \<Rightarrow> nat" where
  "http_status r = (case r of BadJson \<Rightarrow> 400 | NotFound \<Rightarrow> 404 | _ \<Rightarrow> 200)"

definition cmd_body :: "bytes \<Rightarrow> control_exc + json option" where
  "cmd_body body =
     (if body = [] then Inr (Some (JObj []))
      else case utf8_decode body of
        Inl _ \<Rightarrow> Inr None
      | Inr t \<Rightarrow>
          (case json_loads t of
             Inl JSONDecodeError \<Rightarrow> Inr None | Inl _ \<Rightarrow> Inl ValueErr | Inr req \<Rightarrow> Inr (Some req)))"

definition http_route ::
    "control_env \<Rightarrow> agent_env \<Rightarrow> 'e driver \<Rightarrow> pystr \<Rightarrow> pystr \<Rightarrow> bytes \<Rightarrow>
     ((control_exc + http_reply) \<times> 'e driver) option" where
  "http_route co env d verb path body =
     (let get = (verb = pytext ''GET'')
      in if get \<and> py_startswith path (pytext ''/health'') then Some (Inr Health, d)
         else if get \<and> py_startswith path (pytext ''/state'')
         then Some (Inr (State (query_status (dr_agent d))), d)
         else if get \<and> py_startswith path (pytext ''/events'')
         then Some (rbind (events_count co (split_amp (query_string path)) 64) (\<lambda>n.
                      Inr (Events (recent_events (dr_agent d) n))), d)
         else if get \<and> py_startswith path (pytext ''/stream'') then Some (Inr EventStream, d)
         else if verb = pytext ''POST'' \<and> py_startswith path (pytext ''/cmd'')
         then (case cmd_body body of
                 Inl e \<Rightarrow> Some (Inl e, d)
               | Inr None \<Rightarrow> Some (Inr BadJson, d)
               | Inr (Some req) \<Rightarrow>
                   map_option (\<lambda>(r, d'). (case r of Inl e \<Rightarrow> Inl e | Inr resp \<Rightarrow> Inr (Command resp), d'))
                     (dispatch_ipc co env d req))
         else Some (Inr NotFound, d))"

end
