(* ===== verification/AgentScheduling.thy ===== *)
theory AgentScheduling
  imports Prelude "HOL-Library.Multiset" "HOL-Library.AList"
begin

text \<open>
  The shared ticker and the outbound sweeper of the headless clients
  (\<open>python/kith/_agent/_scheduling.py\<close>). The registries are dictionaries keyed by the tick interval;
  the lock makes every registry access one step. A fire takes its snapshot of the bucket and its
  cursor in one step and then ticks the clients of the snapshot in the rotated order, so its result
  is that order. The task of an interval is started at the first registration and is kept.
\<close>

record ('k, 'c) ClientTicker =
  tk_buckets :: "('k, 'c list) dict"
  tk_tasks :: "'k set"
  tk_cursors :: "('k, nat) dict"

definition ClientTicker_init :: "('k, 'c) ClientTicker" where
  "ClientTicker_init = \<lparr>tk_buckets = [], tk_tasks = {}, tk_cursors = []\<rparr>"

definition bucket_of :: "('k, 'c) ClientTicker \<Rightarrow> 'k \<Rightarrow> 'c list" where
  "bucket_of tk interval = (case map_of (tk_buckets tk) interval of None \<Rightarrow> [] | Some cs \<Rightarrow> cs)"

definition cursor_of :: "('k, 'c) ClientTicker \<Rightarrow> 'k \<Rightarrow> nat" where
  "cursor_of tk interval = (case map_of (tk_cursors tk) interval of None \<Rightarrow> 0 | Some n \<Rightarrow> n)"

definition ticker_register :: "('k, 'c) ClientTicker \<Rightarrow> 'k \<Rightarrow> 'c \<Rightarrow> ('k, 'c) ClientTicker" where
  "ticker_register tk interval client =
     tk\<lparr>tk_buckets := AList.update interval (bucket_of tk interval @ [client]) (tk_buckets tk),
        tk_tasks := insert interval (tk_tasks tk)\<rparr>"

definition ticker_unregister :: "('k, 'c) ClientTicker \<Rightarrow> 'k \<Rightarrow> 'c \<Rightarrow> ('k, 'c) ClientTicker" where
  "ticker_unregister tk interval client =
     (case map_of (tk_buckets tk) interval of
        None \<Rightarrow> tk
      | Some bucket \<Rightarrow> tk\<lparr>tk_buckets := AList.update interval (remove1 client bucket) (tk_buckets tk)\<rparr>)"

definition ticker_fire :: "('k, 'c) ClientTicker \<Rightarrow> 'k \<Rightarrow> 'c list \<times> ('k, 'c) ClientTicker" where
  "ticker_fire tk interval =
     (let bucket = bucket_of tk interval;
          cursor = cursor_of tk interval;
          tk' = tk\<lparr>tk_cursors := AList.update interval (cursor + 1) (tk_cursors tk)\<rparr>
      in if bucket = [] then ([], tk')
         else let start = cursor mod length bucket
              in (drop start bucket @ take start bucket, tk'))"

record 'c OutboundSweeper =
  sw_clients :: "'c set"
  sw_task :: bool

definition sweeper_register :: "'c OutboundSweeper \<Rightarrow> 'c \<Rightarrow> 'c OutboundSweeper" where
  "sweeper_register sw client = sw\<lparr>sw_clients := insert client (sw_clients sw), sw_task := True\<rparr>"

definition sweeper_unregister :: "'c OutboundSweeper \<Rightarrow> 'c \<Rightarrow> 'c OutboundSweeper" where
  "sweeper_unregister sw client = sw\<lparr>sw_clients := sw_clients sw - {client}\<rparr>"

subsection \<open>Rotation\<close>

lemma fire_rotates:
  "ticker_fire tk i =
     (rotate (cursor_of tk i) (bucket_of tk i),
      tk\<lparr>tk_cursors := AList.update i (Suc (cursor_of tk i)) (tk_cursors tk)\<rparr>)"
  by (simp add: ticker_fire_def Let_def rotate_drop_take)

lemma cursor_after_fire: "cursor_of (snd (ticker_fire tk i)) j = (if i = j then Suc (cursor_of tk i) else cursor_of tk j)"
  by (simp add: fire_rotates cursor_of_def update_conv')

lemma bucket_after_fire [simp]: "bucket_of (snd (ticker_fire tk i)) j = bucket_of tk j"
  by (simp add: fire_rotates bucket_of_def)

text \<open>The tick orders of consecutive fires of one interval, other intervals firing in between.\<close>

fun fires :: "('k, 'c) ClientTicker \<Rightarrow> 'k \<Rightarrow> 'k list \<Rightarrow> 'c list list" where
  "fires tk i [] = []"
| "fires tk i (j # js) =
     (case ticker_fire tk j of (order, tk') \<Rightarrow> (if j = i then [order] else []) @ fires tk' i js)"

lemma fires_rotations:
  "fires tk i js = map (\<lambda>n. rotate n (bucket_of tk i)) [cursor_of tk i ..< cursor_of tk i + count_list js i]"
proof (induction js arbitrary: tk)
  case (Cons j js)
  let ?tk = "snd (ticker_fire tk j)"
  have "fires tk i (j # js) = (if j = i then [rotate (cursor_of tk i) (bucket_of tk i)] else []) @ fires ?tk i js"
    by (simp add: fire_rotates)
  then show ?case
    using Cons.IH [of ?tk] cursor_after_fire [of tk j i]
    by (cases "j = i") (simp_all add: upt_conv_Cons del: fires.simps upt_Suc)
qed simp

lemma mset_rotate: "mset (rotate n xs) = mset xs"
proof (induction n)
  case (Suc n)
  have "mset (rotate1 ys) = mset ys" for ys :: "'a list" by (cases ys) auto
  then show ?case using Suc by simp
qed simp

lemma rotations_nth:
  assumes "p < length xs"
  shows "mset (map (\<lambda>n. rotate n xs ! p) [k ..< k + length xs]) = mset xs"
proof -
  have pos: "0 < length xs" using assms by auto
  have nth: "rotate n xs ! p = xs ! ((p + n) mod length xs)" for n
    using assms by (simp add: nth_rotate add.commute)
  have "bij_betw (\<lambda>n. (p + n) mod length xs) {k ..< k + length xs} {0 ..< length xs}"
  proof (rule bij_betw_imageI)
    show "inj_on (\<lambda>n. (p + n) mod length xs) {k ..< k + length xs}"
    proof (rule inj_onI)
      fix m n
      assume "m \<in> {k ..< k + length xs}" "n \<in> {k ..< k + length xs}"
        and eq: "(p + m) mod length xs = (p + n) mod length xs"
      then have "\<bar>int m - int n\<bar> < int (length xs)" by auto
      moreover have "int (length xs) dvd (int m - int n)"
        using arg_cong [OF eq, of int] by (simp only: zmod_int mod_eq_dvd_iff) simp
      ultimately show "m = n"
        using zdvd_imp_le [of "int (length xs)" "\<bar>int m - int n\<bar>"] by fastforce
    qed
    then have "card ((\<lambda>n. (p + n) mod length xs) ` {k ..< k + length xs}) = length xs"
      by (simp add: card_image)
    then show "(\<lambda>n. (p + n) mod length xs) ` {k ..< k + length xs} = {0 ..< length xs}"
      using pos by (intro card_subset_eq) auto
  qed
  then have "image_mset (\<lambda>n. (p + n) mod length xs) (mset_set {k ..< k + length xs}) = mset_set {0 ..< length xs}"
    by (simp add: bij_betw_def image_mset_mset_set)
  then have "image_mset ((!) xs) (image_mset (\<lambda>n. (p + n) mod length xs) (mset [k ..< k + length xs])) = mset xs"
    using map_nth [of xs] mset_map [of "(!) xs" "[0 ..< length xs]"] by simp
  then show ?thesis
    by (simp add: nth multiset.map_comp comp_def)
qed

subsection \<open>Property of the ticker\<close>

text \<open>
  C20: The shared ticker is fair. While the registrations of an interval do not change, every fire of
  it ticks every registered client exactly once, and over as many consecutive fires as there are
  clients every position of the batch (the first in particular) is held once by each of them, from
  whatever cursor the run starts and however often other intervals fire in between.
\<close>

theorem ticker_is_fair:
  assumes "count_list js i = length (bucket_of tk i)"
  shows "(\<forall>order \<in> set (fires tk i js). mset order = mset (bucket_of tk i)) \<and>
         (\<forall>p < length (bucket_of tk i).
            mset (map (\<lambda>order. order ! p) (fires tk i js)) = mset (bucket_of tk i))"
proof -
  have "mset (map (\<lambda>order. order ! p) (fires tk i js)) = mset (bucket_of tk i)"
    if "p < length (bucket_of tk i)" for p
    using rotations_nth [OF that, of "cursor_of tk i"] assms by (simp add: fires_rotations comp_def)
  then show ?thesis by (auto simp: fires_rotations mset_rotate)
qed

theorem ticker_is_fair_witness:
  "mset (map (\<lambda>order. order ! 0)
      (fires (ticker_register (ticker_register ClientTicker_init (20 :: nat) ''a'') 20 ''b'') 20 [20, 50, 20])) =
   {#''a'', ''b''#}"
proof -
  let ?tk = "ticker_register (ticker_register ClientTicker_init (20 :: nat) ''a'') 20 ''b''"
  have b: "bucket_of ?tk 20 = [''a'', ''b'']"
    by (simp add: bucket_of_def ticker_register_def ClientTicker_init_def)
  show ?thesis
    using ticker_is_fair [of "[20, 50, 20]" 20 ?tk] by (simp add: b)
qed

end
