(* ===== verification/AgentRuns.thy ===== *)
theory AgentRuns
  imports AgentControl AgentScheduling
begin

text \<open>
  Runs of a headless client: every operation the event loop can take next, in any order. The
  invariant of the client (\<open>agent_ok\<close>, no drain in progress between two operations) and the agreement
  of driver phase, transport and engine are kept by every operation, and every operation returns.
\<close>

subsection \<open>The engine's setup and connection flag\<close>

definition engine_kept :: "kith_client \<Rightarrow> kith_client \<Rightarrow> bool" where
  "engine_kept c d \<longleftrightarrow>
     cl_proto d = cl_proto c \<and> cl_pong_type_id d = cl_pong_type_id c \<and>
     cl_connected d = cl_connected c"

lemma engine_kept_refl [simp]: "engine_kept c c"
  and engine_kept_update [simp]:
    "engine_kept c (d\<lparr>cl_outq := q\<rparr>) = engine_kept c d"
    "engine_kept c (d\<lparr>cl_bootstrap := b\<rparr>) = engine_kept c d"
    "engine_kept c (d\<lparr>cl_reconnect_due := x\<rparr>) = engine_kept c d"
    "engine_kept (d\<lparr>cl_bootstrap := b\<rparr>) c = engine_kept d c"
  by (simp_all add: engine_kept_def)

lemma enqueue_kept: "client_encode_and_enqueue env c t f corr ptr len = (r, d) \<Longrightarrow> engine_kept c d"
  using enqueue_shape [of env c t f corr ptr len] by auto

lemma enter_kept: "engine_kept c (snd (bootstrap_enter_step env c i))"
proof -
  have state: "engine_kept c (set_bootstrap_state d st) = engine_kept c d" for d st
    by (simp add: set_bootstrap_state_def)
  show ?thesis
    by (auto simp: bootstrap_enter_step_def Let_def state dest!: enqueue_kept
        split: option.split prod.split sum.split)
qed

lemma start_kept: "engine_kept c (snd (client_bootstrap_start env c))"
  using enter_kept
  by (auto simp: client_bootstrap_start_def Let_def set_bootstrap_state_def client_bootstrap_reset_def
      engine_kept_def)

lemma feed_kept: "engine_kept c (snd (fst (kith_client_feed_frame env c frame now)))"
proof -
  have "engine_kept c (handle_pong c frame now)"
    by (rule handle_pong_cases [of c frame now]) (simp_all add: engine_kept_def client_record_rtt_def Let_def)
  moreover have "engine_kept c (snd (client_bootstrap_feed env c frame))"
    using enter_kept
    by (auto simp: client_bootstrap_feed_def Let_def set_bootstrap_state_def engine_kept_def
        split: prod.split)
  ultimately show ?thesis by (simp add: kith_client_feed_frame_def)
qed

lemma tick_kept: "engine_kept c (snd (kith_client_tick env c now))"
  by (rule tick_cases [of c now env]) (auto simp: engine_kept_def)

lemma submit_kept: "engine_kept c (snd (kith_client_submit_interactive env c cmd))"
  by (auto simp: kith_client_submit_interactive_def engine_kept_def dest!: enqueue_kept
      split: prod.split sum.split)

lemma pop_kept: "engine_kept c (snd (kith_client_pop_outbound c room))"
  by (simp add: kith_client_pop_outbound_def split: prod.split)

lemma connected_kept:
  "cl_proto (snd (kith_client_on_connected env c now)) = cl_proto c"
  "cl_pong_type_id (snd (kith_client_on_connected env c now)) = cl_pong_type_id c"
  "cl_connected (snd (kith_client_on_connected env c now))"
  using start_kept
  by (simp_all add: kith_client_on_connected_def Let_def runtime_reset_def engine_kept_def)

lemma disconnected_kept:
  "cl_proto (kith_client_on_disconnected c now) = cl_proto c"
  "cl_pong_type_id (kith_client_on_disconnected c now) = cl_pong_type_id c"
  "\<not> cl_connected (kith_client_on_disconnected c now)"
  by (simp_all add: kith_client_on_disconnected_def Let_def client_bootstrap_reset_def
      client_schedule_reconnect_def)

lemma connect_failed_kept: "engine_kept c (kith_client_on_connect_failed c now)"
  by (simp add: kith_client_on_connect_failed_def client_schedule_reconnect_def Let_def engine_kept_def)

subsection \<open>Operations on the client\<close>

definition good :: "'e agent \<Rightarrow> bool" where
  "good a \<longleftrightarrow> agent_ok a \<and> \<not> ag_draining a"

definition same_core :: "'e agent \<Rightarrow> 'e agent \<Rightarrow> bool" where
  "same_core a b \<longleftrightarrow>
     ag_engine b = ag_engine a \<and> ag_direct_wire_limit b = ag_direct_wire_limit a \<and>
     ag_out_limit b = ag_out_limit a \<and> ag_out_cap b = ag_out_cap a \<and>
     ag_registered_type_ids b = ag_registered_type_ids a \<and> ag_pong_type_id b = ag_pong_type_id a \<and>
     ag_draining b = ag_draining a \<and> ag_transport b = ag_transport a \<and> ag_running b = ag_running a"

text \<open>An operation that leaves the connection as it is.\<close>

definition steady :: "'e agent \<Rightarrow> 'e agent \<Rightarrow> bool" where
  "steady a b \<longleftrightarrow>
     (good a \<longrightarrow> good b) \<and> (ag_transport b = None) = (ag_transport a = None) \<and>
     cl_connected (ag_engine b) = cl_connected (ag_engine a) \<and> ag_running b = ag_running a"

lemma steady_refl [simp]: "steady a a"
  by (simp add: steady_def)

lemma steady_trans: "steady a b \<Longrightarrow> steady b c \<Longrightarrow> steady a c"
  by (simp add: steady_def)

lemma same_core_steady: "same_core a b \<Longrightarrow> steady a b"
  by (auto simp: same_core_def steady_def good_def agent_ok_def)

lemma same_core_retain: "same_core a (retain_payload a ts t len p)"
proof -
  obtain ev n k w where "append_evidence a ts t p = a\<lparr>ag_evidence := ev, ag_evidence_bytes := n,
      ag_evidence_evictions := k, ag_window_evicted_in_window := w\<rparr>"
    using evict_loop_shape [of "a\<lparr>ag_evidence := \<lparr>ef_metadata = ef_metadata (ag_evidence a) @ [ts, t],
        ef_payloads = ef_payloads (ag_evidence a) @ [p]\<rparr>,
        ag_evidence_bytes := ag_evidence_bytes a + length p\<rparr>"]
    by (auto simp: append_evidence_def)
  then show ?thesis by (simp add: retain_payload_def same_core_def)
qed

lemma same_core_dispatch: "same_core a (dispatch_direct env a buf pos t corr pe)"
  by (simp add: dispatch_direct_def monotonic_ns_def Let_def keep_event_def record_event_def
      same_core_retain [unfolded same_core_def] same_core_def)

lemma same_core_simple:
  "same_core a (on_frame_c env a frame)" "same_core a (flush_pushes a)" "same_core a (poll_direct_ready a)"
  "same_core a (arm_connection a)" "same_core a (begin_view_window env a)"
  "same_core a (seal_view_window a deadline)" "same_core a (retire_view_window a)"
  "same_core a (snd (view_window env a))" "same_core a (snd (now_ms env a))"
  "same_core a (a\<lparr>ag_inbuf := b\<rparr>)" "same_core a (a\<lparr>ag_outbound_empty := x\<rparr>)"
  "same_core a (a\<lparr>ag_subscribe_all := x\<rparr>)" "same_core a (a\<lparr>ag_subscriptions := ids\<rparr>)"
  by (simp_all add: same_core_def on_frame_c_def monotonic_ns_def record_event_def flush_pushes_def
      poll_direct_ready_def arm_connection_def begin_view_window_def seal_view_window_def
      retire_view_window_def view_window_def cache_window_evidence_def now_ms_def Let_def
      split: option.split sum.split)

lemmas steady_simple = same_core_simple [THEN same_core_steady]

lemma steady_engine:
  assumes "outbound_inv (ag_engine a) \<Longrightarrow> outbound_inv c" and "engine_kept (ag_engine a) c"
  shows "steady a (a\<lparr>ag_engine := c\<rparr>)"
  using assms agent_ok_engine [of a c]
  by (auto simp: steady_def good_def engine_kept_def same_client_setup_def agent_ok_def)

text \<open>The decoder touches its rejection counter only.\<close>

lemma steady_decode:
  assumes "kith_proto_decode env (Some (cl_proto (ag_engine a))) (Some b) = (r, p)"
  shows "steady a (a\<lparr>ag_engine := (ag_engine a)\<lparr>cl_proto := the p\<rparr>\<rparr>)"
proof -
  obtain n where p: "the p = (cl_proto (ag_engine a))\<lparr>kp_rejections := n\<rparr>"
  proof -
    have "\<exists>n. the p = (cl_proto (ag_engine a))\<lparr>kp_rejections := n\<rparr>"
      using assms by (auto simp: kith_proto_decode_def proto_reject_def Let_def
          split: sum.splits prod.splits if_splits intro: exI [of _ "kp_rejections (cl_proto (ag_engine a))"])
    then show thesis using that by blast
  qed
  then show ?thesis
    using wire_frame_cong [of "the p" "cl_proto (ag_engine a)"]
    by (auto simp: steady_def good_def agent_ok_def outbound_inv_def queue_inv_def small_frames_def
        type_ids_of_def)
qed

lemma steady_consume_one: "steady a (step_agent (consume_one env a buf pos))"
proof (cases "match_direct_frame a buf pos")
  case (Some m)
  then show ?thesis
    by (cases m) (simp add: consume_one_def same_core_steady [OF same_core_dispatch])
next
  case None
  let ?dec = "kith_proto_decode (ae_call env) (Some (cl_proto (ag_engine a))) (Some (drop pos buf))"
  obtain r p where d: "?dec = (r, p)" by fastforce
  let ?a1 = "a\<lparr>ag_engine := (ag_engine a)\<lparr>cl_proto := the p\<rparr>\<rparr>"
  have a1: "steady a ?a1" using d by (rule steady_decode)
  show ?thesis
  proof (cases "\<exists>frame n. r = Inr (frame, n)")
    case False
    then show ?thesis
      using None d a1 by (auto simp: consume_one_def consume_decoded_def Let_def agent_check_def
          split: sum.split)
  next
    case True
    then obtain frame n where r: "r = Inr (frame, n)" by blast
    obtain now a2 where now: "now_ms env (?a1\<lparr>ag_outbound_empty := False\<rparr>) = (now, a2)" by fastforce
    have a2: "steady ?a1 a2"
      using now steady_simple(9) [of "?a1\<lparr>ag_outbound_empty := False\<rparr>" env] steady_simple(11) [of ?a1 False]
      by (metis snd_conv steady_trans)
    obtain fed c delivered where feed: "kith_client_feed_frame (ae_call env) (ag_engine a2) frame now =
        ((fed, c), delivered)" by (metis prod.exhaust)
    let ?a3 = "a2\<lparr>ag_engine := c\<rparr>"
    let ?a4 = "case delivered of None \<Rightarrow> ?a3 | Some f \<Rightarrow> on_frame_c env ?a3 f"
    have a3: "steady a2 ?a3"
      using feed_kept [of "ag_engine a2" "ae_call env" frame now] feed
        outbound.kept [of "ag_engine a2" "OpFeed frame now" "ae_call env"]
      by (intro steady_engine) (simp_all add: engine_op_ok_def)
    have a4: "steady ?a3 ?a4" by (simp add: steady_simple(1) split: option.split)
    have "step_agent (consume_one env a buf pos) = ?a4\<lparr>ag_outbound_empty := False\<rparr>"
      using None d r now feed
      by (auto simp: consume_one_def consume_decoded_def Let_def agent_check_def split: sum.split)
    then show ?thesis
      using a1 a2 a3 a4 steady_simple(11) [of ?a4 False] by (metis steady_trans)
  qed
qed

lemma steady_consume_loop:
  assumes "consume_loop env a buf pos = Some r"
  shows "steady a (fst (snd r))"
proof (rule consume_loop.raw_induct [where P = "\<lambda>env a buf pos r. steady a (fst (snd r))", OF _ assms])
  fix loop and env' and a' :: "'a agent" and buf' pos' y
  assume ih: "\<And>env a buf pos y. loop env a buf pos = Some y \<Longrightarrow> steady a (fst (snd y))"
    and "(if ag_running a' \<and> pos' < length buf'
          then case consume_one env' a' buf' pos' of
                 Advance b pos \<Rightarrow> loop env' b buf' pos
               | Starved b \<Rightarrow> Some (None, b, pos') | Failed e b \<Rightarrow> Some (Some e, b, pos')
          else Some (None, a', pos')) = Some y"
  then show "steady a' (fst (snd y))"
    using steady_consume_one [of a' env' buf' pos']
    by (auto split: if_splits consume_step.splits dest!: ih intro: steady_trans)
qed

subsection \<open>The drain\<close>

lemma pop_growing_kept:
  assumes "pop_growing kith_client_pop_outbound limit capacity c = Some r"
  shows "engine_kept c (snd (snd r))"
proof -
  have "pop_growing pop limit capacity c = Some r \<Longrightarrow> pop = kith_client_pop_outbound \<longrightarrow> engine_kept c (snd (snd r))"
    for pop
  proof (erule pop_growing.raw_induct [where P =
          "\<lambda>pop limit capacity c r. pop = kith_client_pop_outbound \<longrightarrow> engine_kept c (snd (snd r))", rotated])
    fix loop and pop :: "kith_client \<Rightarrow> 32 word \<Rightarrow> (kith_error + bytes) \<times> kith_client" and limit capacity c y
    assume ih: "\<And>pop limit capacity c y. loop pop limit capacity c = Some y \<Longrightarrow>
                  pop = kith_client_pop_outbound \<longrightarrow> engine_kept c (snd (snd y))"
      and "(case pop c (of_nat capacity) of
              (Inl e, q') \<Rightarrow>
                if e = KITH_EAGAIN then Some (Inr None, capacity, q')
                else if e = KITH_EOVERFLOW \<and> capacity < limit
                then loop pop limit (min (capacity * 2) limit) q' else Some (Inl e, capacity, q')
            | (Inr frame, q') \<Rightarrow> Some (Inr (Some frame), capacity, q')) = Some y"
    then show "pop = kith_client_pop_outbound \<longrightarrow> engine_kept c (snd (snd y))"
      using pop_kept [of c "of_nat capacity"]
      by (auto split: prod.splits sum.splits if_splits dest!: ih simp: engine_kept_def)
  qed
  then show ?thesis using assms by blast
qed

definition same_link_state :: "'e agent \<Rightarrow> 'e agent \<Rightarrow> bool" where
  "same_link_state a b \<longleftrightarrow>
     (ag_transport b = None) = (ag_transport a = None) \<and>
     cl_connected (ag_engine b) = cl_connected (ag_engine a) \<and> ag_running b = ag_running a"

lemma pop_outbound_link: "pop_outbound a = Some (r, b) \<Longrightarrow> same_link_state a b"
  using pop_growing_kept
  by (fastforce simp: pop_outbound_def same_link_state_def engine_kept_def)

lemma write_link [simp]: "same_link_state a (transport_write b f) = same_link_state a b"
  by (simp add: same_link_state_def transport_write_def)

lemma flush_loop_link:
  assumes "flush_loop env a = Some r"
  shows "same_link_state a (snd r)"
proof (rule flush_loop.raw_induct [where P = "\<lambda>env a r. same_link_state a (snd r)", OF _ assms])
  fix loop and env' and a' :: "'a agent" and y
  assume ih: "\<And>env a y. loop env a = Some y \<Longrightarrow> same_link_state a (snd y)"
    and "(case pop_outbound a' of
            None \<Rightarrow> None
          | Some (Inl e, b) \<Rightarrow> Some (Inl e, b)
          | Some (Inr None, b) \<Rightarrow> Some (Inr (), b)
          | Some (Inr (Some frame), b) \<Rightarrow>
              let a2 = transport_write b frame
              in if OUTBOUND_HIGH_WATER \<le> write_buffer_size env' a2 then Some (Inr (), a2)
                 else loop env' a2) = Some y"
  then show "same_link_state a' (snd y)"
    by (auto simp: Let_def dest!: pop_outbound_link ih split: option.splits sum.splits if_splits)
      (simp_all add: same_link_state_def transport_write_def)
qed

lemma request_flush_good:
  assumes "good a"
  obtains b where "request_flush env a = Some (Inr (), b)" and "steady a b"
proof (cases "can_write a")
  case True
  obtain b where b: "request_flush env a = Some (Inr (), b)" "agent_ok b" "\<not> ag_draining b"
    using request_flush_open [of a env] assms True by (auto simp: good_def)
  have "same_link_state a b"
    using b(1) flush_loop_link
    by (fastforce simp: request_flush_def flush_outbound_def same_link_state_def
        split: option.splits if_splits)
  with b show thesis by (intro that [of b]) (simp_all add: steady_def good_def same_link_state_def)
next
  case False
  then show thesis using request_flush_closed [of a env] steady_simple(11) that by blast
qed

subsection \<open>Every call on the client returns\<close>

lemma steady_good: "steady a b \<Longrightarrow> good a \<Longrightarrow> good b"
  by (simp add: steady_def)

lemma steady_staleness: "steady a (check_pong_staleness env a)"
  by (auto simp: check_pong_staleness_def Let_def monotonic_ns_def steady_def good_def agent_ok_def)

lemma tick_engine_returns:
  assumes "good a"
  obtains b where "tick_engine env a = Some (Inr (), b)" and "steady a b"
proof (cases "ag_running a")
  case False
  then show thesis using that by (simp add: tick_engine_def)
next
  case True
  obtain now a1 where now: "now_ms env a = (now, a1)" by fastforce
  let ?c = "snd (kith_client_tick (ae_call env) (ag_engine a1) now)"
  let ?a2 = "a1\<lparr>ag_engine := ?c, ag_outbound_empty := False\<rparr>"
  have "steady a a1" using now steady_simple(9) [of a env] by simp
  moreover have "steady a1 (a1\<lparr>ag_engine := ?c\<rparr>)"
    using outbound.kept [of "ag_engine a1" "OpTick now" "ae_call env"]
    by (intro steady_engine) (simp_all add: engine_op_ok_def tick_kept)
  ultimately have s: "steady a (check_pong_staleness env ?a2)"
    using steady_simple(11) [of "a1\<lparr>ag_engine := ?c\<rparr>" False] steady_staleness [of ?a2 env]
    by (metis agent.update_convs(7) steady_trans)
  obtain b where "request_flush env (check_pong_staleness env ?a2) = Some (Inr (), b)"
      "steady (check_pong_staleness env ?a2) b"
    using request_flush_good [OF steady_good [OF s assms]] by blast
  then show thesis
    using that [of b] True now s by (auto simp: tick_engine_def intro: steady_trans)
qed

lemma steady_write: "steady a (transport_write a f)"
  by (auto simp: steady_def good_def transport_write_def agent_ok_def)

lemma probe_returns:
  assumes "good a"
  obtains b where "probe_stalled_outbound env a = Some b" and "steady a b"
proof (cases "can_write a")
  case False
  then have "probe_stalled_outbound env a = Some a"
    by (auto simp: probe_stalled_outbound_def can_write_def split: option.splits)
  then show thesis using that by simp
next
  case True
  then obtain t where t: "ag_transport a = Some t" "\<not> tr_closing t" "ag_running a" "\<not> ag_draining a"
    by (auto simp: can_write_def split: option.splits)
  have ok: "agent_ok a" using assms by (simp add: good_def)
  show thesis
  proof (cases "client_frames (ag_engine a)")
    case Nil
    then show thesis
      using pop_outbound_none [OF ok] t steady_simple(11) [of a True] that
      by (simp add: probe_stalled_outbound_def)
  next
    case (Cons f fs)
    then obtain b where b: "pop_outbound a = Some (Inr (Some f), b)" "agent_ok b"
      using pop_outbound_head [OF ok] by metis
    have "\<not> ag_draining b"
      using b(1) t(4) by (auto simp: pop_outbound_def)
    then have s: "steady a b"
      using b pop_outbound_link [OF b(1)] by (simp add: steady_def good_def same_link_state_def)
    have w: "steady a (transport_write b f)" using s steady_write by (rule steady_trans)
    obtain d where "request_flush env (transport_write b f) = Some (Inr (), d)"
        "steady (transport_write b f) d"
      using request_flush_good [OF steady_good [OF w assms]] by blast
    then show thesis
      using that [of d] b(1) t w by (auto simp: probe_stalled_outbound_def intro: steady_trans)
  qed
qed

lemma submit_returns:
  assumes "good a" and "length payload < 2 ^ 32"
  obtains r b where "submit_on_loop env a t payload fl corr = Some (r, b)" and "steady a b"
proof -
  let ?cmd = "\<lparr>cm_type_id = word_of_int (t AND 0xFFFF), cm_flags = word_of_int (fl AND 0xFF),
      cm_correlation_id = word_of_int (corr AND 0xFFFFFFFFFFFFFFFF),
      cm_payload = Some payload, cm_payload_len = of_nat (length payload)\<rparr>"
  have "points_to (cm_payload ?cmd) (cm_payload_len ?cmd) payload"
    using assms(2) by (simp add: points_to_def unat_of_nat_32)
  then have ok: "engine_op_ok (OpSubmit ?cmd)" by (auto simp: engine_op_ok_def)
  obtain r c where sub: "kith_client_submit_interactive (ae_call env) (ag_engine a) ?cmd = (r, c)" by fastforce
  let ?a1 = "a\<lparr>ag_engine := c, ag_outbound_empty := False\<rparr>"
  have "steady a (a\<lparr>ag_engine := c\<rparr>)"
    using outbound.kept [OF _ ok, of "ag_engine a" "ae_call env"] submit_kept [of "ag_engine a" "ae_call env" ?cmd] sub
    by (intro steady_engine) simp_all
  then have s: "steady a ?a1"
    using steady_simple(11) [of "a\<lparr>ag_engine := c\<rparr>" False] by (rule steady_trans)
  obtain b where b: "request_flush env ?a1 = Some (Inr (), b)" "steady ?a1 b"
    using request_flush_good [OF steady_good [OF s assms(1)]] by blast
  have run: "submit_on_loop env a t payload fl corr =
      (case agent_check r of
         Inl e \<Rightarrow> Some (Inl e, ?a1)
       | Inr i \<Rightarrow> map_option (\<lambda>(f, d). (case f of Inl e \<Rightarrow> Inl e | Inr _ \<Rightarrow> Inr (uint i), d)) (request_flush env ?a1))"
    unfolding submit_on_loop_def Let_def sub prod.case ..
  have ab: "steady a b" using s b(2) by (rule steady_trans)
  show thesis
    by (cases "agent_check r") (use run that s ab b(1) in simp_all)
qed

lemma consume_inbound_returns:
  obtains e b where "consume_inbound env a = Some (e, b)" and "steady a b"
proof -
  let ?a1 = "if ag_direct_type_ids a \<noteq> {} \<and> \<not> ag_direct_ready a then poll_direct_ready a else a"
  have a1: "steady a ?a1" by (simp add: steady_simple(3))
  obtain e b n where b: "consume_loop env ?a1 (ag_inbuf ?a1) 0 = Some (e, b, n)"
    using consume_loop_returns [of 0 "ag_inbuf ?a1" env ?a1] by auto
  have "steady ?a1 b" using steady_consume_loop [OF b] by simp
  then have "steady a (flush_pushes (b\<lparr>ag_inbuf := drop n (ag_inbuf b)\<rparr>))"
    by (rule steady_trans [OF a1 steady_trans [OF _ steady_trans [OF steady_simple(10) steady_simple(2)]]])
  then show thesis
    using b by (intro that [of e "flush_pushes (b\<lparr>ag_inbuf := drop n (ag_inbuf b)\<rparr>)"])
      (simp_all add: consume_inbound_def Let_def)
qed

lemma steady_close: "steady a (close_transport a)"
  by (auto simp: steady_def good_def close_transport_def agent_ok_def)

lemma data_received_returns:
  assumes "good a"
  obtains b where "data_received env a data = Some b" and "steady a b"
proof -
  let ?a = "a\<lparr>ag_inbuf := ag_inbuf a @ data\<rparr>"
  obtain e b where b: "consume_inbound env ?a = Some (e, b)" "steady ?a b"
    by (rule consume_inbound_returns)
  have s: "steady a b" using steady_simple(10) b(2) by (rule steady_trans)
  obtain d where d: "request_flush env b = Some (Inr (), d)" "steady b d"
    using request_flush_good [OF steady_good [OF s assms]] by blast
  have c: "steady a (close_transport b)" and ad: "steady a d"
    using s steady_close d(2) by (auto intro: steady_trans)
  show thesis
    by (cases e; cases "ag_outbound_empty b")
      (use that b(1) d(1) c ad s in \<open>simp_all add: data_received_def on_socket_data_def close_transport_def\<close>)
qed

lemma steady_register: "steady a (snd (AHC_register_type env a name t))"
proof -
  have "agent_ok a \<Longrightarrow> agent_ok (snd (AHC_register_type env a name t))" by (rule register_agent_ok)
  then show ?thesis
    by (auto simp: steady_def good_def AHC_register_type_def Let_def split: prod.split sum.split)
qed

subsection \<open>The driver\<close>

definition attached :: "phase \<Rightarrow> bool" where
  "attached ph \<longleftrightarrow> (case ph of Pumping \<Rightarrow> True | Crashed e \<Rightarrow> True | _ \<Rightarrow> False)"

text \<open>
  The transport exists, and the engine takes itself for connected, exactly while the pump is parked
  (or after the coroutine died between connecting and pumping).
\<close>

definition driver_inv :: "'e driver \<Rightarrow> bool" where
  "driver_inv d \<longleftrightarrow>
     (dr_phase d \<noteq> Stopped \<longrightarrow>
        good (dr_agent d) \<and> dr_connected d = (dr_phase d = Pumping) \<and>
        (ag_transport (dr_agent d) \<noteq> None) = attached (dr_phase d) \<and>
        cl_connected (ag_engine (dr_agent d)) = attached (dr_phase d))"

definition calm :: "'e driver \<Rightarrow> 'e driver \<Rightarrow> bool" where
  "calm d d' \<longleftrightarrow>
     dr_phase d' = dr_phase d \<and> dr_connected d' = dr_connected d \<and>
     (good (dr_agent d) \<longrightarrow> good (dr_agent d')) \<and>
     (ag_transport (dr_agent d') = None) = (ag_transport (dr_agent d) = None) \<and>
     cl_connected (ag_engine (dr_agent d')) = cl_connected (ag_engine (dr_agent d))"

lemma calm_inv: "calm d d' \<Longrightarrow> driver_inv d \<Longrightarrow> driver_inv d'"
  by (auto simp: calm_def driver_inv_def)

lemma calm_refl [simp]: "calm d d"
  by (simp add: calm_def)

lemma steady_calm: "steady (dr_agent d) b \<Longrightarrow> calm d (d\<lparr>dr_agent := b\<rparr>)"
  by (simp add: steady_def calm_def)

lemma now_ms_fields:
  assumes "now_ms env a = (now, b)"
  shows "ag_engine b = ag_engine a" and "ag_transport b = ag_transport a" and "good b = good a"
    and "ag_running b = ag_running a"
  using assms by (auto simp: now_ms_def monotonic_ns_def Let_def good_def agent_ok_def)

lemma good_engine:
  assumes "good a" and "outbound_inv c" and "cl_proto c = cl_proto (ag_engine a)"
    and "cl_pong_type_id c = cl_pong_type_id (ag_engine a)"
  shows "good (a\<lparr>ag_engine := c\<rparr>)"
  using assms agent_ok_engine [of a c] by (simp add: good_def same_client_setup_def)

lemma good_plain [simp]:
  "good (a\<lparr>ag_transport := t\<rparr>) = good a" "good (a\<lparr>ag_inbuf := b\<rparr>) = good a"
  "good (a\<lparr>ag_running := r\<rparr>) = good a" "good (a\<lparr>ag_outbound_empty := x\<rparr>) = good a"
  "good (a\<lparr>ag_reads := n\<rparr>) = good a"
  by (simp_all add: good_def agent_ok_def)

lemma good_outbound: "good a \<Longrightarrow> outbound_inv (ag_engine a)"
  by (simp add: good_def agent_ok_def)

lemma inv_loop_top:
  "driver_inv d \<Longrightarrow> dr_phase d \<noteq> Stopped \<Longrightarrow> \<not> attached (dr_phase d) \<Longrightarrow> driver_inv (loop_top d)"
  by (auto simp: driver_inv_def loop_top_def attached_def split: phase.splits)

lemma inv_reconnect_wait:
  assumes "good (dr_agent d)" and "\<not> dr_connected d" and "ag_transport (dr_agent d) = None"
    and "\<not> cl_connected (ag_engine (dr_agent d))"
  shows "driver_inv (reconnect_wait env d)"
  using assms by (auto simp: reconnect_wait_def loop_top_def driver_inv_def attached_def Let_def
      monotonic_ns_def)

lemma inv_connect_failed:
  assumes inv: "driver_inv d" and ph: "dr_phase d = Connecting"
  shows "driver_inv (connect_failed env d)"
proof (cases "dr_reconnect_enabled d")
  case False
  then show ?thesis using assms by (auto simp: connect_failed_def driver_inv_def attached_def)
next
  case True
  obtain now a1 where now: "now_ms env (dr_agent d) = (now, a1)" by fastforce
  note f = now_ms_fields [OF now]
  let ?c = "kith_client_on_connect_failed (ag_engine a1) now"
  have g: "good (dr_agent d)" "ag_transport (dr_agent d) = None" "\<not> dr_connected d"
      "\<not> cl_connected (ag_engine (dr_agent d))"
    using assms by (auto simp: driver_inv_def attached_def)
  have "outbound_inv ?c"
    using outbound.kept [of "ag_engine a1" "OpConnectFailed now" "ae_call env"] g(1) f(1)
    by (simp add: engine_op_ok_def good_outbound)
  then have "good (a1\<lparr>ag_engine := ?c\<rparr>)" "\<not> cl_connected ?c"
    using connect_failed_kept [of "ag_engine a1" now] g f good_engine [of a1 ?c]
    by (simp_all add: engine_kept_def)
  then show ?thesis
    using True now f g by (simp add: connect_failed_def inv_reconnect_wait)
qed

lemma inv_teardown:
  assumes "good (dr_agent d)"
  shows "good (dr_agent (pump_teardown env d))" and "\<not> dr_connected (pump_teardown env d)"
    and "ag_transport (dr_agent (pump_teardown env d)) = None"
    and "\<not> cl_connected (ag_engine (dr_agent (pump_teardown env d)))"
proof -
  let ?a = "(dr_agent d)\<lparr>ag_transport := None, ag_inbuf := []\<rparr>"
  obtain now a1 where now: "now_ms env ?a = (now, a1)" by fastforce
  note f = now_ms_fields [OF now]
  have "outbound_inv (kith_client_on_disconnected (ag_engine a1) now)"
    using outbound.kept [of "ag_engine a1" "OpDisconnected now" "ae_call env"] assms f(1)
    by (simp add: engine_op_ok_def good_outbound)
  then have "good (a1\<lparr>ag_engine := kith_client_on_disconnected (ag_engine a1) now\<rparr>)"
    using f assms by (intro good_engine) (simp_all add: disconnected_kept)
  then show "good (dr_agent (pump_teardown env d))" and "\<not> dr_connected (pump_teardown env d)"
    and "ag_transport (dr_agent (pump_teardown env d)) = None"
    and "\<not> cl_connected (ag_engine (dr_agent (pump_teardown env d)))"
    using now f by (simp_all add: pump_teardown_def disconnected_kept)
qed

lemma inv_pump_ended:
  assumes "driver_inv d" and "dr_phase d = Pumping"
  shows "driver_inv (pump_ended env d)"
proof -
  have "good (dr_agent d)" using assms by (simp add: driver_inv_def)
  note t = inv_teardown [OF this, of env]
  have "driver_inv ((pump_teardown env d)\<lparr>dr_phase := Finished\<rparr>)"
    using t by (simp add: driver_inv_def attached_def)
  then show ?thesis using inv_reconnect_wait [OF t] by (simp add: pump_ended_def Let_def)
qed

lemma inv_connect_ok:
  assumes inv: "driver_inv d" and ph: "dr_phase d = Connecting"
  obtains d' where "connect_ok env d = Some d'" and "driver_inv d'"
proof -
  let ?a = "(dr_agent d)\<lparr>ag_transport := Some \<lparr>tr_closing = False, tr_written = []\<rparr>,
                        ag_outbound_empty := False\<rparr>"
  obtain now a1 where now: "now_ms env ?a = (now, a1)" by fastforce
  note f = now_ms_fields [OF now]
  obtain rc c where on: "kith_client_on_connected (ae_call env) (ag_engine a1) now = (rc, c)" by fastforce
  have g: "good (dr_agent d)" "\<not> dr_connected d"
    using assms by (auto simp: driver_inv_def attached_def)
  have "outbound_inv c"
    using outbound.kept [of "ag_engine a1" "OpConnected now" "ae_call env"] g(1) f(1) on
    by (simp add: engine_op_ok_def good_outbound)
  moreover note connected_kept [of "ae_call env" "ag_engine a1" now, unfolded on snd_conv]
  ultimately have c: "good (a1\<lparr>ag_engine := c\<rparr>)" "cl_connected c"
    using g(1) f(3) by (auto intro: good_engine)
  let ?a2 = "a1\<lparr>ag_engine := c, ag_outbound_empty := False\<rparr>"
  have a2: "good ?a2" using c(1) by simp
  have arm: "steady ?a2 (arm_connection ?a2)" by (rule steady_simple(4))
  obtain b where b: "request_flush env (arm_connection ?a2) = Some (Inr (), b)" "steady (arm_connection ?a2) b"
    using request_flush_good [OF steady_good [OF arm a2]] by blast
  have "steady ?a2 b" using arm b(2) by (rule steady_trans)
  with a2 c(2) have st: "good b" "ag_transport b \<noteq> None" "cl_connected (ag_engine b)"
    using f(2) by (auto simp: steady_def)
  have run: "connect_ok env d =
      (case agent_check rc of
         Inl e \<Rightarrow> Some (d\<lparr>dr_agent := ?a2, dr_phase := Crashed e\<rparr>)
       | Inr _ \<Rightarrow> Some (d\<lparr>dr_agent := b, dr_connected := True, dr_phase := Pumping\<rparr>))"
    unfolding connect_ok_def Let_def now prod.case on b(1) by (simp split: sum.split)
  show thesis
  proof (cases "agent_check rc")
    case (Inl e)
    then show thesis
      using run a2 c(2) g(2) f(2) by (intro that [OF run [unfolded Inl sum.case]])
        (simp add: driver_inv_def attached_def)
  next
    case (Inr u)
    then show thesis
      using st by (intro that [OF run [unfolded Inr sum.case]]) (simp add: driver_inv_def attached_def)
  qed
qed

subsection \<open>Control commands\<close>

definition submit_sized :: "control_env \<Rightarrow> json \<Rightarrow> bool" where
  "submit_sized co req =
     (case req of
        JObj kvs \<Rightarrow> (case submit_args co kvs of Inl _ \<Rightarrow> True | Inr (t, payload, f, c) \<Rightarrow> length payload < 2 ^ 32)
      | _ \<Rightarrow> True)"

lemma to_int_errors: "to_int co j = Inl e \<Longrightarrow> e \<noteq> AttributeErr"
  by (auto simp: to_int_def int_of_text_def split: json.splits option.splits if_splits)

lemma req_item_errors: "req_item req k = Inl e \<Longrightarrow> e \<noteq> AttributeErr"
  by (auto simp: req_item_def split: option.splits)

lemma change_subscriptions_errors:
  "change_subscriptions co f evs ids = (Some e, ids') \<Longrightarrow> e \<noteq> AttributeErr"
  by (induction evs arbitrary: ids) (auto dest: to_int_errors split: sum.splits)

lemma submit_args_errors: "submit_args co req = Inl e \<Longrightarrow> e \<noteq> AttributeErr"
  by (auto simp: submit_args_def rbind_def Let_def dest: to_int_errors req_item_errors
      split: sum.splits if_splits option.splits)

definition fair_answer :: "json \<Rightarrow> control_exc + ipc_response \<Rightarrow> bool" where
  "fair_answer req_id r \<longleftrightarrow>
     (case r of Inl e \<Rightarrow> e \<noteq> AttributeErr | Inr resp \<Rightarrow> response_id resp = req_id)"

lemma calm_subscription:
  "\<exists>r d'. subscription_command co on f d req_id req = Some (r, d') \<and> calm d d' \<and> fair_answer req_id r"
proof -
  let ?events = "event_list (req_get req ''events'' (JList []))"
  obtain e ids where ids: "change_subscriptions co f ?events (ag_subscriptions (dr_agent d)) = (e, ids)"
    by fastforce
  have "calm d (d\<lparr>dr_agent := (dr_agent d)\<lparr>ag_subscribe_all := on\<rparr>\<rparr>)"
    "calm d (d\<lparr>dr_agent := (dr_agent d)\<lparr>ag_subscriptions := ids\<rparr>\<rparr>)"
    by (simp_all add: steady_calm steady_simple(12,13))
  then show ?thesis
    using change_subscriptions_errors [of co f ?events] ids
    by (cases "?events = [JStr (pytext ''*'')]"; cases e)
      (auto simp: subscription_command_def Let_def fair_answer_def)
qed

lemma run_command_returns:
  assumes good: "good (dr_agent d)" and sized: "submit_sized co (JObj req)"
  shows "\<exists>r d'. run_command co env c d req_id req = Some (r, d') \<and> calm d d' \<and> fair_answer req_id r"
proof (cases c)
  case Cmd_submit
  show ?thesis
  proof (cases "submit_args co req")
    case (Inl e)
    then show ?thesis
      using Cmd_submit submit_args_errors [OF Inl] by (simp add: run_command_def cmd_submit_def fair_answer_def)
  next
    case (Inr x)
    obtain t payload fl corr where x: "x = (t, payload, fl, corr)" by (metis prod.exhaust)
    have "length payload < 2 ^ 32" using sized Inr x by (simp add: submit_sized_def)
    then obtain r b where "submit_on_loop env (dr_agent d) t payload fl corr = Some (r, b)"
        "steady (dr_agent d) b"
      using submit_returns [OF good] by blast
    then show ?thesis
      using Cmd_submit Inr x
      by (auto simp: run_command_def cmd_submit_def steady_calm fair_answer_def split: sum.split)
  qed
next
  case Cmd_register_type
  have "calm d (d\<lparr>dr_agent := b\<rparr>)" if "AHC_register_type env (dr_agent d) name t = (r, b)" for name t r b
    using steady_register [of "dr_agent d" env name t] that by (simp add: steady_calm)
  then show ?thesis
    using Cmd_register_type
    by (auto simp: run_command_def cmd_register_type_def fair_answer_def rbind_def
        dest: to_int_errors req_item_errors split: sum.splits prod.splits)
next
  case Cmd_disconnect
  have "calm d (d\<lparr>dr_agent := close_transport (dr_agent d)\<rparr>)" using steady_close by (rule steady_calm)
  then show ?thesis
    using Cmd_disconnect by (simp add: run_command_def cmd_disconnect_def calm_def fair_answer_def)
next
  case Cmd_subscribe
  then show ?thesis
    using calm_subscription [of co True insert d req_id req] by (simp add: run_command_def cmd_subscribe_def)
next
  case Cmd_unsubscribe
  then show ?thesis
    using calm_subscription [of co False "\<lambda>i ids. ids - {i}" d req_id req] by (simp add: run_command_def cmd_unsubscribe_def)
next
  case Cmd_recent_events
  then show ?thesis
    by (cases "to_int co (req_get req ''count'' (JInt 64))")
      (auto simp: run_command_def cmd_recent_events_def fair_answer_def dest: to_int_errors)
qed (simp_all add: run_command_def cmd_connect_def cmd_query_state_def cmd_shutdown_def calm_def good_def
      agent_ok_def fair_answer_def)

lemma dispatch_ipc_returns:
  assumes "good (dr_agent d)" and "submit_sized co req"
  shows "\<exists>r d'. dispatch_ipc co env d req = Some (r, d') \<and> calm d d' \<and>
           (case req of
              JObj kvs \<Rightarrow> (case r of Inl e \<Rightarrow> e = OverflowErr | Inr resp \<Rightarrow> response_id resp = req_get kvs ''id'' JNull)
            | _ \<Rightarrow> r = Inl AttributeErr \<and> d' = d)"
proof (cases req)
  case (JObj kvs)
  let ?id = "req_get kvs ''id'' JNull"
  show ?thesis
  proof (cases "map_of IPC_COMMANDS (str_of co (req_get kvs ''cmd'' (JStr [])))")
    case None
    then show ?thesis using JObj by (simp add: dispatch_ipc_def)
  next
    case (Some c)
    obtain r d' where "run_command co env c d ?id kvs = Some (r, d')" "calm d d'" "fair_answer ?id r"
      using run_command_returns [OF assms(1), of co kvs env c ?id] assms(2) JObj by blast
    then show ?thesis
      using JObj Some by (cases r) (auto simp: dispatch_ipc_def fair_answer_def answered_def)
  qed
qed (simp_all add: dispatch_ipc_def)

subsection \<open>Runs\<close>

datatype driver_op =
    DStart
  | DWake
  | DConnectOk
  | DConnectFail
  | DLost
  | DStop
  | DData bytes
  | DResume
  | DTick
  | DProbe
  | DSubmit int bytes int int
  | DRegister bytes int
  | DBegin
  | DSeal int
  | DRetire
  | DView
  | DIpc json

fun enabled :: "'e driver \<Rightarrow> driver_op \<Rightarrow> bool" where
  "enabled d DStart = (dr_phase d = Unstarted)"
| "enabled d DWake = (case dr_phase d of Idle \<Rightarrow> True | Waiting _ \<Rightarrow> True | _ \<Rightarrow> False)"
| "enabled d DConnectOk = (dr_phase d = Connecting)"
| "enabled d DConnectFail = (dr_phase d = Connecting)"
| "enabled d DLost = attached (dr_phase d)"
| "enabled d (DData _) = attached (dr_phase d)"
| "enabled d DResume = attached (dr_phase d)"
| "enabled d DTick = (dr_phase d = Pumping)"
| "enabled d DProbe = (dr_phase d = Pumping)"
| "enabled d _ = (dr_phase d \<noteq> Stopped)"

fun driver_op_ok :: "control_env \<Rightarrow> driver_op \<Rightarrow> bool" where
  "driver_op_ok co (DSubmit _ payload _ _) = (length payload < 2 ^ 32)"
| "driver_op_ok co (DIpc req) = submit_sized co req"
| "driver_op_ok co _ = True"

fun driver_step ::
    "control_env \<Rightarrow> agent_env \<Rightarrow> 'e driver \<Rightarrow> driver_op \<Rightarrow> 'e driver option" where
  "driver_step co env d DStart = Some (agent_start d)"
| "driver_step co env d DWake = Some (loop_top d)"
| "driver_step co env d DConnectOk = connect_ok env d"
| "driver_step co env d DConnectFail = Some (connect_failed env d)"
| "driver_step co env d DLost = Some (on_connection_lost env d)"
| "driver_step co env d DStop = Some (agent_stop env d)"
| "driver_step co env d (DData data) =
     map_option (\<lambda>a. d\<lparr>dr_agent := a\<rparr>) (data_received env (dr_agent d) data)"
| "driver_step co env d DResume =
     map_option (\<lambda>a. d\<lparr>dr_agent := a\<rparr>) (on_write_resumed env (dr_agent d))"
| "driver_step co env d DTick =
     map_option (\<lambda>(_, a). d\<lparr>dr_agent := a\<rparr>) (tick_engine env (dr_agent d))"
| "driver_step co env d DProbe =
     map_option (\<lambda>a. d\<lparr>dr_agent := a\<rparr>) (probe_stalled_outbound env (dr_agent d))"
| "driver_step co env d (DSubmit t payload fl corr) =
     map_option (\<lambda>(_, a). d\<lparr>dr_agent := a\<rparr>) (submit_on_loop env (dr_agent d) t payload fl corr)"
| "driver_step co env d (DRegister name t) =
     Some (d\<lparr>dr_agent := snd (AHC_register_type env (dr_agent d) name t)\<rparr>)"
| "driver_step co env d DBegin = Some (d\<lparr>dr_agent := begin_view_window env (dr_agent d)\<rparr>)"
| "driver_step co env d (DSeal t) = Some (d\<lparr>dr_agent := seal_view_window (dr_agent d) t\<rparr>)"
| "driver_step co env d DRetire = Some (d\<lparr>dr_agent := retire_view_window (dr_agent d)\<rparr>)"
| "driver_step co env d DView = Some (d\<lparr>dr_agent := snd (view_window env (dr_agent d))\<rparr>)"
| "driver_step co env d (DIpc req) = map_option snd (dispatch_ipc co env d req)"

definition fresh_driver :: "'e agent \<Rightarrow> bool \<Rightarrow> bool \<Rightarrow> 'e driver" where
  "fresh_driver a auto_connect reconnect_enabled =
     \<lparr>dr_agent = a, dr_auto_connect = auto_connect, dr_reconnect_enabled = reconnect_enabled,
      dr_connected = False, dr_phase = Unstarted\<rparr>"

inductive driver_reach :: "control_env \<Rightarrow> 'e driver \<Rightarrow> bool" for co where
  create: "AgenticHeadlessClient env args extractor message_types steps = Inr a \<Longrightarrow>
     KITH_PROTO_HDR_SIZE + nat (aa_max_payload args) < 2 ^ 32 \<Longrightarrow> length steps < 2 ^ 32 \<Longrightarrow>
     driver_reach co (fresh_driver a auto_connect reconnect_enabled)"
| step: "driver_reach co d \<Longrightarrow> enabled d op \<Longrightarrow> driver_op_ok co op \<Longrightarrow>
     driver_step co env d op = Some d' \<Longrightarrow> driver_reach co d'"

lemma configure_agent:
  assumes "agent_ok a" and "configure_bootstrap env a steps = (Inr (), b)" and "length steps < 2 ^ 32"
  shows "agent_ok b" and "ag_draining b = ag_draining a" and "ag_transport b = ag_transport a"
    and "cl_connected (ag_engine b) = cl_connected (ag_engine a)"
proof -
  let ?c = "map (\<lambda>s. \<lparr>st_await_type_id = word_of_int (as_await_type_id s),
                  st_on_enter = map_option make_enter (as_on_enter s),
                  st_on_reply = map_option make_reply (as_on_reply s)\<rparr>) steps"
  have b: "b = a\<lparr>ag_engine := (ag_engine a)\<lparr>cl_bootstrap :=
      \<lparr>bo_steps = ?c, bo_current_step = 0, bo_state = BOOTSTRAP_IDLE, bo_configured = True\<rparr>\<rparr>\<rparr>"
    using assms(2) by (auto simp: configure_bootstrap_def kith_client_configure_bootstrap_def
        client_bootstrap_configure_def agent_check_def Let_def split: if_splits)
  have "list_all enter_ok ?c"
    by (auto simp: list_all_iff enter_ok_def make_enter_def split: option.split)
  then have "steps_ok ?c" using assms(3) by (simp add: steps_ok_def)
  with assms(1) show "agent_ok b"
    unfolding b by (simp add: agent_ok_def outbound_inv_def queue_inv_def)
  show "ag_draining b = ag_draining a" "ag_transport b = ag_transport a"
    "cl_connected (ag_engine b) = cl_connected (ag_engine a)"
    unfolding b by simp_all
qed

lemma register_all_steady: "register_all env a types = Inr b \<Longrightarrow> steady a b"
proof (induction types arbitrary: a)
  case (Cons x types)
  obtain name t where x: "x = (name, t)" by (cases x)
  obtain a' where "AHC_register_type env a name t = (Inr (), a')" "register_all env a' types = Inr b"
    using Cons.prems x by (auto simp: register_all_def rbind_def split: prod.splits sum.splits)
  then show ?case
    using Cons.IH [of a'] steady_register [of a env name t] by (auto intro: steady_trans)
qed (simp add: register_all_def)

lemma client_created:
  assumes new: "AgenticHeadlessClient env args extractor message_types steps = Inr a"
    and small: "KITH_PROTO_HDR_SIZE + nat (aa_max_payload args) < 2 ^ 32" and len: "length steps < 2 ^ 32"
  shows "driver_inv (fresh_driver a auto_connect reconnect_enabled)"
proof -
  obtain a0 a1 where a0: "AHC_init (ae_call env) args extractor = Inr a0"
      and a1: "register_all env a0 message_types = Inr a1"
      and a: "a = a1 \<or> configure_bootstrap env a1 steps = (Inr (), a)"
    using new by (auto simp: AgenticHeadlessClient_def rbind_def
        split: sum.splits prod.splits if_splits)
  have ok0: "agent_ok a0" "ag_transport a0 = None" using init_agent_ok [OF a0 small] by simp_all
  obtain c where c: "a0 = agent_of args extractor c" "\<not> cl_connected c"
    using a0 by (auto simp: AHC_init_def rbind_def agent_check_def kith_client_create_def
        fresh_client_def client_params_validate_def split: if_splits sum.splits)
  then have "good a0" "\<not> cl_connected (ag_engine a0)"
    using ok0 by (simp_all add: good_def agent_of_def Let_def)
  then have "good a1" "\<not> cl_connected (ag_engine a1)" "ag_transport a1 = None"
    using register_all_steady [OF a1] ok0 by (simp_all add: steady_def)
  then have "good a" "\<not> cl_connected (ag_engine a)" "ag_transport a = None"
    using a configure_agent [of a1 env steps a] len by (auto simp: good_def)
  then show ?thesis by (simp add: fresh_driver_def driver_inv_def attached_def)
qed

lemma inv_good: "driver_inv d \<Longrightarrow> dr_phase d \<noteq> Stopped \<Longrightarrow> good (dr_agent d)"
  by (simp add: driver_inv_def)

lemma inv_agent_op:
  "driver_inv d \<Longrightarrow> steady (dr_agent d) b \<Longrightarrow> driver_inv (d\<lparr>dr_agent := b\<rparr>)"
  by (rule calm_inv [OF steady_calm])

lemma enabled_not_stopped: "enabled d op \<Longrightarrow> dr_phase d \<noteq> Stopped"
  by (cases op) (auto simp: attached_def split: phase.splits)

lemma driver_step_returns:
  assumes inv: "driver_inv d" and en: "enabled d op" and ok: "driver_op_ok co op"
  shows "\<exists>d'. driver_step co env d op = Some d' \<and> driver_inv d'"
proof -
  have g: "good (dr_agent d)" using inv en by (auto intro: inv_good dest: enabled_not_stopped)
  show ?thesis
  proof (cases op)
    case DStart
    then have "dr_phase d = Unstarted" using en by simp
    then have "driver_inv (loop_top (d\<lparr>dr_agent := (dr_agent d)\<lparr>ag_running := True\<rparr>\<rparr>))"
      using inv by (intro inv_loop_top) (simp_all add: driver_inv_def attached_def)
    then show ?thesis using DStart inv by (simp add: agent_start_def)
  next
    case DWake
    then show ?thesis
      using inv en by (auto simp: attached_def intro!: inv_loop_top split: phase.splits)
  next
    case DConnectOk
    then show ?thesis using inv_connect_ok [OF inv] en by (metis enabled.simps(3) driver_step.simps(3))
  next
    case DConnectFail
    then show ?thesis using inv_connect_failed [OF inv] en by simp
  next
    case DLost
    then show ?thesis using inv_pump_ended [OF inv] inv by (simp add: on_connection_lost_def)
  next
    case DStop
    then show ?thesis by (simp add: agent_stop_def Let_def driver_inv_def)
  next
    case (DData data)
    obtain b where "data_received env (dr_agent d) data = Some b" "steady (dr_agent d) b"
      using g by (rule data_received_returns)
    then show ?thesis using DData inv_agent_op [OF inv] by simp
  next
    case DResume
    obtain b where "request_flush env (dr_agent d) = Some (Inr (), b)" "steady (dr_agent d) b"
      using g by (rule request_flush_good)
    then show ?thesis using DResume inv_agent_op [OF inv] by (simp add: on_write_resumed_def)
  next
    case DTick
    obtain b where "tick_engine env (dr_agent d) = Some (Inr (), b)" "steady (dr_agent d) b"
      using g by (rule tick_engine_returns)
    then show ?thesis using DTick inv_agent_op [OF inv] by simp
  next
    case DProbe
    obtain b where "probe_stalled_outbound env (dr_agent d) = Some b" "steady (dr_agent d) b"
      using g by (rule probe_returns)
    then show ?thesis using DProbe inv_agent_op [OF inv] by simp
  next
    case (DSubmit t payload fl corr)
    then obtain r b where "submit_on_loop env (dr_agent d) t payload fl corr = Some (r, b)"
        "steady (dr_agent d) b"
      using submit_returns [OF g, of payload] ok by (metis driver_op_ok.simps(1))
    then show ?thesis using DSubmit inv_agent_op [OF inv] by simp
  next
    case (DIpc req)
    then show ?thesis
      using dispatch_ipc_returns [OF g, of co req env] ok calm_inv [OF _ inv] by fastforce
  qed (use inv in \<open>auto intro: inv_agent_op steady_simple steady_register\<close>)
qed

lemma driver_reach_inv: "driver_reach co d \<Longrightarrow> driver_inv d"
proof (induction rule: driver_reach.induct)
  case (create env args extractor message_types steps a auto_connect reconnect_enabled)
  then show ?case by (rule client_created)
next
  case (step d op env d')
  then show ?case using driver_step_returns [of d op co env] by auto
qed

end
