(* ===== verification/AgentProps.thy ===== *)
theory AgentProps
  imports AgentRuns
begin

text \<open>
  Properties of the running headless client: runs return and keep driver, transport and engine in
  agreement; what happens to commands submitted before a connection, to the attempt limit and to a
  silent peer; the control surface.
\<close>


definition demo_control :: control_env where
  "demo_control = \<lparr>co_str = (\<lambda>_. []), co_float_int = (\<lambda>_. None), co_float_true = (\<lambda>_. True),
                   co_digit = (\<lambda>_. None)\<rparr>"

lemma demo_created: "AgenticHeadlessClient demo_agent_env demo_args None [] [] = Inr demo_idle"
  using demo_init by (simp add: AgenticHeadlessClient_def register_all_def demo_agent_env_def)

lemma demo_reach: "driver_reach demo_control (fresh_driver demo_idle True True)"
  by (rule driver_reach.create [OF demo_created]) (simp_all add: demo_args_def proto_sizes)


subsection \<open>Commands submitted before the connection\<close>

lemma connect_ok_pipeline:
  assumes inv: "driver_inv d" and ph: "dr_phase d = Connecting" and mem: "memory_ok (ae_call env)"
    and run: "ag_running (dr_agent d)"
    and enters: "\<And>s ss. bo_steps (cl_bootstrap (ag_engine (dr_agent d))) = s # ss \<Longrightarrow>
                    step_enters (cl_proto (ag_engine (dr_agent d))) s"
  obtains d' where "connect_ok env d = Some d'" and "dr_phase d' = Pumping"
    and "pipeline (dr_agent d') = connect_frames (ag_engine (dr_agent d))"
proof -
  let ?a = "(dr_agent d)\<lparr>ag_transport := Some \<lparr>tr_closing = False, tr_written = []\<rparr>,
                        ag_outbound_empty := False\<rparr>"
  have g: "good (dr_agent d)" using inv ph by (simp add: driver_inv_def)
  obtain now a1 where now: "now_ms env ?a = (now, a1)" by fastforce
  note f = now_ms_fields [OF now]
  have out: "outbound_inv (ag_engine a1)" using good_outbound [OF g] f(1) by simp
  have en: "step_enters (cl_proto (ag_engine a1)) (hd (bo_steps (cl_bootstrap (ag_engine a1))))"
    if "bo_steps (cl_bootstrap (ag_engine a1)) \<noteq> []"
    using that enters f(1) by (cases "bo_steps (cl_bootstrap (ag_engine a1))") simp_all
  obtain c where on: "kith_client_on_connected (ae_call env) (ag_engine a1) now = (Inr (), c)"
      and c: "client_frames c = connect_frames (ag_engine a1)"
    using on_connected_frames [OF out mem en, of now] by (metis prod.collapse)
  let ?b = "arm_connection (a1\<lparr>ag_engine := c, ag_outbound_empty := False\<rparr>)"
  have arm: "ag_engine ?b = c" "ag_transport ?b = Some \<lparr>tr_closing = False, tr_written = []\<rparr>"
      "ag_running ?b" "\<not> ag_draining ?b"
    using f(2,4) run g now
    by (auto simp: arm_connection_def good_def now_ms_def monotonic_ns_def Let_def)
  have "good (a1\<lparr>ag_engine := c\<rparr>)"
    using on connected_kept [of "ae_call env" "ag_engine a1" now] out g f
      outbound.kept [of "ag_engine a1" "OpConnected now" "ae_call env"]
    by (intro good_engine) (simp_all add: engine_op_ok_def)
  then have "good ?b"
    using steady_simple(4) [of "a1\<lparr>ag_engine := c, ag_outbound_empty := False\<rparr>"] by (simp add: steady_def)
  then obtain e where e: "request_flush env ?b = Some (Inr (), e)" "pipeline e = pipeline ?b"
    using request_flush_open [of ?b env] arm by (auto simp: good_def can_write_def)
  have "pipeline ?b = connect_frames (ag_engine (dr_agent d))"
    using arm c f(1) by (simp add: pipeline_def written_def)
  moreover have "connect_ok env d = Some (d\<lparr>dr_agent := e, dr_connected := True, dr_phase := Pumping\<rparr>)"
    unfolding connect_ok_def Let_def now prod.case on by (simp add: agent_check_def e(1))
  ultimately show thesis
    using e(2) that [of "d\<lparr>dr_agent := e, dr_connected := True, dr_phase := Pumping\<rparr>"] by simp
qed

text \<open>
  C32: A command accepted before the transport attaches is never sent. While the driver is connecting,
  a submission that succeeds returns its command id and leaves its frame on the queue; when the
  connection is made the engine clears the queue, and all that is written or queued is what the
  first bootstrap step asks for. The submission's documentation says that such commands drain once
  the transport attaches.
\<close>

theorem early_submission_lost:
  assumes inv: "driver_inv d" and ph: "dr_phase d = Connecting" and run: "ag_running (dr_agent d)"
    and len: "length payload < 2 ^ 32" and mem: "memory_ok (ae_call env)"
    and fits: "frame_fits (cl_proto (ag_engine (dr_agent d))) (word_of_int (flags AND 0xFF)) payload"
    and room: "has_room (ag_engine (dr_agent d))"
    and enters: "\<forall>s ss. bo_steps (cl_bootstrap (ag_engine (dr_agent d))) = s # ss \<longrightarrow>
                   step_enters (cl_proto (ag_engine (dr_agent d))) s"
  shows "\<exists>a' d'. submit_on_loop env (dr_agent d) type_id payload flags corr =
                   Some (Inr (uint (cl_next_cmd_id (ag_engine (dr_agent d)))), a') \<and>
           client_frames (ag_engine a') = client_frames (ag_engine (dr_agent d)) @
             [frame_bytes (word_of_int (type_id AND 0xFFFF)) (word_of_int (flags AND 0xFF))
                (word_of_int (corr AND 0xFFFFFFFFFFFFFFFF)) payload] \<and>
           connect_ok env (d\<lparr>dr_agent := a'\<rparr>) = Some d' \<and> dr_phase d' = Pumping \<and>
           pipeline (dr_agent d') = connect_frames (ag_engine (dr_agent d))"
proof -
  let ?a = "dr_agent d"
  let ?cmd = "\<lparr>cm_type_id = word_of_int (type_id AND 0xFFFF), cm_flags = word_of_int (flags AND 0xFF),
      cm_correlation_id = word_of_int (corr AND 0xFFFFFFFFFFFFFFFF),
      cm_payload = Some payload, cm_payload_len = of_nat (length payload)\<rparr>"
  have g: "good ?a" "ag_transport ?a = None" using inv ph by (auto simp: driver_inv_def attached_def)
  have out: "outbound_inv (ag_engine ?a)" using g(1) by (rule good_outbound)
  have p: "points_to (cm_payload ?cmd) (cm_payload_len ?cmd) payload"
    using len by (simp add: points_to_def unat_of_nat_32)
  obtain c where c: "kith_client_submit_interactive (ae_call env) (ag_engine ?a) ?cmd =
        (Inr (cl_next_cmd_id (ag_engine ?a)), c)"
      "client_frames c = client_frames (ag_engine ?a) @
         [frame_bytes (cm_type_id ?cmd) (cm_flags ?cmd) (cm_correlation_id ?cmd) payload]"
    using submit_engine_cases [OF out p, of "ae_call env"] fits mem room by auto
  let ?a' = "?a\<lparr>ag_engine := c, ag_outbound_empty := False\<rparr>"
  have flush: "request_flush env ?a' = Some (Inr (), ?a')"
    using g(2) request_flush_closed [of ?a' env] by (simp add: can_write_def)
  then have sub: "submit_on_loop env ?a type_id payload flags corr =
      Some (Inr (uint (cl_next_cmd_id (ag_engine ?a))), ?a')"
    unfolding submit_on_loop_def Let_def c(1) prod.case by (simp add: agent_check_def)
  have "steady ?a (?a\<lparr>ag_engine := c\<rparr>)"
    using outbound_inv_submit [OF out p, of "ae_call env"] submit_kept [of "ag_engine ?a" "ae_call env" ?cmd] c(1)
    by (intro steady_engine) simp_all
  then have "driver_inv (d\<lparr>dr_agent := ?a'\<rparr>)"
    using inv_agent_op [OF inv, of ?a'] steady_simple(11) steady_trans by blast
  moreover have c2: "bo_steps (cl_bootstrap c) = bo_steps (cl_bootstrap (ag_engine ?a))"
    using c(1) enqueue_shape [of "ae_call env" "ag_engine ?a" "cm_type_id ?cmd" "cm_flags ?cmd"
        "cm_correlation_id ?cmd" "cm_payload ?cmd" "cm_payload_len ?cmd"]
    by (auto simp: kith_client_submit_interactive_def split: prod.splits sum.splits)
  moreover have "cl_proto c = cl_proto (ag_engine ?a)"
    using submit_kept [of "ag_engine ?a" "ae_call env" ?cmd] c(1) by (simp add: engine_kept_def)
  ultimately obtain d' where "connect_ok env (d\<lparr>dr_agent := ?a'\<rparr>) = Some d'" "dr_phase d' = Pumping"
      "pipeline (dr_agent d') = connect_frames c"
    using connect_ok_pipeline [of "d\<lparr>dr_agent := ?a'\<rparr>" env] ph mem run enters by auto
  then show ?thesis using sub c(2) c2 by (auto simp: connect_frames_def)
qed

definition demo_connecting :: "unit driver" where
  "demo_connecting = agent_start (fresh_driver demo_idle True True)"

lemma demo_connecting_inv: "driver_inv demo_connecting"
proof -
  have "driver_reach demo_control demo_connecting"
    by (rule driver_reach.step [OF demo_reach, where op = DStart])
      (simp_all add: fresh_driver_def demo_connecting_def)
  then show ?thesis by (rule driver_reach_inv)
qed

lemma demo_connecting_fields:
  "dr_phase demo_connecting = Connecting" "dr_agent demo_connecting = demo_idle\<lparr>ag_running := True\<rparr>"
  "dr_reconnect_enabled demo_connecting" "dr_auto_connect demo_connecting"
  by (simp_all add: demo_connecting_def agent_start_def fresh_driver_def loop_top_def demo_idle_def
      agent_of_def Let_def)

theorem early_submission_lost_witness:
  "\<exists>a' d'. submit_on_loop demo_agent_env (dr_agent demo_connecting) 7 [1, 2, 3] 0 0 = Some (Inr 1, a') \<and>
     client_frames (ag_engine a') = [frame_bytes 7 0 0 [1, 2, 3]] \<and>
     connect_ok demo_agent_env (demo_connecting\<lparr>dr_agent := a'\<rparr>) = Some d' \<and>
     dr_phase d' = Pumping \<and> pipeline (dr_agent d') = []"
proof -
  let ?c = "ag_engine (dr_agent demo_connecting)"
  have c: "?c = ag_engine demo_idle" by (simp add: demo_connecting_fields)
  have e: "frame_fits (cl_proto ?c) 0 [1, 2, 3]" "cl_next_cmd_id ?c = 1" "has_room ?c"
      "client_frames ?c = []" "bo_steps (cl_bootstrap ?c) = []"
    unfolding c
    by (simp_all add: demo_idle_def agent_of_def Let_def fresh_client_def frame_fits_def
        trailer_len_of_def has_room_def client_frames_def outq_frames_def outq_slots_def
        client_resolve_defaults_def create_client_params_def demo_args_def or_default_def)
  have m: "memory_ok (ae_call demo_agent_env)"
    by (simp add: memory_ok_def demo_agent_env_def engine_env_def)
  show ?thesis
    using early_submission_lost [OF demo_connecting_inv demo_connecting_fields(1) _ _ m,
        of "[1, 2, 3]" 0 7 0] e
    by (simp add: demo_connecting_fields connect_frames_def)
qed

subsection \<open>The attempt limit\<close>

text \<open>One refused attempt and the end of the wait after it.\<close>

definition retry :: "agent_env \<Rightarrow> 'e driver \<Rightarrow> 'e driver" where
  "retry env d = loop_top (connect_failed env d)"

definition retrying :: "'e driver \<Rightarrow> bool" where
  "retrying d \<longleftrightarrow>
     dr_phase d = Connecting \<and> dr_reconnect_enabled d \<and> dr_auto_connect d \<and> ag_running (dr_agent d)"

lemma retry_fields:
  assumes "retrying d"
  obtains now where "retrying (retry env d)"
    and "ag_engine (dr_agent (retry env d)) = client_schedule_reconnect (ag_engine (dr_agent d)) now"
    and "ag_engine (dr_agent (connect_failed env d)) = client_schedule_reconnect (ag_engine (dr_agent d)) now"
    and "cl_next_reconnect_due_ms (client_schedule_reconnect (ag_engine (dr_agent d)) now) = 0 \<Longrightarrow>
           dr_phase (connect_failed env d) = Waiting 250"
proof -
  obtain now a1 where now: "now_ms env (dr_agent d) = (now, a1)" by fastforce
  show thesis
    using assms now_ms_fields [OF now] now
    by (intro that [of now])
      (simp_all add: retrying_def retry_def connect_failed_def reconnect_wait_def loop_top_def Let_def
        monotonic_ns_def kith_client_on_connect_failed_def kith_client_runtime_status_def)
qed

lemma retries_state:
  assumes "retrying d" and "cl_reconnect_attempts (ag_engine (dr_agent d)) = 0"
  defines "m \<equiv> cl_reconnect_max_attempts (ag_engine (dr_agent d))"
  assumes "0 < m"
  shows "retrying ((retry env ^^ n) d) \<and>
         cl_reconnect_max_attempts (ag_engine (dr_agent ((retry env ^^ n) d))) = m \<and>
         cl_reconnect_attempts (ag_engine (dr_agent ((retry env ^^ n) d))) = of_nat (min n (unat m))"
proof (induction n)
  case 0
  then show ?case using assms by simp
next
  case (Suc n)
  let ?d = "(retry env ^^ n) d"
  obtain now where r: "retrying (retry env ?d)"
      "ag_engine (dr_agent (retry env ?d)) = client_schedule_reconnect (ag_engine (dr_agent ?d)) now"
    using retry_fields Suc by blast
  have le: "m \<le> of_nat (min n (unat m)) \<longleftrightarrow> unat m \<le> n"
    using unat_of_nat_32 [of "min n (unat m)"] unat_less_32 [of m]
    by (auto simp: word_le_nat_alt min_def simp del: unat_less_32)
  show ?case
  proof (cases "unat m \<le> n")
    case True
    then have "min n (unat m) = unat m" "min (Suc n) (unat m) = unat m" by simp_all
    then show ?thesis using r Suc assms(4) by (simp add: client_schedule_reconnect_def)
  next
    case False
    then have "min n (unat m) = n" "min (Suc n) (unat m) = Suc n" by simp_all
    then show ?thesis using r Suc False le by (simp add: client_schedule_reconnect_def Let_def add.commute)
  qed
qed

text \<open>
  C33: The attempt limit does not stop the driver. With reconnection enabled and a nonzero limit, every
  refused attempt is followed by another one, however many there are; once the limit is reached the
  engine reports no deadline and the driver waits a fixed 250 ms instead, whatever backoff was
  configured. The engine's header documents the field as the maximum number of attempts.
\<close>

theorem attempt_limit_not_honoured:
  assumes "retrying d" and "cl_reconnect_attempts (ag_engine (dr_agent d)) = 0"
    and "0 < cl_reconnect_max_attempts (ag_engine (dr_agent d))"
  shows "dr_phase ((retry env ^^ n) d) = Connecting \<and>
         (unat (cl_reconnect_max_attempts (ag_engine (dr_agent d))) \<le> n \<longrightarrow>
            dr_phase (connect_failed env ((retry env ^^ n) d)) = Waiting 250)"
proof -
  let ?d = "(retry env ^^ n) d" and ?m = "cl_reconnect_max_attempts (ag_engine (dr_agent d))"
  note st = retries_state [OF assms, where env = env and n = n]
  have "dr_phase (connect_failed env ?d) = Waiting 250" if "unat ?m \<le> n"
  proof -
    have "cl_reconnect_attempts (ag_engine (dr_agent ?d)) = ?m" using st that by (simp add: min_def)
    then have "cl_next_reconnect_due_ms (client_schedule_reconnect (ag_engine (dr_agent ?d)) now) = 0" for now
      using st assms(3) by (simp add: client_schedule_reconnect_def)
    then show ?thesis using retry_fields [of ?d env] st by metis
  qed
  then show ?thesis using st by (simp add: retrying_def)
qed

definition demo_limited :: "unit driver" where
  "demo_limited = demo_connecting\<lparr>dr_agent := (dr_agent demo_connecting)\<lparr>ag_engine :=
     (ag_engine (dr_agent demo_connecting))\<lparr>cl_reconnect_max_attempts := 3\<rparr>\<rparr>\<rparr>"

theorem attempt_limit_not_honoured_witness:
  "dr_phase (connect_failed demo_agent_env ((retry demo_agent_env ^^ 5) demo_limited)) = Waiting 250"
proof -
  have "retrying demo_limited" "cl_reconnect_attempts (ag_engine (dr_agent demo_limited)) = 0"
      "cl_reconnect_max_attempts (ag_engine (dr_agent demo_limited)) = 3"
    by (simp_all add: demo_limited_def demo_connecting_fields retrying_def demo_idle_def agent_of_def
        Let_def fresh_client_def)
  then show ?thesis
    using attempt_limit_not_honoured [of demo_limited, where env = demo_agent_env and n = 5] by simp
qed

subsection \<open>A silent peer\<close>

text \<open>
  A peer that stops answering pings is cut off. When a tick runs while a ping is unanswered and
  the clock has passed its sending time by more than the timeout, the tick returns with the
  transport closing and nothing more is written to it; the driver's pump then ends with the loss.
\<close>

theorem silent_peer_closed:
  assumes g: "good a" and run: "ag_running a" and tr: "ag_transport a = Some t"
    and to: "0 < ag_pong_timeout_ms a" and await: "cl_awaiting_pong (ag_engine a)"
    and sent: "cl_last_ping_sent_ms (ag_engine a) \<noteq> 0"
    and late: "uint (cl_last_ping_sent_ms (ag_engine a)) + ag_pong_timeout_ms a <
                 ae_clock env (Suc (ag_reads a)) div 1000000"
  shows "\<exists>a'. tick_engine env a = Some (Inr (), a') \<and> ag_transport a' = Some (t\<lparr>tr_closing := True\<rparr>)"
proof -
  obtain now where now: "now_ms env a = (now, a\<lparr>ag_reads := Suc (ag_reads a)\<rparr>)"
    by (simp add: now_ms_def monotonic_ns_def Let_def)
  let ?c = "snd (kith_client_tick (ae_call env) (ag_engine a) now)"
  have c: "cl_awaiting_pong ?c" "cl_last_ping_sent_ms ?c = cl_last_ping_sent_ms (ag_engine a)"
    by (rule tick_cases [of "ag_engine a" now "ae_call env"], use await in \<open>simp_all add: ping_due_def\<close>)+
  let ?a2 = "a\<lparr>ag_reads := Suc (ag_reads a), ag_engine := ?c, ag_outbound_empty := False\<rparr>"
  have st: "check_pong_staleness env ?a2 = ?a2\<lparr>ag_reads := Suc (Suc (ag_reads a)),
      ag_transport := Some (t\<lparr>tr_closing := True\<rparr>)\<rparr>"
    using c tr to sent late by (simp add: check_pong_staleness_def Let_def monotonic_ns_def
        kith_client_runtime_status_def)
  then have "request_flush env (check_pong_staleness env ?a2) =
      Some (Inr (), (check_pong_staleness env ?a2)\<lparr>ag_outbound_empty := False\<rparr>)"
    by (intro request_flush_closed) (simp add: can_write_def)
  then show ?thesis
    using run now st by (simp add: tick_engine_def)
qed

definition demo_silent :: "unit agent" where
  "demo_silent = demo_agent\<lparr>ag_pong_timeout_ms := 5,
     ag_engine := (ag_engine demo_agent)\<lparr>cl_awaiting_pong := True, cl_last_ping_sent_ms := 7\<rparr>\<rparr>"

theorem silent_peer_closed_witness:
  "\<exists>a'. tick_engine (demo_agent_env\<lparr>ae_clock := (\<lambda>n. 13000000)\<rparr>) demo_silent = Some (Inr (), a') \<and>
     ag_transport a' = Some \<lparr>tr_closing = True, tr_written = []\<rparr>"
proof -
  have "outbound_inv (ag_engine demo_agent)" using demo_agent_ok by (simp add: agent_ok_def)
  then have "outbound_inv (ag_engine demo_silent)"
    by (rule outbound_inv_frame) (simp_all add: demo_silent_def)
  then have "agent_ok demo_silent"
    using demo_agent_ok by (simp add: agent_ok_def demo_silent_def)
  then have "good demo_silent"
    by (simp add: good_def demo_silent_def demo_agent_def demo_idle_def agent_of_def Let_def)
  moreover have "ag_running demo_silent" "ag_transport demo_silent = Some \<lparr>tr_closing = False, tr_written = []\<rparr>"
    by (simp_all add: demo_silent_def demo_agent_def)
  ultimately show ?thesis
    using silent_peer_closed [of demo_silent "\<lparr>tr_closing = False, tr_written = []\<rparr>"
        "demo_agent_env\<lparr>ae_clock := (\<lambda>n. 13000000)\<rparr>"]
    by (simp add: demo_silent_def)
qed

subsection \<open>The control surface\<close>

lemma dec_val_Cons: "dec_val (c # s) = (of_char c - 48) * 10 ^ length s + dec_val s"
proof (induction s rule: rev_induct)
  case Nil
  then show ?case using dec_val_append [of "[]" c] by (simp add: dec_val_def)
next
  case (snoc x s)
  then show ?case
    using dec_val_append [of "c # s" x] by (simp add: dec_val_append algebra_simps)
qed

lemma dec_val_less: "list_all is_dec_digit s \<Longrightarrow> dec_val s < 10 ^ length s"
proof (induction s)
  case (Cons c s)
  have d: "of_char c - 48 \<le> (9 :: nat)" using Cons.prems by (auto simp: is_dec_digit_def)
  have "(of_char c - 48) * 10 ^ length s \<le> 9 * (10 :: nat) ^ length s" using d by (rule mult_right_mono) simp
  moreover have "dec_val s < 10 ^ length s" using Cons by simp
  ultimately show ?case unfolding dec_val_Cons list.size power_Suc add_0_right add_Suc_right by linarith
qed (simp add: dec_val_def)

lemma py_int_digits:
  assumes d: "list_all is_dec_digit ds" and len: "length ds \<le> 4300"
  shows "py_int nd (pytext ds) = (if ds = [] then None else Some (int (dec_val ds)))"
proof (cases "ds = []")
  case True
  then show ?thesis by (simp add: py_int_def pytext_def py_strip_def split_sign_def)
next
  case False
  let ?t = "pytext ds"
  have dg: "48 \<le> c \<and> c \<le> 57" if "c \<in> set ?t" for c
    using that d by (fastforce simp: pytext_def list_all_iff is_dec_digit_def)
  have ne: "?t \<noteq> []" using False by (simp add: pytext_def)
  have nsp: "\<not> py_isspace c" if "c \<in> set ?t" for c
    using dg [OF that] isspace_bounds [of c] by auto
  have strip: "py_strip ?t = ?t"
    using ne nsp hd_in_set [OF ne] last_in_set [OF ne] by (intro py_strip_id) auto
  obtain c r where c: "?t = c # r" using ne by (cases ?t) auto
  then have "c \<noteq> 45" "c \<noteq> 43" using dg [of c] by auto
  then have sign: "split_sign ?t = (False, ?t)" unfolding c split_sign_def by simp
  have "us_digits (dec_digit_value nd) False ?t = Some (map (\<lambda>c. the (dec_digit_value nd c)) ?t)"
    by (rule us_digits_all) (use dg ne in \<open>fastforce simp: dec_digit_value_def\<close>)+
  also have "map (\<lambda>c. the (dec_digit_value nd c)) ?t = map (\<lambda>c. c - 48) ?t"
    using dg by (intro map_cong) (fastforce simp: dec_digit_value_def)+
  finally show ?thesis
    using False len unfolding py_int_def strip sign Let_def
    by (simp add: digits_nat_pytext signed_int_def) (simp add: pytext_def)
qed

text \<open>
  C34: The event count of the HTTP route loses its first digit. For a request of the last \<open>n\<close> events,
  written in decimal, the route reads the number from one character too far: with a single digit it
  raises a \<open>ValueError\<close> that the peer handler does not catch, so the connection closes without a
  response; with more digits it answers for \<open>n\<close> without its leading digit.
\<close>

theorem events_count_loses_a_digit:
  assumes "length (dec_digits n) \<le> 4300"
  shows "http_route co env d (pytext ''GET'') (pytext (''/events?count='' @ dec_digits n)) body =
           Some (if n < 10 then Inl ValueErr
                 else Inr (Events (recent_events (dr_agent d) (int (n mod 10 ^ (length (dec_digits n) - 1))))), d)"
proof -
  let ?ds = "dec_digits n" and ?p = "pytext (''/events?count='' @ dec_digits n)"
  have dig: "list_all is_dec_digit ?ds" by (rule dec_digits_are_digits)
  have ge: "48 \<le> c \<and> c \<le> 57" if "c \<in> set (pytext ?ds)" for c
    using that dig by (fastforce simp: pytext_def list_all_iff is_dec_digit_def)
  have path: "?p = map of_char ''/events?count='' @ pytext ?ds" by (simp add: pytext_def)
  have q: "query_string ?p = pytext ''count='' @ pytext ?ds"
    by (simp add: query_string_def path pytext_def of_char_of)
  have "38 \<notin> set (pytext ''count='' @ pytext ?ds)"
    using ge [of 38] by (auto simp: pytext_def [of "''count=''"] of_char_of)
  then have sp: "split_amp (query_string ?p) = [pytext ''count='' @ pytext ?ds]"
    unfolding q by (subst split_amp.simps) simp
  obtain c s where cs: "?ds = c # s" by (cases ?ds) (simp_all add: dec_digits_nonempty)
  have dr: "drop 7 (pytext ''count='' @ pytext ?ds) = pytext s"
    by (simp add: cs pytext_def)
  have pre: "py_startswith (pytext ''count='' @ pytext ?ds) (pytext ''count='')"
    by (simp add: py_startswith_def pytext_def)
  have "py_int (co_digit co) (pytext s) = (if s = [] then None else Some (int (dec_val s)))"
    using py_int_digits [of s "co_digit co"] dig assms cs by simp
  moreover have "dec_val s = n mod 10 ^ length s"
    using dec_val_dec_digits [of n] dec_val_less [of s] dig
    by (simp add: cs dec_val_Cons) (metis mod_less mod_mult_self3)
  moreover have "s = [] \<longleftrightarrow> n < 10"
    using cs by (cases "n < 10") (auto simp: dec_digits.simps [of n] split: if_splits)
  ultimately have "events_count co (split_amp (query_string ?p)) 64 =
      (if n < 10 then Inl ValueErr else Inr (int (n mod 10 ^ (length ?ds - 1))))"
    unfolding sp events_count.simps dr using pre by (simp add: int_of_text_def rbind_def cs)
  then show ?thesis
    by (simp add: http_route_def py_startswith_def rbind_def) (simp add: path pytext_def of_char_of)
qed

theorem events_count_loses_a_digit_witness:
  "http_route demo_control demo_agent_env demo_connecting (pytext ''GET'')
      (pytext (''/events?count='' @ dec_digits 64)) [] =
     Some (Inr (Events (recent_events (dr_agent demo_connecting) 4)), demo_connecting)"
proof -
  have d: "length (dec_digits 64) = 2" by (simp add: dec_digits.simps)
  show ?thesis
    using events_count_loses_a_digit [of 64 demo_control demo_agent_env demo_connecting "[]"]
    by (simp add: d)
qed

text \<open>
  C22: Every JSON object on the control socket is answered with its own id. On a live client a request
  object gets exactly one response, which carries the request's id (null when it has none), whatever
  fields are missing or ill-typed; the one exception that escapes is the overflow of an infinite
  float where an integer is expected. A request that is not an object raises out of the dispatcher
  and leaves the client unchanged. Either way the client's invariant is kept.
\<close>

theorem ipc_objects_answered:
  assumes "driver_inv d" and "dr_phase d \<noteq> Stopped" and "submit_sized co req"
  shows "\<exists>r d'. dispatch_ipc co env d req = Some (r, d') \<and> driver_inv d' \<and>
           (case req of
              JObj kvs \<Rightarrow>
                (case r of Inl e \<Rightarrow> e = OverflowErr | Inr resp \<Rightarrow> response_id resp = req_get kvs ''id'' JNull)
            | _ \<Rightarrow> r = Inl AttributeErr \<and> d' = d)"
  using dispatch_ipc_returns [OF inv_good [OF assms(1,2)] assms(3), of env] calm_inv [OF _ assms(1)] by blast

theorem ipc_objects_answered_witness:
  "\<exists>r d'. dispatch_ipc demo_control demo_agent_env demo_connecting
      (JObj [(pytext ''id'', JInt 3), (pytext ''cmd'', JStr (pytext ''submit''))]) = Some (Inr r, d') \<and>
     response_id r = JInt 3"
proof -
  let ?req = "[(pytext ''id'', JInt 3), (pytext ''cmd'', JStr (pytext ''submit''))]"
  have sized: "submit_sized demo_control (JObj ?req)"
    by (simp add: submit_sized_def submit_args_def req_item_def rbind_def pytext_def)
  obtain r d' where r: "dispatch_ipc demo_control demo_agent_env demo_connecting (JObj ?req) = Some (r, d')"
      "case r of Inl e \<Rightarrow> e = OverflowErr | Inr resp \<Rightarrow> response_id resp = req_get ?req ''id'' JNull"
    using ipc_objects_answered [OF demo_connecting_inv _ sized, of demo_agent_env] demo_connecting_fields(1)
    by auto
  have "r = Inr (AckError (JInt 3) KeyErr)"
    using r(1) by (auto simp: dispatch_ipc_def IPC_COMMANDS_def req_get_def str_of_def run_command_def
        cmd_submit_def submit_args_def req_item_def rbind_def answered_def pytext_def)
  then show ?thesis using r by simp
qed

text \<open>A cut of the stream after each of whose chunks the peer goes on reading.\<close>

fun survives :: "control_env \<Rightarrow> agent_env \<Rightarrow> 'e driver \<Rightarrow> bytes \<Rightarrow> bytes list \<Rightarrow> bool" where
  "survives co env d buf [] = True"
| "survives co env d buf (c # cs) =
     (ag_running (dr_agent d) \<and> c \<noteq> [] \<and>
      (case ipc_buffer co env d (buf @ c) of
         Some (None, out, buf', d') \<Rightarrow> survives co env d' buf' cs | _ \<Rightarrow> False))"

lemma take_line_append: "take_line buf = Some (l, r) \<Longrightarrow> take_line (buf @ x) = Some (l, r @ x)"
proof -
  assume a: "take_line buf = Some (l, r)"
  then have m: "10 \<in> set buf" by (simp add: take_line_def split: if_splits)
  then have "dropWhile (\<lambda>b. b \<noteq> 10) buf \<noteq> []" by (auto simp: dropWhile_eq_Nil_conv)
  then show ?thesis
    using a m by (auto simp: take_line_def takeWhile_append1 [of 10] dropWhile_append1 [of 10])
qed

lemma ipc_buffer_rest:
  "ipc_buffer co env d buf = Some (None, out, buf', d') \<Longrightarrow> 10 \<notin> set buf'"
proof (induction co env d buf arbitrary: out rule: ipc_buffer.induct)
  case (1 co env d buf)
  show ?case
  proof (cases "take_line buf")
    case None
    then show ?thesis
      using 1(2) by (auto simp: ipc_buffer.simps [of co env d buf] take_line_def split: if_splits)
  next
    case (Some lr)
    obtain l r where lr: "lr = (l, r)" by (cases lr)
    then obtain resp d1 where "ipc_line co env d l = Some (Inr resp, d1)"
        "\<exists>out1. ipc_buffer co env d1 r = Some (None, out1, buf', d')"
      using 1(2) Some
      by (auto simp: ipc_buffer.simps [of co env d buf] split: option.splits prod.splits sum.splits)
    then show ?thesis using 1(1) [OF Some lr [symmetric] _ refl refl] by blast
  qed
qed

lemma ipc_buffer_append:
  "ipc_buffer co env d buf = Some (None, out, buf', d') \<Longrightarrow>
     ipc_buffer co env d (buf @ x) =
       map_option (\<lambda>(e, out2, b, d2). (e, out @ out2, b, d2)) (ipc_buffer co env d' (buf' @ x))"
proof (induction co env d buf arbitrary: out rule: ipc_buffer.induct)
  case (1 co env d buf)
  show ?case
  proof (cases "take_line buf")
    case None
    then have "out = []" "buf' = buf" "d' = d"
      using 1(2) by (simp_all add: ipc_buffer.simps [of co env d buf])
    then show ?thesis by (simp add: option.map_ident prod.case_eq_if)
  next
    case (Some lr)
    obtain l r where lr: "lr = (l, r)" by (cases lr)
    obtain resp d1 out1 where step: "ipc_line co env d l = Some (Inr resp, d1)"
        "ipc_buffer co env d1 r = Some (None, out1, buf', d')"
        "out = (case resp of None \<Rightarrow> [] | Some a \<Rightarrow> [a]) @ out1"
      using 1(2) Some lr
      by (auto simp: ipc_buffer.simps [of co env d buf] split: option.splits prod.splits sum.splits)
    have "ipc_buffer co env d (buf @ x) =
        map_option (\<lambda>(e, o1, b, d2). (e, (case resp of None \<Rightarrow> [] | Some a \<Rightarrow> [a]) @ o1, b, d2))
          (ipc_buffer co env d1 (r @ x))"
      using take_line_append [OF Some [unfolded lr], of x] step(1)
      by (simp add: ipc_buffer.simps [of co env d "buf @ x"])
    also have "\<dots> = map_option (\<lambda>(e, out2, b, d2). (e, out @ out2, b, d2)) (ipc_buffer co env d' (buf' @ x))"
      using 1(1) [OF Some lr [symmetric] step(1) refl refl step(2)] step(3)
      by (cases "ipc_buffer co env d' (buf' @ x)") auto
    finally show ?thesis .
  qed
qed

lemma peer_is_buffer:
  "survives co env d buf cs \<Longrightarrow> 10 \<notin> set buf \<Longrightarrow>
     ipc_handle_peer co env d buf cs = ipc_buffer co env d (buf @ concat cs)"
proof (induction cs arbitrary: d buf)
  case Nil
  then show ?case by (simp add: ipc_buffer.simps [of co env d buf] take_line_def)
next
  case (Cons c cs)
  obtain out buf' d' where b: "ipc_buffer co env d (buf @ c) = Some (None, out, buf', d')"
      "survives co env d' buf' cs"
    using Cons.prems(1) by (auto split: option.splits)
  then show ?case
    using Cons.IH [OF b(2) ipc_buffer_rest [OF b(1)]] Cons.prems(1) ipc_buffer_append [OF b(1), of "concat cs"]
    by (simp add: append_assoc)
qed



end
